(* ===== verification/Prelude.thy ===== *)
theory Prelude
  imports Complex_Main "HOL-Library.Word"
begin

text \<open>
  Shared vocabulary of the development: the machine-integer types of the Go
  sources, the lemma collections the component theories feed, big-endian byte
  accessors (Go's \<open>encoding/binary.BigEndian\<close>) with their round-trip laws, and
  the generic facts on words and lists that several components use.

  Conventions. A Go \<open>uintN\<close> is an \<open>N word\<close>; \<open>+\<close>, \<open>-\<close> and
  \<open>*\<close> wrap as in Go. A Go \<open>int\<close> or \<open>int64\<close> that holds a length, an index or a
  count of microseconds is an \<open>int\<close> (or a \<open>nat\<close> when it is a length); the
  values the modelled code computes stay far inside the 64-bit range. A
  \<open>[]byte\<close> is a list of bytes.
\<close>

unbundle bit_operations_syntax

type_synonym u8 = "8 word"
type_synonym u16 = "16 word"
type_synonym u32 = "32 word"
type_synonym u64 = "64 word"
type_synonym bytes = "u8 list"

named_theorems word_to_nat \<open>rules that move word arithmetic to naturals\<close>
named_theorems codec_simps \<open>evaluation rules for the byte-level codecs\<close>
named_theorems state_simps \<open>projections of the state-passing operations\<close>

subsection \<open>Go's integer division\<close>

text \<open>Go's \<open>/\<close> on signed integers truncates towards zero.\<close>

definition quot :: "int \<Rightarrow> int \<Rightarrow> int" where
  "quot a b = sgn a * sgn b * (\<bar>a\<bar> div \<bar>b\<bar>)"

lemma quot_nonneg: "0 \<le> a \<Longrightarrow> 0 < b \<Longrightarrow> quot a b = a div b"
  by (cases "a = 0") (simp_all add: quot_def)

subsection \<open>Words as naturals\<close>

lemma unat_lt_u8 [simp]: "unat (x :: u8) < 256"
  using unsigned_less [of x] by simp

lemma unat_lt_u16 [simp]: "unat (x :: u16) < 65536"
  using unsigned_less [of x] by simp

lemma unat_lt_u32 [simp]: "unat (x :: u32) < 4294967296"
  using unsigned_less [of x] by simp

lemma unat_lt_u64 [simp]: "unat (x :: u64) < 18446744073709551616"
  using unsigned_less [of x] by simp

lemma word_eq_add_unat_diff: "(b :: 'a::len word) = a + of_nat (unat (b - a))"
  by simp

text \<open>The forward gap \<open>b - a\<close> splits at any point on the way from \<open>a\<close> to \<open>b\<close>.\<close>

lemma gap_split:
  fixes a b c :: "'a::len word"
  assumes "unat (c - a) \<le> unat (b - a)"
  shows "unat (b - c) = unat (b - a) - unat (c - a)"
proof -
  have eq: "b - c = (b - a) - (c - a)" by simp
  have "c - a \<le> b - a" using assms by (simp add: word_le_nat_alt)
  then show ?thesis unfolding eq by (rule unat_sub)
qed

lemma gap_of_nat_add:
  fixes a :: "'a::len word"
  assumes "n < 2 ^ LENGTH('a)"
  shows "unat ((a + of_nat n) - a) = n"
  using assms by (simp add: unat_of_nat take_bit_eq_mod)

subsection \<open>Shifts, masks and casts\<close>

lemma bit_lt_exp:
  assumes "unat (y :: 'a::len word) < 2 ^ n" "n \<le> k"
  shows "\<not> bit y k"
proof -
  have "unat y < 2 ^ k" using assms by (meson less_le_trans one_le_numeral power_increasing)
  then have "take_bit k (unat y) = unat y" by (simp add: take_bit_nat_eq_self)
  then have "\<not> bit (unat y) k" by (metis bit_take_bit_iff less_irrefl)
  then show ?thesis by (simp add: bit_unsigned_iff)
qed

lemma word_or_add:
  assumes "unat (y :: 'a::len word) < 2 ^ n"
  shows "push_bit n x OR y = push_bit n x + y"
proof (rule disjunctive_add_eq_or [symmetric])
  show "push_bit n x AND y = 0"
    by (rule bit_word_eqI) (use bit_lt_exp [OF assms] in \<open>auto simp: bit_simps\<close>)
qed

lemma unat_push_bit:
  assumes "unat x * 2 ^ n < 2 ^ LENGTH('a)"
  shows "unat (push_bit n (x :: 'a::len word)) = unat x * 2 ^ n"
  using assms
  by (simp only: unsigned_push_bit_eq) (simp add: push_bit_eq_mult take_bit_nat_eq_self)

lemma unat_drop_bit [simp]: "unat (drop_bit n (x :: 'a::len word)) = unat x div 2 ^ n"
  by (simp only: unat_drop_bit_eq drop_bit_eq_div [where 'a = nat])

lemma unat_ucast: "unat (ucast (x :: 'a::len word) :: 'b::len word) = unat x mod 2 ^ LENGTH('b)"
  by (simp add: unsigned_ucast_eq take_bit_eq_mod)

lemma unat_ucast_16_32 [simp]: "unat (ucast (x :: u16) :: u32) = unat x"
  by (simp add: unat_ucast mod_less less_trans [OF unat_lt_u16])

lemma unat_ucast_32_64 [simp]: "unat (ucast (x :: u32) :: u64) = unat x"
  by (simp add: unat_ucast mod_less less_trans [OF unat_lt_u32])

lemma unat_ucast_8_16 [simp]: "unat (ucast (x :: u8) :: u16) = unat x"
  by (simp add: unat_ucast mod_less less_trans [OF unat_lt_u8])

lemma unat_ucast_8_32 [simp]: "unat (ucast (x :: u8) :: u32) = unat x"
  by (simp add: unat_ucast mod_less less_trans [OF unat_lt_u8])

lemma unat_and_mask [simp]: "unat (x AND mask n :: 'a::len word) = unat x mod 2 ^ n"
  by (simp only: take_bit_eq_mask [symmetric] unsigned_take_bit_eq take_bit_eq_mod [where 'a = nat])

lemma unat_word_of_int:
  "0 \<le> k \<Longrightarrow> k < 2 ^ LENGTH('a) \<Longrightarrow> unat (word_of_int k :: 'a::len word) = nat k"
  by (simp add: unsigned_of_int take_bit_int_eq_self)

lemma word_eq_of_natI: "unat (w :: 'a::len word) = n \<Longrightarrow> w = of_nat n"
  by auto

text \<open>Go's conversion of an unsigned 64-bit value to a signed one.\<close>

definition i64 :: "u64 \<Rightarrow> int" where "i64 w = sint w"

lemma i64_small:
  assumes "unat w < 2 ^ 63"
  shows "i64 w = int (unat w)"
proof -
  have "uint w < 2 ^ 63" using assms by (metis of_nat_unat of_nat_less_iff of_nat_numeral of_nat_power)
  moreover have "- (2 ^ 63) \<le> (0 :: int)" "0 \<le> uint w" by simp_all
  ultimately show ?thesis
    unfolding i64_def sint_uint by (subst signed_take_bit_int_eq_self) (simp_all add: order_trans [of _ 0])
qed

subsection \<open>Big-endian accessors\<close>

definition be16_put :: "u16 \<Rightarrow> bytes" where
  "be16_put v = [ucast (drop_bit 8 v), ucast v]"

definition be32_put :: "u32 \<Rightarrow> bytes" where
  "be32_put v = [ucast (drop_bit 24 v), ucast (drop_bit 16 v), ucast (drop_bit 8 v), ucast v]"

definition be64_put :: "u64 \<Rightarrow> bytes" where
  "be64_put v = be32_put (ucast (drop_bit 32 v)) @ be32_put (ucast v)"

text \<open>Readers take the slice and an offset; the callers check the bounds first.\<close>

definition be16_get :: "bytes \<Rightarrow> nat \<Rightarrow> u16" where
  "be16_get b i = push_bit 8 (ucast (b ! i)) OR ucast (b ! (i + 1))"

definition be32_get :: "bytes \<Rightarrow> nat \<Rightarrow> u32" where
  "be32_get b i =
     push_bit 24 (ucast (b ! i)) OR push_bit 16 (ucast (b ! (i + 1))) OR
     push_bit 8 (ucast (b ! (i + 2))) OR ucast (b ! (i + 3))"

definition be64_get :: "bytes \<Rightarrow> nat \<Rightarrow> u64" where
  "be64_get b i = push_bit 32 (ucast (be32_get b i)) OR ucast (be32_get b (i + 4))"

lemma length_be16_put [simp, codec_simps]: "length (be16_put v) = 2"
  by (simp add: be16_put_def)

lemma length_be32_put [simp, codec_simps]: "length (be32_put v) = 4"
  by (simp add: be32_put_def)

lemma length_be64_put [simp, codec_simps]: "length (be64_put v) = 8"
  by (simp add: be64_put_def)

lemma be16_join: "push_bit 8 (ucast (ucast (drop_bit 8 v) :: u8)) OR ucast (ucast v :: u8) = (v :: u16)"
  by (rule bit_word_eqI) (auto simp: bit_simps)

lemma be32_join:
  "push_bit 24 (ucast (ucast (drop_bit 24 v) :: u8)) OR push_bit 16 (ucast (ucast (drop_bit 16 v) :: u8)) OR
   push_bit 8 (ucast (ucast (drop_bit 8 v) :: u8)) OR ucast (ucast v :: u8) = (v :: u32)"
  proof (rule bit_word_eqI)
  fix n assume "n < LENGTH(32)"
  then consider "n < 8" | "8 \<le> n" "n < 16" | "16 \<le> n" "n < 24" | "24 \<le> n" "n < 32"
    by (simp, linarith)
  then show "bit (push_bit 24 (ucast (ucast (drop_bit 24 v) :: u8)) OR
      push_bit 16 (ucast (ucast (drop_bit 16 v) :: u8)) OR
      push_bit 8 (ucast (ucast (drop_bit 8 v) :: u8)) OR ucast (ucast v :: u8) :: u32) n = bit v n"
    by cases (auto simp: bit_simps)
qed

lemma be64_join: "push_bit 32 (ucast (ucast (drop_bit 32 v) :: u32)) OR ucast (ucast v :: u32) = (v :: u64)"
  by (rule bit_word_eqI) (auto simp: bit_simps)

lemma be16_get_put [simp, codec_simps]: "be16_get (pre @ be16_put v @ post) (length pre) = v"
  by (simp add: be16_get_def be16_put_def nth_append be16_join)

lemma be32_get_put [simp, codec_simps]: "be32_get (pre @ be32_put v @ post) (length pre) = v"
  by (simp add: be32_get_def be32_put_def nth_append be32_join)

text \<open>Reading past a prefix, and the converse law: writing back what was read.\<close>

lemma be16_get_append_skip: "length pre \<le> i \<Longrightarrow> be16_get (pre @ b) i = be16_get b (i - length pre)"
  by (simp add: be16_get_def nth_append Suc_diff_le)

lemma be32_get_append_skip: "length pre \<le> i \<Longrightarrow> be32_get (pre @ b) i = be32_get b (i - length pre)"
  by (simp add: be32_get_def nth_append Suc_diff_le)

lemma be64_get_append_skip: "length pre \<le> i \<Longrightarrow> be64_get (pre @ b) i = be64_get b (i - length pre)"
  by (simp add: be64_get_def be32_get_append_skip)

lemma be16_get_put0 [simp, codec_simps]: "be16_get (be16_put v @ post) 0 = v"
  using be16_get_put [of "[]"] by simp

lemma be32_get_put0 [simp, codec_simps]: "be32_get (be32_put v @ post) 0 = v"
  using be32_get_put [of "[]"] by simp

lemma be64_get_put0 [simp, codec_simps]: "be64_get (be64_put v @ post) 0 = v"
  by (simp add: be64_get_def be64_put_def be32_get_append_skip be64_join)

lemma bit_u8_ge [simp]: "8 \<le> n \<Longrightarrow> \<not> bit (x :: u8) n"
  using bit_imp_le_length [of x n] by auto

lemma be16_put_get:
  assumes "i + 2 \<le> length b"
  shows "be16_put (be16_get b i) = take 2 (drop i b)"
proof -
  have "take 2 (drop i b) = [b ! i, b ! (i + 1)]"
    using assms by (auto simp: list_eq_iff_nth_eq less_Suc_eq numeral_2_eq_2)
  moreover have "ucast (drop_bit 8 (be16_get b i)) = b ! i" "ucast (be16_get b i) = b ! (i + 1)"
    by (rule bit_word_eqI; auto simp: be16_get_def bit_simps)+
  ultimately show ?thesis by (simp add: be16_put_def)
qed

lemma be32_put_get:
  assumes "i + 4 \<le> length b"
  shows "be32_put (be32_get b i) = take 4 (drop i b)"
proof -
  have "take 4 (drop i b) = [b ! i, b ! (i + 1), b ! (i + 2), b ! (i + 3)]"
    using assms by (auto simp: list_eq_iff_nth_eq less_Suc_eq numeral_eq_Suc)
  moreover have "ucast (drop_bit 24 (be32_get b i)) = b ! i" "ucast (drop_bit 16 (be32_get b i)) = b ! (i + 1)"
     "ucast (drop_bit 8 (be32_get b i)) = b ! (i + 2)" "ucast (be32_get b i) = b ! (i + 3)"
    by (rule bit_word_eqI; auto simp: be32_get_def bit_simps)+
  ultimately show ?thesis by (simp add: be32_put_def)
qed

lemma of_nat_less_neq:
  assumes "a < b" "b < 2 ^ 32"
  shows "(of_nat a :: u32) \<noteq> of_nat b"
proof
  assume "(of_nat a :: u32) = of_nat b"
  then have "unat (of_nat a :: u32) = unat (of_nat b :: u32)" by (rule arg_cong)
  then show False using assms by (simp add: unat_of_nat take_bit_nat_eq_self)
qed

section \<open>Counting in updated lists\<close>

lemma length_filter_update:
  assumes "i < length xs"
  shows "length (filter P (xs[i := y])) + (if P (xs ! i) then 1 else 0)
       = length (filter P xs) + (if P y then 1 else 0)"
  using assms
proof (induction xs arbitrary: i)
  case (Cons x xs)
  show ?case
  proof (cases i)
    case (Suc j)
    then show ?thesis using Cons.IH [of j] Cons.prems by (cases "P (xs ! j)"; cases "P y"; simp)
  qed simp
qed simp

lemma length_filter_update_le:
  assumes "\<not> P y"
  shows "length (filter P (xs[i := y])) \<le> length (filter P xs)"
proof (cases "i < length xs")
  case True
  then show ?thesis using length_filter_update [of i xs P y] assms by simp
qed (simp add: list_update_beyond)

lemma length_filter_update_less:
  assumes "i < length xs" "P (xs ! i)" "\<not> P y"
  shows "length (filter P (xs[i := y])) < length (filter P xs)"
  using length_filter_update [of i xs P y] assms by simp

end
