(* ===== verification/Wire.thy ===== *)
theory Wire
  imports Prelude
begin

text \<open>
  The normalized types that cross between the profile codecs and the flow core,
  \<^verbatim>\<open>src/internal/wire/wire.go\<close>. The package is data only. The fields of
  \<open>MediaPacket\<close> carry the prefix \<open>pkt_\<close>; the sealed interface \<open>Feedback\<close> is a
  datatype with one constructor per variant.
\<close>

datatype FragRole = FragStandalone | FragFirst | FragMiddle | FragLast

record MediaPacket =
  pkt_Seq :: u32
  pkt_SourceTime :: u64
  pkt_SSRC :: u32
  pkt_Payload :: bytes
  pkt_Retransmit :: bool
  pkt_PathID :: u8
  pkt_Frag :: FragRole
  pkt_VirtSrcPort :: u16
  pkt_VirtDstPort :: u16
  pkt_ShortSeq :: bool

datatype Feedback =
    NackRequest (nack_SSRC: u32) (nack_Missing: "u32 list")
  | RttEchoRequest (echo_SSRC: u32) (echo_Timestamp: u64)
  | RttEchoResponse (resp_SSRC: u32) (resp_Timestamp: u64) (resp_ProcessingDelay: u32)
  | SenderReport (sr_NTP: u64) (sr_RTPTime: u32)
  | Keepalive
  | ExtSeq (SeqHigh: u16)
  | LinkQuality (lq_LQM: bytes)
  | FlowAttribute (fa_JSON: bytes)
  | PeerIdentity (pi_CNAME: string)
  | UnsupportedControl (uc_CI: u16) (uc_Head: bytes)

end
