(* ===== verification/Fifo.thy ===== *)
theory Fifo
  imports Prelude
begin

text \<open>
  The slice-backed queue of \<^verbatim>\<open>src/internal/flow/flow.go\<close> (type \<open>fifo\<close>) that holds
  the flow core's pending outputs and events. A popped slot is overwritten with the
  zero value so that the queue drops its reference; \<open>None\<close> is that zero value here.
  The locale \<open>fifo_spec\<close> is the list contract the flow core relies on.
\<close>

record 'a fifo =
  items :: "'a option list"
  head :: nat

definition fifo_empty :: "'a fifo" where
  "fifo_empty = \<lparr>items = [], head = 0\<rparr>"

definition fifo_push :: "'a fifo \<Rightarrow> 'a \<Rightarrow> 'a fifo" where
  "fifo_push q v = q\<lparr>items := items q @ [Some v]\<rparr>"

definition fifo_pop :: "'a fifo \<Rightarrow> 'a option \<times> 'a fifo" where
  "fifo_pop q =
     (if length (items q) \<le> head q then (None, q)
      else let v = items q ! head q;
               q = q\<lparr>items := (items q)[head q := None]\<rparr>;
               q = q\<lparr>head := head q + 1\<rparr>
           in if head q = length (items q) then (v, q\<lparr>items := [], head := 0\<rparr>) else (v, q))"

section \<open>The contract\<close>

locale fifo_spec =
  fixes empty :: "'q"
    and push :: "'q \<Rightarrow> 'a \<Rightarrow> 'q"
    and pop :: "'q \<Rightarrow> 'a option \<times> 'q"
    and contents :: "'q \<Rightarrow> 'a list"
    and inv :: "'q \<Rightarrow> bool"
  assumes inv_empty: "inv empty"
    and contents_empty: "contents empty = []"
    and inv_push: "inv q \<Longrightarrow> inv (push q v)"
    and contents_push: "inv q \<Longrightarrow> contents (push q v) = contents q @ [v]"
    and pop_Nil: "inv q \<Longrightarrow> contents q = [] \<Longrightarrow> pop q = (None, q)"
    and pop_Cons: "inv q \<Longrightarrow> contents q = x # xs \<Longrightarrow>
      fst (pop q) = Some x \<and> contents (snd (pop q)) = xs \<and> inv (snd (pop q))"
begin

lemma push_all: "inv q \<Longrightarrow> contents (foldl push q vs) = contents q @ vs \<and> inv (foldl push q vs)"
  by (induction vs arbitrary: q) (simp_all add: inv_push contents_push)

lemma pop_n:
  assumes "inv q" "n \<le> length (contents q)"
  shows "contents (((\<lambda>q. snd (pop q)) ^^ n) q) = drop n (contents q) \<and> inv (((\<lambda>q. snd (pop q)) ^^ n) q)"
  using assms
proof (induction n)
  case (Suc n)
  let ?q = "((\<lambda>q. snd (pop q)) ^^ n) q"
  from Suc have q: "contents ?q = drop n (contents q)" "inv ?q" by auto
  moreover obtain x xs where "drop n (contents q) = x # xs"
    using Suc.prems(2) by (metis Cons_nth_drop_Suc Suc_le_lessD)
  ultimately show ?case
    using pop_Cons [of ?q x xs] by (simp add: drop_Suc tl_drop [symmetric])
qed simp

lemma pop_nth:
  assumes "inv q" "n < length (contents q)"
  shows "fst (pop (((\<lambda>q. snd (pop q)) ^^ n) q)) = Some (contents q ! n)"
proof -
  have "contents (((\<lambda>q. snd (pop q)) ^^ n) q) = contents q ! n # drop (Suc n) (contents q)"
    using pop_n [of q n] assms by (simp add: Cons_nth_drop_Suc)
  then show ?thesis using pop_n [of q n] pop_Cons assms by (metis less_imp_le)
qed

end

section \<open>The slice implementation satisfies it\<close>

definition fifo_inv :: "'a fifo \<Rightarrow> bool" where
  "fifo_inv q \<longleftrightarrow> head q \<le> length (items q) \<and> (\<forall>v \<in> set (drop (head q) (items q)). v \<noteq> None)"

definition fifo_list :: "'a fifo \<Rightarrow> 'a list" where
  "fifo_list q = map the (drop (head q) (items q))"

interpretation fifo: fifo_spec fifo_empty fifo_push fifo_pop fifo_list fifo_inv
proof (unfold_locales, goal_cases)
  case (6 q x xs)
  then have lt: "head q < length (items q)" by (cases "head q < length (items q)") (auto simp: fifo_list_def)
  have d: "drop (head q) (items q) = items q ! head q # drop (Suc (head q)) (items q)"
    using lt by (simp add: Cons_nth_drop_Suc)
  have v: "items q ! head q = Some x" and xs: "map the (drop (Suc (head q)) (items q)) = xs"
    using 6 by (auto simp: fifo_list_def fifo_inv_def d)
  have "drop (Suc (head q)) ((items q)[head q := None]) = drop (Suc (head q)) (items q)"
    by (simp add: drop_update_cancel)
  then show ?case
    using lt v xs 6(1) by (auto simp: fifo_pop_def Let_def fifo_list_def fifo_inv_def d)
qed (auto simp: fifo_empty_def fifo_push_def fifo_pop_def fifo_list_def fifo_inv_def Let_def)

lemmas fifo_simps [simp] = fifo.inv_empty fifo.contents_empty fifo.inv_push fifo.contents_push

section \<open>Property\<close>

text \<open>the slice-backed queue is first-in first-out: after pushing any values onto a
  well-formed queue, the \<open>n\<close>-th pop returns the \<open>n\<close>-th value of the old contents
  followed by the new values, and popping them all leaves an empty queue.
\<close>

theorem fifo_first_in_first_out:
  assumes "fifo_inv q" "n < length (fifo_list q @ vs)"
  shows "fst (fifo_pop (((\<lambda>q. snd (fifo_pop q)) ^^ n) (foldl fifo_push q vs))) = Some ((fifo_list q @ vs) ! n) \<and>
    fifo_list (((\<lambda>q. snd (fifo_pop q)) ^^ length (fifo_list q @ vs)) (foldl fifo_push q vs)) = []"
  using fifo.push_all [OF assms(1), of vs] assms(2)
    fifo.pop_nth [of "foldl fifo_push q vs" n] fifo.pop_n [of "foldl fifo_push q vs" "length (fifo_list q @ vs)"]
  by simp

theorem fifo_first_in_first_out_witness:
  "fst (fifo_pop (((\<lambda>q. snd (fifo_pop q)) ^^ 1) (foldl fifo_push fifo_empty [10, 20, 30 :: int]))) = Some 20"
proof -
  have h: "fifo_inv (fifo_empty :: int fifo)" "1 < length (fifo_list fifo_empty @ [10, 20, 30 :: int])" by simp_all
  show ?thesis using fifo_first_in_first_out [OF h] by simp
qed

end
