(* ===== verification/Clock.thy ===== *)
theory Clock
  imports Prelude
begin

text \<open>
  Time, \<^verbatim>\<open>src/internal/clock/\<close>: microsecond timestamps (\<open>timestamp.go\<close>),
  NTP-64 values (\<open>ntp.go\<close>) and the clock the deterministic tests use
  (\<open>clock.go\<close>). \<open>Microseconds\<close> and \<open>Timestamp\<close> are Go \<open>int64\<close> counts of
  microseconds; they are integers here. The system clock itself (\<open>RealClock\<close>) is an
  input of the program, not code.
\<close>

type_synonym Microseconds = int
type_synonym Timestamp = int
type_synonym NTPTime = u64

section \<open>timestamp.go\<close>

definition Millisecond :: Microseconds where "Millisecond = 1000"
definition Second :: Microseconds where "Second = 1000 * Millisecond"
definition Minute :: Microseconds where "Minute = 60 * Second"

definition Microseconds_Abs :: "Microseconds \<Rightarrow> Microseconds" where
  "Microseconds_Abs d = (if d < 0 then - d else d)"

definition Timestamp_Add :: "Timestamp \<Rightarrow> Microseconds \<Rightarrow> Timestamp" where
  "Timestamp_Add t d = t + d"

definition Timestamp_Sub :: "Timestamp \<Rightarrow> Timestamp \<Rightarrow> Microseconds" where
  "Timestamp_Sub t other = t - other"

definition Before :: "Timestamp \<Rightarrow> Timestamp \<Rightarrow> bool" where
  "Before t other \<longleftrightarrow> t < other"

definition After :: "Timestamp \<Rightarrow> Timestamp \<Rightarrow> bool" where
  "After t other \<longleftrightarrow> t > other"

definition IsZero :: "Timestamp \<Rightarrow> bool" where
  "IsZero t \<longleftrightarrow> t = 0"

lemmas time_defs [simp] = Timestamp_Add_def Timestamp_Sub_def Before_def After_def IsZero_def

definition Low32 :: "Timestamp \<Rightarrow> u32" where
  "Low32 t = word_of_int t"

definition wrap32Period :: Microseconds where "wrap32Period = 2 ^ 32"

definition From32BitTimestamp :: "u32 \<Rightarrow> Timestamp \<Rightarrow> Timestamp" where
  "From32BitTimestamp ts32 reference =
     (let refLow = (word_of_int reference :: u32);
          base = reference - uint refLow;
          candidate = base + uint ts32;
          diff = Timestamp_Sub candidate reference
      in if diff > wrap32Period div 2 then base - wrap32Period + uint ts32
         else if diff < - (wrap32Period div 2) then base + wrap32Period + uint ts32
         else candidate)"

section \<open>ntp.go\<close>

definition ntpEpochOffset :: int where "ntpEpochOffset = 2208988800"

text \<open>
  A wall-clock \<open>time.Time\<close> by its Unix seconds and its nanosecond part; \<open>go_Unix\<close> is
  \<open>time.Unix\<close>, which carries a nanosecond argument outside \<open>[0, 1e9)\<close> into the seconds.
\<close>

record gotime =
  gt_Unix :: int
  gt_Nanosecond :: int

definition go_Unix :: "int \<Rightarrow> int \<Rightarrow> gotime" where
  "go_Unix sec nsec = \<lparr>gt_Unix = sec + nsec div 1000000000, gt_Nanosecond = nsec mod 1000000000\<rparr>"

definition NTPTimeFromTime :: "gotime \<Rightarrow> NTPTime" where
  "NTPTimeFromTime t =
     (let sec = (word_of_int (gt_Unix t + ntpEpochOffset) :: u64);
          frac = (push_bit 32 (word_of_int (gt_Nanosecond t)) + 500000000) div 1000000000
      in push_bit 32 sec OR frac)"

definition NTPTime_Time :: "NTPTime \<Rightarrow> gotime" where
  "NTPTime_Time n =
     (let sec = i64 (drop_bit 32 n) - ntpEpochOffset;
          ns = drop_bit 32 (ucast (ucast n :: u32) * 1000000000 + push_bit 31 1 :: u64)
      in go_Unix sec (i64 ns))"

definition NTPTimeFromTimestamp :: "Timestamp \<Rightarrow> NTPTime" where
  "NTPTimeFromTimestamp ts =
     (if ts < 0 then 0
      else let sec = (word_of_int ts :: u64) div 1000000;
               us = (word_of_int ts :: u64) mod 1000000;
               frac = (push_bit 32 us + 500000) div 1000000
           in push_bit 32 sec OR frac)"

definition NTPTime_Timestamp :: "NTPTime \<Rightarrow> Timestamp" where
  "NTPTime_Timestamp n =
     (let sec = drop_bit 32 n;
          us = drop_bit 32 (ucast (ucast n :: u32) * 1000000 + push_bit 31 1 :: u64)
      in i64 (sec * 1000000 + us))"

definition NTPTime_Seconds :: "NTPTime \<Rightarrow> u32" where
  "NTPTime_Seconds n = ucast (drop_bit 32 n)"

definition NTPTime_Fraction :: "NTPTime \<Rightarrow> u32" where
  "NTPTime_Fraction n = ucast n"

definition NTPTime_Middle32 :: "NTPTime \<Rightarrow> u32" where
  "NTPTime_Middle32 n = ucast (drop_bit 16 n)"

section \<open>clock.go: the mock clock\<close>

record MockClock =
  mc_now :: Timestamp

definition NewMockClock :: MockClock where
  "NewMockClock = \<lparr>mc_now = 0\<rparr>"

definition MockClock_Set :: "MockClock \<Rightarrow> Timestamp \<Rightarrow> MockClock" where
  "MockClock_Set c t = c\<lparr>mc_now := t\<rparr>"

definition MockClock_Advance :: "MockClock \<Rightarrow> Microseconds \<Rightarrow> MockClock" where
  "MockClock_Advance c d = c\<lparr>mc_now := Timestamp_Add (mc_now c) d\<rparr>"

section \<open>The NTP conversions over the naturals\<close>

lemma ntp_split:
  assumes "s < 2 ^ 32" "f < 2 ^ 32"
  shows "unat (push_bit 32 (of_nat s :: u64) OR of_nat f) = s * 2 ^ 32 + f"
proof -
  have u: "unat (of_nat s :: u64) = s" "unat (of_nat f :: u64) = f"
    using assms by (simp_all add: unat_of_nat take_bit_nat_eq_self)
  have "unat (push_bit 32 (of_nat s :: u64)) = s * 2 ^ 32"
    using assms u by (subst unat_push_bit) simp_all
  then show ?thesis
    using assms u by (subst word_or_add) (simp_all add: unat_word_ariths)
qed

lemma NTPTime_Timestamp_nat:
  "NTPTime_Timestamp n =
     int (unat n div 2 ^ 32 * 1000000 + (unat n mod 2 ^ 32 * 1000000 + 2 ^ 31) div 2 ^ 32)"
proof -
  define s f where "s = unat n div 2 ^ 32" and "f = unat n mod 2 ^ 32"
  have s: "s < 2 ^ 32" unfolding s_def by (rule less_mult_imp_div_less) simp
  have f: "f < 2 ^ 32" by (simp add: f_def)
  have us: "unat (drop_bit 32 (ucast (ucast n :: u32) * 1000000 + push_bit 31 1 :: u64)) =
      (f * 1000000 + 2 ^ 31) div 2 ^ 32"
    using f by (simp add: unat_word_ariths unat_push_bit unat_ucast f_def)
  have bound: "s * 1000000 + (f * 1000000 + 2 ^ 31) div 2 ^ 32 < 2 ^ 63"
    using s f by simp
  have "unat (drop_bit 32 n * 1000000 + drop_bit 32 (ucast (ucast n :: u32) * 1000000 + push_bit 31 1 :: u64)) =
      s * 1000000 + (f * 1000000 + 2 ^ 31) div 2 ^ 32"
    using us s bound by (simp add: unat_word_ariths s_def)
  then show ?thesis
    using bound by (simp only: NTPTime_Timestamp_def Let_def s_def f_def) (simp add: i64_small)
qed

lemma NTPTimeFromTimestamp_nat:
  assumes "0 \<le> ts" "ts < 2 ^ 32 * 1000000"
  shows "unat (NTPTimeFromTimestamp ts) =
     nat ts div 1000000 * 2 ^ 32 + (nat ts mod 1000000 * 2 ^ 32 + 500000) div 1000000"
proof -
  define s u where "s = nat ts div 1000000" and "u = nat ts mod 1000000"
  have su: "s < 2 ^ 32" "u < 1000000" using assms by (simp_all add: s_def u_def nat_less_iff less_mult_imp_div_less)
  have un: "unat (word_of_int ts :: u64) = nat ts"
    using assms by (intro unat_word_of_int) simp_all
  have S: "(word_of_int ts :: u64) div 1000000 = of_nat s"
    by (rule word_eq_of_natI) (simp add: unat_div un s_def)
  have U: "unat ((word_of_int ts :: u64) mod 1000000) = u"
    by (simp add: unat_mod un u_def)
  have "unat (push_bit 32 ((word_of_int ts :: u64) mod 1000000)) = u * 2 ^ 32"
    using su U by (subst unat_push_bit) simp_all
  then have "unat ((push_bit 32 ((word_of_int ts :: u64) mod 1000000) + 500000) div 1000000) =
      (u * 2 ^ 32 + 500000) div 1000000"
    using su by (simp add: unat_div unat_word_ariths)
  then have F: "(push_bit 32 ((word_of_int ts :: u64) mod 1000000) + 500000) div 1000000 =
      of_nat ((u * 2 ^ 32 + 500000) div 1000000)"
    by (rule word_eq_of_natI)
  have "(u * 2 ^ 32 + 500000) div 1000000 < 2 ^ 32" using su by simp
  from ntp_split [OF su(1) this] show ?thesis
    using assms(1) unfolding NTPTimeFromTimestamp_def Let_def S F s_def [symmetric] u_def [symmetric]
    by simp
qed

text \<open>Rounding to the nearest 32-bit fraction and back to a unit of \<open>1/D\<close> second is exact.\<close>

lemma frac_roundtrip:
  fixes u D :: nat
  assumes "0 < D" "D \<le> 2 ^ 31"
  shows "((u * 2 ^ 32 + D div 2) div D * D + 2 ^ 31) div 2 ^ 32 = u"
proof -
  define r where "r = (u * 2 ^ 32 + D div 2) mod D"
  have r: "r < D" using assms by (simp add: r_def)
  have "(u * 2 ^ 32 + D div 2) div D * D + r = u * 2 ^ 32 + D div 2"
    by (simp add: r_def)
  then have "(u * 2 ^ 32 + D div 2) div D * D + 2 ^ 31 = u * 2 ^ 32 + (D div 2 + 2 ^ 31 - r)"
    using r assms(2) by linarith
  moreover have "D div 2 + 2 ^ 31 - r < 2 ^ 32" using assms(2) by simp
  ultimately show ?thesis by simp
qed

section \<open>Properties\<close>

text \<open>converting a timestamp to NTP-64 and back is the identity for every non-negative
  microsecond count below \<open>2^32\<close> seconds, so the epoch really cancels in an RTT echo.
\<close>

theorem ntp_timestamp_roundtrip:
  assumes "0 \<le> ts" "ts < 2 ^ 32 * 1000000"
  shows "NTPTime_Timestamp (NTPTimeFromTimestamp ts) = ts"
proof -
  define s u where "s = nat ts div 1000000" and "u = nat ts mod 1000000"
  define f where "f = (u * 2 ^ 32 + 500000) div 1000000"
  have n: "unat (NTPTimeFromTimestamp ts) = s * 2 ^ 32 + f"
    using NTPTimeFromTimestamp_nat [OF assms] by (simp add: s_def u_def f_def)
  have "u < 1000000" by (simp add: u_def)
  then have f: "f < 2 ^ 32" by (simp add: f_def)
  have "(f * 1000000 + 2 ^ 31) div 2 ^ 32 = u"
    using frac_roundtrip [of 1000000 u] by (simp add: f_def)
  then have "NTPTime_Timestamp (NTPTimeFromTimestamp ts) = int (s * 1000000 + u)"
    unfolding NTPTime_Timestamp_nat n using f by simp
  also have "\<dots> = ts" using assms(1) by (simp add: s_def u_def)
  finally show ?thesis .
qed

theorem ntp_timestamp_roundtrip_witness:
  "NTPTime_Timestamp (NTPTimeFromTimestamp 1234567890123) = 1234567890123"
  using ntp_timestamp_roundtrip [of 1234567890123] by simp

text \<open>a full timestamp is reconstructed exactly from its low 32 bits whenever the
  reference is strictly closer than half a wrap period; for any inputs the result has
  the given low bits and lies within half a period of the reference.
\<close>

theorem from32_reconstructs:
  assumes "\<bar>t - reference\<bar> < 2 ^ 31"
  shows "From32BitTimestamp (Low32 t) reference = t \<and>
    Low32 (From32BitTimestamp ts32 reference) = ts32 \<and>
    \<bar>From32BitTimestamp ts32 reference - reference\<bar> \<le> 2 ^ 31"
proof -
  have low: "uint (word_of_int k :: u32) = k mod 2 ^ 32" for k
    by (simp add: uint_word_of_int take_bit_eq_mod)
  have b: "0 \<le> uint ts32" "uint ts32 < 2 ^ 32" using uint_bounded [of ts32] by simp_all
  define q where "q = reference div 2 ^ 32"
  have q: "reference - reference mod 2 ^ 32 = 2 ^ 32 * q"
    by (simp add: q_def minus_mod_eq_mult_div)
  have r: "0 \<le> reference mod 2 ^ 32" "reference mod 2 ^ 32 < 2 ^ 32" by simp_all
  have eq: "From32BitTimestamp w reference =
      (let c = 2 ^ 32 * q + uint w
       in if 2 ^ 31 < c - reference then c - 2 ^ 32
          else if c - reference < - (2 ^ 31) then c + 2 ^ 32 else c)" for w
    unfolding From32BitTimestamp_def Let_def low q wrap32Period_def by simp
  have "From32BitTimestamp (Low32 t) reference = t"
  proof -
    define d m where "d = t div 2 ^ 32" and "m = t mod 2 ^ 32"
    have t: "t = 2 ^ 32 * d + m" by (simp add: d_def m_def)
    have m: "uint (Low32 t) = m" by (simp add: Low32_def low m_def)
    have mb: "0 \<le> m" "m < 2 ^ 32" by (simp_all add: m_def)
    have ref: "reference = 2 ^ 32 * q + reference mod 2 ^ 32" using q by linarith
    have "d = q - 1 \<or> d = q \<or> d = q + 1"
      using assms r mb t ref by (simp add: abs_less_iff) linarith
    then show ?thesis
      using assms unfolding eq Let_def m by (auto simp: t abs_less_iff)
  qed
  moreover have "Low32 (From32BitTimestamp ts32 reference) = ts32"
  proof -
    have z: "Low32 (2 ^ 32 * k + uint ts32) = ts32" for k
    proof (rule word_uint_eqI)
      show "uint (Low32 (2 ^ 32 * k + uint ts32)) = uint ts32"
        unfolding Low32_def low using b by simp
    qed
    show ?thesis
      using z [of q] z [of "q - 1"] z [of "q + 1"] by (simp add: eq Let_def algebra_simps)
  qed
  moreover have "\<bar>From32BitTimestamp ts32 reference - reference\<bar> \<le> 2 ^ 31"
  proof -
    obtain rm where rm: "reference = 2 ^ 32 * q + rm" "0 \<le> rm" "rm < 2 ^ 32"
      using q r by (metis add.commute diff_add_cancel)
    moreover obtain w where "uint ts32 = w" "0 \<le> w" "w < 2 ^ 32" using b by blast
    ultimately show ?thesis unfolding eq Let_def by (auto simp: abs_le_iff)
  qed
  ultimately show ?thesis by simp
qed

theorem from32_reconstructs_witness:
  "From32BitTimestamp (Low32 4294967301) 4294967290 = 4294967301"
  using from32_reconstructs [of 4294967301 4294967290 0] by simp

end
