(* ===== verification/Float64.thy ===== *)
theory Float64
  imports Prelude "HOL-Library.Log_Nat"
begin

text \<open>
  Go's \<open>float64\<close> arithmetic, as far as the program uses it: conversion from integers,
  addition, subtraction, multiplication, division and truncation back to an integer.
  A finite double is the rational it denotes; every operation computes the exact
  rational result and rounds it to 53 significant bits, nearest with ties to even
  (IEEE 754 binary64, unfused). Exponent overflow and subnormals are not modelled:
  the magnitudes the modelled code computes lie between \<open>2^-60\<close> and \<open>2^130\<close>.
\<close>

type_synonym float64 = rat

definition round_even :: "rat \<Rightarrow> int" where
  "round_even y =
     (let f = \<lfloor>y\<rfloor>; r = y - of_int f
      in if r < 1/2 then f else if 1/2 < r then f + 1 else if even f then f else f + 1)"

text \<open>The exponent that scales a positive rational into \<open>[2^52, 2^53)\<close>.\<close>

definition fexp :: "rat \<Rightarrow> int" where
  "fexp x =
     (let (p, q) = quotient_of x; e = bitlen p - bitlen q - 53
      in if x / 2 powi e < 2 ^ 53 then e else e + 1)"

definition rnd_pos :: "rat \<Rightarrow> rat" where
  "rnd_pos x = (let e = fexp x in of_int (round_even (x / 2 powi e)) * 2 powi e)"

definition rnd64 :: "rat \<Rightarrow> float64" where
  "rnd64 x = (if x = 0 then 0 else if x < 0 then - rnd_pos (- x) else rnd_pos x)"

definition f_of_int :: "int \<Rightarrow> float64" where "f_of_int n = rnd64 (of_int n)"
definition f_add :: "float64 \<Rightarrow> float64 \<Rightarrow> float64" where "f_add a b = rnd64 (a + b)"
definition f_sub :: "float64 \<Rightarrow> float64 \<Rightarrow> float64" where "f_sub a b = rnd64 (a - b)"
definition f_mul :: "float64 \<Rightarrow> float64 \<Rightarrow> float64" where "f_mul a b = rnd64 (a * b)"
definition f_div :: "float64 \<Rightarrow> float64 \<Rightarrow> float64" where "f_div a b = rnd64 (a / b)"

text \<open>Go's float-to-integer conversion truncates towards zero.\<close>

definition f_trunc :: "float64 \<Rightarrow> int" where
  "f_trunc x = (if x < 0 then - \<lfloor>- x\<rfloor> else \<lfloor>x\<rfloor>)"

lemma round_even_error: "\<bar>of_int (round_even y) - y\<bar> \<le> 1/2"
proof -
  have "of_int \<lfloor>y\<rfloor> \<le> y" "y < of_int \<lfloor>y\<rfloor> + 1" by linarith+
  then show ?thesis by (auto simp: round_even_def Let_def abs_le_iff)
qed

lemma round_even_ge:
  assumes "of_int n \<le> y"
  shows "n \<le> round_even y"
proof -
  have "n \<le> \<lfloor>y\<rfloor>" using assms by (simp add: le_floor_iff)
  then show ?thesis by (auto simp: round_even_def Let_def)
qed

lemma round_even_le:
  assumes "y \<le> of_int n"
  shows "round_even y \<le> n"
proof (cases "y = of_int n")
  case True
  then show ?thesis by (simp add: round_even_def)
next
  case False
  with assms have "\<lfloor>y\<rfloor> < n" by (simp add: floor_less_iff)
  then show ?thesis by (auto simp: round_even_def Let_def)
qed

lemma fexp_bounds:
  assumes "0 < x"
  shows "2 ^ 52 \<le> x / 2 powi (fexp x)" "x / 2 powi (fexp x) < 2 ^ 53"
proof -
  obtain p q where pq: "quotient_of x = (p, q)" by force
  have q: "0 < q" using quotient_of_denom_pos [OF pq] .
  have xpq: "x = of_int p / of_int q" using quotient_of_div [OF pq] .
  have p: "0 < p" using assms q by (simp add: xpq zero_less_divide_iff)
  define bp bq where "bp = nat (bitlen p - 1)" and "bq = nat (bitlen q - 1)"
  have "0 < bitlen n" if "0 < n" for n
  proof (rule ccontr)
    assume "\<not> 0 < bitlen n"
    with bitlen_bounds [OF that] that show False by simp
  qed
  then have lp: "bitlen p = int bp + 1" and lq: "bitlen q = int bq + 1"
    using p q by (simp_all add: bp_def bq_def)
  have P: "2 ^ bp \<le> p" "p < 2 ^ Suc bp" and Q: "2 ^ bq \<le> q" "q < 2 ^ Suc bq"
    using bitlen_bounds [OF p] bitlen_bounds [OF q] by (simp_all add: lp lq nat_add_distrib)
  have P': "(2::rat) ^ bp \<le> of_int p" "(of_int p :: rat) < 2 ^ Suc bp"
    and Q': "(2::rat) ^ bq \<le> of_int q" "(of_int q :: rat) < 2 ^ Suc bq"
    using P Q by (metis of_int_le_iff of_int_less_iff of_int_numeral of_int_power)+
  define e where "e = bitlen p - bitlen q - 53"
  have e: "(2 :: rat) powi e = 2 ^ bp / (2 ^ bq * 2 ^ 53)"
    by (simp add: e_def lp lq power_int_diff power_int_add)
  have lo: "2 ^ 52 < x / 2 powi e"
  proof -
    have "2 ^ bp * of_int q < (of_int p :: rat) * 2 ^ Suc bq"
      using P' Q' q p by (intro mult_le_less_imp_less) auto
    then show ?thesis using q by (simp add: e xpq field_simps)
  qed
  have hi: "x / 2 powi e < 2 ^ 54"
  proof -
    have "of_int p * 2 ^ bq < (2 ^ Suc bp :: rat) * of_int q"
      using P' Q' q p by (intro mult_less_le_imp_less) auto
    then show ?thesis using q by (simp add: e xpq field_simps)
  qed
  have s: "x / 2 powi (e + 1) = x / 2 powi e / 2"
    by (simp add: power_int_add)
  have f: "fexp x = (if x / 2 powi e < 2 ^ 53 then e else e + 1)"
    by (simp add: fexp_def pq e_def)
  show "2 ^ 52 \<le> x / 2 powi (fexp x)" "x / 2 powi (fexp x) < 2 ^ 53"
    using lo hi by (simp_all add: f s)
qed

lemma powi_step:
  assumes "e < e'"
  shows "2 * 2 powi e \<le> (2 :: rat) powi e'"
proof -
  have "(2 :: rat) powi (e + 1) \<le> 2 powi e'" using assms by (intro power_int_increasing) auto
  then show ?thesis by (simp add: power_int_add mult.commute)
qed

lemma fexp_unique:
  assumes "0 < x" "2 ^ 52 \<le> x / 2 powi e" "x / 2 powi e < 2 ^ 53"
  shows "fexp x = e"
proof (rule ccontr)
  assume "fexp x \<noteq> e"
  then consider "fexp x < e" | "e < fexp x" by linarith
  then show False
  proof cases
    case 1
    have "2 ^ 52 * (2 * 2 powi (fexp x)) \<le> (2 ^ 52 :: rat) * 2 powi e"
      using powi_step [OF 1] by simp
    also have "\<dots> \<le> x" using assms(2) by (simp add: field_simps)
    also have "x < 2 ^ 53 * 2 powi (fexp x)" using fexp_bounds(2) [OF assms(1)] by (simp add: field_simps)
    finally show False by simp
  next
    case 2
    have "2 ^ 52 * (2 * 2 powi e) \<le> (2 ^ 52 :: rat) * 2 powi (fexp x)"
      using powi_step [OF 2] by simp
    also have "\<dots> \<le> x" using fexp_bounds(1) [OF assms(1)] by (simp add: field_simps)
    also have "x < 2 ^ 53 * 2 powi e" using assms(3) by (simp add: field_simps)
    finally show False by simp
  qed
qed

text \<open>Evaluation of one rounding: name the exponent and the nearest grid point.\<close>

lemma rnd64_eqI:
  assumes "0 < x" "2 ^ 52 \<le> x / 2 powi e" "x / 2 powi e < 2 ^ 53"
    and "\<bar>of_int m - x / 2 powi e\<bar> < 1/2"
  shows "rnd64 x = of_int m * 2 powi e"
proof -
  define y where "y = x / 2 powi e"
  have "\<bar>of_int (round_even y) - y\<bar> \<le> 1/2" by (rule round_even_error)
  then have "\<bar>(of_int (round_even y - m) :: rat)\<bar> < of_int 1" using assms(4) unfolding y_def [symmetric]
    by (simp only: of_int_diff abs_less_iff abs_le_iff) linarith
  then have "round_even y = m" by (simp only: of_int_abs [symmetric] of_int_less_iff)
  then show ?thesis
    using assms(1) fexp_unique [OF assms(1-3)] by (simp add: rnd64_def rnd_pos_def y_def)
qed

lemma rnd_pos_error:
  assumes "0 < x"
  shows "\<bar>rnd_pos x - x\<bar> \<le> x / 2 ^ 53"
proof -
  define u where "u = (2 :: rat) powi (fexp x)"
  have u: "0 < u" by (simp add: u_def)
  have "rnd_pos x - x = (of_int (round_even (x / u)) - x / u) * u"
    using u by (simp add: rnd_pos_def u_def [symmetric] Let_def left_diff_distrib)
  then have "\<bar>rnd_pos x - x\<bar> = \<bar>of_int (round_even (x / u)) - x / u\<bar> * u"
    using u by (simp add: abs_mult)
  also have "\<dots> \<le> 1/2 * u"
    using u by (intro mult_right_mono round_even_error) simp
  also have "\<dots> \<le> x / 2 ^ 53"
    using fexp_bounds(1) [OF assms] u by (simp add: u_def [symmetric] field_simps)
  finally show ?thesis .
qed

text \<open>Below \<open>2^53\<close> the grid contains every integer, so rounding never crosses one.\<close>

lemma grid_int:
  assumes "0 < x" "x < 2 ^ 53"
  obtains k where "(of_int n :: rat) / 2 powi (fexp x) = of_int (n * 2 ^ k)"
proof -
  have "fexp x \<le> 0"
  proof (rule ccontr)
    assume "\<not> fexp x \<le> 0"
    then have "2 powi 1 \<le> (2 :: rat) powi (fexp x)" by (intro power_int_increasing) auto
    then have "2 ^ 52 * 2 \<le> (2 :: rat) ^ 52 * 2 powi (fexp x)" by simp
    also have "\<dots> \<le> x" using fexp_bounds(1) [OF assms(1)] by (simp add: field_simps)
    finally show False using assms(2) by simp
  qed
  then obtain m where "fexp x = - int m" by (metis int_nat_eq minus_equation_iff neg_0_le_iff_le)
  then have "(of_int n :: rat) / 2 powi (fexp x) = of_int (n * 2 ^ m)"
    by (simp add: power_int_minus divide_inverse)
  then show ?thesis using that by blast
qed

lemma rnd_pos_ge_int:
  assumes "0 < x" "x < 2 ^ 53" "of_int n \<le> x"
  shows "of_int n \<le> rnd_pos x"
proof -
  define u where "u = (2 :: rat) powi (fexp x)"
  have u: "0 < u" by (simp add: u_def)
  obtain k where k: "(of_int n :: rat) / u = of_int (n * 2 ^ k)"
    using grid_int [OF assms(1,2), of n thesis] unfolding u_def by blast
  have "of_int (n * 2 ^ k) \<le> x / u" using assms(3) u unfolding k [symmetric] by (simp add: divide_right_mono)
  then have "n * 2 ^ k \<le> round_even (x / u)" by (rule round_even_ge)
  then have "(of_int n :: rat) / u \<le> of_int (round_even (x / u))"
    unfolding k by (simp only: of_int_le_iff)
  then show ?thesis using u by (simp add: rnd_pos_def Let_def u_def [symmetric] divide_le_eq)
qed

lemma rnd_pos_le_int:
  assumes "0 < x" "x < 2 ^ 53" "x \<le> of_int n"
  shows "rnd_pos x \<le> of_int n"
proof -
  define u where "u = (2 :: rat) powi (fexp x)"
  have u: "0 < u" by (simp add: u_def)
  obtain k where k: "(of_int n :: rat) / u = of_int (n * 2 ^ k)"
    using grid_int [OF assms(1,2), of n thesis] unfolding u_def by blast
  have "x / u \<le> of_int (n * 2 ^ k)" using assms(3) u unfolding k [symmetric] by (simp add: divide_right_mono)
  then have "round_even (x / u) \<le> n * 2 ^ k" by (rule round_even_le)
  then have "of_int (round_even (x / u)) \<le> (of_int n :: rat) / u"
    unfolding k by (simp only: of_int_le_iff)
  then show ?thesis using u by (simp add: rnd_pos_def Let_def u_def [symmetric] le_divide_eq)
qed

lemma rnd64_of_int [simp]:
  assumes "\<bar>n\<bar> < 2 ^ 53"
  shows "rnd64 (of_int n) = of_int n"
proof -
  have pos: "rnd_pos (of_int m) = of_int m" if "0 < m" "m < 2 ^ 53" for m
  proof -
    have "(of_int m :: rat) < 2 ^ 53"
      using that(2) by (metis of_int_less_iff of_int_numeral of_int_power)
    then show ?thesis
      using that(1) rnd_pos_ge_int [of "of_int m" m] rnd_pos_le_int [of "of_int m" m] by force
  qed
  show ?thesis using pos [of n] pos [of "- n"] assms by (auto simp: rnd64_def)
qed

lemma rnd64_nonneg: "0 \<le> x \<Longrightarrow> 0 \<le> rnd64 x"
  using round_even_ge [of 0 "x / 2 powi (fexp x)"]
  by (auto simp: rnd64_def rnd_pos_def Let_def intro!: mult_nonneg_nonneg)

lemma rnd64_le_int: "0 \<le> x \<Longrightarrow> x < 2 ^ 53 \<Longrightarrow> x \<le> of_int n \<Longrightarrow> rnd64 x \<le> of_int n"
  using rnd_pos_le_int [of x n] by (auto simp: rnd64_def)

section \<open>Multiplication by the literal 1.1\<close>

text \<open>
  The double nearest to 1.1 and the multiply-then-truncate the RTT and recovery-buffer
  code performs. For every duration below \<open>2^48\<close> microseconds (about nine years) the
  result is the integer expression \<open>d + d div 10\<close>.
\<close>

definition lit_1_1 :: float64 where "lit_1_1 = rnd64 (11 / 10)"

definition times_1_1 :: "int \<Rightarrow> int" where
  "times_1_1 d = f_trunc (f_mul (f_of_int d) lit_1_1)"

lemma lit_1_1_eq: "lit_1_1 = 4953959590107546 / 4503599627370496"
proof -
  have "rnd64 (11 / 10) = of_int 4953959590107546 * 2 powi (- 52)"
    by (rule rnd64_eqI) (simp_all add: power_int_minus)
  then show ?thesis by (simp add: lit_1_1_def power_int_minus)
qed

lemma times_1_1_eq:
  assumes "0 \<le> d" "d < 2 ^ 48"
  shows "times_1_1 d = d + d div 10"
proof (cases "d = 0")
  case True
  then show ?thesis by (simp add: times_1_1_def f_of_int_def f_mul_def rnd64_def f_trunc_def)
next
  case False
  define x where "x = (of_int d :: rat) * lit_1_1"
  define q where "q = d + d div 10"
  have d: "0 < (of_int d :: rat)" using assms False by simp
  have d48: "(of_int d :: rat) < 2 ^ 48"
    using assms(2) by (metis of_int_less_iff of_int_numeral of_int_power)
  have fd: "f_of_int d = of_int d" using assms by (simp add: f_of_int_def)
  have x0: "0 < x" using d by (simp add: x_def lit_1_1_eq)
  have xlt: "x < 2 ^ 53" using d48 by (simp add: x_def lit_1_1_eq)
  have "(of_int (10 * q) :: rat) \<le> of_int (11 * d)" "(of_int (11 * d) :: rat) \<le> of_int (10 * q + 9)"
    unfolding of_int_le_iff by (simp_all add: q_def)
  then have Q: "10 * of_int q \<le> (11 * of_int d :: rat)" "(11 * of_int d :: rat) \<le> 10 * of_int q + 9"
    by simp_all
  have "of_int q \<le> x" using Q(1) d by (simp add: x_def lit_1_1_eq)
  then have lo: "of_int q \<le> rnd_pos x" by (rule rnd_pos_ge_int [OF x0 xlt])
  have "rnd_pos x \<le> x + x / 2 ^ 53" using rnd_pos_error [OF x0] by (simp only: abs_le_iff) linarith
  also have "\<dots> < of_int q + 1" using Q(2) d d48 by (simp add: x_def lit_1_1_eq)
  finally have hi: "rnd_pos x < of_int q + 1" .
  have "0 \<le> q" using assms by (simp add: q_def)
  then have "\<not> rnd_pos x < 0" using lo by (metis not_less of_int_0_le_iff order_trans)
  moreover have "\<lfloor>rnd_pos x\<rfloor> = q" using lo hi by (simp add: floor_eq_iff)
  ultimately show ?thesis
    using x0 by (simp add: times_1_1_def f_mul_def fd x_def [symmetric] rnd64_def f_trunc_def q_def)
qed

lemma times_1_1_mono_bounds:
  assumes "0 \<le> d" "d < 2 ^ 48"
  shows "d \<le> times_1_1 d" "0 \<le> times_1_1 d"
  using times_1_1_eq [OF assms] assms by auto

end
