(* ===== verification/Rtt.thy ===== *)
theory Rtt
  imports Clock Float64
begin

text \<open>
  The round-trip-time estimator, \<^verbatim>\<open>src/internal/rtt/rtt.go\<close>: libRIST's
  \<open>eight_times_rtt\<close> moving average and the raw last sample, the clamp applied at every
  read, and the 1.1-fold retry interval. The estimator is an immutable value in the
  source, so \<open>Observe\<close> is a function here.
\<close>

definition ristRTTMinFloorMs :: int where "ristRTTMinFloorMs = 3"
definition rttMinFloor :: Microseconds where "rttMinFloor = ristRTTMinFloorMs * Millisecond"

definition effectiveRTTMin :: "Microseconds \<Rightarrow> Microseconds" where
  "effectiveRTTMin rttMin = (if rttMin < rttMinFloor then rttMinFloor else rttMin)"

record Estimator =
  eightTimesRTT :: Microseconds
  lastSample :: Microseconds

definition Estimator_New :: "Microseconds \<Rightarrow> Estimator" where
  "Estimator_New rttMin =
     (let rttMin = (if rttMin < 0 then 0 else rttMin)
      in \<lparr>eightTimesRTT = rttMin * 8, lastSample = 0\<rparr>)"

definition Observe :: "Estimator \<Rightarrow> Microseconds \<Rightarrow> Estimator" where
  "Observe e sample =
     (let sample = (if sample < 0 then 0 else sample);
          e = e\<lparr>lastSample := sample\<rparr>;
          e = e\<lparr>eightTimesRTT := eightTimesRTT e - quot (eightTimesRTT e) 8\<rparr>
      in e\<lparr>eightTimesRTT := eightTimesRTT e + sample\<rparr>)"

definition Smoothed :: "Estimator \<Rightarrow> Microseconds" where
  "Smoothed e = quot (eightTimesRTT e) 8"

definition clamp :: "Microseconds \<Rightarrow> Microseconds \<Rightarrow> Microseconds \<Rightarrow> Microseconds" where
  "clamp rtt rttMin rttMax = (if rtt < rttMin then rttMin else if rtt > rttMax then rttMax else rtt)"

definition Clamped :: "Estimator \<Rightarrow> Microseconds \<Rightarrow> Microseconds \<Rightarrow> Microseconds" where
  "Clamped e rttMin rttMax = clamp (Smoothed e) (effectiveRTTMin rttMin) rttMax"

definition Last :: "Estimator \<Rightarrow> Microseconds" where
  "Last e = lastSample e"

definition LastClamped :: "Estimator \<Rightarrow> Microseconds \<Rightarrow> Microseconds \<Rightarrow> Microseconds" where
  "LastClamped e rttMin rttMax = clamp (lastSample e) (effectiveRTTMin rttMin) rttMax"

definition RetryInterval :: "Estimator \<Rightarrow> Microseconds \<Rightarrow> Microseconds \<Rightarrow> Microseconds" where
  "RetryInterval e rttMin rttMax = times_1_1 (Clamped e rttMin rttMax)"

section \<open>The estimator's invariant\<close>

definition est_inv :: "Estimator \<Rightarrow> bool" where
  "est_inv e \<longleftrightarrow> 0 \<le> eightTimesRTT e \<and> 0 \<le> lastSample e"

lemma est_inv_New [simp]: "est_inv (Estimator_New m)"
  by (simp add: est_inv_def Estimator_New_def Let_def)

lemma est_inv_Observe [simp]: "est_inv e \<Longrightarrow> est_inv (Observe e s)"
  by (auto simp: est_inv_def Observe_def Let_def quot_nonneg)

lemma Smoothed_New: "0 \<le> m \<Longrightarrow> Smoothed (Estimator_New m) = m"
  by (simp add: Smoothed_def Estimator_New_def Let_def quot_nonneg)

lemma clamp_bounds: "lo \<le> hi \<Longrightarrow> lo \<le> clamp x lo hi \<and> clamp x lo hi \<le> hi"
  by (simp add: clamp_def)

lemma Clamped_bounds:
  assumes "rttMin \<le> rttMax" "3000 \<le> rttMax"
  shows "3000 \<le> Clamped e rttMin rttMax" "rttMin \<le> Clamped e rttMin rttMax" "Clamped e rttMin rttMax \<le> rttMax"
  using assms
  by (simp_all add: Clamped_def clamp_def effectiveRTTMin_def rttMinFloor_def ristRTTMinFloorMs_def Millisecond_def)

lemma LastClamped_bounds:
  assumes "rttMin \<le> rttMax" "3000 \<le> rttMax"
  shows "3000 \<le> LastClamped e rttMin rttMax" "rttMin \<le> LastClamped e rttMin rttMax"
    "LastClamped e rttMin rttMax \<le> rttMax"
  using assms
  by (simp_all add: LastClamped_def clamp_def effectiveRTTMin_def rttMinFloor_def ristRTTMinFloorMs_def Millisecond_def)

text \<open>One observation keeps the average between bounds that contain it and the sample.\<close>

lemma Observe_bounds:
  assumes "0 \<le> lo" "8 * lo \<le> eightTimesRTT e" "eightTimesRTT e \<le> 8 * hi + 7" "lo \<le> s" "s \<le> hi"
  shows "8 * lo \<le> eightTimesRTT (Observe e s)" "eightTimesRTT (Observe e s) \<le> 8 * hi + 7"
proof -
  have x: "0 \<le> eightTimesRTT e" using assms by linarith
  have "eightTimesRTT (Observe e s) = eightTimesRTT e - eightTimesRTT e div 8 + s"
    using x assms by (simp add: Observe_def Let_def quot_nonneg)
  then show "8 * lo \<le> eightTimesRTT (Observe e s)" "eightTimesRTT (Observe e s) \<le> 8 * hi + 7"
    using assms by linarith+
qed

section \<open>Properties\<close>

text \<open>the moving average never leaves the range of what it was fed: if the cold-start
  value and every sample lie in \<open>[lo, hi]\<close>, so does the smoothed RTT after any sequence
  of observations.
\<close>

theorem smoothed_within_samples:
  assumes "0 \<le> lo" "lo \<le> rttMin" "rttMin \<le> hi" "\<forall>s \<in> set samples. lo \<le> s \<and> s \<le> hi"
  shows "lo \<le> Smoothed (foldl Observe (Estimator_New rttMin) samples) \<and>
    Smoothed (foldl Observe (Estimator_New rttMin) samples) \<le> hi"
proof -
  have fold: "8 * lo \<le> eightTimesRTT (foldl Observe e samples) \<and> eightTimesRTT (foldl Observe e samples) \<le> 8 * hi + 7"
    if "8 * lo \<le> eightTimesRTT e" "eightTimesRTT e \<le> 8 * hi + 7" for e
    using that assms(4)
  proof (induction samples arbitrary: e)
    case (Cons s ss)
    then show ?case using Observe_bounds [OF assms(1), of e hi s] by simp
  qed simp
  have "8 * lo \<le> eightTimesRTT (Estimator_New rttMin)" "eightTimesRTT (Estimator_New rttMin) \<le> 8 * hi + 7"
    using assms by (simp_all add: Estimator_New_def Let_def)
  from fold [OF this] show ?thesis
    using assms(1) by (simp add: Smoothed_def quot_nonneg) linarith
qed

theorem smoothed_within_samples_witness:
  "5000 \<le> Smoothed (foldl Observe (Estimator_New 5000) [80000, 20000, 7000]) \<and>
   Smoothed (foldl Observe (Estimator_New 5000) [80000, 20000, 7000]) \<le> 80000"
  using smoothed_within_samples [of 5000 5000 80000 "[80000, 20000, 7000]"] by simp

text \<open>C40: the NACK retry interval, computed in floating point, equals the integer
  \<open>c + c div 10\<close> of the clamped RTT \<open>c\<close> whenever the configured maximum is below
  \<open>2^48\<close> microseconds, and never falls below 3300 microseconds.
\<close>

theorem retry_interval_exact:
  assumes "rttMin \<le> rttMax" "3000 \<le> rttMax" "rttMax < 2 ^ 48"
  shows "RetryInterval e rttMin rttMax = Clamped e rttMin rttMax + Clamped e rttMin rttMax div 10 \<and>
    3300 \<le> RetryInterval e rttMin rttMax"
proof -
  note b = Clamped_bounds [OF assms(1,2), of e]
  have "RetryInterval e rttMin rttMax = Clamped e rttMin rttMax + Clamped e rttMin rttMax div 10"
    unfolding RetryInterval_def by (rule times_1_1_eq) (use b assms(3) in linarith)+
  moreover have "3300 \<le> Clamped e rttMin rttMax + Clamped e rttMin rttMax div 10"
    using b(1) by linarith
  ultimately show ?thesis by simp
qed

theorem retry_interval_exact_witness:
  "RetryInterval (Estimator_New 5000) 5000 500000 = 5500"
proof -
  have "Clamped (Estimator_New 5000) 5000 500000 = 5000"
    by (simp add: Clamped_def Smoothed_New clamp_def effectiveRTTMin_def rttMinFloor_def ristRTTMinFloorMs_def Millisecond_def)
  then show ?thesis
    using retry_interval_exact [of 5000 500000 "Estimator_New 5000"] by simp
qed

end
