(* ===== verification/Flow_Types.thy ===== *)
theory Flow_Types
  imports Wire Fifo Clock Rtt
begin

text \<open>
  The data of the flow core: the effects and statistics of
  \<^verbatim>\<open>src/internal/flow/effects.go\<close>, the configuration and the \<open>Flow\<close> struct of
  \<open>flow.go\<close>, the ring slots of \<open>receiver.go\<close> and \<open>sender.go\<close>, and the bitrate
  average of \<open>congestion.go\<close>. Struct fields keep the source's names behind a prefix per
  struct (\<open>sl_\<close> slot, \<open>me_\<close> missing entry, \<open>r_\<close> receiver state, \<open>ss_\<close> sender
  slot, \<open>s_\<close> sender state). The linked missing queue is a list in queue order; the
  source's separate \<open>missingCount\<close> is kept as a field.
\<close>

section \<open>effects.go\<close>

type_synonym TimerID = u32

definition TimerPlayout :: TimerID where "TimerPlayout = 0"
definition TimerNack :: TimerID where "TimerNack = 1"
definition TimerRttEcho :: TimerID where "TimerRttEcho = 2"

lemmas timer_defs = TimerPlayout_def TimerNack_def TimerRttEcho_def

lemma timers_distinct [simp]:
  "TimerPlayout \<noteq> TimerNack" "TimerPlayout \<noteq> TimerRttEcho" "TimerNack \<noteq> TimerRttEcho"
  "TimerNack \<noteq> TimerPlayout" "TimerRttEcho \<noteq> TimerPlayout" "TimerRttEcho \<noteq> TimerNack"
  by (simp_all add: timer_defs)

datatype Output =
    SendMedia (sm_Path: u8) (sm_Pkt: MediaPacket)
  | SendFeedback (sf_Path: u8) (sf_FB: Feedback)
  | SetTimer (st_ID: TimerID) (st_Deadline: Timestamp)
  | ClearTimer (ct_ID: TimerID)

datatype Event =
    Deliver (ev_Seq: u32) (ev_SourceTime: u64) (ev_Payload: bytes) (ev_Discontinuity: bool)
      (ev_Frag: FragRole) (ev_VirtSrcPort: u16) (ev_VirtDstPort: u16)

record Stats =
  Received :: u64
  ReceivedBytes :: u64
  SmoothedRTTUs :: int
  DataBitrateBps :: int
  RetryBitrateBps :: int
  IpsMinUs :: int
  IpsCurUs :: int
  IpsMaxUs :: int
  AvgBufferTimeUs :: int
  Duplicates :: u64
  Reordered :: u64
  RetransmittedReceived :: u64
  Overwritten :: u64
  TooLate :: u64
  TooLateRetransmit :: u64
  Missing :: u64
  NacksSent :: u64
  Recovered :: u64
  RecoveredOneRetry :: u64
  RecoveredTwoNacks :: u64
  RecoveredThreeNacks :: u64
  RecoveredFourNacks :: u64
  RecoveredMoreNacks :: u64
  Abandoned :: u64
  Delivered :: u64
  Lost :: u64
  Discontinuities :: u64
  IgnoredFeedback :: u64
  ClockResync :: u64
  FlowResets :: u64
  FramingResets :: u64
  Sent :: u64
  SentBytes :: u64
  Retransmitted :: u64
  RetransmittedBytes :: u64
  RetransmitSkipped :: u64
  RetransmitSuppressed :: u64
  RetransmitExhausted :: u64
  BandwidthSkipped :: u64
  Anchored :: bool
  ShortSeq :: bool

definition Stats_zero :: Stats where
  "Stats_zero = \<lparr>
     Received = 0, ReceivedBytes = 0, SmoothedRTTUs = 0, DataBitrateBps = 0, RetryBitrateBps = 0,
     IpsMinUs = 0, IpsCurUs = 0, IpsMaxUs = 0, AvgBufferTimeUs = 0, Duplicates = 0, Reordered = 0,
     RetransmittedReceived = 0, Overwritten = 0, TooLate = 0, TooLateRetransmit = 0, Missing = 0,
     NacksSent = 0, Recovered = 0, RecoveredOneRetry = 0, RecoveredTwoNacks = 0,
     RecoveredThreeNacks = 0, RecoveredFourNacks = 0, RecoveredMoreNacks = 0, Abandoned = 0,
     Delivered = 0, Lost = 0, Discontinuities = 0, IgnoredFeedback = 0, ClockResync = 0,
     FlowResets = 0, FramingResets = 0, Sent = 0, SentBytes = 0, Retransmitted = 0,
     RetransmittedBytes = 0, RetransmitSkipped = 0, RetransmitSuppressed = 0,
     RetransmitExhausted = 0, BandwidthSkipped = 0, Anchored = False, ShortSeq = False\<rparr>"

section \<open>flow.go: configuration\<close>

datatype Role = RoleSender | RoleReceiver

datatype TimingMode = TimingSource | TimingArrival | TimingRTC

datatype CongestionMode = CongestionOff | CongestionNormal | CongestionAggressive

record Config =
  RecoveryBufferMin :: Microseconds
  RecoveryBufferMax :: Microseconds
  ReorderBuffer :: Microseconds
  RTTMin :: Microseconds
  RTTMax :: Microseconds
  RTTMultiplier :: int
  MinRetries :: int
  MaxRetries :: int
  RecoveryMaxBitrate :: int
  CongestionControl :: CongestionMode
  ReturnMaxBitrate :: int
  RingSize :: int
  RecoveryDepth :: int
  cfg_SSRC :: u32
  StartSeq :: u32
  cfg_TimingMode :: TimingMode
  NoRecovery :: bool

definition DefaultRingSize :: int where "DefaultRingSize = 2 ^ 16"

definition DefaultConfig :: Config where
  "DefaultConfig = \<lparr>
     RecoveryBufferMin = 1000 * Millisecond, RecoveryBufferMax = 1000 * Millisecond,
     ReorderBuffer = 15 * Millisecond, RTTMin = 5 * Millisecond, RTTMax = 500 * Millisecond,
     RTTMultiplier = 7, MinRetries = 6, MaxRetries = 20, RecoveryMaxBitrate = 100000,
     CongestionControl = CongestionNormal, ReturnMaxBitrate = 0, RingSize = DefaultRingSize,
     RecoveryDepth = 0, cfg_SSRC = 0, StartSeq = 0, cfg_TimingMode = TimingSource,
     NoRecovery = False\<rparr>"

definition RecoveryBuffer :: "Config \<Rightarrow> Microseconds" where
  "RecoveryBuffer c = quot (RecoveryBufferMax c - RecoveryBufferMin c) 2 + RecoveryBufferMin c"

definition mul110 :: "Microseconds \<Rightarrow> Microseconds" where
  "mul110 d = times_1_1 d"

section \<open>congestion.go: the bitrate average\<close>

record bitrateEWMA =
  bytesSlow :: int
  bytesFast :: int
  lastSlow :: Timestamp
  lastFast :: Timestamp
  eightTimesSlow :: int
  eightTimesFast :: int
  seeded :: bool

definition bitrateEWMA_zero :: bitrateEWMA where
  "bitrateEWMA_zero = \<lparr>bytesSlow = 0, bytesFast = 0, lastSlow = 0, lastFast = 0,
     eightTimesSlow = 0, eightTimesFast = 0, seeded = False\<rparr>"

section \<open>receiver.go: ring slots, missing entries, receiver state\<close>

datatype slotState = slotEmpty | slotFilled

record slot =
  sl_payload :: bytes
  sl_sourceTime :: u64
  sl_arrival :: Timestamp
  sl_packetTime :: Timestamp
  sl_outputTime :: Timestamp
  sl_pathSeen :: u64
  sl_seq :: u32
  sl_frag :: FragRole
  sl_virtSrcPort :: u16
  sl_virtDstPort :: u16
  sl_state :: slotState

definition slot_zero :: slot where
  "slot_zero = \<lparr>sl_payload = [], sl_sourceTime = 0, sl_arrival = 0, sl_packetTime = 0,
     sl_outputTime = 0, sl_pathSeen = 0, sl_seq = 0, sl_frag = FragStandalone,
     sl_virtSrcPort = 0, sl_virtDstPort = 0, sl_state = slotEmpty\<rparr>"

record missingEntry =
  me_seq :: u32
  me_path :: u8
  me_nackCount :: int
  me_insertionTime :: Timestamp
  me_nextNack :: Timestamp

record receiverState =
  r_ring :: "slot list"
  r_mask :: u32
  r_started :: bool
  r_offset :: Microseconds
  r_ssrc :: u32
  r_shortSeq :: bool
  r_lastFound :: u32
  r_maxSourceTime :: u64
  r_lastPacketTime :: Timestamp
  r_lastResync :: Timestamp
  r_highest :: u32
  r_deliverNext :: u32
  r_pendingDiscontinuity :: bool
  r_lastPath :: u8
  r_missing :: "missingEntry list"
  r_missingCount :: int
  r_playoutArmed :: bool
  r_playoutDeadline :: Timestamp
  r_nackArmed :: bool
  r_nackSeqsPerSec :: float64
  r_nackTokenBurst :: float64
  r_nackTokens :: float64
  r_nackTokensTime :: Timestamp
  r_senderMaxBuffer :: Microseconds
  r_lossSnap :: u64
  r_recoveredSnap :: u64
  r_ipsLastArrival :: Timestamp
  r_ipsMinUs :: int
  r_ipsCurUs :: int
  r_ipsMaxUs :: int
  r_bufferTimeSum :: int
  r_bufferTimeSamples :: u64

definition receiverState_zero :: receiverState where
  "receiverState_zero = \<lparr>
     r_ring = [], r_mask = 0, r_started = False, r_offset = 0, r_ssrc = 0, r_shortSeq = False,
     r_lastFound = 0, r_maxSourceTime = 0, r_lastPacketTime = 0, r_lastResync = 0, r_highest = 0,
     r_deliverNext = 0, r_pendingDiscontinuity = False, r_lastPath = 0, r_missing = [],
     r_missingCount = 0, r_playoutArmed = False, r_playoutDeadline = 0, r_nackArmed = False,
     r_nackSeqsPerSec = 0, r_nackTokenBurst = 0, r_nackTokens = 0, r_nackTokensTime = 0,
     r_senderMaxBuffer = 0, r_lossSnap = 0, r_recoveredSnap = 0, r_ipsLastArrival = 0,
     r_ipsMinUs = 0, r_ipsCurUs = 0, r_ipsMaxUs = 0, r_bufferTimeSum = 0, r_bufferTimeSamples = 0\<rparr>"

section \<open>sender.go: history slots and sender state\<close>

record senderSlot =
  ss_payload :: bytes
  ss_sourceTime :: u64
  ss_seq :: u32
  ss_transmitCount :: int
  ss_lastRetry :: Timestamp
  ss_retried :: bool
  ss_frag :: FragRole
  ss_state :: slotState

definition senderSlot_zero :: senderSlot where
  "senderSlot_zero = \<lparr>ss_payload = [], ss_sourceTime = 0, ss_seq = 0, ss_transmitCount = 0,
     ss_lastRetry = 0, ss_retried = False, ss_frag = FragStandalone, ss_state = slotEmpty\<rparr>"

record senderState =
  s_ring :: "senderSlot list"
  s_mask :: u32
  s_started :: bool
  s_ssrc :: u32
  s_nextSeq :: u32
  s_txPath :: u8
  s_dataBW :: bitrateEWMA
  s_retryBW :: bitrateEWMA

definition senderState_zero :: senderState where
  "senderState_zero = \<lparr>s_ring = [], s_mask = 0, s_started = False, s_ssrc = 0, s_nextSeq = 0,
     s_txPath = 0, s_dataBW = bitrateEWMA_zero, s_retryBW = bitrateEWMA_zero\<rparr>"

section \<open>flow.go: the Flow struct\<close>

record Flow =
  role :: Role
  cfg :: Config
  recoveryBuffer :: Microseconds
  recoveryBuffer110 :: Microseconds
  missingCounterMax :: u32
  maxNacksPerLoop :: int
  est :: Estimator
  outputs :: "Output fifo"
  events :: "Event fifo"
  stats :: Stats
  receiver :: receiverState
  sender :: senderState

definition push_output :: "Output \<Rightarrow> Flow \<Rightarrow> Flow" where
  "push_output out f = f\<lparr>outputs := fifo_push (outputs f) out\<rparr>"

definition push_event :: "Event \<Rightarrow> Flow \<Rightarrow> Flow" where
  "push_event ev f = f\<lparr>events := fifo_push (events f) ev\<rparr>"

text \<open>Counters are bumped with \<open>count\<close>: \<open>f.stats.X++\<close> is \<open>count X_update f\<close>.\<close>

definition count :: "((u64 \<Rightarrow> u64) \<Rightarrow> Stats \<Rightarrow> Stats) \<Rightarrow> Flow \<Rightarrow> Flow" where
  "count upd f = f\<lparr>stats := upd (\<lambda>n. n + 1) (stats f)\<rparr>"

definition count_by :: "((u64 \<Rightarrow> u64) \<Rightarrow> Stats \<Rightarrow> Stats) \<Rightarrow> u64 \<Rightarrow> Flow \<Rightarrow> Flow" where
  "count_by upd k f = f\<lparr>stats := upd (\<lambda>n. n + k) (stats f)\<rparr>"

lemma push_output_simps [simp, state_simps]:
  "role (push_output x f) = role f" "cfg (push_output x f) = cfg f"
  "recoveryBuffer (push_output x f) = recoveryBuffer f"
  "recoveryBuffer110 (push_output x f) = recoveryBuffer110 f"
  "missingCounterMax (push_output x f) = missingCounterMax f"
  "maxNacksPerLoop (push_output x f) = maxNacksPerLoop f" "est (push_output x f) = est f"
  "outputs (push_output x f) = fifo_push (outputs f) x" "events (push_output x f) = events f"
  "stats (push_output x f) = stats f" "receiver (push_output x f) = receiver f"
  "sender (push_output x f) = sender f"
  by (simp_all add: push_output_def)

lemma push_event_simps [simp, state_simps]:
  "role (push_event x f) = role f" "cfg (push_event x f) = cfg f"
  "recoveryBuffer (push_event x f) = recoveryBuffer f"
  "recoveryBuffer110 (push_event x f) = recoveryBuffer110 f"
  "missingCounterMax (push_event x f) = missingCounterMax f"
  "maxNacksPerLoop (push_event x f) = maxNacksPerLoop f" "est (push_event x f) = est f"
  "outputs (push_event x f) = outputs f" "events (push_event x f) = fifo_push (events f) x"
  "stats (push_event x f) = stats f" "receiver (push_event x f) = receiver f"
  "sender (push_event x f) = sender f"
  by (simp_all add: push_event_def)

lemma count_simps [simp, state_simps]:
  "role (count u f) = role f" "cfg (count u f) = cfg f"
  "recoveryBuffer (count u f) = recoveryBuffer f"
  "recoveryBuffer110 (count u f) = recoveryBuffer110 f"
  "missingCounterMax (count u f) = missingCounterMax f"
  "maxNacksPerLoop (count u f) = maxNacksPerLoop f" "est (count u f) = est f"
  "outputs (count u f) = outputs f" "events (count u f) = events f"
  "stats (count u f) = u (\<lambda>n. n + 1) (stats f)" "receiver (count u f) = receiver f"
  "sender (count u f) = sender f"
  by (simp_all add: count_def)

lemma count_by_simps [simp, state_simps]:
  "role (count_by u k f) = role f" "cfg (count_by u k f) = cfg f"
  "recoveryBuffer (count_by u k f) = recoveryBuffer f"
  "recoveryBuffer110 (count_by u k f) = recoveryBuffer110 f"
  "missingCounterMax (count_by u k f) = missingCounterMax f"
  "maxNacksPerLoop (count_by u k f) = maxNacksPerLoop f" "est (count_by u k f) = est f"
  "outputs (count_by u k f) = outputs f" "events (count_by u k f) = events f"
  "stats (count_by u k f) = u (\<lambda>n. n + k) (stats f)" "receiver (count_by u k f) = receiver f"
  "sender (count_by u k f) = sender f"
  by (simp_all add: count_by_def)

lemma mul110_eq: "0 \<le> d \<Longrightarrow> d < 2 ^ 48 \<Longrightarrow> mul110 d = d + d div 10"
  by (simp add: mul110_def times_1_1_eq)

lemma RecoveryBuffer_between:
  assumes "RecoveryBufferMin c \<le> RecoveryBufferMax c"
  shows "RecoveryBufferMin c \<le> RecoveryBuffer c" "RecoveryBuffer c \<le> RecoveryBufferMax c"
  using assms by (simp_all add: RecoveryBuffer_def quot_nonneg)

end
