(* ===== verification/Flow_Setup.thy ===== *)
theory Flow_Setup
  imports Flow_Types
begin

text \<open>
  Sizing and pacing of the flow core: the derived limits and the bitrate averages of
  \<^verbatim>\<open>src/internal/flow/congestion.go\<close>, and ring sizing and construction from
  \<open>flow.go\<close> (\<open>deriveRingSize\<close>, \<open>nextPow2\<close>, \<open>New\<close>).
\<close>

section \<open>congestion.go\<close>

definition ristHeaderOverheadBytes :: int where "ristHeaderOverheadBytes = 28"
definition ristNackMtuAssumed :: int where "ristNackMtuAssumed = 1400"
definition ristMaxJitterMs :: int where "ristMaxJitterMs = 5"
definition ristMaxNacks :: nat where "ristMaxNacks = 200"
definition ristNackBytesPerSeq :: int where "ristNackBytesPerSeq = 4"
definition bitrateSlowWindowUs :: int where "bitrateSlowWindowUs = 1000000"
definition bitrateFastWindowUs :: int where "bitrateFastWindowUs = 100000"

definition deriveMissingCounterMax :: "Config \<Rightarrow> u32" where
  "deriveMissingCounterMax c =
     (let recoveryMs = quot (RecoveryBuffer c) Millisecond;
          mbps = quot (RecoveryMaxBitrate c) 1000;
          mbps = (if mbps < 1 then 1 else mbps);
          v = quot (recoveryMs * mbps) ristHeaderOverheadBytes
      in if v < 0 then 0 else word_of_int v)"

definition deriveMaxNacksPerLoop :: "Config \<Rightarrow> int" where
  "deriveMaxNacksPerLoop c =
     (let kbps = RecoveryMaxBitrate c;
          kbps = (if kbps \<le> 0 then 100000 else kbps);
          bufMaxMs = quot (RecoveryBufferMax c) Millisecond;
          bufMaxMs = (if bufMaxMs \<le> 0 then 1000 else bufMaxMs);
          n = quot (kbps * ristMaxJitterMs) (8 * ristNackMtuAssumed);
          n = quot (n * 1000) bufMaxMs;
          n = (if n = 0 then 1 else n)
      in n * 2)"

definition ewma_feed :: "bitrateEWMA \<Rightarrow> Timestamp \<Rightarrow> int \<Rightarrow> bitrateEWMA" where
  "ewma_feed b now n =
     (let b = (if \<not> seeded b then b\<lparr>lastSlow := now, lastFast := now, seeded := True\<rparr> else b);
          b = b\<lparr>bytesSlow := bytesSlow b + n\<rparr>;
          b = b\<lparr>bytesFast := bytesFast b + n\<rparr>;
          elapsed = Timestamp_Sub now (lastSlow b);
          b = (if elapsed \<ge> bitrateSlowWindowUs
               then let sample = quot (8 * bytesSlow b * 1000000) elapsed
                    in b\<lparr>eightTimesSlow := eightTimesSlow b + (sample - quot (eightTimesSlow b) 8),
                         lastSlow := now, bytesSlow := 0\<rparr>
               else b);
          elapsed = Timestamp_Sub now (lastFast b)
      in if elapsed \<ge> bitrateFastWindowUs
         then let sample = quot (8 * bytesFast b * 1000000) elapsed
              in b\<lparr>eightTimesFast := eightTimesFast b + (sample - quot (eightTimesFast b) 8),
                   lastFast := now, bytesFast := 0\<rparr>
         else b)"

definition slowBps :: "bitrateEWMA \<Rightarrow> int" where "slowBps b = quot (eightTimesSlow b) 8"
definition fastBps :: "bitrateEWMA \<Rightarrow> int" where "fastBps b = quot (eightTimesFast b) 8"

definition overBudget :: "CongestionMode \<Rightarrow> bitrateEWMA \<Rightarrow> bitrateEWMA \<Rightarrow> int \<Rightarrow> bool" where
  "overBudget mode data retry maxKbps =
     (case mode of
        CongestionOff \<Rightarrow> False
      | CongestionAggressive \<Rightarrow> fastBps data + fastBps retry > maxKbps * 1000
      | CongestionNormal \<Rightarrow> slowBps data + fastBps retry > maxKbps * 1000)"

definition wireBytes :: "int \<Rightarrow> int" where
  "wireBytes payloadLen = payloadLen + ristHeaderOverheadBytes"

section \<open>flow.go: ring sizing\<close>

definition maxDerivedRingSize :: int where "maxDerivedRingSize = 2 ^ 21"
definition ringPacketBytes :: int where "ringPacketBytes = 1100"
definition nackCadence :: Microseconds where "nackCadence = 5 * Millisecond"
definition rttEchoInterval :: Microseconds where "rttEchoInterval = 100 * Millisecond"

definition deriveRingSize :: "Config \<Rightarrow> int" where
  "deriveRingSize c =
     (let windowUs = RecoveryBufferMax c + 2 * RTTMin c;
          rb = RecoveryBuffer c;
          windowUs = (if rb > windowUs then rb else windowUs);
          kbps = RecoveryMaxBitrate c;
          kbps = (if kbps \<le> 0 then 100000 else kbps);
          packets = quot (windowUs * kbps) (8000 * ringPacketBytes);
          floor = DefaultRingSize;
          floor = (if RecoveryDepth c > 0
                   then let d = i64 (push_bit (nat (RecoveryDepth c)) (word_of_int DefaultRingSize))
                        in if d > floor then d else floor
                   else floor);
          packets = (if packets < floor then floor else packets)
      in if packets > maxDerivedRingSize then maxDerivedRingSize else packets)"

text \<open>The loop of \<open>nextPow2\<close>; its counter starts at 1, so the guard \<open>0 < p\<close> always holds.\<close>

function nextPow2_loop :: "int \<Rightarrow> int \<Rightarrow> int" where
  "nextPow2_loop p n = (if 0 < p \<and> p < n then nextPow2_loop (p * 2) n else p)"
  by pat_completeness auto
termination
  by (relation "measure (\<lambda>(p, n). nat (n - p))") auto

declare nextPow2_loop.simps [simp del]

definition nextPow2 :: "int \<Rightarrow> int" where
  "nextPow2 n = nextPow2_loop 1 n"

section \<open>flow.go: construction\<close>

definition MaxInt64 :: int where "MaxInt64 = 9223372036854775807"

definition Flow_New :: "Role \<Rightarrow> Config \<Rightarrow> Flow" where
  "Flow_New rl c =
     (let f = \<lparr>role = rl, cfg = c, recoveryBuffer = RecoveryBuffer c, recoveryBuffer110 = 0,
               missingCounterMax = 0, maxNacksPerLoop = 0, est = Estimator_New (RTTMin c),
               outputs = fifo_empty, events = fifo_empty, stats = Stats_zero,
               receiver = receiverState_zero, sender = senderState_zero\<rparr>;
          f = f\<lparr>recoveryBuffer110 := mul110 (recoveryBuffer f)\<rparr>;
          f = f\<lparr>missingCounterMax := deriveMissingCounterMax c\<rparr>;
          f = f\<lparr>maxNacksPerLoop := deriveMaxNacksPerLoop c\<rparr>;
          size = RingSize c;
          size = (if size \<le> 0 then deriveRingSize c else size);
          size = nextPow2 size
      in case rl of
           RoleReceiver \<Rightarrow>
             (let r = (receiver f)\<lparr>r_ring := replicate (nat size) slot_zero,
                                   r_mask := word_of_int (size - 1), r_ipsMinUs := MaxInt64\<rparr>;
                  r = (if ReturnMaxBitrate c > 0
                       then r\<lparr>r_nackSeqsPerSec :=
                                f_div (f_div (f_mul (f_of_int (ReturnMaxBitrate c)) 1000) 8)
                                  (of_int ristNackBytesPerSeq),
                              r_nackTokenBurst := of_nat ristMaxNacks,
                              r_nackTokens := of_nat ristMaxNacks\<rparr>
                       else r)
              in f\<lparr>receiver := r\<rparr>)
         | RoleSender \<Rightarrow>
             f\<lparr>sender := (sender f)\<lparr>s_ring := replicate (nat size) senderSlot_zero,
                                   s_mask := word_of_int (size - 1), s_ssrc := cfg_SSRC c,
                                   s_nextSeq := StartSeq c\<rparr>\<rparr>)"

section \<open>Ring geometry\<close>

text \<open>The index expression \<open>ring[seq\&mask]\<close> of both rings.\<close>

definition ring_idx :: "u32 \<Rightarrow> u32 \<Rightarrow> nat" where
  "ring_idx m s = unat (s AND m)"

definition ring_geom :: "'a list \<Rightarrow> u32 \<Rightarrow> bool" where
  "ring_geom ring m \<longleftrightarrow> (\<exists>k. length ring = 2 ^ k \<and> m = mask k)"

lemma ring_idx_mod: "ring_idx (mask k) s = unat s mod 2 ^ k"
  by (simp add: ring_idx_def)

lemma ring_idx_bound: "ring_geom ring m \<Longrightarrow> ring_idx m s < length ring"
  by (auto simp: ring_geom_def ring_idx_mod)

lemma ring_geom_update [simp]: "ring_geom (ring[i := x]) m = ring_geom ring m"
  by (simp add: ring_geom_def)

lemma ring_geom_length: "length ring = length ring' \<Longrightarrow> ring_geom ring m = ring_geom ring' m"
  by (simp add: ring_geom_def)

lemma ring_geom_ge_1: "ring_geom ring m \<Longrightarrow> 1 \<le> length ring"
  by (auto simp: ring_geom_def)

text \<open>Two sequences that share a slot differ by a multiple of the ring size.\<close>

lemma ring_idx_eq_gap:
  assumes "ring_geom ring m" "ring_idx m a = ring_idx m b"
  shows "length ring dvd unat (b - a)"
proof -
  obtain k where k: "length ring = 2 ^ k" "m = mask k" using assms(1) by (auto simp: ring_geom_def)
  have eq: "unat a mod 2 ^ k = unat b mod 2 ^ k" using assms(2) by (simp add: k ring_idx_mod)
  show ?thesis
  proof (cases "unat a \<le> unat b")
    case True
    have "2 ^ k dvd unat b - unat a" using mod_eq_dvd_iff_nat [OF True, of "2 ^ k"] eq by simp
    then show ?thesis using True by (simp add: unat_sub_if' k)
  next
    case False
    then have d: "2 ^ k dvd unat a - unat b" using mod_eq_dvd_iff_nat [of "unat b" "unat a" "2 ^ k"] eq by simp
    moreover have "unat a < 2 ^ 32" by simp
    ultimately have "2 ^ k \<le> (2 ^ 32 :: nat)"
      using False by (metis dvd_imp_le le_less_trans less_imp_le nat_less_le diff_le_self not_le zero_less_diff)
    then have "k \<le> 32" by (rule power_le_imp_le_exp [rotated]) simp
    then have "(2 ^ k :: nat) dvd 2 ^ 32" by (rule le_imp_power_dvd)
    then have "2 ^ k dvd 2 ^ 32 - (unat a - unat b)" using d by (rule dvd_diff_nat)
    moreover have "2 ^ 32 - (unat a - unat b) = unat b + 2 ^ 32 - unat a"
      using False by simp
    ultimately show ?thesis using False by (simp add: unat_sub_if' k)
  qed
qed

lemma nextPow2_loop_pow: "\<exists>j. nextPow2_loop (2 ^ i) n = 2 ^ j \<and> n \<le> 2 ^ j \<and> (j = i \<or> 2 ^ j < 2 * n)"
proof (induction "nat (n - 2 ^ i)" arbitrary: i rule: less_induct)
  case less
  show ?case
  proof (cases "2 ^ i < n")
    case True
    then have "nextPow2_loop (2 ^ i) n = nextPow2_loop (2 ^ Suc i) n"
      by (subst nextPow2_loop.simps) (simp add: mult.commute)
    moreover obtain j where "nextPow2_loop (2 ^ Suc i) n = 2 ^ j" "n \<le> 2 ^ j" "j = Suc i \<or> 2 ^ j < 2 * n"
      using less [of "Suc i"] True by auto
    ultimately show ?thesis using True by auto
  next
    case False
    then show ?thesis by (subst nextPow2_loop.simps) auto
  qed
qed

lemma nextPow2_spec: "\<exists>j. nextPow2 n = 2 ^ j \<and> n \<le> 2 ^ j \<and> (j = 0 \<or> 2 ^ j < 2 * n)"
  using nextPow2_loop_pow [of 0 n] by (simp add: nextPow2_def)

lemma nextPow2_geom:
  "ring_geom (replicate (nat (nextPow2 n)) x) (word_of_int (nextPow2 n - 1))"
proof -
  obtain j where "nextPow2 n = 2 ^ j" using nextPow2_spec by blast
  then show ?thesis
    by (auto simp: ring_geom_def mask_eq_exp_minus_1 nat_power_eq intro!: exI [of _ j])
qed

end
