(* ===== verification/Seq_Ring.thy ===== *)
theory Seq_Ring
  imports Flow_Setup
begin

text \<open>
  The contract both flow rings offer their clients: a store keyed by 32-bit sequence
  numbers whose slots are reused every \<open>size\<close> sequences. \<open>get\<close> answers for exactly the
  sequence that was put last into a slot, \<open>entry s x\<close> says that \<open>x\<close> may be stored under
  \<open>s\<close>. The sender's retransmit history and the receiver's playout ring both provide it.
\<close>

lemma unat_gap_back:
  assumes "0 < n" "n < 2 ^ 32"
  shows "unat ((s :: u32) - (s + of_nat n)) = 2 ^ 32 - n"
proof -
  have n: "unat (of_nat n :: u32) = n" using assms by (simp add: unat_of_nat)
  have "unat (0 - (of_nat n :: u32)) = 2 ^ 32 - n"
    unfolding unat_sub_if' n using assms by simp
  then show ?thesis by simp
qed

lemma ring_dvd:
  assumes "ring_geom ring m" "length ring \<le> 2 ^ 32"
  shows "length ring dvd 2 ^ 32"
proof -
  obtain k where k: "length ring = 2 ^ k" using assms(1) by (auto simp: ring_geom_def)
  then have "(2 :: nat) ^ k \<le> 2 ^ 32" using assms(2) by (simp only:)
  then have "k \<le> 32" by (rule power_le_imp_le_exp [rotated]) simp
  then show ?thesis unfolding k by (rule le_imp_power_dvd)
qed

lemma ring_idx_eq_iff:
  assumes "ring_geom ring m" "length ring \<le> 2 ^ 32"
  shows "ring_idx m a = ring_idx m b \<longleftrightarrow> length ring dvd unat (b - a)"
proof
  obtain k where k: "length ring = 2 ^ k" "m = mask k" using assms(1) by (auto simp: ring_geom_def)
  assume d: "length ring dvd unat (b - a)"
  have "unat b = unat (a + (b - a))" by simp
  also have "\<dots> = (unat a + unat (b - a)) mod 2 ^ 32" by (simp only: unat_word_ariths) simp
  finally have "unat b mod length ring = (unat a + unat (b - a)) mod length ring"
    using mod_mod_cancel [OF ring_dvd [OF assms]] by simp
  also have "\<dots> = unat a mod length ring" using d by (metis dvd_eq_mod_eq_0 mod_add_right_eq add_0_right)
  finally show "ring_idx m a = ring_idx m b" by (simp add: k ring_idx_mod)
qed (rule ring_idx_eq_gap [OF assms(1)])

locale seq_ring =
  fixes get :: "'r \<Rightarrow> u32 \<Rightarrow> 'x option"
    and put :: "'r \<Rightarrow> u32 \<Rightarrow> 'x \<Rightarrow> 'r"
    and entry :: "u32 \<Rightarrow> 'x \<Rightarrow> bool"
    and size :: "'r \<Rightarrow> nat"
    and inv :: "'r \<Rightarrow> bool"
  assumes get_put_same: "inv r \<Longrightarrow> entry s x \<Longrightarrow> get (put r s x) s = Some x"
    and get_put_other: "inv r \<Longrightarrow> entry s x \<Longrightarrow> \<not> size r dvd unat (t - s) \<Longrightarrow> get (put r s x) t = get r t"
    and get_put_evict: "inv r \<Longrightarrow> entry s x \<Longrightarrow> size r dvd unat (t - s) \<Longrightarrow> t \<noteq> s \<Longrightarrow> get (put r s x) t = None"
    and inv_put: "inv r \<Longrightarrow> entry s x \<Longrightarrow> inv (put r s x)"
    and size_put: "size (put r s x) = size r"
    and size_dvd: "inv r \<Longrightarrow> size r dvd 2 ^ 32"
begin

primrec put_seq :: "'r \<Rightarrow> u32 \<Rightarrow> 'x list \<Rightarrow> 'r" where
  "put_seq r s [] = r"
| "put_seq r s (x # xs) = put_seq (put r s x) (s + 1) xs"

definition entries :: "u32 \<Rightarrow> 'x list \<Rightarrow> bool" where
  "entries s xs \<longleftrightarrow> (\<forall>i<length xs. entry (s + of_nat i) (xs ! i))"

lemma entries_Cons: "entries s (x # xs) \<longleftrightarrow> entry s x \<and> entries (s + 1) xs"
  unfolding entries_def
  by (auto simp: less_Suc_eq_0_disj ac_simps)

lemma size_put_seq: "size (put_seq r s xs) = size r"
  by (induction xs arbitrary: r s) (simp_all add: size_put)

lemma inv_put_seq: "inv r \<Longrightarrow> entries s xs \<Longrightarrow> inv (put_seq r s xs)"
  by (induction xs arbitrary: r s) (simp_all add: inv_put entries_Cons)

text \<open>A sequence put less than one ring size ago shares its slot with none put since.\<close>

lemma gap_not_dvd:
  assumes "inv r" "0 < n" "n < size r"
  shows "\<not> size r dvd unat ((s :: u32) - (s + of_nat n))"
proof
  assume d: "size r dvd unat (s - (s + of_nat n))"
  have le: "size r \<le> 2 ^ 32" using size_dvd [OF assms(1)] by (rule dvd_imp_le) simp
  then have "unat (s - (s + of_nat n)) = 2 ^ 32 - n"
    using assms by (intro unat_gap_back) simp_all
  then have "size r dvd 2 ^ 32 - n" using d by simp
  then have "size r dvd n"
    using size_dvd [OF assms(1)] assms(3) le dvd_diffD [of "size r" "2 ^ 32" n]
    by (metis dvd_diffD1 less_le_trans less_imp_le)
  then show False using assms(2,3) by (auto dest: dvd_imp_le)
qed

lemma get_put_seq_before:
  "inv r \<Longrightarrow> entries (s + of_nat k) xs \<Longrightarrow> 0 < k \<Longrightarrow> k + length xs \<le> size r \<Longrightarrow>
   get (put_seq r (s + of_nat k) xs) s = get r s"
proof (induction xs arbitrary: r k)
  case (Cons x xs)
  have e: "entry (s + of_nat k) x" "entries (s + of_nat (Suc k)) xs"
    using Cons.prems(2) by (simp_all add: entries_Cons ac_simps)
  have "get (put_seq (put r (s + of_nat k) x) (s + of_nat (Suc k)) xs) s = get (put r (s + of_nat k) x) s"
    using Cons.prems(3,4) by (intro Cons.IH inv_put Cons.prems(1) e) (simp_all add: size_put)
  also have "\<dots> = get r s"
    using Cons.prems(3,4) by (intro get_put_other gap_not_dvd Cons.prems(1) e) simp_all
  finally show ?case by (simp add: ac_simps)
qed simp

text \<open>Of consecutively stored entries, the last \<open>size\<close> ones are all retrievable.\<close>

lemma window:
  assumes "inv r" "entries s xs" "i < length xs" "length xs \<le> i + size r"
  shows "get (put_seq r s xs) (s + of_nat i) = Some (xs ! i)"
  using assms
proof (induction i arbitrary: r s xs)
  case 0
  then obtain x ys where xs: "xs = x # ys" by (cases xs) auto
  then have "get (put_seq (put r s x) (s + of_nat 1) ys) s = get (put r s x) s"
    using 0 by (intro get_put_seq_before inv_put) (auto simp: entries_Cons size_put)
  then show ?case using 0 xs by (simp add: get_put_same entries_Cons)
next
  case (Suc i)
  then obtain x ys where xs: "xs = x # ys" by (cases xs) auto
  have "get (put_seq (put r s x) (s + 1) ys) (s + 1 + of_nat i) = Some (ys ! i)"
    using Suc.prems xs by (intro Suc.IH inv_put) (auto simp: entries_Cons size_put)
  then show ?case using xs by (simp add: ac_simps)
qed

text \<open>An entry put a whole ring size ago is gone.\<close>

lemma evicted:
  assumes "inv r" "entry (s + of_nat (size r)) x" "of_nat (size r) \<noteq> (0 :: u32)"
  shows "get (put r (s + of_nat (size r)) x) s = None"
proof -
  have le: "size r \<le> 2 ^ 32" using size_dvd [OF assms(1)] by (rule dvd_imp_le) simp
  have "size r \<noteq> 2 ^ 32"
  proof
    assume "size r = 2 ^ 32"
    then have "of_nat (size r) = (of_nat (2 ^ 32) :: u32)" by (simp only:)
    then show False using assms(3) by simp
  qed
  moreover have "size r \<noteq> 0" using assms(3) by (cases "size r = 0") simp_all
  ultimately have "unat (s - (s + of_nat (size r))) = 2 ^ 32 - size r"
    using le by (intro unat_gap_back) simp_all
  then have "size r dvd unat (s - (s + of_nat (size r)))"
    using size_dvd [OF assms(1)] by (simp add: dvd_diff_nat)
  then show ?thesis using assms by (intro get_put_evict) auto
qed

lemma get_put_None:
  "inv r \<Longrightarrow> entry s x \<Longrightarrow> t \<noteq> s \<Longrightarrow> get r t = None \<Longrightarrow> get (put r s x) t = None"
  by (cases "size r dvd unat (t - s)") (simp_all add: get_put_evict get_put_other)

lemma get_put_seq_None:
  "inv r \<Longrightarrow> entries s xs \<Longrightarrow> get r t = None \<Longrightarrow> (\<forall>i<length xs. t \<noteq> s + of_nat i) \<Longrightarrow>
   get (put_seq r s xs) t = None"
proof (induction xs arbitrary: r s)
  case (Cons x xs)
  have ne: "t \<noteq> s" "\<forall>i<length xs. t \<noteq> s + 1 + of_nat i"
    using Cons.prems(4) by (force, metis Suc_less_eq add.assoc length_Cons of_nat_Suc)
  show ?case
    using Cons.prems(1-3) ne by (simp add: Cons.IH inv_put entries_Cons get_put_None)
qed simp

lemma put_seq_append: "put_seq r s (xs @ ys) = put_seq (put_seq r s xs) (s + of_nat (length xs)) ys"
  by (induction xs arbitrary: r s) (simp_all add: ac_simps)

lemma entries_append:
  "entries s (xs @ ys) \<longleftrightarrow> entries s xs \<and> entries (s + of_nat (length xs)) ys"
  by (induction xs arbitrary: s) (simp_all add: entries_Cons ac_simps, simp add: entries_def)

text \<open>Of consecutively stored entries, those older than \<open>size\<close> are gone.\<close>

lemma expired:
  assumes "inv r" "entries s xs" "i + size r < length xs" "length xs \<le> 2 ^ 32"
  shows "get (put_seq r s xs) (s + of_nat i) = None"
proof -
  let ?n = "i + size r"
  define r1 where "r1 = put_seq r s (take ?n xs)"
  define ys where "ys = drop (Suc ?n) xs"
  have xs: "xs = take ?n xs @ xs ! ?n # ys"
    using assms(3) by (simp add: ys_def id_take_nth_drop)
  have len: "length (take ?n xs) = ?n" using assms(3) by simp
  have e: "entries s (take ?n xs)" "entry (s + of_nat ?n) (xs ! ?n)" "entries (s + of_nat ?n + 1) ys"
    using assms(2) by (subst (asm) xs, simp only: entries_append entries_Cons len)+
  have r1: "inv r1" "size r1 = size r"
    using inv_put_seq [OF assms(1) e(1)] by (simp_all add: r1_def size_put_seq)
  have sz: "of_nat (size r) \<noteq> (0 :: u32)"
  proof -
    have pos: "0 < size r" using size_dvd [OF assms(1)] by (cases "size r = 0") simp_all
    then have "of_nat 0 \<noteq> (of_nat (size r) :: u32)" using assms(3,4) by (intro of_nat_less_neq) simp_all
    then show ?thesis by simp
  qed
  have gone: "get (put r1 (s + of_nat ?n) (xs ! ?n)) (s + of_nat i) = None"
    using evicted [of r1 "s + of_nat i" "xs ! ?n"] r1 e(2) sz by (simp add: ac_simps)
  have "get (put_seq (put r1 (s + of_nat ?n) (xs ! ?n)) (s + of_nat ?n + 1) ys) (s + of_nat i) = None"
  proof (rule get_put_seq_None [OF inv_put [OF r1(1) e(2)] e(3) gone], intro allI impI)
    fix j assume "j < length ys"
    then have "(of_nat i :: u32) \<noteq> of_nat (?n + 1 + j)"
      using assms(3,4) by (intro of_nat_less_neq) (auto simp: ys_def)
    then show "s + of_nat i \<noteq> s + of_nat ?n + 1 + of_nat j" by (simp add: ac_simps)
  qed
  then show ?thesis
    by (subst xs, simp only: put_seq_append len put_seq.simps flip: r1_def)
qed

end

end
