(* ===== verification/Flow_Sender.thy ===== *)
theory Flow_Sender
  imports Seq_Ring "HOL-Library.Sublist"
begin

text \<open>
  The sender half of the flow core, \<^verbatim>\<open>src/internal/flow/sender.go\<close>: the retransmit
  history ring, first transmissions, and the NACK service loop with its gates
  (suppression, bandwidth, retry cap, per-pass budget). Optional arguments of the source
  (nil pointers) are \<open>option\<close> values.
\<close>

section \<open>Operations\<close>

definition history_slot :: "senderState \<Rightarrow> u32 \<Rightarrow> senderSlot" where
  "history_slot s n = s_ring s ! ring_idx (s_mask s) n"

definition history_put :: "senderState \<Rightarrow> u32 \<Rightarrow> senderSlot \<Rightarrow> senderState" where
  "history_put s n x = s\<lparr>s_ring := (s_ring s)[ring_idx (s_mask s) n := x]\<rparr>"

definition pushAppBlock ::
  "Timestamp \<Rightarrow> bytes \<Rightarrow> FragRole \<Rightarrow> u32 option \<Rightarrow> u64 option \<Rightarrow> Flow \<Rightarrow> Flow" where
  "pushAppBlock now payload frag seq sourceTime f =
     (let f = (if \<not> s_started (sender f)
               then let f = f\<lparr>sender := (sender f)\<lparr>s_started := True\<rparr>\<rparr>
                    in if \<not> NoRecovery (cfg f)
                       then push_output (SetTimer TimerRttEcho (Timestamp_Add now rttEchoInterval)) f
                       else f
               else f);
          s = sender f;
          seqn = (case seq of None \<Rightarrow> s_nextSeq s | Some q \<Rightarrow> q);
          s = s\<lparr>s_nextSeq := seqn + 1\<rparr>;
          srcTime = (case sourceTime of None \<Rightarrow> NTPTimeFromTimestamp now | Some t \<Rightarrow> t);
          s = (if \<not> NoRecovery (cfg f)
               then history_put s seqn
                      ((history_slot s seqn)\<lparr>ss_state := slotFilled, ss_seq := seqn,
                         ss_sourceTime := srcTime, ss_payload := payload, ss_transmitCount := 0,
                         ss_retried := False, ss_lastRetry := 0, ss_frag := frag\<rparr>)
               else s);
          f = f\<lparr>sender := s\<rparr>;
          f = push_output (SendMedia (s_txPath s)
                \<lparr>pkt_Seq = seqn, pkt_SourceTime = srcTime, pkt_SSRC = s_ssrc s, pkt_Payload = payload,
                 pkt_Retransmit = False, pkt_PathID = s_txPath s, pkt_Frag = frag,
                 pkt_VirtSrcPort = 0, pkt_VirtDstPort = 0, pkt_ShortSeq = False\<rparr>) f;
          f = f\<lparr>sender := (sender f)\<lparr>s_dataBW :=
                 ewma_feed (s_dataBW (sender f)) now (wireBytes (int (length payload)))\<rparr>\<rparr>;
          f = count Sent_update f
      in count_by SentBytes_update (of_nat (length payload)) f)"

definition pushApp :: "Timestamp \<Rightarrow> bytes \<Rightarrow> FragRole \<Rightarrow> Flow \<Rightarrow> Flow" where
  "pushApp now payload frag f = pushAppBlock now payload frag None None f"

text \<open>The packet a history slot is re-sent as.\<close>

definition resend_pkt :: "senderState \<Rightarrow> senderSlot \<Rightarrow> MediaPacket" where
  "resend_pkt s sl =
     \<lparr>pkt_Seq = ss_seq sl, pkt_SourceTime = ss_sourceTime sl, pkt_SSRC = s_ssrc s,
      pkt_Payload = ss_payload sl, pkt_Retransmit = True, pkt_PathID = s_txPath s,
      pkt_Frag = ss_frag sl, pkt_VirtSrcPort = 0, pkt_VirtDstPort = 0, pkt_ShortSeq = False\<rparr>"

text \<open>One requested sequence: the \<open>switch\<close> of the loop; the flag reports a retransmission.\<close>

definition serviceNack_one :: "Timestamp \<Rightarrow> Microseconds \<Rightarrow> u32 \<Rightarrow> Flow \<Rightarrow> bool \<times> Flow" where
  "serviceNack_one now rtt missing f =
     (let s = sender f; sl = history_slot s missing
      in if ss_state sl \<noteq> slotFilled \<or> ss_seq sl \<noteq> missing then (False, count RetransmitSkipped_update f)
         else if ss_retried sl \<and> Timestamp_Sub now (ss_lastRetry sl) < rtt
              then (False, count RetransmitSuppressed_update f)
         else if overBudget (CongestionControl (cfg f)) (s_dataBW s) (s_retryBW s) (RecoveryMaxBitrate (cfg f))
              then (False, count BandwidthSkipped_update f)
         else if ss_transmitCount sl \<ge> MaxRetries (cfg f) then (False, count RetransmitExhausted_update f)
         else let sl = sl\<lparr>ss_lastRetry := now, ss_retried := True,
                         ss_transmitCount := ss_transmitCount sl + 1\<rparr>;
                  f = f\<lparr>sender := history_put s missing sl\<rparr>;
                  f = push_output (SendMedia (s_txPath s) (resend_pkt s sl)) f;
                  f = f\<lparr>sender := (sender f)\<lparr>s_retryBW :=
                         ewma_feed (s_retryBW (sender f)) now (wireBytes (int (length (ss_payload sl))))\<rparr>\<rparr>;
                  f = count Retransmitted_update f
              in (True, count_by RetransmittedBytes_update (of_nat (length (ss_payload sl))) f))"

fun serviceNack_loop :: "Timestamp \<Rightarrow> Microseconds \<Rightarrow> u32 list \<Rightarrow> int \<Rightarrow> Flow \<Rightarrow> Flow" where
  "serviceNack_loop now rtt [] emitted f = f"
| "serviceNack_loop now rtt (missing # ms) emitted f =
     (case serviceNack_one now rtt missing f of (sent, f') \<Rightarrow>
        if sent
        then if emitted + 1 \<ge> maxNacksPerLoop f' then f'
             else serviceNack_loop now rtt ms (emitted + 1) f'
        else serviceNack_loop now rtt ms emitted f')"

definition retransmitSpacing :: "Flow \<Rightarrow> Microseconds" where
  "retransmitSpacing f =
     (let rtt = LastClamped (est f) (RTTMin (cfg f)) (RTTMax (cfg f))
      in if CongestionControl (cfg f) = CongestionAggressive then rtt * 2 else rtt)"

definition serviceNack :: "Timestamp \<Rightarrow> u32 list \<Rightarrow> Flow \<Rightarrow> Flow" where
  "serviceNack now missing f =
     (let rtt = retransmitSpacing f;
          f = f\<lparr>sender := (sender f)\<lparr>s_dataBW := ewma_feed (s_dataBW (sender f)) now 0,
                                   s_retryBW := ewma_feed (s_retryBW (sender f)) now 0\<rparr>\<rparr>
      in serviceNack_loop now rtt missing 0 f)"

definition senderHandleTimer :: "Timestamp \<Rightarrow> TimerID \<Rightarrow> Flow \<Rightarrow> Flow" where
  "senderHandleTimer now tid f =
     (if tid = TimerRttEcho
      then if s_started (sender f)
           then let f = push_output (SendFeedback (s_txPath (sender f))
                          (RttEchoRequest 0 (NTPTimeFromTimestamp now))) f
                in push_output (SetTimer TimerRttEcho (Timestamp_Add now rttEchoInterval)) f
           else f
      else f)"

section \<open>The history as a sequence ring\<close>

definition history_get :: "senderState \<Rightarrow> u32 \<Rightarrow> senderSlot option" where
  "history_get s n =
     (let sl = history_slot s n
      in if ss_state sl = slotFilled \<and> ss_seq sl = n then Some sl else None)"

definition history_geom :: "senderState \<Rightarrow> bool" where
  "history_geom s \<longleftrightarrow> ring_geom (s_ring s) (s_mask s) \<and> length (s_ring s) \<le> 2 ^ 32"

definition history_entry :: "u32 \<Rightarrow> senderSlot \<Rightarrow> bool" where
  "history_entry n x \<longleftrightarrow> ss_state x = slotFilled \<and> ss_seq x = n"

lemma history_slot_put:
  "history_geom s \<Longrightarrow> history_slot (history_put s n x) m =
     (if length (s_ring s) dvd unat (m - n) then x else history_slot s m)"
  using ring_idx_bound [of "s_ring s" "s_mask s" n] ring_idx_eq_iff [of "s_ring s" "s_mask s" n m]
  by (auto simp: history_geom_def history_slot_def history_put_def)

interpretation hist: seq_ring history_get history_put history_entry "\<lambda>s. length (s_ring s)" history_geom
proof
  fix s :: senderState and n m :: u32 and x :: senderSlot
  assume g: "history_geom s"
  then show "length (s_ring s) dvd 2 ^ 32"
    unfolding history_geom_def by (blast intro: ring_dvd)
  assume e: "history_entry n x"
  then show "history_get (history_put s n x) n = Some x"
    using g by (simp add: history_get_def history_slot_put history_entry_def)
  show "history_geom (history_put s n x)"
    using g by (simp add: history_geom_def history_put_def)
  { assume "\<not> length (s_ring s) dvd unat (m - n)"
    then show "history_get (history_put s n x) m = history_get s m"
      using g by (simp add: history_get_def history_slot_put) }
  { assume "length (s_ring s) dvd unat (m - n)" "m \<noteq> n"
    then show "history_get (history_put s n x) m = None"
      using g e by (simp add: history_get_def history_slot_put history_entry_def) }
qed (simp add: history_put_def)

section \<open>One requested sequence\<close>

text \<open>A stored packet that passes the suppression and retry gates at \<open>now\<close>.\<close>

definition eligible :: "Timestamp \<Rightarrow> Microseconds \<Rightarrow> Flow \<Rightarrow> u32 \<Rightarrow> bool" where
  "eligible now rtt f m \<longleftrightarrow>
     (case history_get (sender f) m of
        None \<Rightarrow> False
      | Some sl \<Rightarrow> \<not> (ss_retried sl \<and> now - ss_lastRetry sl < rtt) \<and> ss_transmitCount sl < MaxRetries (cfg f))"

definition resend_of :: "Flow \<Rightarrow> u32 \<Rightarrow> Output" where
  "resend_of f m = SendMedia (s_txPath (sender f)) (resend_pkt (sender f) (the (history_get (sender f) m)))"

lemma serviceNack_one_skip:
  assumes "serviceNack_one now rtt m f = (False, f')"
  shows "sender f' = sender f" "outputs f' = outputs f" "cfg f' = cfg f"
    "maxNacksPerLoop f' = maxNacksPerLoop f" "Retransmitted (stats f') = Retransmitted (stats f)"
  using assms by (auto simp: serviceNack_one_def Let_def split: if_splits)

lemma serviceNack_one_sent:
  assumes "serviceNack_one now rtt m f = (True, f')"
  shows "eligible now rtt f m" "outputs f' = fifo_push (outputs f) (resend_of f m)"
    "sender f' = (history_put (sender f) m
        ((history_slot (sender f) m)\<lparr>ss_lastRetry := now, ss_retried := True,
           ss_transmitCount := ss_transmitCount (history_slot (sender f) m) + 1\<rparr>))
       \<lparr>s_retryBW := ewma_feed (s_retryBW (sender f)) now
          (wireBytes (int (length (ss_payload (history_slot (sender f) m)))))\<rparr>"
    "cfg f' = cfg f" "maxNacksPerLoop f' = maxNacksPerLoop f"
    "Retransmitted (stats f') = Retransmitted (stats f) + 1"
  using assms
  by (auto simp: serviceNack_one_def Let_def eligible_def resend_of_def history_get_def resend_pkt_def
      history_put_def split: if_splits)

lemma history_get_bw [simp]:
  "history_get (s\<lparr>s_retryBW := b\<rparr>) = history_get s" "history_get (s\<lparr>s_dataBW := b\<rparr>) = history_get s"
  "history_geom (s\<lparr>s_retryBW := b\<rparr>) = history_geom s" "history_geom (s\<lparr>s_dataBW := b\<rparr>) = history_geom s"
  by (simp_all add: history_get_def history_slot_def history_geom_def fun_eq_iff)

lemma history_put_frame [simp]:
  "s_ssrc (history_put s n x) = s_ssrc s" "s_txPath (history_put s n x) = s_txPath s"
  "s_nextSeq (history_put s n x) = s_nextSeq s" "s_started (history_put s n x) = s_started s"
  "s_mask (history_put s n x) = s_mask s" "length (s_ring (history_put s n x)) = length (s_ring s)"
  by (simp_all add: history_put_def)

text \<open>Retransmitting one sequence marks its own entry and leaves every other as it was.\<close>

lemma serviceNack_one_history:
  assumes "serviceNack_one now rtt m f = (True, f')" "history_geom (sender f)"
  shows "history_geom (sender f')"
    "n \<noteq> m \<Longrightarrow> history_get (sender f') n = history_get (sender f) n"
    "\<exists>sl. history_get (sender f') m = Some sl \<and> ss_retried sl \<and> ss_lastRetry sl = now"
proof -
  let ?x = "(history_slot (sender f) m)\<lparr>ss_lastRetry := now, ss_retried := True,
      ss_transmitCount := ss_transmitCount (history_slot (sender f) m) + 1\<rparr>"
  have old: "ss_state (history_slot (sender f) m) = slotFilled" "ss_seq (history_slot (sender f) m) = m"
    using serviceNack_one_sent(1) [OF assms(1)] by (auto simp: eligible_def history_get_def Let_def split: if_splits)
  then have e: "history_entry m ?x" by (simp add: history_entry_def)
  have s: "history_get (sender f') = history_get (history_put (sender f) m ?x)"
    "history_geom (sender f') = history_geom (history_put (sender f) m ?x)"
    using serviceNack_one_sent(3) [OF assms(1)] by simp_all
  show "history_geom (sender f')" using hist.inv_put [OF assms(2) e] s(2) by simp
  show "\<exists>sl. history_get (sender f') m = Some sl \<and> ss_retried sl \<and> ss_lastRetry sl = now"
    using hist.get_put_same [OF assms(2) e] s(1) by simp
  show "history_get (sender f') n = history_get (sender f) n" if "n \<noteq> m"
  proof (cases "length (s_ring (sender f)) dvd unat (n - m)")
    case True
    then have "ring_idx (s_mask (sender f)) m = ring_idx (s_mask (sender f)) n"
      using assms(2) ring_idx_eq_iff by (auto simp: history_geom_def)
    then have "history_get (sender f) n = None"
      using old that by (simp add: history_get_def history_slot_def)
    then show ?thesis using hist.get_put_evict [OF assms(2) e True that] s(1) by simp
  next
    case False
    then show ?thesis using hist.get_put_other [OF assms(2) e False] s(1) by simp
  qed
qed

section \<open>The service pass\<close>

definition nack_reply :: "Timestamp \<Rightarrow> Microseconds \<Rightarrow> u32 list \<Rightarrow> Flow \<Rightarrow> Flow \<Rightarrow> u32 list \<Rightarrow> bool" where
  "nack_reply now rtt req f f' ms \<longleftrightarrow>
     fifo_list (outputs f') = fifo_list (outputs f) @ map (resend_of f) ms \<and>
     subseq ms req \<and> distinct ms \<and> (\<forall>m\<in>set ms. eligible now rtt f m) \<and>
     Retransmitted (stats f') = Retransmitted (stats f) + of_nat (length ms)"

lemma serviceNack_loop_spec:
  assumes "history_geom (sender f)" "fifo_inv (outputs f)" "0 < rtt"
  shows "\<exists>ms. nack_reply now rtt req f (serviceNack_loop now rtt req n f) ms
           \<and> int (length ms) \<le> max 1 (maxNacksPerLoop f - n)
           \<and> fifo_inv (outputs (serviceNack_loop now rtt req n f))"
  using assms
proof (induction now rtt req n f rule: serviceNack_loop.induct)
  case (1 now rtt n f)
  then show ?case by (auto simp: nack_reply_def intro!: exI [of _ "[]"])
next
  case (2 now rtt m req n f)
  obtain sent f1 where one: "serviceNack_one now rtt m f = (sent, f1)" by fastforce
  show ?case
  proof (cases sent)
    case False
    then have one: "serviceNack_one now rtt m f = (False, f1)" using one by simp
    note fr = serviceNack_one_skip [OF one]
    obtain ms where "nack_reply now rtt req f1 (serviceNack_loop now rtt req n f1) ms"
      "int (length ms) \<le> max 1 (maxNacksPerLoop f1 - n)"
      "fifo_inv (outputs (serviceNack_loop now rtt req n f1))"
      using "2.IH"(2) [OF one [symmetric]] "2.prems" by (auto simp: fr)
    moreover have "resend_of f1 = resend_of f" "eligible now rtt f1 = eligible now rtt f"
      by (simp_all add: fun_eq_iff resend_of_def eligible_def fr split: option.split)
    ultimately show ?thesis
      using one fr by (intro exI [of _ ms]) (auto simp: nack_reply_def)
  next
    case True
    then have one: "serviceNack_one now rtt m f = (True, f1)" using one by simp
    note fr = serviceNack_one_sent [OF one] and hi = serviceNack_one_history [OF one "2.prems"(1)]
    have out: "fifo_inv (outputs f1)" "fifo_list (outputs f1) = fifo_list (outputs f) @ [resend_of f m]"
      using fr(2) "2.prems"(2) by simp_all
    show ?thesis
    proof (cases "n + 1 \<ge> maxNacksPerLoop f1")
      case True
      then show ?thesis
        using one fr out by (intro exI [of _ "[m]"]) (auto simp: nack_reply_def)
    next
      case False
      obtain ms where ms: "nack_reply now rtt req f1 (serviceNack_loop now rtt req (n + 1) f1) ms"
        "int (length ms) \<le> max 1 (maxNacksPerLoop f1 - (n + 1))"
        "fifo_inv (outputs (serviceNack_loop now rtt req (n + 1) f1))"
        using "2.IH"(1) [OF one [symmetric] TrueI False hi(1) out(1) "2.prems"(3)] by auto
      have nm: "m \<notin> set ms"
        using ms(1) hi(3) "2.prems"(3) by (auto simp: nack_reply_def eligible_def)
      have fs: "s_txPath (sender f1) = s_txPath (sender f)" "s_ssrc (sender f1) = s_ssrc (sender f)"
        using fr(3) by simp_all
      have same: "resend_of f1 k = resend_of f k" "eligible now rtt f1 k = eligible now rtt f k" if "k \<in> set ms" for k
      proof -
        have "history_get (sender f1) k = history_get (sender f) k" using hi(2) [of k] nm that by blast
        then show "resend_of f1 k = resend_of f k" "eligible now rtt f1 k = eligible now rtt f k"
          by (simp_all add: resend_of_def resend_pkt_def eligible_def fs fr(4) split: option.split)
      qed
      have "map (resend_of f1) ms = map (resend_of f) ms" using same(1) by simp
      then show ?thesis
        using one fr out ms nm same(2) False
        by (intro exI [of _ "m # ms"]) (auto simp: nack_reply_def)
    qed
  qed
qed

lemma LastClamped_pos: "0 < hi \<Longrightarrow> 0 < LastClamped e lo hi"
  by (auto simp: LastClamped_def clamp_def effectiveRTTMin_def rttMinFloor_def ristRTTMinFloorMs_def
      Millisecond_def)

lemma retransmitSpacing_pos: "0 < RTTMax (cfg f) \<Longrightarrow> 0 < retransmitSpacing f"
  by (simp add: retransmitSpacing_def LastClamped_pos Let_def)

text \<open>The refresh of the bitrate windows at the top of the pass changes no gate but the budget.\<close>

lemma refresh_bw:
  assumes "g = f\<lparr>sender := (sender f)\<lparr>s_dataBW := a, s_retryBW := b\<rparr>\<rparr>"
  shows "resend_of g = resend_of f" "eligible now rtt g = eligible now rtt f"
  using assms by (simp_all add: fun_eq_iff resend_of_def resend_pkt_def eligible_def split: option.split)

text \<open>C6: one NACK service pass re-sends exactly the stored packets of a duplicate-free subsequence
  of the request, every one of them still in the history, outside its suppression window and
  below the retry cap; it never exceeds the per-pass budget, even when the request names a
  sequence many times.\<close>

theorem serviceNack_gates:
  assumes "history_geom (sender f)" "fifo_inv (outputs f)" "0 < RTTMax (cfg f)"
  shows "\<exists>ms. fifo_list (outputs (serviceNack now req f)) = fifo_list (outputs f) @ map (resend_of f) ms
            \<and> subseq ms req \<and> distinct ms \<and> (\<forall>m\<in>set ms. eligible now (retransmitSpacing f) f m)
            \<and> Retransmitted (stats (serviceNack now req f)) = Retransmitted (stats f) + of_nat (length ms)
            \<and> int (length ms) \<le> max 1 (maxNacksPerLoop f)"
proof -
  define g where "g = f\<lparr>sender := (sender f)\<lparr>s_dataBW := ewma_feed (s_dataBW (sender f)) now 0,
      s_retryBW := ewma_feed (s_retryBW (sender f)) now 0\<rparr>\<rparr>"
  have run: "serviceNack now req f = serviceNack_loop now (retransmitSpacing f) req 0 g"
    by (simp add: serviceNack_def Let_def g_def)
  have "\<exists>ms. nack_reply now (retransmitSpacing f) req g
               (serviceNack_loop now (retransmitSpacing f) req 0 g) ms
           \<and> int (length ms) \<le> max 1 (maxNacksPerLoop g - 0)
           \<and> fifo_inv (outputs (serviceNack_loop now (retransmitSpacing f) req 0 g))"
    using assms by (intro serviceNack_loop_spec retransmitSpacing_pos) (simp_all add: g_def)
  then obtain ms where "nack_reply now (retransmitSpacing f) req g (serviceNack now req f) ms"
      "int (length ms) \<le> max 1 (maxNacksPerLoop f)"
    by (auto simp: run g_def)
  then show ?thesis
    unfolding nack_reply_def refresh_bw [OF g_def] by (intro exI [of _ ms]) (simp add: g_def)
qed

section \<open>The retransmit history\<close>

definition fresh_slot :: "Timestamp \<Rightarrow> bytes \<Rightarrow> FragRole \<Rightarrow> u32 \<Rightarrow> senderSlot" where
  "fresh_slot now payload frag seqn =
     \<lparr>ss_payload = payload, ss_sourceTime = NTPTimeFromTimestamp now, ss_seq = seqn,
      ss_transmitCount = 0, ss_lastRetry = 0, ss_retried = False, ss_frag = frag, ss_state = slotFilled\<rparr>"

definition first_pkt :: "Flow \<Rightarrow> Timestamp \<Rightarrow> bytes \<Rightarrow> FragRole \<Rightarrow> u32 \<Rightarrow> MediaPacket" where
  "first_pkt f now payload frag seqn =
     \<lparr>pkt_Seq = seqn, pkt_SourceTime = NTPTimeFromTimestamp now, pkt_SSRC = s_ssrc (sender f),
      pkt_Payload = payload, pkt_Retransmit = False, pkt_PathID = s_txPath (sender f), pkt_Frag = frag,
      pkt_VirtSrcPort = 0, pkt_VirtDstPort = 0, pkt_ShortSeq = False\<rparr>"

lemma slot_overwritten:
  "x\<lparr>ss_state := slotFilled, ss_seq := n, ss_sourceTime := NTPTimeFromTimestamp now, ss_payload := p,
     ss_transmitCount := 0, ss_retried := False, ss_lastRetry := 0, ss_frag := frag\<rparr>
   = fresh_slot now p frag n"
  by (cases x) (simp add: fresh_slot_def)

lemma pushApp_sender:
  "\<not> NoRecovery (cfg f) \<Longrightarrow>
   sender (pushApp now p frag f) =
     (history_put (sender f) (s_nextSeq (sender f)) (fresh_slot now p frag (s_nextSeq (sender f))))
       \<lparr>s_nextSeq := s_nextSeq (sender f) + 1, s_started := True,
        s_dataBW := ewma_feed (s_dataBW (sender f)) now (wireBytes (int (length p)))\<rparr>"
  by (cases "sender f") (auto simp: pushApp_def pushAppBlock_def Let_def history_put_def slot_overwritten)

lemma pushApp_frame [simp]:
  "cfg (pushApp now p frag f) = cfg f" "role (pushApp now p frag f) = role f"
  "est (pushApp now p frag f) = est f" "maxNacksPerLoop (pushApp now p frag f) = maxNacksPerLoop f"
  by (simp_all add: pushApp_def pushAppBlock_def Let_def)

lemma pushApp_outputs:
  "fifo_inv (outputs f) \<Longrightarrow> \<exists>pre. fifo_list (outputs (pushApp now p frag f)) =
     fifo_list (outputs f) @ pre @ [SendMedia (s_txPath (sender f))
       (first_pkt f now p frag (s_nextSeq (sender f)))]
     \<and> fifo_inv (outputs (pushApp now p frag f)) \<and> (\<forall>x\<in>set pre. \<exists>t d. x = SetTimer t d)"
  by (auto simp: pushApp_def pushAppBlock_def Let_def first_pkt_def history_put_def)

definition push_all :: "(Timestamp \<times> bytes) list \<Rightarrow> Flow \<Rightarrow> Flow" where
  "push_all xs f = foldl (\<lambda>f (now, p). pushApp now p FragStandalone f) f xs"

fun fresh_slots :: "u32 \<Rightarrow> (Timestamp \<times> bytes) list \<Rightarrow> senderSlot list" where
  "fresh_slots n [] = []"
| "fresh_slots n ((now, p) # xs) = fresh_slot now p FragStandalone n # fresh_slots (n + 1) xs"

lemma fresh_slots_nth:
  "i < length xs \<Longrightarrow>
   fresh_slots n xs ! i = fresh_slot (fst (xs ! i)) (snd (xs ! i)) FragStandalone (n + of_nat i)"
  by (induction n xs arbitrary: i rule: fresh_slots.induct)
    (auto simp: less_Suc_eq_0_disj ac_simps)

lemma length_fresh_slots [simp]: "length (fresh_slots n xs) = length xs"
  by (induction n xs rule: fresh_slots.induct) simp_all

lemma fresh_slots_entries: "hist.entries n (fresh_slots n xs)"
  by (auto simp: hist.entries_def fresh_slots_nth history_entry_def fresh_slot_def)

lemma push_all_Nil [simp]: "push_all [] f = f"
  and push_all_Cons [simp]: "push_all ((now, p) # xs) f = push_all xs (pushApp now p FragStandalone f)"
  by (simp_all add: push_all_def)

lemma push_all_frame [simp]:
  "cfg (push_all xs f) = cfg f" "role (push_all xs f) = role f" "est (push_all xs f) = est f"
  by (induction xs arbitrary: f) (auto)

lemma history_get_ring: "s_ring s = s_ring s' \<Longrightarrow> s_mask s = s_mask s' \<Longrightarrow> history_get s = history_get s'"
  by (simp add: history_get_def history_slot_def fun_eq_iff)

text \<open>Pushing payloads stores consecutive entries, so the ring contract applies.\<close>

lemma push_all_history:
  assumes "\<not> NoRecovery (cfg f)" "s_ring s = s_ring (sender f)" "s_mask s = s_mask (sender f)"
  shows "s_ring (sender (push_all xs f)) = s_ring (hist.put_seq s (s_nextSeq (sender f)) (fresh_slots (s_nextSeq (sender f)) xs))
       \<and> s_mask (sender (push_all xs f)) = s_mask (hist.put_seq s (s_nextSeq (sender f)) (fresh_slots (s_nextSeq (sender f)) xs))
       \<and> s_ssrc (sender (push_all xs f)) = s_ssrc (sender f)
       \<and> s_txPath (sender (push_all xs f)) = s_txPath (sender f)"
  using assms
proof (induction xs arbitrary: f s)
  case (Cons x xs)
  obtain now p where x: "x = (now, p)" by fastforce
  let ?f1 = "pushApp now p FragStandalone f" and ?n = "s_nextSeq (sender f)"
  let ?s1 = "history_put s ?n (fresh_slot now p FragStandalone ?n)"
  have snd: "s_nextSeq (sender ?f1) = ?n + 1" "s_ssrc (sender ?f1) = s_ssrc (sender f)"
    "s_txPath (sender ?f1) = s_txPath (sender f)"
    "s_ring ?s1 = s_ring (sender ?f1)" "s_mask ?s1 = s_mask (sender ?f1)"
    using Cons.prems by (simp_all add: pushApp_sender) (simp_all add: history_put_def)
  then show ?case using Cons.IH [of ?f1 ?s1] Cons.prems(1) x by simp
qed simp

lemma push_all_media:
  "fifo_inv (outputs f) \<Longrightarrow> \<not> NoRecovery (cfg f) \<Longrightarrow> fifo_inv (outputs (push_all xs f))
   \<and> set (fifo_list (outputs f)) \<subseteq> set (fifo_list (outputs (push_all xs f)))
   \<and> (\<forall>i<length xs. SendMedia (s_txPath (sender f))
        (first_pkt f (fst (xs ! i)) (snd (xs ! i)) FragStandalone (s_nextSeq (sender f) + of_nat i))
        \<in> set (fifo_list (outputs (push_all xs f))))"
proof (induction xs arbitrary: f)
  case (Cons x xs)
  obtain now p where x: "x = (now, p)" by fastforce
  let ?f1 = "pushApp now p FragStandalone f" and ?n = "s_nextSeq (sender f)"
  obtain pre where pre: "fifo_list (outputs ?f1) = fifo_list (outputs f) @ pre @
      [SendMedia (s_txPath (sender f)) (first_pkt f now p FragStandalone ?n)]" "fifo_inv (outputs ?f1)"
    using pushApp_outputs [OF Cons.prems(1)] by blast
  have snd: "s_nextSeq (sender ?f1) = ?n + 1" "s_txPath (sender ?f1) = s_txPath (sender f)"
    "first_pkt ?f1 = first_pkt f"
    using Cons.prems(2) by (simp_all add: pushApp_sender first_pkt_def fun_eq_iff)
  have IH: "fifo_inv (outputs (push_all xs ?f1))"
    "set (fifo_list (outputs ?f1)) \<subseteq> set (fifo_list (outputs (push_all xs ?f1)))"
    "\<forall>i<length xs. SendMedia (s_txPath (sender f))
        (first_pkt f (fst (xs ! i)) (snd (xs ! i)) FragStandalone (?n + 1 + of_nat i))
        \<in> set (fifo_list (outputs (push_all xs ?f1)))"
    using Cons.IH [of ?f1] pre(2) Cons.prems(2) by (simp_all add: snd)
  then show ?case
    using pre(1) x by (auto simp: less_Suc_eq_0_disj ac_simps)
qed simp

lemma New_sender:
  "role (Flow_New RoleSender c) = RoleSender" "cfg (Flow_New rl c) = c" "est (Flow_New rl c) = Estimator_New (RTTMin c)"
  "outputs (Flow_New rl c) = fifo_empty" "events (Flow_New rl c) = fifo_empty"
  "s_txPath (sender (Flow_New RoleSender c)) = 0" "s_ssrc (sender (Flow_New RoleSender c)) = cfg_SSRC c"
  "s_nextSeq (sender (Flow_New RoleSender c)) = StartSeq c"
  by (cases rl; simp add: Flow_New_def Let_def senderState_zero_def)+

definition ring_slots :: "Config \<Rightarrow> nat" where
  "ring_slots c = nat (nextPow2 (if RingSize c \<le> 0 then deriveRingSize c else RingSize c))"

lemma deriveRingSize_le: "deriveRingSize c \<le> 2 ^ 21"
  by (simp add: deriveRingSize_def maxDerivedRingSize_def Let_def)

lemma ring_slots_le: "RingSize c \<le> 2 ^ 31 \<Longrightarrow> ring_slots c \<le> 2 ^ 32"
proof -
  assume le: "RingSize c \<le> 2 ^ 31"
  let ?n = "if RingSize c \<le> 0 then deriveRingSize c else RingSize c"
  obtain j where j: "nextPow2 ?n = 2 ^ j" "j = 0 \<or> 2 ^ j < 2 * ?n" using nextPow2_spec by blast
  moreover have "?n \<le> 2 ^ 31" using le deriveRingSize_le [of c] by simp
  ultimately have "nextPow2 ?n \<le> 2 ^ 32" by auto
  then show ?thesis by (simp add: ring_slots_def)
qed

lemma New_history:
  "length (s_ring (sender (Flow_New RoleSender c))) = ring_slots c"
  "RingSize c \<le> 2 ^ 31 \<Longrightarrow> history_geom (sender (Flow_New RoleSender c))"
  using nextPow2_geom [of "if RingSize c \<le> 0 then deriveRingSize c else RingSize c" senderSlot_zero] ring_slots_le [of c]
  by (simp_all add: Flow_New_def Let_def history_geom_def ring_slots_def)

lemma pushed_history:
  assumes "\<not> NoRecovery c" "RingSize c \<le> 2 ^ 31"
  shows "history_get (sender (push_all xs (Flow_New RoleSender c)))
       = history_get (hist.put_seq (sender (Flow_New RoleSender c)) (StartSeq c) (fresh_slots (StartSeq c) xs))"
    "history_geom (sender (push_all xs (Flow_New RoleSender c)))"
proof -
  let ?f = "Flow_New RoleSender c"
  let ?p = "hist.put_seq (sender ?f) (StartSeq c) (fresh_slots (StartSeq c) xs)"
  have same: "s_ring (sender (push_all xs ?f)) = s_ring ?p" "s_mask (sender (push_all xs ?f)) = s_mask ?p"
    using push_all_history [of ?f "sender ?f" xs] assms(1) by (simp_all add: New_sender)
  then show "history_get (sender (push_all xs ?f)) = history_get ?p" by (rule history_get_ring)
  show "history_geom (sender (push_all xs ?f))"
    using hist.inv_put_seq [OF New_history(2) [OF assms(2)] fresh_slots_entries, of "StartSeq c" xs]
    by (simp add: history_geom_def same)
qed

lemma serviceNack_single:
  assumes "history_get (sender f) m = Some sl" "\<not> ss_retried sl" "ss_transmitCount sl < MaxRetries (cfg f)"
    "\<not> overBudget (CongestionControl (cfg f)) (ewma_feed (s_dataBW (sender f)) now 0)
         (ewma_feed (s_retryBW (sender f)) now 0) (RecoveryMaxBitrate (cfg f))"
  shows "outputs (serviceNack now [m] f) = fifo_push (outputs f) (resend_of f m)"
  using assms
  by (auto simp: serviceNack_def Let_def serviceNack_one_def history_get_def history_slot_def resend_of_def
      resend_pkt_def history_put_def split: if_splits)


text \<open>C8: the history forgets. A packet followed by at least ring-size further pushes is aged out: a
  NACK for it emits nothing and is counted as skipped.\<close>

theorem nack_aged_out_skipped:
  assumes "\<not> NoRecovery c" "RingSize c \<le> 2 ^ 31"
    and "i + ring_slots c < length xs" "length xs \<le> 2 ^ 32"
    and f: "f = push_all xs (Flow_New RoleSender c)"
  shows "outputs (serviceNack now [StartSeq c + of_nat i] f) = outputs f
       \<and> RetransmitSkipped (stats (serviceNack now [StartSeq c + of_nat i] f)) = RetransmitSkipped (stats f) + 1"
proof -
  have "history_get (hist.put_seq (sender (Flow_New RoleSender c)) (StartSeq c) (fresh_slots (StartSeq c) xs))
      (StartSeq c + of_nat i) = None"
    using assms(3,4)
    by (intro hist.expired [OF New_history(2) [OF assms(2)] fresh_slots_entries]) (simp_all add: New_history(1))
  then have "history_get (sender f) (StartSeq c + of_nat i) = None"
    by (simp add: f pushed_history [OF assms(1,2)])
  then show ?thesis
    by (auto simp: serviceNack_def Let_def serviceNack_one_def history_get_def history_slot_def split: if_splits)
qed

section \<open>Witnesses\<close>

definition small_config :: Config where
  "small_config = DefaultConfig\<lparr>RingSize := 4, CongestionControl := CongestionOff, StartSeq := 0xFFFFFFFE\<rparr>"

lemma small_config_simps [simp]:
  "RingSize small_config = 4" "CongestionControl small_config = CongestionOff"
  "StartSeq small_config = 0xFFFFFFFE" "\<not> NoRecovery small_config" "MaxRetries small_config = 20"
  "RTTMax small_config = 500000"
  by (simp_all add: small_config_def DefaultConfig_def Millisecond_def)

lemma wrapped_seq: "(4294967297 :: u32) = 1"
  by (simp add: word_eq_iff_unsigned)

lemma ring_slots_small [simp]: "ring_slots small_config = 4"
  by (simp add: ring_slots_def nextPow2_def nextPow2_loop.simps)

theorem serviceNack_gates_witness:
  "\<exists>ms. fifo_list (outputs (serviceNack 7 [0, 0] (Flow_New RoleSender small_config))) = map (resend_of (Flow_New RoleSender small_config)) ms
      \<and> subseq ms [0, 0] \<and> distinct ms"
  using serviceNack_gates [of "Flow_New RoleSender small_config" 7 "[0, 0]"]
  by (auto simp: New_history New_sender)


theorem nack_aged_out_skipped_witness:
  "outputs (serviceNack 60 [0xFFFFFFFE] (push_all [(10, [1]), (20, [2]), (30, [3]), (40, [4]), (50, [5])]
       (Flow_New RoleSender small_config)))
   = outputs (push_all [(10, [1]), (20, [2]), (30, [3]), (40, [4]), (50, [5])] (Flow_New RoleSender small_config))"
  using nack_aged_out_skipped [of small_config 0 "[(10, [1]), (20, [2]), (30, [3]), (40, [4]), (50, [5])]", OF _ _ _ _ refl, of 60]
  by simp

end
