(* ===== verification/Seq_Num.thy ===== *)
theory Seq_Num
  imports Prelude
begin

text \<open>
  Wrap-aware sequence numbers, \<^verbatim>\<open>src/internal/seq/seq.go\<close>. The unexported
  generic functions \<open>half\<close>, \<open>distance\<close>, \<open>less\<close>, \<open>compare\<close> and
  \<open>forwardGap\<close> are polymorphic in the word width; \<open>Num16\<close> and \<open>Num32\<close> are
  the two widths of the exported API. The locale \<open>circular_seq\<close> is the contract
  the flow core relies on; both widths interpret it.
\<close>

section \<open>The generic functions\<close>

definition half :: "'a::len word" where
  "half = NOT 0 div 2 + 1"

definition distance :: "'a::len word \<Rightarrow> 'a word \<Rightarrow> int" where
  "distance a b =
     (let d = b - a
      in if d = 0 \<or> d \<le> half then uint d
         else uint d - uint (NOT 0 :: 'a word) - 1)"

definition seq_less :: "'a::len word \<Rightarrow> 'a word \<Rightarrow> bool" where
  "seq_less a b = (let d = b - a in d \<noteq> 0 \<and> d \<le> half)"

definition compare :: "'a::len word \<Rightarrow> 'a word \<Rightarrow> int" where
  "compare a b = (if a = b then 0 else if seq_less a b then -1 else 1)"

definition forwardGap :: "'a::len word \<Rightarrow> 'a word \<Rightarrow> u64 \<times> bool" where
  "forwardGap a b =
     (let gap = (ucast (b - a) :: u64) in (gap, gap \<le> ucast (half :: 'a word)))"

section \<open>The exported API\<close>

type_synonym Num16 = "u16"
type_synonym Num32 = "u32"

definition Max16 :: Num16 where "Max16 = 0xFFFF"
definition Half16 :: Num16 where "Half16 = 0x8000"
definition Max32 :: Num32 where "Max32 = 0xFFFFFFFF"
definition Half32 :: Num32 where "Half32 = 0x80000000"
definition MaxGap16 :: u64 where "MaxGap16 = push_bit 15 1"
definition MaxGap32 :: u64 where "MaxGap32 = push_bit 31 1"

definition Inc16 :: "Num16 \<Rightarrow> Num16" where "Inc16 a = a + 1"
definition Dec16 :: "Num16 \<Rightarrow> Num16" where "Dec16 a = a - 1"
definition Add16 :: "Num16 \<Rightarrow> int \<Rightarrow> Num16" where "Add16 a n = a + word_of_int n"
definition Sub16 :: "Num16 \<Rightarrow> int \<Rightarrow> Num16" where "Sub16 a n = a - word_of_int n"
definition Distance16 :: "Num16 \<Rightarrow> Num16 \<Rightarrow> int" where "Distance16 a b = distance a b"
definition Less16 :: "Num16 \<Rightarrow> Num16 \<Rightarrow> bool" where "Less16 a b = seq_less a b"
definition Compare16 :: "Num16 \<Rightarrow> Num16 \<Rightarrow> int" where "Compare16 a b = compare a b"
definition ForwardGap16 :: "Num16 \<Rightarrow> Num16 \<Rightarrow> u64 \<times> bool" where "ForwardGap16 a b = forwardGap a b"

definition Inc32 :: "Num32 \<Rightarrow> Num32" where "Inc32 a = a + 1"
definition Dec32 :: "Num32 \<Rightarrow> Num32" where "Dec32 a = a - 1"
definition Add32 :: "Num32 \<Rightarrow> int \<Rightarrow> Num32" where "Add32 a n = a + word_of_int n"
definition Sub32 :: "Num32 \<Rightarrow> int \<Rightarrow> Num32" where "Sub32 a n = a - word_of_int n"
definition Distance32 :: "Num32 \<Rightarrow> Num32 \<Rightarrow> int" where "Distance32 a b = distance a b"
definition Less32 :: "Num32 \<Rightarrow> Num32 \<Rightarrow> bool" where "Less32 a b = seq_less a b"
definition Compare32 :: "Num32 \<Rightarrow> Num32 \<Rightarrow> int" where "Compare32 a b = compare a b"
definition ForwardGap32 :: "Num32 \<Rightarrow> Num32 \<Rightarrow> u64 \<times> bool" where "ForwardGap32 a b = forwardGap a b"

lemmas Num16_defs = Inc16_def Dec16_def Add16_def Sub16_def Distance16_def Less16_def
  Compare16_def ForwardGap16_def
lemmas Num32_defs = Inc32_def Dec32_def Add32_def Sub32_def Distance32_def Less32_def
  Compare32_def ForwardGap32_def

section \<open>The functions as arithmetic on the forward gap\<close>

lemma unat_half: "unat (half :: 'a::len word) = 2 ^ (LENGTH('a) - 1)"
proof (cases "LENGTH('a) = 1")
  case True
  then have "(2 :: 'a word) = 0"
    by (metis exp_eq_zero_iff le_refl power_one_right)
  with True show ?thesis by (simp add: half_def)
next
  case False
  then obtain n where n: "LENGTH('a) = Suc (Suc n)"
    by (metis One_nat_def Suc_pred len_gt_0 not0_implies_Suc)
  have m: "unat (NOT 0 :: 'a word) = 2 ^ LENGTH('a) - 1"
    by (simp add: unsigned_minus_1_eq_mask mask_eq_exp_minus_1)
  have "unat (2 :: 'a word) = 2"
    using n power_strict_increasing [of 1 "LENGTH('a)" "2 :: nat"]
    by (simp add: unsigned_numeral take_bit_eq_mod)
  then have "unat ((NOT 0 :: 'a word) div 2) = (2 ^ LENGTH('a) - 1) div 2"
    by (simp only: unat_div m)
  moreover have "(2 ^ LENGTH('a) - 1) div 2 = (2 :: nat) ^ Suc n - 1"
    using n by simp
  ultimately have "unat (half :: 'a word) = Suc (2 ^ Suc n - 1) mod 2 ^ LENGTH('a)"
    by (simp only: half_def unat_word_ariths) simp
  then show ?thesis using n by simp
qed

lemma half_double: "2 * 2 ^ (LENGTH('a::len) - 1) = (2 :: int) ^ LENGTH('a)"
  using power_minus_mult [of "LENGTH('a)" "2 :: int"] len_gt_0 [where 'a = 'a] by (simp add: mult.commute)

lemma distance_gap:
  "distance a (b :: 'a::len word) =
     (if unat (b - a) \<le> 2 ^ (LENGTH('a) - 1) then int (unat (b - a))
      else int (unat (b - a)) - 2 ^ LENGTH('a))"
  by (simp add: distance_def Let_def word_le_nat_alt unat_half unsigned_minus_1_eq_mask
      mask_eq_exp_minus_1 del: One_nat_def)

lemma seq_less_gap:
  "seq_less a (b :: 'a::len word) \<longleftrightarrow> 0 < unat (b - a) \<and> unat (b - a) \<le> 2 ^ (LENGTH('a) - 1)"
  by (simp add: seq_less_def Let_def word_le_nat_alt unat_half unat_gt_0 del: One_nat_def)

lemma forwardGap_gap:
  assumes "LENGTH('a::len) \<le> 64"
  shows "forwardGap a (b :: 'a word) = (ucast (b - a), unat (b - a) \<le> 2 ^ (LENGTH('a) - 1))"
proof -
  have "unat (ucast x :: u64) = unat x" for x :: "'a word"
  proof -
    have "unat x < 2 ^ LENGTH('a)" by simp
    also have "\<dots> \<le> 2 ^ 64" using assms by (intro power_increasing) auto
    finally show ?thesis by (simp add: unsigned_ucast_eq take_bit_nat_eq_self)
  qed
  then show ?thesis
    by (simp add: forwardGap_def Let_def word_le_nat_alt unat_half del: One_nat_def)
qed

section \<open>The contract of a circular order\<close>

text \<open>
  What a client of the package may rely on, for a sequence space of \<open>N\<close> values: the
  signed distance is the unique offset in the half-open window that leads from one
  value to the other, and \<open>Less\<close> is a positive distance.
\<close>

locale circular_seq =
  fixes N :: int
    and dist :: "'n \<Rightarrow> 'n \<Rightarrow> int"
    and lt :: "'n \<Rightarrow> 'n \<Rightarrow> bool"
    and add :: "'n \<Rightarrow> int \<Rightarrow> 'n"
  assumes N_pos: "0 < N" and N_even: "even N"
    and dist_gt: "- (N div 2) < dist a b"
    and dist_le: "dist a b \<le> N div 2"
    and add_dist: "add a (dist a b) = b"
    and lt_iff: "lt a b \<longleftrightarrow> 0 < dist a b"
    and add_add: "add (add a m) n = add a (m + n)"
    and add_eq_iff: "add a m = add a n \<longleftrightarrow> m mod N = n mod N"
begin

lemma window_unique:
  assumes "m mod N = n mod N" "- (N div 2) < m" "m \<le> N div 2" "- (N div 2) < n" "n \<le> N div 2"
  shows "m = n"
proof -
  from assms(1) obtain k where k: "m - n = N * k"
    by (metis mod_eq_dvd_iff dvdE)
  have "\<bar>m - n\<bar> < N" using assms(2-5) N_even N_pos by auto
  then have "\<bar>k\<bar> < 1" using k N_pos by (simp add: abs_mult)
  then show ?thesis using k by simp
qed

lemma dist_add:
  assumes "- (N div 2) < n" "n \<le> N div 2"
  shows "dist a (add a n) = n"
proof (rule window_unique)
  show "dist a (add a n) mod N = n mod N"
    using add_dist [of a "add a n"] by (simp add: add_eq_iff)
qed (use assms dist_gt dist_le in auto)

lemma dist_eq_0: "dist a b = 0 \<longleftrightarrow> a = b"
proof
  assume "dist a b = 0"
  then have "add a 0 = b" using add_dist [of a b] by simp
  moreover have "add a 0 = a"
    using add_dist [of a a] add_add [of a "dist a a" 0] by (metis add.right_neutral)
  ultimately show "a = b" by simp
next
  assume "a = b"
  then have "add a (dist a b) = add a (dist a b + dist a b)"
    using add_dist by (metis add_add)
  then have "(dist a b + dist a b) mod N = dist a b mod N" by (simp add: add_eq_iff)
  then have "dist a b mod N = 0 mod N" by (simp add: mod_eq_dvd_iff)
  then show "dist a b = 0"
    by (rule window_unique) (use dist_gt dist_le N_pos N_even in \<open>auto elim: evenE\<close>)
qed

lemma dist_swap:
  assumes "dist a b \<noteq> N div 2"
  shows "dist b a = - dist a b"
proof (rule window_unique)
  have "add a (dist a b + dist b a) = add a (dist a a)"
    using add_dist by (metis add_add)
  then have "(dist a b + dist b a) mod N = 0"
    using dist_eq_0 [of a a] by (simp add: add_eq_iff)
  then show "dist b a mod N = (- dist a b) mod N"
    by (simp add: mod_eq_dvd_iff mod_eq_0_iff_dvd add.commute)
qed (use assms dist_gt [of b a] dist_le [of b a] dist_gt [of a b] dist_le [of a b] in auto)

lemma dist_antipode:
  assumes "dist a b = N div 2"
  shows "dist b a = N div 2"
proof (rule ccontr)
  assume "dist b a \<noteq> N div 2"
  then have "dist a b = - dist b a" by (rule dist_swap)
  with assms dist_gt [of b a] show False by simp
qed

lemma lt_total: "a = b \<or> lt a b \<or> lt b a"
proof (cases "dist a b = N div 2")
  case True
  then show ?thesis using N_pos N_even by (auto simp: lt_iff elim: evenE)
next
  case False
  then have "dist b a = - dist a b" by (rule dist_swap)
  then show ?thesis using dist_eq_0 [of a b] by (auto simp: lt_iff)
qed

lemma lt_antisym:
  assumes "lt a b" "lt b a"
  shows "dist a b = N div 2"
  using assms dist_swap [of a b] by (cases "dist a b = N div 2") (auto simp: lt_iff)

lemma lt_trans_window:
  assumes "lt a b" "lt b c" "dist a b + dist b c \<le> N div 2"
  shows "lt a c \<and> dist a c = dist a b + dist b c"
proof -
  have "c = add a (dist a b + dist b c)"
    using add_dist by (metis add_add)
  then have "dist a c = dist a b + dist b c"
    using assms N_pos by (subst \<open>c = _\<close>, intro dist_add) (auto simp: lt_iff)
  then show ?thesis using assms by (simp add: lt_iff)
qed

end

section \<open>Both widths satisfy the contract\<close>

lemma word_add_distance: "a + word_of_int (distance a b) = (b :: 'a::len word)"
proof -
  have "(word_of_int (distance a b) :: 'a word) = b - a"
    by (simp add: distance_gap)
  then show ?thesis by simp
qed

lemma circular_word:
  "circular_seq (2 ^ LENGTH('a)) distance seq_less (\<lambda>a n. (a :: 'a::len word) + word_of_int n)"
proof
  let ?h = "2 ^ (LENGTH('a) - 1) :: int"
  have dbl: "(2 :: int) ^ LENGTH('a) = 2 * ?h" by (rule half_double [symmetric])
  have gap: "int (unat (x :: 'a word)) < 2 * ?h" for x
    unfolding dbl [symmetric] by simp
  fix a b :: "'a word" and m n :: int
  show "(0 :: int) < 2 ^ LENGTH('a)" "even (2 ^ LENGTH('a) :: int)"
    by simp_all
  have p: "int (2 ^ (LENGTH('a) - 1)) = ?h" by simp
  show "- (2 ^ LENGTH('a) div 2) < distance a b"
  proof (cases "unat (b - a) \<le> 2 ^ (LENGTH('a) - 1)")
    case True
    have "- ?h < 0" by simp
    also have "0 \<le> distance a b" using True by (simp add: distance_gap)
    finally show ?thesis by (simp add: dbl)
  next
    case False
    then have "?h < int (unat (b - a))" by (metis p not_le of_nat_less_iff)
    then show ?thesis using False by (simp add: distance_gap dbl)
  qed
  show "distance a b \<le> 2 ^ LENGTH('a) div 2"
  proof (cases "unat (b - a) \<le> 2 ^ (LENGTH('a) - 1)")
    case True
    then have "int (unat (b - a)) \<le> ?h" by (metis p of_nat_le_iff)
    then show ?thesis using True by (simp add: distance_gap dbl)
  next
    case False
    have "distance a b < 0" using False gap [of "b - a"] by (simp add: distance_gap dbl)
    also have "0 < ?h" by simp
    finally show ?thesis by (simp add: dbl)
  qed
  show "a + word_of_int (distance a b) = b" by (rule word_add_distance)
  have "\<not> 2 ^ LENGTH('a) < unat (b - a)" by (simp add: not_less less_imp_le)
  then show "seq_less a b \<longleftrightarrow> 0 < distance a b"
    unfolding seq_less_gap distance_gap by (auto simp del: of_nat_unat)
  show "a + word_of_int m + word_of_int n = a + word_of_int (m + n)" by simp
  show "a + word_of_int m = a + word_of_int n \<longleftrightarrow> m mod 2 ^ LENGTH('a) = n mod 2 ^ LENGTH('a)"
    by (simp add: word_of_int_eq_iff take_bit_eq_mod)
qed

interpretation num16: circular_seq 65536 Distance16 Less16 Add16
  using circular_word [where 'a = 16] by (simp add: Num16_defs [abs_def])

interpretation num32: circular_seq 4294967296 Distance32 Less32 Add32
  using circular_word [where 'a = 32] by (simp add: Num32_defs [abs_def])

text \<open>Gap forms of the 32-bit operations, the way the flow core uses them.\<close>

lemma Less32_gap: "Less32 a b \<longleftrightarrow> 0 < unat (b - a) \<and> unat (b - a) \<le> 2147483648"
  by (simp add: Less32_def seq_less_gap)

lemma Distance32_gap:
  "Distance32 a b = (if unat (b - a) \<le> 2147483648 then int (unat (b - a))
     else int (unat (b - a)) - 4294967296)"
  by (simp add: Distance32_def distance_gap)

lemma Less16_gap: "Less16 a b \<longleftrightarrow> 0 < unat (b - a) \<and> unat (b - a) \<le> 32768"
  by (simp add: Less16_def seq_less_gap)

section \<open>Properties\<close>

text \<open>The 16-bit signed distance always leads from the first value to the second, lies in
  [-32767, 32768], is the only such offset, decides \<open>Less\<close>, and is antisymmetric
  everywhere except at exact antipodes, where both directions give +32768.
\<close>

theorem num16_distance_laws:
  "Add16 a (Distance16 a b) = b \<and> - 32767 \<le> Distance16 a b \<and> Distance16 a b \<le> 32768 \<and>
   (Less16 a b \<longleftrightarrow> 0 < Distance16 a b) \<and>
   (Distance16 a b = n \<longleftrightarrow> - 32767 \<le> n \<and> n \<le> 32768 \<and> Add16 a n = b) \<and>
   Distance16 b a = (if Distance16 a b = 32768 then 32768 else - Distance16 a b)"
proof -
  have "Distance16 a b = n \<longleftrightarrow> - 32767 \<le> n \<and> n \<le> 32768 \<and> Add16 a n = b"
    using num16.dist_gt [of a b] num16.dist_le [of a b] num16.add_dist [of a b] num16.dist_add [of n a]
    by auto
  moreover have "- 32768 < Distance16 a b" "Distance16 a b \<le> 32768"
    using num16.dist_gt [of a b] num16.dist_le [of a b] by auto
  ultimately show ?thesis
    using num16.add_dist num16.lt_iff num16.dist_swap [of a b] num16.dist_antipode [of a b] by auto
qed

text \<open>the same laws for the 32-bit extended sequence numbers the flow core works in: the
  offset is unique in [-2147483647, 2147483648], \<open>Compare\<close> has the sign opposite to it,
  and \<open>Less\<close> relates any two distinct values in at least one direction.
\<close>

theorem num32_distance_laws:
  "Add32 a (Distance32 a b) = b \<and>
   (Distance32 a b = n \<longleftrightarrow> - 2147483647 \<le> n \<and> n \<le> 2147483648 \<and> Add32 a n = b) \<and>
   (Less32 a b \<longleftrightarrow> 0 < Distance32 a b) \<and> (a = b \<or> Less32 a b \<or> Less32 b a) \<and>
   (Less32 a b \<and> Less32 b a \<longleftrightarrow> Distance32 a b = 2147483648) \<and>
   Compare32 a b = - sgn (Distance32 a b)"
proof -
  have "Distance32 a b = n \<longleftrightarrow> - 2147483647 \<le> n \<and> n \<le> 2147483648 \<and> Add32 a n = b"
    using num32.dist_gt [of a b] num32.dist_le [of a b] num32.add_dist [of a b] num32.dist_add [of n a]
    by auto
  moreover have "Less32 a b \<and> Less32 b a \<longleftrightarrow> Distance32 a b = 2147483648"
    using num32.lt_antisym [of a b] num32.dist_antipode [of a b] by (auto simp: num32.lt_iff)
  moreover have "Compare32 a b = - sgn (Distance32 a b)"
    using num32.lt_iff [of a b] num32.dist_eq_0 [of a b]
    by (auto simp: Compare32_def compare_def Less32_def sgn_if)
  ultimately show ?thesis
    using num32.add_dist num32.lt_iff num32.lt_total by blast
qed

text \<open>Circular order is transitive inside a half-space window: when the two steps together
  stay within half the 32-bit space, \<open>Less\<close> composes and the distances add up.
\<close>

theorem num32_less_trans:
  assumes "Less32 a b" "Less32 b c" "Distance32 a b + Distance32 b c \<le> 2147483648"
  shows "Less32 a c \<and> Distance32 a c = Distance32 a b + Distance32 b c"
  using num32.lt_trans_window [OF assms(1,2)] assms(3) by simp

theorem num32_less_trans_witness:
  "Less32 0xFFFFFFFE 1 \<and> Less32 1 5 \<and> Less32 0xFFFFFFFE 5 \<and> Distance32 0xFFFFFFFE 5 = 7"
proof -
  have h: "Less32 0xFFFFFFFE 1" "Less32 1 5" by (simp_all add: Less32_gap)
  have d: "Distance32 0xFFFFFFFE 1 = 3" "Distance32 1 5 = 4" by (simp_all add: Distance32_gap)
  show ?thesis using num32_less_trans [OF h] h d by simp
qed

end
