(* ===== verification/Flow_Receiver.thy ===== *)
theory Flow_Receiver
  imports Flow_Setup Seq_Num
begin

text \<open>
  The receiver half of the flow core, \<^verbatim>\<open>src/internal/flow/receiver.go\<close>: the
  seq-indexed ring with its duplicate test, missing detection, the NACK pass, playout
  delivery and recovery-buffer auto-scaling. Every operation takes the \<open>Flow\<close> and
  returns it updated. The two index loops (\<open>markMissing\<close>, \<open>skipTo\<close>) and the
  delivery loop are recursive functions with termination proofs.
\<close>

section \<open>Ring access\<close>

definition slot_at :: "receiverState \<Rightarrow> u32 \<Rightarrow> slot" where
  "slot_at r s = r_ring r ! ring_idx (r_mask r) s"

definition put_slot :: "receiverState \<Rightarrow> u32 \<Rightarrow> slot \<Rightarrow> receiverState" where
  "put_slot r s x = r\<lparr>r_ring := (r_ring r)[ring_idx (r_mask r) s := x]\<rparr>"

definition pathBit :: "u8 \<Rightarrow> u64" where
  "pathBit path = push_bit (unat (path AND 63)) 1"

definition srcWrapPeriodNTP :: u64 where "srcWrapPeriodNTP = push_bit 32 0xFFFFFFFF div 90000"
definition srcWrapHalfNTP :: u64 where "srcWrapHalfNTP = srcWrapPeriodNTP div 2"
definition srcWrapPeriodMicros :: Microseconds where "srcWrapPeriodMicros = quot (2 ^ 32 * 100) 9"

section \<open>Timers\<close>

definition armPlayout :: "Timestamp \<Rightarrow> Flow \<Rightarrow> Flow" where
  "armPlayout deadline f =
     (let r = receiver f
      in if r_playoutArmed r \<and> \<not> Before deadline (r_playoutDeadline r) then f
         else push_output (SetTimer TimerPlayout deadline)
                (f\<lparr>receiver := r\<lparr>r_playoutArmed := True, r_playoutDeadline := deadline\<rparr>\<rparr>))"

definition disarmPlayout :: "Flow \<Rightarrow> Flow" where
  "disarmPlayout f =
     (let r = receiver f
      in if \<not> r_playoutArmed r then f
         else push_output (ClearTimer TimerPlayout) (f\<lparr>receiver := r\<lparr>r_playoutArmed := False\<rparr>\<rparr>))"

definition scheduleNack :: "Timestamp \<Rightarrow> Flow \<Rightarrow> Flow" where
  "scheduleNack now f =
     (let r = receiver f
      in if r_missingCount r = 0 \<or> r_nackArmed r then f
         else push_output (SetTimer TimerNack (Timestamp_Add now nackCadence))
                (f\<lparr>receiver := r\<lparr>r_nackArmed := True\<rparr>\<rparr>))"

section \<open>Recovery-buffer auto-scaling\<close>

definition bufferDecreaseStep :: Microseconds where "bufferDecreaseStep = 50 * Millisecond"
definition bufferGrowthPerLost :: float64 where "bufferGrowthPerLost = rnd64 (5 / 100)"
definition bufferGrowthPerRecovered :: float64 where "bufferGrowthPerRecovered = rnd64 (2 / 100)"
definition bufferHighLossThreshold :: u64 where "bufferHighLossThreshold = 25"

definition SetSenderMaxBuffer :: "Microseconds \<Rightarrow> Flow \<Rightarrow> Flow" where
  "SetSenderMaxBuffer maxBuffer f =
     (if role f \<noteq> RoleReceiver then f
      else if maxBuffer < RecoveryBufferMin (cfg f)
           then f\<lparr>receiver := (receiver f)\<lparr>r_senderMaxBuffer := 0\<rparr>\<rparr>
      else let r = receiver f;
               r = (if r_senderMaxBuffer r = 0
                    then r\<lparr>r_lossSnap := Lost (stats f), r_recoveredSnap := Recovered (stats f)\<rparr>
                    else r)
           in f\<lparr>receiver := r\<lparr>r_senderMaxBuffer := maxBuffer\<rparr>\<rparr>)"

definition CurrentRecoveryBuffer :: "Flow \<Rightarrow> Microseconds" where
  "CurrentRecoveryBuffer f = recoveryBuffer f"

text \<open>The size computed once auto-scaling is active (the body after the early returns).\<close>

definition scaledBuffer :: "Flow \<Rightarrow> Microseconds" where
  "scaledBuffer f =
     (let senderMax = r_senderMaxBuffer (receiver f);
          desired = Smoothed (est f) * RTTMultiplier (cfg f) + ReorderBuffer (cfg f);
          lostDelta = Lost (stats f) - r_lossSnap (receiver f);
          recoveredDelta = Recovered (stats f) - r_recoveredSnap (receiver f);
          modifier = f_add (f_add 1 (f_mul (rnd64 (of_nat (unat lostDelta))) bufferGrowthPerLost))
                       (f_mul (rnd64 (of_nat (unat recoveredDelta))) bufferGrowthPerRecovered);
          desired = f_trunc (f_mul (f_of_int desired) modifier);
          desired = (if lostDelta > bufferHighLossThreshold then senderMax else desired);
          cur = recoveryBuffer f;
          desired = (if desired < cur \<and> cur - desired > bufferDecreaseStep
                     then cur - bufferDecreaseStep else desired);
          desired = (if desired < RecoveryBufferMin (cfg f) then RecoveryBufferMin (cfg f)
                     else if desired > RecoveryBufferMax (cfg f) then RecoveryBufferMax (cfg f)
                     else desired)
      in if desired > senderMax then senderMax else desired)"

definition autoScaleBuffer :: "Flow \<Rightarrow> Flow" where
  "autoScaleBuffer f =
     (if role f \<noteq> RoleReceiver then f
      else let r = receiver f;
               f = f\<lparr>receiver := r\<lparr>r_bufferTimeSum := r_bufferTimeSum r + recoveryBuffer f,
                                   r_bufferTimeSamples := r_bufferTimeSamples r + 1\<rparr>\<rparr>
           in if RTTMultiplier (cfg f) \<le> 0 then f
              else if RecoveryBufferMin (cfg f) = RecoveryBufferMax (cfg f) then f
              else if r_senderMaxBuffer (receiver f) \<le> 0 then f
              else let desired = scaledBuffer f
                   in f\<lparr>recoveryBuffer := desired, recoveryBuffer110 := mul110 desired,
                        receiver := (receiver f)\<lparr>r_lossSnap := Lost (stats f),
                                                 r_recoveredSnap := Recovered (stats f)\<rparr>\<rparr>)"

section \<open>Missing detection\<close>

definition addMissing :: "Timestamp \<Rightarrow> u8 \<Rightarrow> u32 \<Rightarrow> Timestamp \<Rightarrow> Flow \<Rightarrow> Flow" where
  "addMissing now path missingSeq nackTime f =
     (let r = receiver f;
          insertion = (if After nackTime now then now
                       else if Before nackTime (Timestamp_Add now (- recoveryBuffer f)) then now
                       else nackTime);
          firstRTT = quot (Clamped (est f) (RTTMin (cfg f)) (RTTMax (cfg f))) 2;
          firstRTT = (if firstRTT < ReorderBuffer (cfg f) then ReorderBuffer (cfg f) else firstRTT);
          e = \<lparr>me_seq = missingSeq, me_path = path, me_nackCount = 0,
               me_insertionTime = insertion, me_nextNack = Timestamp_Add now firstRTT\<rparr>
      in count Missing_update
           (f\<lparr>receiver := r\<lparr>r_missing := r_missing r @ [e], r_missingCount := r_missingCount r + 1\<rparr>\<rparr>))"

function markMissing_loop ::
  "Timestamp \<Rightarrow> u8 \<Rightarrow> u32 \<Rightarrow> Microseconds \<Rightarrow> u32 \<Rightarrow> Timestamp \<Rightarrow> nat \<Rightarrow> Flow \<Rightarrow> Flow" where
  "markMissing_loop now path current interpacket m nackTime cnt f =
     (if m = current then f
      else if r_missingCount (receiver f) > int (unat (missingCounterMax f)) then f
      else let nackTime = Timestamp_Add nackTime interpacket;
               f = addMissing now path m nackTime f;
               cnt = cnt + 1
           in if cnt = length (r_ring (receiver f)) then f
              else markMissing_loop now path current interpacket (m + 1) nackTime cnt f)"
  by pat_completeness auto

lemma unat_gap_pred:
  fixes m c :: u32
  assumes "m \<noteq> c"
  shows "unat (c - (m + 1)) = unat (c - m) - 1"
proof -
  have "c - (m + 1) = (c - m) - 1" by simp
  moreover have "1 \<le> c - m" using assms by (simp add: word_le_nat_alt Suc_le_eq unat_gt_0)
  ultimately show ?thesis by (simp only:) (simp add: unat_sub)
qed

termination markMissing_loop
proof (relation "measure (\<lambda>(now, path, current, interpacket, m, nackTime, cnt, f). unat (current - m))")
  fix now :: Timestamp and path :: u8 and current m :: u32 and interpacket nackTime x :: int
    and cnt xb :: nat and f xa :: Flow
  assume "m \<noteq> current"
  then show "((now, path, current, interpacket, m + 1, x, xb, xa),
      now, path, current, interpacket, m, nackTime, cnt, f)
      \<in> measure (\<lambda>(now, path, current, interpacket, m, nackTime, cnt, f). unat (current - m))"
    using unat_gap_pred [of m current] unat_gt_0 [of "current - m"] by simp
qed simp

declare markMissing_loop.simps [simp del]

definition markMissing :: "Timestamp \<Rightarrow> u8 \<Rightarrow> u32 \<Rightarrow> Timestamp \<Rightarrow> Flow \<Rightarrow> Flow" where
  "markMissing now path current packetTimeNow f =
     (let r = receiver f
      in if NoRecovery (cfg f) then f
         else let gap = unat (current - r_lastFound r);
                  maxGap = (if \<not> r_shortSeq r then length (r_ring r) div 2 else unat MaxGap16)
              in if gap > maxGap then f
                 else if gap = 0 then f
                 else let ls = slot_at r (r_lastFound r);
                          packetTimeLast = (if sl_state ls = slotFilled \<and> sl_seq ls = r_lastFound r
                                            then sl_packetTime ls else now);
                          delta = Timestamp_Sub packetTimeNow packetTimeLast;
                          delta = (if delta < 0 then 0 else delta);
                          interpacket = quot delta (int gap + 1)
                      in markMissing_loop now path current interpacket (r_lastFound r + 1)
                           packetTimeLast 1 f)"

section \<open>Packet acceptance\<close>

definition mapSourceTime :: "Flow \<Rightarrow> u64 \<Rightarrow> Timestamp" where
  "mapSourceTime f sourceTime = Timestamp_Add (NTPTime_Timestamp sourceTime) (r_offset (receiver f))"

definition resetReceiver :: "Flow \<Rightarrow> Flow" where
  "resetReceiver f =
     (let r = receiver f
      in f\<lparr>receiver := r\<lparr>r_ring := map (\<lambda>_. slot_zero) (r_ring r), r_missing := [], r_missingCount := 0,
                         r_started := False, r_pendingDiscontinuity := False,
                         r_playoutArmed := False, r_nackArmed := False\<rparr>\<rparr>)"

text \<open>The slot written for an accepted packet; \<open>start\<close> and \<open>feed\<close> assign the same fields.\<close>

definition filled_slot :: "Timestamp \<Rightarrow> u8 \<Rightarrow> MediaPacket \<Rightarrow> Timestamp \<Rightarrow> Flow \<Rightarrow> slot" where
  "filled_slot now path pkt packetTime f =
     \<lparr>sl_payload = pkt_Payload pkt, sl_sourceTime = pkt_SourceTime pkt, sl_arrival = now,
      sl_packetTime = packetTime, sl_outputTime = Timestamp_Add packetTime (recoveryBuffer f),
      sl_pathSeen = pathBit path, sl_seq = pkt_Seq pkt, sl_frag = pkt_Frag pkt,
      sl_virtSrcPort = pkt_VirtSrcPort pkt, sl_virtDstPort = pkt_VirtDstPort pkt,
      sl_state = slotFilled\<rparr>"

definition start :: "Timestamp \<Rightarrow> u8 \<Rightarrow> MediaPacket \<Rightarrow> Flow \<Rightarrow> Flow" where
  "start now path pkt f =
     (let src = NTPTime_Timestamp (pkt_SourceTime pkt);
          r = (receiver f)\<lparr>r_offset := Timestamp_Sub now src, r_started := True, r_ssrc := pkt_SSRC pkt,
                           r_shortSeq := pkt_ShortSeq pkt, r_lastFound := pkt_Seq pkt,
                           r_maxSourceTime := pkt_SourceTime pkt, r_lastPacketTime := now,
                           r_lastResync := now, r_highest := pkt_Seq pkt,
                           r_deliverNext := pkt_Seq pkt, r_lastPath := path\<rparr>;
          s = filled_slot now path pkt now f;
          f = f\<lparr>receiver := put_slot r (pkt_Seq pkt) s\<rparr>;
          f = count Received_update f;
          f = count_by ReceivedBytes_update (of_nat (length (pkt_Payload pkt))) f;
          f = armPlayout (sl_outputTime s) f
      in if \<not> NoRecovery (cfg f)
         then push_output (SetTimer TimerRttEcho (Timestamp_Add now rttEchoInterval)) f
         else f)"

text \<open>
  \<open>feed\<close> in the order of the source: arrival spacing, flow-id change, framing change,
  packet time with the source-clock re-anchor, shedding, and acceptance.
\<close>

definition feed_ips :: "Timestamp \<Rightarrow> Flow \<Rightarrow> Flow" where
  "feed_ips now f =
     (let r = receiver f;
          r = (if r_started r
               then let delta = Timestamp_Sub now (r_ipsLastArrival r)
                    in r\<lparr>r_ipsCurUs := delta,
                         r_ipsMinUs := (if delta < r_ipsMinUs r then delta else r_ipsMinUs r),
                         r_ipsMaxUs := (if delta > r_ipsMaxUs r then delta else r_ipsMaxUs r)\<rparr>
               else r)
      in f\<lparr>receiver := r\<lparr>r_ipsLastArrival := now\<rparr>\<rparr>)"

definition feed_flow_id :: "MediaPacket \<Rightarrow> Flow \<Rightarrow> Flow" where
  "feed_flow_id pkt f =
     (if r_started (receiver f) \<and> \<not> pkt_Retransmit pkt
         \<and> (pkt_SSRC pkt AND NOT 1) \<noteq> (r_ssrc (receiver f) AND NOT 1)
      then count FlowResets_update (resetReceiver f) else f)"

definition feed_framing :: "Timestamp \<Rightarrow> MediaPacket \<Rightarrow> Flow \<Rightarrow> Flow" where
  "feed_framing now pkt f =
     (let r = receiver f
      in if r_started r \<and> \<not> pkt_Retransmit pkt \<and> pkt_ShortSeq pkt \<noteq> r_shortSeq r
         then let src = NTPTime_Timestamp (pkt_SourceTime pkt)
              in count FramingResets_update
                   (f\<lparr>receiver := r\<lparr>r_offset := Timestamp_Sub now src,
                                   r_maxSourceTime := pkt_SourceTime pkt, r_lastPacketTime := now,
                                   r_lastResync := now, r_shortSeq := pkt_ShortSeq pkt\<rparr>\<rparr>)
         else f)"

definition feed_packetTime :: "Timestamp \<Rightarrow> MediaPacket \<Rightarrow> Flow \<Rightarrow> Timestamp \<times> Flow" where
  "feed_packetTime now pkt f =
     (let (packetTime, f) =
        (if cfg_TimingMode (cfg f) = TimingArrival then (now, f)
         else let r = receiver f; packetTime = mapSourceTime f (pkt_SourceTime pkt)
              in if cfg_TimingMode (cfg f) = TimingSource \<and> \<not> pkt_Retransmit pkt
                    \<and> pkt_SourceTime pkt < r_maxSourceTime r
                    \<and> r_maxSourceTime r - pkt_SourceTime pkt > srcWrapHalfNTP
                    \<and> Timestamp_Sub now (r_lastResync r) \<ge> 3 * recoveryBuffer f
                 then let f = f\<lparr>receiver := r\<lparr>r_offset := r_offset r + srcWrapPeriodMicros\<rparr>\<rparr>;
                          packetTime = mapSourceTime f (pkt_SourceTime pkt);
                          f = f\<lparr>receiver := (receiver f)\<lparr>r_maxSourceTime := pkt_SourceTime pkt,
                                 r_lastPacketTime := packetTime, r_lastResync := now\<rparr>\<rparr>
                      in (packetTime, count ClockResync_update f)
                 else (packetTime, f));
          r = receiver f
      in (packetTime,
          if pkt_SourceTime pkt > r_maxSourceTime r
          then f\<lparr>receiver := r\<lparr>r_maxSourceTime := pkt_SourceTime pkt, r_lastPacketTime := packetTime\<rparr>\<rparr>
          else f))"

definition shed :: "MediaPacket \<Rightarrow> Flow \<Rightarrow> Flow" where
  "shed pkt f =
     (let f = count TooLate_update f
      in if pkt_Retransmit pkt then count TooLateRetransmit_update f else f)"

text \<open>Lines 551 to 570: the slot is written, counters and \<open>highest\<close> follow.\<close>

definition feed_store ::
  "Timestamp \<Rightarrow> u8 \<Rightarrow> MediaPacket \<Rightarrow> Timestamp \<Rightarrow> bool \<Rightarrow> Flow \<Rightarrow> Flow" where
  "feed_store now path pkt packetTime outOfOrder f =
     (let f = f\<lparr>receiver := put_slot (receiver f) (pkt_Seq pkt) (filled_slot now path pkt packetTime f)\<rparr>;
          f = count Received_update f;
          f = count_by ReceivedBytes_update (of_nat (length (pkt_Payload pkt))) f;
          f = (if outOfOrder then count Reordered_update f else f);
          f = (if Less32 (r_highest (receiver f)) (pkt_Seq pkt)
               then f\<lparr>receiver := (receiver f)\<lparr>r_highest := pkt_Seq pkt\<rparr>\<rparr> else f)
      in f\<lparr>receiver := (receiver f)\<lparr>r_lastPath := path\<rparr>\<rparr>)"

text \<open>Lines 572 to 582: missing detection and the \<open>lastFound\<close> advance.\<close>

definition feed_gaps ::
  "Timestamp \<Rightarrow> u8 \<Rightarrow> MediaPacket \<Rightarrow> Timestamp \<Rightarrow> bool \<Rightarrow> Flow \<Rightarrow> Flow" where
  "feed_gaps now path pkt packetTime outOfOrder f =
     (if \<not> pkt_Retransmit pkt
      then let f = (if \<not> outOfOrder \<and> pkt_Seq pkt - 1 \<noteq> r_lastFound (receiver f)
                    then markMissing now path (pkt_Seq pkt) packetTime f else f)
           in if \<not> outOfOrder
              then f\<lparr>receiver := (receiver f)\<lparr>r_lastFound := pkt_Seq pkt\<rparr>\<rparr> else f
      else f)"

definition feed_insert ::
  "Timestamp \<Rightarrow> u8 \<Rightarrow> MediaPacket \<Rightarrow> Timestamp \<Rightarrow> bool \<Rightarrow> Flow \<Rightarrow> Flow" where
  "feed_insert now path pkt packetTime outOfOrder f =
     (let s = filled_slot now path pkt packetTime f;
          f = feed_store now path pkt packetTime outOfOrder f;
          f = feed_gaps now path pkt packetTime outOfOrder f;
          f = armPlayout (sl_outputTime s) f
      in scheduleNack now f)"

text \<open>Lines 522 to 550: the playout-cursor guard and the duplicate test.\<close>

definition feed_accept ::
  "Timestamp \<Rightarrow> u8 \<Rightarrow> MediaPacket \<Rightarrow> Timestamp \<Rightarrow> bool \<Rightarrow> Flow \<Rightarrow> Flow" where
  "feed_accept now path pkt packetTime outOfOrder f =
     (let r = receiver f; s = slot_at r (pkt_Seq pkt)
      in if Less32 (pkt_Seq pkt) (r_deliverNext r) then shed pkt f
         else if sl_state s = slotFilled
         then if sl_seq s = pkt_Seq pkt \<and> sl_sourceTime s = pkt_SourceTime pkt
              then count Duplicates_update
                     (f\<lparr>receiver := put_slot r (pkt_Seq pkt)
                                     (s\<lparr>sl_pathSeen := sl_pathSeen s OR pathBit path\<rparr>)\<rparr>)
              else feed_insert now path pkt packetTime outOfOrder (count Overwritten_update f)
         else feed_insert now path pkt packetTime outOfOrder f)"

definition feed_started :: "Timestamp \<Rightarrow> u8 \<Rightarrow> MediaPacket \<Rightarrow> Flow \<Rightarrow> Flow" where
  "feed_started now path pkt f =
     (let f = (if pkt_Retransmit pkt then count RetransmittedReceived_update f else f);
          (packetTime, f) = feed_packetTime now pkt f;
          late = (cfg_TimingMode (cfg f) \<noteq> TimingArrival
                  \<and> Before packetTime (r_lastPacketTime (receiver f))
                  \<and> pkt_Seq pkt \<noteq> r_lastFound (receiver f) + 1)
      in if late \<and> After now (Timestamp_Add packetTime (recoveryBuffer110 f)) then shed pkt f
         else feed_accept now path pkt packetTime (late \<and> \<not> pkt_Retransmit pkt) f)"

definition feed :: "Timestamp \<Rightarrow> u8 \<Rightarrow> MediaPacket \<Rightarrow> Flow \<Rightarrow> Flow" where
  "feed now path pkt f =
     (let f = feed_ips now f;
          f = feed_flow_id pkt f;
          f = feed_framing now pkt f
      in if \<not> r_started (receiver f)
         then if pkt_Retransmit pkt then f else start now path pkt f
         else feed_started now path pkt f)"

section \<open>The NACK pass\<close>

definition count_recovered :: "int \<Rightarrow> Flow \<Rightarrow> Flow" where
  "count_recovered nackCount f =
     (if nackCount > 0
      then let f = count Recovered_update f
           in if nackCount = 1 then count RecoveredOneRetry_update f
              else if nackCount = 2 then count RecoveredTwoNacks_update f
              else if nackCount = 3 then count RecoveredThreeNacks_update f
              else if nackCount = 4 then count RecoveredFourNacks_update f
              else count RecoveredMoreNacks_update f
      else f)"

definition refillTokens :: "Timestamp \<Rightarrow> receiverState \<Rightarrow> receiverState" where
  "refillTokens now r =
     (if r_nackSeqsPerSec r > 0
      then let elapsed = Timestamp_Sub now (r_nackTokensTime r);
               r = (if elapsed > 0
                    then let t = f_add (r_nackTokens r)
                                   (f_mul (f_div (f_of_int elapsed) 1000000) (r_nackSeqsPerSec r))
                         in r\<lparr>r_nackTokens := (if t > r_nackTokenBurst r then r_nackTokenBurst r else t)\<rparr>
                    else r)
           in r\<lparr>r_nackTokensTime := now\<rparr>
      else r)"

text \<open>
  One entry of the walk: the entry as it stays in the queue (or \<open>None\<close> when it is
  removed), and the flow and batch afterwards.
\<close>

definition nack_entry ::
  "Timestamp \<Rightarrow> missingEntry \<Rightarrow> Flow \<Rightarrow> u32 list \<Rightarrow> missingEntry option \<times> Flow \<times> u32 list" where
  "nack_entry now e f batch =
     (let r = receiver f;
          s = slot_at r (me_seq e);
          drop = (\<lambda>f. f\<lparr>receiver := (receiver f)\<lparr>r_missingCount := r_missingCount (receiver f) - 1\<rparr>\<rparr>)
      in if sl_state s = slotFilled \<and> sl_seq s = me_seq e
         then (None, drop (count_recovered (me_nackCount e) f), batch)
         else if sl_state s = slotFilled then (None, drop f, batch)
         else if me_nackCount e \<ge> MaxRetries (cfg f) then (None, drop (count Abandoned_update f), batch)
         else if Timestamp_Sub now (me_insertionTime e) > recoveryBuffer110 f
              then (None, drop (count Abandoned_update f), batch)
         else if \<not> Before now (me_nextNack e)
              then if length batch < ristMaxNacks \<and> (r_nackSeqsPerSec r = 0 \<or> r_nackTokens r \<ge> 1)
                   then let e = e\<lparr>me_nextNack := Timestamp_Add now
                                    (RetryInterval (est f) (RTTMin (cfg f)) (RTTMax (cfg f))),
                                  me_nackCount := me_nackCount e + 1\<rparr>;
                            f = count NacksSent_update f;
                            f = (if r_nackSeqsPerSec r > 0
                                 then f\<lparr>receiver := r\<lparr>r_nackTokens := f_sub (r_nackTokens r) 1\<rparr>\<rparr> else f)
                        in (Some e, f, batch @ [me_seq e])
                   else (Some e, f, batch)
         else (Some e, f, batch))"

fun nack_walk ::
  "Timestamp \<Rightarrow> missingEntry list \<Rightarrow> Flow \<Rightarrow> u32 list \<Rightarrow> missingEntry list \<times> Flow \<times> u32 list" where
  "nack_walk now [] f batch = ([], f, batch)"
| "nack_walk now (e # es) f batch =
     (case nack_entry now e f batch of (e', f', batch') \<Rightarrow>
      case nack_walk now es f' batch' of (es', f'', batch'') \<Rightarrow>
        (case e' of None \<Rightarrow> es' | Some k \<Rightarrow> k # es', f'', batch''))"

definition processNacks :: "Timestamp \<Rightarrow> Flow \<Rightarrow> Flow" where
  "processNacks now f =
     (if r_missingCount (receiver f) = 0 then f
      else let f = f\<lparr>receiver := refillTokens now (receiver f)\<rparr>;
               (missing, f, batch) = nack_walk now (r_missing (receiver f)) f [];
               f = f\<lparr>receiver := (receiver f)\<lparr>r_missing := missing\<rparr>\<rparr>
           in if batch \<noteq> []
              then push_output (SendFeedback (r_lastPath (receiver f))
                                  (NackRequest (r_ssrc (receiver f)) batch)) f
              else f)"

section \<open>Delivery\<close>

definition emitDeliver :: "u32 \<Rightarrow> Flow \<Rightarrow> Flow" where
  "emitDeliver n f =
     (let r = receiver f; s = slot_at r n;
          f = push_event (Deliver (sl_seq s) (sl_sourceTime s) (sl_payload s) (r_pendingDiscontinuity r)
                (sl_frag s) (sl_virtSrcPort s) (sl_virtDstPort s)) f;
          f = f\<lparr>receiver := r\<lparr>r_pendingDiscontinuity := False\<rparr>\<rparr>;
          f = count Delivered_update f;
          f = f\<lparr>receiver := put_slot (receiver f) n (s\<lparr>sl_state := slotEmpty, sl_payload := []\<rparr>)\<rparr>
      in f\<lparr>receiver := (receiver f)\<lparr>r_deliverNext := r_deliverNext (receiver f) + 1\<rparr>\<rparr>)"

definition clear_slot :: "receiverState \<Rightarrow> u32 \<Rightarrow> receiverState" where
  "clear_slot r n =
     (let sl = slot_at r n
      in if sl_state sl = slotFilled
         then put_slot r n (sl\<lparr>sl_state := slotEmpty, sl_payload := []\<rparr>) else r)"

function skip_loop :: "u32 \<Rightarrow> u32 \<Rightarrow> receiverState \<Rightarrow> receiverState" where
  "skip_loop n target r = (if n = target then r else skip_loop (n + 1) target (clear_slot r n))"
  by pat_completeness auto
termination
proof (relation "measure (\<lambda>(n, target, r). unat (target - n))")
  fix n target :: u32 and r :: receiverState
  assume "n \<noteq> target"
  then show "((n + 1, target, clear_slot r n), n, target, r) \<in> measure (\<lambda>(n, target, r). unat (target - n))"
    using unat_gap_pred [of n target] unat_gt_0 [of "target - n"] by simp
qed simp

declare skip_loop.simps [simp del]

definition skipTo :: "u32 \<Rightarrow> Flow \<Rightarrow> Flow" where
  "skipTo target f =
     (let r = receiver f;
          lost = ucast (target - r_deliverNext r) :: u64;
          r = skip_loop (r_deliverNext r) target r;
          f = f\<lparr>receiver := r\<lparr>r_deliverNext := target, r_pendingDiscontinuity := True\<rparr>\<rparr>;
          f = count_by Lost_update lost f
      in count Discontinuities_update f)"

text \<open>The scan for the next buffered packet: \<open>left\<close> iterations from offset \<open>k\<close>.\<close>

fun find_buffered :: "receiverState \<Rightarrow> nat \<Rightarrow> nat \<Rightarrow> u32 option" where
  "find_buffered r k 0 = None"
| "find_buffered r k (Suc left) =
     (let n = r_deliverNext r + of_nat k; sl = slot_at r n
      in if sl_state sl = slotFilled \<and> sl_seq sl = n then Some n else find_buffered r (Suc k) left)"

text \<open>
  One round of the delivery loop; the flag says whether the source continues the loop. The
  index test is the bounds check of \<open>r.ring[r.deliverNext\&r.mask]\<close>: it never fails on a
  constructed flow (\<open>ring_idx_bound\<close>), and a failed access ends the loop.
\<close>

definition deliver_round :: "Timestamp \<Rightarrow> Flow \<Rightarrow> bool \<times> Flow" where
  "deliver_round now f =
     (let r = receiver f; dn = r_deliverNext r; s = slot_at r dn; ringN = int (length (r_ring r))
      in if \<not> ring_idx (r_mask r) dn < length (r_ring r) then (False, f)
         else if sl_state s = slotFilled \<and> sl_seq s = dn
         then if Before now (sl_outputTime s) then (False, armPlayout (sl_outputTime s) f)
              else (True, emitDeliver dn f)
         else let dist = Distance32 dn (r_highest r)
              in if dist \<le> 0 then (False, disarmPlayout f)
                 else let limit = (if dist > ringN then ringN else dist)
                      in case find_buffered r 1 (nat limit) of
                           None \<Rightarrow>
                             if dist > ringN then (True, skipTo (dn + word_of_int ringN) f)
                             else (False, disarmPlayout f)
                         | Some foundSeq \<Rightarrow>
                             let sl = slot_at r foundSeq
                             in if Before now (sl_outputTime sl)
                                then (False, armPlayout (sl_outputTime sl) f)
                                else (True, skipTo foundSeq f))"

subsection \<open>What the delivery operations change\<close>

lemma armPlayout_receiver [simp]:
  "receiver (armPlayout d f) =
     (receiver f)\<lparr>r_playoutArmed := True,
       r_playoutDeadline := (if r_playoutArmed (receiver f) \<and> \<not> d < r_playoutDeadline (receiver f)
                             then r_playoutDeadline (receiver f) else d)\<rparr>"
  by (auto simp: armPlayout_def Let_def)

lemma disarmPlayout_receiver [simp]:
  "receiver (disarmPlayout f) = (receiver f)\<lparr>r_playoutArmed := False\<rparr>"
  by (auto simp: disarmPlayout_def Let_def)

lemma timer_frame [simp]:
  "stats (armPlayout d f) = stats f" "events (armPlayout d f) = events f" "cfg (armPlayout d f) = cfg f"
  "stats (disarmPlayout f) = stats f" "events (disarmPlayout f) = events f" "cfg (disarmPlayout f) = cfg f"
  "role (armPlayout d f) = role f" "role (disarmPlayout f) = role f"
  "missingCounterMax (armPlayout d f) = missingCounterMax f"
  "missingCounterMax (disarmPlayout f) = missingCounterMax f"
  by (simp_all add: armPlayout_def disarmPlayout_def Let_def)

lemma slot_at_put:
  "ring_idx (r_mask r) s < length (r_ring r) \<Longrightarrow>
   slot_at (put_slot r s x) t = (if ring_idx (r_mask r) s = ring_idx (r_mask r) t then x else slot_at r t)"
  by (simp add: slot_at_def put_slot_def)

lemma put_slot_frame [simp]:
  "r_mask (put_slot r s x) = r_mask r" "length (r_ring (put_slot r s x)) = length (r_ring r)"
  "r_highest (put_slot r s x) = r_highest r" "r_deliverNext (put_slot r s x) = r_deliverNext r"
  "r_started (put_slot r s x) = r_started r" "r_missing (put_slot r s x) = r_missing r"
  "r_missingCount (put_slot r s x) = r_missingCount r" "r_lastFound (put_slot r s x) = r_lastFound r"
  "r_pendingDiscontinuity (put_slot r s x) = r_pendingDiscontinuity r"
  "r_nackSeqsPerSec (put_slot r s x) = r_nackSeqsPerSec r" "r_ssrc (put_slot r s x) = r_ssrc r"
  "r_nackTokens (put_slot r s x) = r_nackTokens r" "r_nackTokenBurst (put_slot r s x) = r_nackTokenBurst r"
  by (simp_all add: put_slot_def)

lemma skip_loop_ring_only: "skip_loop n t r = r\<lparr>r_ring := r_ring (skip_loop n t r)\<rparr>"
proof (induction n t r rule: skip_loop.induct)
  case (1 n t r)
  show ?case
  proof (cases "n = t")
    case False
    have "skip_loop n t r = skip_loop (n + 1) t (clear_slot r n)"
      using False by (subst skip_loop.simps) simp
    moreover have "(clear_slot r n)\<lparr>r_ring := x\<rparr> = r\<lparr>r_ring := x\<rparr>" for x
      by (simp add: clear_slot_def put_slot_def Let_def)
    ultimately show ?thesis using 1 [OF False] by simp
  qed (subst (1 2) skip_loop.simps, simp)
qed

lemma skip_loop_frame [simp]:
  "r_mask (skip_loop n t r) = r_mask r" "r_highest (skip_loop n t r) = r_highest r"
  "r_deliverNext (skip_loop n t r) = r_deliverNext r" "r_started (skip_loop n t r) = r_started r"
  "r_missing (skip_loop n t r) = r_missing r" "r_missingCount (skip_loop n t r) = r_missingCount r"
  "r_lastFound (skip_loop n t r) = r_lastFound r" "r_ssrc (skip_loop n t r) = r_ssrc r"
  "r_nackTokens (skip_loop n t r) = r_nackTokens r"
  "r_nackTokenBurst (skip_loop n t r) = r_nackTokenBurst r"
  "r_nackSeqsPerSec (skip_loop n t r) = r_nackSeqsPerSec r"
  by (subst skip_loop_ring_only, simp)+

definition slot_full :: "slot \<Rightarrow> bool" where
  "slot_full s \<longleftrightarrow> sl_state s = slotFilled"

definition filled_count :: "receiverState \<Rightarrow> nat" where
  "filled_count r = length (filter slot_full (r_ring r))"

lemma clear_slot_length [simp]:
  "length (r_ring (clear_slot r n)) = length (r_ring r)" "r_mask (clear_slot r n) = r_mask r"
  by (simp_all add: clear_slot_def Let_def)

lemma clear_slot_filled: "filled_count (clear_slot r n) \<le> filled_count r"
  by (simp add: clear_slot_def filled_count_def put_slot_def Let_def slot_full_def length_filter_update_le)

lemma skip_loop_length [simp]: "length (r_ring (skip_loop n t r)) = length (r_ring r)"
proof (induction n t r rule: skip_loop.induct)
  case (1 n t r)
  then show ?case by (subst skip_loop.simps) simp
qed

lemma skip_loop_filled: "filled_count (skip_loop n t r) \<le> filled_count r"
proof (induction n t r rule: skip_loop.induct)
  case (1 n t r)
  then show ?case
    using clear_slot_filled [of r n] by (subst skip_loop.simps) (auto intro: order_trans)
qed

text \<open>The ring holds sequence \<open>n\<close>: the test every lookup of the source makes.\<close>

definition buffered :: "receiverState \<Rightarrow> u32 \<Rightarrow> bool" where
  "buffered r n \<longleftrightarrow> slot_full (slot_at r n) \<and> sl_seq (slot_at r n) = n"

lemma find_buffered_Some:
  assumes "find_buffered r k left = Some n"
  shows "\<exists>j. k \<le> j \<and> j < k + left \<and> n = r_deliverNext r + of_nat j \<and> buffered r n
           \<and> (\<forall>i. k \<le> i \<and> i < j \<longrightarrow> \<not> buffered r (r_deliverNext r + of_nat i))"
  using assms
proof (induction r k left rule: find_buffered.induct)
  case (2 r k left)
  show ?case
  proof (cases "buffered r (r_deliverNext r + of_nat k)")
    case True
    then show ?thesis using 2 by (intro exI [of _ k]) (auto simp: Let_def slot_full_def buffered_def)
  next
    case False
    then have "find_buffered r (Suc k) left = Some n"
      using 2(2) by (auto simp: Let_def slot_full_def buffered_def split: if_splits)
    then obtain j where j: "Suc k \<le> j" "j < Suc k + left" "n = r_deliverNext r + of_nat j" "buffered r n"
      "\<forall>i. Suc k \<le> i \<and> i < j \<longrightarrow> \<not> buffered r (r_deliverNext r + of_nat i)"
      using 2(1) [OF refl refl] False by (auto simp: slot_full_def buffered_def)
    have "\<forall>i. k \<le> i \<and> i < j \<longrightarrow> \<not> buffered r (r_deliverNext r + of_nat i)"
      using j(5) False le_eq_less_or_eq Suc_le_eq by metis
    then show ?thesis using j(1-4) by (intro exI [of _ j]) auto
  qed
qed simp

lemma find_buffered_None:
  "find_buffered r k left = None \<Longrightarrow> k \<le> i \<Longrightarrow> i < k + left \<Longrightarrow>
   \<not> buffered r (r_deliverNext r + of_nat i)"
proof (induction r k left rule: find_buffered.induct)
  case (2 r k left)
  show ?case
  proof (cases "i = k")
    case True
    then show ?thesis using 2(2) by (auto simp: Let_def slot_full_def buffered_def split: if_splits)
  next
    case False
    then show ?thesis
      using 2 by (auto simp: Let_def slot_full_def buffered_def split: if_splits)
  qed
qed simp

lemma emitDeliver_receiver:
  "receiver (emitDeliver n f) =
     (put_slot (receiver f) n ((slot_at (receiver f) n)\<lparr>sl_state := slotEmpty, sl_payload := []\<rparr>))
       \<lparr>r_deliverNext := r_deliverNext (receiver f) + 1, r_pendingDiscontinuity := False\<rparr>"
  by (simp add: emitDeliver_def Let_def put_slot_def)

lemma skipTo_receiver:
  "receiver (skipTo t f) =
     (skip_loop (r_deliverNext (receiver f)) t (receiver f))
       \<lparr>r_deliverNext := t, r_pendingDiscontinuity := True\<rparr>"
  by (simp add: skipTo_def Let_def)

lemma skipTo_stats:
  "stats (skipTo t f) =
     (stats f)\<lparr>Lost := Lost (stats f) + ucast (t - r_deliverNext (receiver f)),
               Discontinuities := Discontinuities (stats f) + 1\<rparr>"
  by (simp add: skipTo_def Let_def)

lemma emitDeliver_stats: "stats (emitDeliver n f) = (stats f)\<lparr>Delivered := Delivered (stats f) + 1\<rparr>"
  by (simp add: emitDeliver_def Let_def)

lemma deliver_frame [simp]:
  "cfg (emitDeliver n f) = cfg f" "role (emitDeliver n f) = role f" "outputs (emitDeliver n f) = outputs f"
  "missingCounterMax (emitDeliver n f) = missingCounterMax f"
  "cfg (skipTo n f) = cfg f" "role (skipTo n f) = role f" "outputs (skipTo n f) = outputs f"
  "events (skipTo n f) = events f" "missingCounterMax (skipTo n f) = missingCounterMax f"
  by (simp_all add: emitDeliver_def skipTo_def Let_def)

lemma emitDeliver_filled:
  assumes "ring_idx (r_mask (receiver f)) n < length (r_ring (receiver f))" "slot_full (slot_at (receiver f) n)"
  shows "filled_count (receiver (emitDeliver n f)) < filled_count (receiver f)"
  using assms length_filter_update_less [of "ring_idx (r_mask (receiver f)) n" "r_ring (receiver f)" slot_full]
  by (simp add: emitDeliver_receiver filled_count_def put_slot_def slot_at_def slot_full_def)

lemma skipTo_filled: "filled_count (receiver (skipTo n f)) \<le> filled_count (receiver f)"
  using skip_loop_filled [of "r_deliverNext (receiver f)" n "receiver f"]
  by (simp add: skipTo_receiver filled_count_def)

text \<open>The four ways a round can go on.\<close>

lemma deliver_round_cases:
  assumes "deliver_round now f = (True, f')"
  obtains
    (deliver) "ring_idx (r_mask (receiver f)) (r_deliverNext (receiver f)) < length (r_ring (receiver f))"
      "buffered (receiver f) (r_deliverNext (receiver f))"
      "sl_outputTime (slot_at (receiver f) (r_deliverNext (receiver f))) \<le> now"
      "f' = emitDeliver (r_deliverNext (receiver f)) f"
  | (skip) j where "0 < j" "int j \<le> Distance32 (r_deliverNext (receiver f)) (r_highest (receiver f))"
      "j \<le> length (r_ring (receiver f))"
      "\<forall>i<j. \<not> buffered (receiver f) (r_deliverNext (receiver f) + of_nat i)"
      "f' = skipTo (r_deliverNext (receiver f) + of_nat j) f"
proof -
  let ?r = "receiver f" and ?dn = "r_deliverNext (receiver f)"
  let ?dist = "Distance32 ?dn (r_highest ?r)" and ?N = "length (r_ring ?r)"
  have idx: "ring_idx (r_mask ?r) ?dn < ?N"
    using assms by (auto simp: deliver_round_def Let_def split: if_splits)
  show ?thesis
  proof (cases "buffered ?r ?dn")
    case True
    then show ?thesis
      using assms idx by (intro deliver) (auto simp: deliver_round_def Let_def buffered_def slot_full_def split: if_splits)
  next
    case hole: False
    let ?lim = "nat (if ?dist > int ?N then int ?N else ?dist)"
    have pos: "0 < ?dist"
      using assms hole by (auto simp: deliver_round_def Let_def buffered_def slot_full_def split: if_splits)
    have first: "\<not> buffered ?r (?dn + of_nat i)" if "i < j" "\<forall>i. 1 \<le> i \<and> i < j \<longrightarrow> \<not> buffered ?r (?dn + of_nat i)" for i j
      using that hole by (cases i) auto
    show ?thesis
    proof (cases "find_buffered ?r 1 ?lim")
      case None
      then have lap: "?dist > int ?N" and f': "f' = skipTo (?dn + of_nat ?N) f"
        using assms hole idx pos
        by (auto simp: deliver_round_def Let_def buffered_def slot_full_def split: if_splits)
      have "\<forall>i<?N. \<not> buffered ?r (?dn + of_nat i)"
        using find_buffered_None [OF None] first [of _ ?N] lap by auto
      then show ?thesis using lap f' idx by (intro skip [of ?N]) auto
    next
      case (Some n)
      then obtain j where j: "1 \<le> j" "j < 1 + ?lim" "n = ?dn + of_nat j"
        "\<forall>i. 1 \<le> i \<and> i < j \<longrightarrow> \<not> buffered ?r (?dn + of_nat i)"
        using find_buffered_Some [OF Some] by auto
      have f': "f' = skipTo n f"
        using assms hole idx pos Some
        by (auto simp: deliver_round_def Let_def buffered_def slot_full_def split: if_splits)
      then show ?thesis using j first [of _ j] pos by (intro skip [of j]) (auto split: if_splits)
    qed
  qed
qed

lemma Distance32_advance:
  assumes "int j \<le> Distance32 d h" "0 < j"
  shows "Distance32 (d + of_nat j) h = Distance32 d h - int j"
proof -
  obtain n where n: "unat (h - d) = n" "n < 4294967296" by simp
  have "Distance32 d h = (if n \<le> 2147483648 then int n else int n - 4294967296)"
    by (simp only: Distance32_gap n(1))
  then have g: "unat (h - d) \<le> 2147483648" "j \<le> unat (h - d)"
    using assms n by (auto split: if_splits)
  then have "unat (of_nat j :: u32) = j" by (simp add: unat_of_nat)
  then have "unat (h - (d + of_nat j)) = unat (h - d) - j"
    using gap_split [of "d + of_nat j" d h] g by simp
  then show ?thesis using g n by (simp add: Distance32_gap del: of_nat_unat)
qed

text \<open>Each round that goes on empties a slot, or moves the cursor towards \<open>highest\<close>.\<close>

definition cursor_dist :: "Flow \<Rightarrow> nat" where
  "cursor_dist f = nat (Distance32 (r_deliverNext (receiver f)) (r_highest (receiver f)))"

lemma deliver_round_decreases:
  assumes "deliver_round now f = (True, f')"
  shows "filled_count (receiver f') < filled_count (receiver f)
       \<or> filled_count (receiver f') = filled_count (receiver f) \<and> cursor_dist f' < cursor_dist f"
  using assms
proof (cases rule: deliver_round_cases)
  case deliver
  then show ?thesis by (auto simp: emitDeliver_filled buffered_def)
next
  case (skip j)
  then show ?thesis
    using skipTo_filled [of "r_deliverNext (receiver f) + of_nat j" f]
    by (auto simp: skipTo_receiver Distance32_advance cursor_dist_def)
qed

definition deliver_measure :: "((Timestamp \<times> Flow) \<times> (Timestamp \<times> Flow)) set" where
  "deliver_measure = measures [\<lambda>(now, f). filled_count (receiver f), \<lambda>(now, f). cursor_dist f]"

lemma deliver_round_measure:
  assumes "(go, f') = deliver_round now f" go
  shows "((now, f'), now, f) \<in> deliver_measure"
proof -
  have "deliver_round now f = (True, f')" using assms(2) by (simp flip: assms(1))
  from deliver_round_decreases [OF this] show ?thesis by (auto simp: deliver_measure_def)
qed

function deliver_loop :: "Timestamp \<Rightarrow> Flow \<Rightarrow> Flow" where
  "deliver_loop now f =
     (case deliver_round now f of (go, f') \<Rightarrow> if go then deliver_loop now f' else f')"
  by pat_completeness auto
termination
  by (relation deliver_measure) (simp add: deliver_measure_def, rule deliver_round_measure)

declare deliver_loop.simps [simp del]

definition deliverDue :: "Timestamp \<Rightarrow> Flow \<Rightarrow> Flow" where
  "deliverDue now f = (if \<not> r_started (receiver f) then f else deliver_loop now f)"

end
