(* ===== verification/Playout_Spec.thy ===== *)
theory Playout_Spec
  imports Flow_Types
begin

text \<open>
  The abstract playout machine: what the receiver promises its application. Its state is
  the next sequence to play and whether something was lost just before it. It either
  delivers the next sequence, or gives up on a positive number of sequences, which flags the
  next delivery as a discontinuity. \<open>playout d p evs k d' p'\<close> says that delivering \<open>evs\<close>
  and losing \<open>k\<close> sequences leads from \<open>(d, p)\<close> to \<open>(d', p')\<close>.
\<close>

inductive playout :: "u32 \<Rightarrow> bool \<Rightarrow> Event list \<Rightarrow> nat \<Rightarrow> u32 \<Rightarrow> bool \<Rightarrow> bool" where
  playout_done: "playout d p [] 0 d p"
| playout_deliver: "ev_Seq e = d \<Longrightarrow> ev_Discontinuity e = p \<Longrightarrow> playout (d + 1) False es k d' p' \<Longrightarrow>
     playout d p (e # es) k d' p'"
| playout_lose: "0 < j \<Longrightarrow> j \<le> 2147483648 \<Longrightarrow> playout (d + of_nat j) True es k d' p' \<Longrightarrow>
     playout d p es (j + k) d' p'"

inductive_cases playout_ConsE: "playout d p (e # es) k d' p'"

lemma playout_trans:
  "playout d p es k d' p' \<Longrightarrow> playout d' p' es' k' d'' p'' \<Longrightarrow> playout d p (es @ es') (k + k') d'' p''"
proof (induction rule: playout.induct)
  case (playout_lose j d es k d' p' p)
  then have "playout d p (es @ es') (j + (k + k')) d'' p''"
    by (intro playout.playout_lose [of j d "es @ es'" "k + k'"])
  then show ?case by (simp add: ac_simps)
qed (auto intro: playout.intros)

lemma playout_one:
  "ev_Seq e = d \<Longrightarrow> ev_Discontinuity e = p \<Longrightarrow> playout d p [e] 0 (d + 1) False"
  by (auto intro: playout.intros)

lemma playout_skip:
  "0 < j \<Longrightarrow> j \<le> 2147483648 \<Longrightarrow> playout d p [] j (d + of_nat j) True"
  using playout_lose [of j d "[]" 0] by (simp add: playout_done)

text \<open>Conservation: the cursor moves by what was delivered plus what was lost.\<close>

lemma playout_conserves: "playout d p es k d' p' \<Longrightarrow> d' = d + of_nat (length es + k)"
  by (induction rule: playout.induct) (simp_all add: ac_simps)

text \<open>Where each delivery stands: the number of losses before it fixes its sequence, and its
  flag tells whether anything was lost since the previous one.\<close>

lemma playout_positions:
  "playout d p es k d' p' \<Longrightarrow>
   \<exists>ls. length ls = length es \<and> sum_list ls \<le> k
      \<and> (\<forall>i<length es. ev_Seq (es ! i) = d + of_nat (i + sum_list (take (Suc i) ls))
           \<and> (ev_Discontinuity (es ! i) \<longleftrightarrow> 0 < ls ! i \<or> (i = 0 \<and> p)))"
proof (induction rule: playout.induct)
  case (playout_deliver e d p es k d' p')
  then obtain ls where ls: "length ls = length es" "sum_list ls \<le> k"
    "\<forall>i<length es. ev_Seq (es ! i) = d + 1 + of_nat (i + sum_list (take (Suc i) ls))
           \<and> (ev_Discontinuity (es ! i) \<longleftrightarrow> 0 < ls ! i \<or> (i = 0 \<and> False))"
    by blast
  show ?case
    using ls playout_deliver.hyps(1,2)
    by (intro exI [of _ "0 # ls"]) (auto simp: less_Suc_eq_0_disj ac_simps)
next
  case (playout_lose j d es k d' p' p)
  then obtain ls where ls: "length ls = length es" "sum_list ls \<le> k"
    "\<forall>i<length es. ev_Seq (es ! i) = d + of_nat j + of_nat (i + sum_list (take (Suc i) ls))
           \<and> (ev_Discontinuity (es ! i) \<longleftrightarrow> 0 < ls ! i \<or> i = 0)"
    by blast
  show ?case
  proof (cases ls)
    case Nil
    then show ?thesis using ls by (intro exI [of _ "[]"]) auto
  next
    case (Cons l ls')
    then show ?thesis
      using ls playout_lose.hyps(1)
      by (intro exI [of _ "(j + l) # ls'"]) (auto simp: nth_Cons' ac_simps)
  qed
qed simp

text \<open>Without a flagged delivery the sequences are consecutive.\<close>

lemma playout_unflagged:
  assumes "playout d False es k d' p'" "\<forall>e\<in>set es. \<not> ev_Discontinuity e" "i < length es"
  shows "ev_Seq (es ! i) = d + of_nat i"
proof -
  obtain ls where ls: "length ls = length es"
    "\<forall>i<length es. ev_Seq (es ! i) = d + of_nat (i + sum_list (take (Suc i) ls))
           \<and> (ev_Discontinuity (es ! i) \<longleftrightarrow> 0 < ls ! i \<or> (i = 0 \<and> False))"
    using playout_positions [OF assms(1)] by blast
  have "\<forall>j<length ls. ls ! j = 0" using ls assms(2) by (metis neq0_conv nth_mem)
  then have "\<forall>x\<in>set (take (Suc i) ls). x = 0" by (metis in_set_conv_nth in_set_takeD)
  then have "sum_list (take (Suc i) ls) = 0" by (simp add: sum_list_eq_0_iff)
  moreover have "ev_Seq (es ! i) = d + of_nat (i + sum_list (take (Suc i) ls))" using ls(2) assms(3) by blast
  ultimately show ?thesis by (simp only: add_0_right)
qed

text \<open>While the cursor has not gone round the sequence space, nothing is delivered twice.\<close>

lemma playout_distinct:
  assumes "playout d p es k d' p'" "length es + k \<le> 2 ^ 32"
  shows "distinct (map ev_Seq es)"
proof -
  obtain ls where ls: "length ls = length es" "sum_list ls \<le> k"
    "\<forall>i<length es. ev_Seq (es ! i) = d + of_nat (i + sum_list (take (Suc i) ls))"
    using playout_positions [OF assms(1)] by blast
  have "ev_Seq (es ! i) \<noteq> ev_Seq (es ! j)" if ij: "i < j" "j < length es" for i j
  proof -
    have "sum_list (take (Suc i) ls) \<le> sum_list (take (Suc j) ls)"
      using ij(1) by (metis Suc_leI Suc_mono less_imp_le_nat take_add le_add_diff_inverse sum_list_append le_add1)
    moreover have "sum_list (take (Suc j) ls) \<le> sum_list ls"
      by (metis append_take_drop_id le_add1 sum_list_append)
    ultimately have "i + sum_list (take (Suc i) ls) < j + sum_list (take (Suc j) ls)"
      "j + sum_list (take (Suc j) ls) < 2 ^ 32"
      using ij ls(2) assms(2) by linarith+
    then have "(of_nat (i + sum_list (take (Suc i) ls)) :: u32) \<noteq> of_nat (j + sum_list (take (Suc j) ls))"
      by (rule of_nat_less_neq)
    then show ?thesis using ls(3) ij by simp
  qed
  then show ?thesis
    by (auto simp: distinct_conv_nth) (metis linorder_neqE_nat)
qed

end
