(* ===== verification/Receiver_Inv.thy ===== *)
theory Receiver_Inv
  imports Flow_Receiver Seq_Ring Playout_Spec
begin

text \<open>
  Invariants of the receiver half and their preservation. \<open>ring_inv\<close>: every occupied slot
  holds a sequence that maps to its own index and lies between the playout cursor and the
  newest sequence, at most half the sequence space ahead. \<open>missing_inv\<close>: the missing queue
  agrees with its counter, stays within the overflow bound, and no entry was requested more
  than \<open>MaxRetries\<close> times. \<open>tokens_inv\<close>: the return-bandwidth bucket stays within its burst.
\<close>

section \<open>The ring invariant\<close>

definition ahead :: "receiverState \<Rightarrow> nat" where
  "ahead r = unat (r_highest r + 1 - r_deliverNext r)"

definition slot_ok :: "receiverState \<Rightarrow> nat \<Rightarrow> bool" where
  "slot_ok r i \<longleftrightarrow> (slot_full (r_ring r ! i) \<longrightarrow>
     r_started r \<and> ring_idx (r_mask r) (sl_seq (r_ring r ! i)) = i
     \<and> unat (sl_seq (r_ring r ! i) - r_deliverNext r) < ahead r)"

definition ring_inv :: "receiverState \<Rightarrow> bool" where
  "ring_inv r \<longleftrightarrow> ring_geom (r_ring r) (r_mask r) \<and> (r_started r \<longrightarrow> ahead r \<le> 2147483648)
     \<and> (\<forall>i<length (r_ring r). slot_ok r i)"

lemma ring_inv_frame [simp]:
  "ring_inv (r\<lparr>r_offset := a\<rparr>) = ring_inv r" "ring_inv (r\<lparr>r_ssrc := b\<rparr>) = ring_inv r"
  "ring_inv (r\<lparr>r_shortSeq := c\<rparr>) = ring_inv r" "ring_inv (r\<lparr>r_lastFound := b\<rparr>) = ring_inv r"
  "ring_inv (r\<lparr>r_maxSourceTime := d\<rparr>) = ring_inv r" "ring_inv (r\<lparr>r_lastPacketTime := a\<rparr>) = ring_inv r"
  "ring_inv (r\<lparr>r_lastResync := a\<rparr>) = ring_inv r" "ring_inv (r\<lparr>r_pendingDiscontinuity := c\<rparr>) = ring_inv r"
  "ring_inv (r\<lparr>r_lastPath := p\<rparr>) = ring_inv r" "ring_inv (r\<lparr>r_missing := m\<rparr>) = ring_inv r"
  "ring_inv (r\<lparr>r_missingCount := a\<rparr>) = ring_inv r" "ring_inv (r\<lparr>r_playoutArmed := c\<rparr>) = ring_inv r"
  "ring_inv (r\<lparr>r_playoutDeadline := a\<rparr>) = ring_inv r" "ring_inv (r\<lparr>r_nackArmed := c\<rparr>) = ring_inv r"
  "ring_inv (r\<lparr>r_nackTokens := x\<rparr>) = ring_inv r" "ring_inv (r\<lparr>r_nackTokensTime := a\<rparr>) = ring_inv r"
  "ring_inv (r\<lparr>r_senderMaxBuffer := a\<rparr>) = ring_inv r" "ring_inv (r\<lparr>r_lossSnap := d\<rparr>) = ring_inv r"
  "ring_inv (r\<lparr>r_recoveredSnap := d\<rparr>) = ring_inv r" "ring_inv (r\<lparr>r_ipsLastArrival := a\<rparr>) = ring_inv r"
  "ring_inv (r\<lparr>r_ipsMinUs := a\<rparr>) = ring_inv r" "ring_inv (r\<lparr>r_ipsCurUs := a\<rparr>) = ring_inv r"
  "ring_inv (r\<lparr>r_ipsMaxUs := a\<rparr>) = ring_inv r" "ring_inv (r\<lparr>r_bufferTimeSum := a\<rparr>) = ring_inv r"
  "ring_inv (r\<lparr>r_bufferTimeSamples := d\<rparr>) = ring_inv r"
  by (simp_all add: ring_inv_def slot_ok_def ahead_def)

lemma ring_inv_idx: "ring_inv r \<Longrightarrow> ring_idx (r_mask r) n < length (r_ring r)"
  by (simp add: ring_inv_def ring_idx_bound)

lemma ring_inv_slot:
  assumes "ring_inv r" "i < length (r_ring r)" "slot_full (r_ring r ! i)"
  shows "r_started r" "ring_idx (r_mask r) (sl_seq (r_ring r ! i)) = i"
    "unat (sl_seq (r_ring r ! i) - r_deliverNext r) < ahead r"
    "buffered r (sl_seq (r_ring r ! i))"
  using assms by (auto simp: ring_inv_def slot_ok_def buffered_def slot_at_def)

lemma ring_inv_buffered:
  assumes "ring_inv r" "buffered r n"
  shows "r_started r" "unat (n - r_deliverNext r) < ahead r"
  using ring_inv_slot [OF assms(1) ring_inv_idx [OF assms(1)], of n] assms(2)
  by (auto simp: buffered_def slot_at_def)

text \<open>The distance to \<open>highest\<close> the loop computes, in terms of \<open>ahead\<close>.\<close>

lemma Distance32_ahead:
  assumes "ahead r \<le> 2147483648"
  shows "Distance32 (r_deliverNext r) (r_highest r) = int (ahead r) - 1"
proof -
  obtain d h where dh: "d = r_deliverNext r" "h = r_highest r" by simp
  obtain n where n: "unat (h + 1 - d) = n" "n \<le> 2147483648" using assms by (simp add: ahead_def dh)
  have e: "h - d = (h + 1 - d) - 1" by simp
  have "Distance32 d h = int n - 1"
  proof (cases "h + 1 - d = 0")
    case True
    then have "h - d = - 1" using e by simp
    then have "unat (h - d) = 4294967295" by (simp only:) (simp add: unsigned_minus_1_eq_mask mask_eq_exp_minus_1)
    moreover have "n = 0" using n(1) True by simp
    ultimately show ?thesis by (simp only: Distance32_gap) simp
  next
    case False
    then have "1 \<le> h + 1 - d" by (simp add: word_le_nat_alt Suc_le_eq unat_gt_0)
    then have "unat ((h + 1 - d) - 1) = n - 1" by (simp only: unat_sub n(1) unat_1)
    then have "unat (h - d) = n - 1" by (simp only: e)
    moreover have "0 < n" using False n(1) unat_gt_0 [of "h + 1 - d"] by simp
    ultimately show ?thesis using n(2) by (simp only: Distance32_gap) simp
  qed
  then show ?thesis using n(1) by (simp add: ahead_def dh)
qed

lemma skip_loop_slot:
  "slot_full (r_ring (skip_loop n t r) ! i) \<Longrightarrow> r_ring (skip_loop n t r) ! i = r_ring r ! i"
proof (induction n t r rule: skip_loop.induct)
  case (1 n t r)
  show ?case
  proof (cases "n = t")
    case False
    have "skip_loop n t r = skip_loop (n + 1) t (clear_slot r n)" using False by (subst skip_loop.simps) simp
    moreover have "slot_full (r_ring (clear_slot r n) ! i) \<Longrightarrow> r_ring (clear_slot r n) ! i = r_ring r ! i"
      by (cases "i < length (r_ring r)"; cases "ring_idx (r_mask r) n = i")
        (auto simp: clear_slot_def put_slot_def slot_full_def Let_def list_update_beyond)
    ultimately show ?thesis using 1 False by metis
  qed (subst skip_loop.simps, simp)
qed

text \<open>Advancing the cursor by \<open>j\<close> over sequences that are not buffered.\<close>

lemma ahead_advance:
  assumes "j \<le> ahead r" "ahead r \<le> 2147483648"
  shows "unat (r_highest r + 1 - (r_deliverNext r + of_nat j)) = ahead r - j"
  using assms gap_split [of "r_deliverNext r + of_nat j" "r_deliverNext r" "r_highest r + 1"]
  by (simp add: ahead_def unat_of_nat take_bit_nat_eq_self)

lemma gap_advance:
  fixes n d :: u32
  assumes "j \<le> unat (n - d)"
  shows "unat (n - (d + of_nat j)) = unat (n - d) - j"
proof -
  have "j < 4294967296" by (rule le_less_trans [OF assms]) simp
  then have "unat (of_nat j :: u32) = j" by (simp add: unat_of_nat take_bit_nat_eq_self)
  then show ?thesis using gap_split [of "d + of_nat j" d n] assms by simp
qed

lemma ring_inv_cursor:
  assumes inv: "ring_inv r" "r_started r" and j: "j \<le> ahead r"
    and hole: "\<forall>i<j. \<not> buffered r' (r_deliverNext r + of_nat i)"
    and sub: "\<And>i. slot_full (r_ring r' ! i) \<Longrightarrow> r_ring r' ! i = r_ring r ! i"
    and fr: "length (r_ring r') = length (r_ring r)" "r_mask r' = r_mask r" "r_started r' = r_started r"
      "r_highest r' = r_highest r" "r_deliverNext r' = r_deliverNext r"
  shows "ring_inv (r'\<lparr>r_deliverNext := r_deliverNext r + of_nat j\<rparr>)"
proof -
  let ?d = "r_deliverNext r" and ?r = "r'\<lparr>r_deliverNext := r_deliverNext r + of_nat j\<rparr>"
  have a: "ahead r \<le> 2147483648" using inv by (simp add: ring_inv_def)
  then have ah: "ahead ?r = ahead r - j" using ahead_advance [OF j a] by (simp add: ahead_def fr)
  have ok: "slot_ok ?r i" if i: "i < length (r_ring r)" for i
  proof (cases "slot_full (r_ring r' ! i)")
    case True
    let ?n = "sl_seq (r_ring r ! i)"
    have eq: "r_ring r' ! i = r_ring r ! i" using sub [OF True] .
    note s = ring_inv_slot [OF inv(1) i] and full = True [unfolded eq]
    have b: "buffered r' ?n" using s(2) [OF full] True by (simp add: buffered_def slot_at_def fr eq)
    have "j \<le> unat (?n - ?d)"
    proof (rule ccontr)
      assume "\<not> j \<le> unat (?n - ?d)"
      then have "unat (?n - ?d) < j" by simp
      with hole have "\<not> buffered r' (?d + of_nat (unat (?n - ?d)))" by blast
      then show False using b by simp
    qed
    then have "unat (?n - (?d + of_nat j)) < ahead r - j"
      using s(3) [OF full] by (simp add: gap_advance)
    then show ?thesis using s(1,2) [OF full] by (simp add: slot_ok_def eq fr ah)
  qed (simp add: slot_ok_def)
  have "ring_geom (r_ring r') (r_mask r')"
    using inv(1) ring_geom_length [OF fr(1)] by (simp add: ring_inv_def fr(2))
  then show ?thesis using ok a by (auto simp: ring_inv_def ah fr(1))
qed

end
