(* ===== verification/Receiver_Delivery.thy ===== *)
theory Receiver_Delivery
  imports Receiver_Inv
begin

text \<open>
  Delivery: \<open>deliverDue\<close> keeps the ring invariant, implements the abstract playout machine,
  hands out only due packets exactly as they are buffered, and stops only when nothing that
  could be played is due.
\<close>

section \<open>One round\<close>

definition event_of :: "slot \<Rightarrow> bool \<Rightarrow> Event" where
  "event_of s disc = Deliver (sl_seq s) (sl_sourceTime s) (sl_payload s) disc (sl_frag s)
     (sl_virtSrcPort s) (sl_virtDstPort s)"

text \<open>Only ring contents, cursor, discontinuity flag and playout timer of the receiver move.\<close>

definition delivery_frame :: "Flow \<Rightarrow> Flow \<Rightarrow> bool" where
  "delivery_frame f f' \<longleftrightarrow>
     (\<exists>ring dn pd pa pl. receiver f' = (receiver f)\<lparr>r_ring := ring, r_deliverNext := dn,
        r_pendingDiscontinuity := pd, r_playoutArmed := pa, r_playoutDeadline := pl\<rparr>) \<and>
     (\<exists>d l c. stats f' = (stats f)\<lparr>Delivered := d, Lost := l, Discontinuities := c\<rparr>) \<and>
     length (r_ring (receiver f')) = length (r_ring (receiver f)) \<and>
     (\<forall>i. slot_full (r_ring (receiver f') ! i) \<longrightarrow> r_ring (receiver f') ! i = r_ring (receiver f) ! i) \<and>
     cfg f' = cfg f \<and> role f' = role f \<and> missingCounterMax f' = missingCounterMax f"

text \<open>The events \<open>evs\<close> come from due slots of \<open>f\<close>; \<open>k\<close> sequences are lost.\<close>

definition delivers :: "Timestamp \<Rightarrow> Flow \<Rightarrow> Flow \<Rightarrow> Event list \<Rightarrow> nat \<Rightarrow> bool" where
  "delivers now f f' evs k \<longleftrightarrow>
     fifo_list (events f') = fifo_list (events f) @ evs \<and>
     playout (r_deliverNext (receiver f)) (r_pendingDiscontinuity (receiver f)) evs k
       (r_deliverNext (receiver f')) (r_pendingDiscontinuity (receiver f')) \<and>
     Delivered (stats f') = Delivered (stats f) + of_nat (length evs) \<and>
     Lost (stats f') = Lost (stats f) + of_nat k \<and>
     (\<forall>e\<in>set evs. \<exists>n b. buffered (receiver f) n \<and> sl_outputTime (slot_at (receiver f) n) \<le> now
                      \<and> e = event_of (slot_at (receiver f) n) b)"

lemma delivery_frameE:
  assumes "delivery_frame f f'"
  obtains ring dn pd pa pl d l c where
    "receiver f' = (receiver f)\<lparr>r_ring := ring, r_deliverNext := dn, r_pendingDiscontinuity := pd,
       r_playoutArmed := pa, r_playoutDeadline := pl\<rparr>"
    "stats f' = (stats f)\<lparr>Delivered := d, Lost := l, Discontinuities := c\<rparr>"
  using assms unfolding delivery_frame_def by blast

lemma delivery_frame_simps:
  assumes "delivery_frame f f'"
  shows "r_mask (receiver f') = r_mask (receiver f)" "r_started (receiver f') = r_started (receiver f)"
    "r_highest (receiver f') = r_highest (receiver f)" "r_missing (receiver f') = r_missing (receiver f)"
    "r_missingCount (receiver f') = r_missingCount (receiver f)" "r_ssrc (receiver f') = r_ssrc (receiver f)"
    "r_nackTokens (receiver f') = r_nackTokens (receiver f)"
    "r_nackTokenBurst (receiver f') = r_nackTokenBurst (receiver f)"
    "r_nackSeqsPerSec (receiver f') = r_nackSeqsPerSec (receiver f)"
    "cfg f' = cfg f" "role f' = role f" "missingCounterMax f' = missingCounterMax f"
    "length (r_ring (receiver f')) = length (r_ring (receiver f))"
  by (rule delivery_frameE [OF assms], simp)+ (use assms in \<open>simp_all add: delivery_frame_def\<close>)

lemma delivery_frame_slot:
  assumes "delivery_frame f f'" "slot_full (slot_at (receiver f') n)"
  shows "slot_at (receiver f') n = slot_at (receiver f) n"
  using assms by (simp add: slot_at_def delivery_frame_simps(1)) (simp add: delivery_frame_def)

lemma delivery_frame_refl: "delivery_frame f f"
  unfolding delivery_frame_def
  by (intro conjI exI [of _ "r_ring (receiver f)"] exI [of _ "r_deliverNext (receiver f)"]
      exI [of _ "r_pendingDiscontinuity (receiver f)"] exI [of _ "r_playoutArmed (receiver f)"]
      exI [of _ "r_playoutDeadline (receiver f)"] exI [of _ "Delivered (stats f)"]
      exI [of _ "Lost (stats f)"] exI [of _ "Discontinuities (stats f)"]) simp_all

lemma delivery_frame_trans:
  assumes "delivery_frame f g" "delivery_frame g h"
  shows "delivery_frame f h"
proof -
  have "\<exists>ring dn pd pa pl. receiver h = (receiver f)\<lparr>r_ring := ring, r_deliverNext := dn,
        r_pendingDiscontinuity := pd, r_playoutArmed := pa, r_playoutDeadline := pl\<rparr>"
    "\<exists>d l c. stats h = (stats f)\<lparr>Delivered := d, Lost := l, Discontinuities := c\<rparr>"
    by (rule delivery_frameE [OF assms(1)], rule delivery_frameE [OF assms(2)], simp, blast)+
  moreover have "\<forall>i. slot_full (r_ring (receiver h) ! i) \<longrightarrow> r_ring (receiver h) ! i = r_ring (receiver f) ! i"
    using assms by (simp add: delivery_frame_def)
  ultimately show ?thesis
    using delivery_frame_simps [OF assms(1)] delivery_frame_simps [OF assms(2)]
    unfolding delivery_frame_def by simp
qed

lemma emitDeliver_slots:
  assumes "slot_full (r_ring (receiver (emitDeliver n f)) ! i)"
  shows "r_ring (receiver (emitDeliver n f)) ! i = r_ring (receiver f) ! i"
  using assms
  by (cases "i < length (r_ring (receiver f))"; cases "ring_idx (r_mask (receiver f)) n = i")
    (auto simp: emitDeliver_receiver put_slot_def slot_full_def list_update_beyond)

lemma skipTo_slots:
  "slot_full (r_ring (receiver (skipTo n f)) ! i) \<Longrightarrow>
   r_ring (receiver (skipTo n f)) ! i = r_ring (receiver f) ! i"
  by (simp add: skipTo_receiver skip_loop_slot)

lemma delivery_frameI:
  assumes "receiver f' = (receiver f)\<lparr>r_ring := ring, r_deliverNext := dn, r_pendingDiscontinuity := pd,
       r_playoutArmed := pa, r_playoutDeadline := pl\<rparr>"
    "stats f' = (stats f)\<lparr>Delivered := d, Lost := l, Discontinuities := c\<rparr>"
    "length ring = length (r_ring (receiver f))"
    "\<And>i. slot_full (ring ! i) \<Longrightarrow> ring ! i = r_ring (receiver f) ! i"
    "cfg f' = cfg f" "role f' = role f" "missingCounterMax f' = missingCounterMax f"
  shows "delivery_frame f f'"
  unfolding delivery_frame_def using assms by (intro conjI) (blast, blast, simp_all)

lemma emitDeliver_frame: "delivery_frame f (emitDeliver n f)"
  by (rule delivery_frameI [where pa = "r_playoutArmed (receiver f)" and pl = "r_playoutDeadline (receiver f)"
        and l = "Lost (stats f)" and c = "Discontinuities (stats f)" and pd = False
        and dn = "r_deliverNext (receiver f) + 1" and ring = "r_ring (receiver (emitDeliver n f))"])
    (simp_all add: emitDeliver_slots emitDeliver_stats, simp_all add: emitDeliver_receiver put_slot_def)

text \<open>The loop clears whatever sits at an index it passes: also a packet ahead of the target that shares the index.\<close>

lemma skip_loop_clears:
  assumes "unat (n - a) < unat (t - a)" "ring_idx (r_mask r) n < length (r_ring r)"
  shows "\<not> slot_full (slot_at (skip_loop a t r) n)"
  using assms
proof (induction a t r rule: skip_loop.induct)
  case (1 a t r)
  then have ne: "a \<noteq> t" by auto
  then have step: "skip_loop a t r = skip_loop (a + 1) t (clear_slot r a)" by (subst skip_loop.simps) simp
  show ?case
  proof (cases "a = n")
    case True
    then have "\<not> slot_full (r_ring (clear_slot r a) ! ring_idx (r_mask r) n)"
      using "1.prems"(2) by (simp add: clear_slot_def put_slot_def slot_at_def slot_full_def Let_def)
    then show ?thesis
      using skip_loop_slot [of "a + 1" t "clear_slot r a" "ring_idx (r_mask r) n"] unfolding step slot_at_def by auto
  next
    case False
    have "unat (n - (a + 1)) < unat (t - (a + 1))"
      using "1.prems"(1) unat_gap_pred [OF ne] unat_gap_pred [OF False] unat_gt_0 [of "n - a"] False by simp
    then show ?thesis using "1.IH" [OF ne] "1.prems"(2) unfolding step by simp
  qed
qed

lemma skipTo_discards_ahead:
  assumes "slot_at (receiver f) m = sl" "slot_full sl" "sl_seq sl = m"
    and "unat (n - r_deliverNext (receiver f)) < unat (t - r_deliverNext (receiver f))"
    and "ring_idx (r_mask (receiver f)) n = ring_idx (r_mask (receiver f)) m"
    and "ring_idx (r_mask (receiver f)) m < length (r_ring (receiver f))"
  shows "\<not> slot_full (slot_at (receiver (skipTo t f)) m)"
  using skip_loop_clears [OF assms(4), of "receiver f"] assms(5,6) by (simp add: skipTo_receiver slot_at_def)

lemma skipTo_frame: "delivery_frame f (skipTo n f)"
  by (rule delivery_frameI [where pa = "r_playoutArmed (receiver f)" and pl = "r_playoutDeadline (receiver f)"
        and d = "Delivered (stats f)" and pd = True and dn = n
        and ring = "r_ring (receiver (skipTo n f))"])
    (simp_all add: skipTo_slots skipTo_stats, simp_all add: skipTo_receiver, subst skip_loop_ring_only, simp)

lemma timer_delivery_frame: "delivery_frame f (armPlayout t f)" "delivery_frame f (disarmPlayout f)"
  by (rule delivery_frameI [where ring = "r_ring (receiver f)" and dn = "r_deliverNext (receiver f)"
        and pd = "r_pendingDiscontinuity (receiver f)" and d = "Delivered (stats f)"
        and l = "Lost (stats f)" and c = "Discontinuities (stats f)"]; simp)
    (rule delivery_frameI [where ring = "r_ring (receiver f)" and dn = "r_deliverNext (receiver f)"
        and pd = "r_pendingDiscontinuity (receiver f)" and d = "Delivered (stats f)" and pa = False
        and pl = "r_playoutDeadline (receiver f)"
        and l = "Lost (stats f)" and c = "Discontinuities (stats f)"]; simp)

text \<open>A round that goes on delivers one due packet or loses the hole before the next one.\<close>

lemma deliver_round_go:
  assumes inv: "ring_inv (receiver f)" "r_started (receiver f)" "fifo_inv (events f)"
    and go: "deliver_round now f = (True, f')"
  shows "delivery_frame f f' \<and> ring_inv (receiver f') \<and> fifo_inv (events f') \<and> (\<exists>evs k. delivers now f f' evs k)"
  using go
proof (cases rule: deliver_round_cases)
  case deliver
  let ?r = "receiver f" and ?dn = "r_deliverNext (receiver f)"
  let ?e = "event_of (slot_at ?r ?dn) (r_pendingDiscontinuity ?r)"
  let ?r' = "put_slot ?r ?dn ((slot_at ?r ?dn)\<lparr>sl_state := slotEmpty, sl_payload := []\<rparr>)"
  have "ring_inv (?r'\<lparr>r_deliverNext := ?dn + of_nat 1\<rparr>)"
  proof (rule ring_inv_cursor [OF inv(1,2)])
    show "1 \<le> ahead ?r" using ring_inv_buffered(2) [OF inv(1) deliver(2)] by simp
    show "\<forall>i<1. \<not> buffered ?r' (?dn + of_nat i)"
      using deliver(1) by (simp add: buffered_def slot_at_put slot_full_def)
    show "r_ring ?r' ! i = r_ring ?r ! i" if "slot_full (r_ring ?r' ! i)" for i
      using emitDeliver_slots [of ?dn f i] that by (simp add: emitDeliver_receiver)
  qed simp_all
  then have "ring_inv (receiver f')" by (simp add: deliver(4) emitDeliver_receiver)
  moreover have ev: "events f' = fifo_push (events f) ?e"
    by (simp add: deliver(4) emitDeliver_def event_of_def Let_def)
  moreover have "delivers now f f' [?e] 0"
    using deliver(2,3) inv(3) ev
    by (auto simp: delivers_def deliver(4) emitDeliver_receiver emitDeliver_stats event_of_def buffered_def
        intro!: playout_one)
  ultimately show ?thesis using inv(3) emitDeliver_frame deliver(4) by auto
next
  case (skip j)
  let ?r = "receiver f" and ?dn = "r_deliverNext (receiver f)"
  let ?r' = "skip_loop ?dn (?dn + of_nat j) ?r"
  have a: "ahead ?r \<le> 2147483648" using inv(1,2) by (simp add: ring_inv_def)
  have j: "j < ahead ?r" using skip(2) Distance32_ahead [OF a] by simp
  have "ring_inv (?r'\<lparr>r_deliverNext := ?dn + of_nat j\<rparr>)"
  proof (rule ring_inv_cursor [OF inv(1,2)])
    show "\<forall>i<j. \<not> buffered ?r' (?dn + of_nat i)"
      using skip(4) skip_loop_slot [of ?dn "?dn + of_nat j" ?r] by (auto simp: buffered_def slot_at_def)
  qed (use j skip_loop_slot in \<open>auto\<close>)
  then have "ring_inv (receiver f')" by (simp add: skip(5) skipTo_receiver)
  moreover have "delivers now f f' [] j"
    unfolding delivers_def skip(5) skipTo_receiver skipTo_stats
    using playout_skip [OF skip(1), of ?dn] j a by (simp add: unsigned_of_nat take_bit_nat_eq_self)
  ultimately show ?thesis using inv(3) skipTo_frame skip(5) by auto
qed

section \<open>Where the loop stops\<close>

lemma slot_at_timer [simp]:
  "slot_at (r\<lparr>r_playoutArmed := a, r_playoutDeadline := t\<rparr>) = slot_at r"
  "slot_at (r\<lparr>r_playoutArmed := a\<rparr>) = slot_at r"
  "buffered (r\<lparr>r_playoutArmed := a, r_playoutDeadline := t\<rparr>) = buffered r"
  "buffered (r\<lparr>r_playoutArmed := a\<rparr>) = buffered r"
  by (simp_all add: slot_at_def buffered_def fun_eq_iff)

text \<open>Either nothing is buffered, or the packet nearest to the cursor is not due yet and the
  playout timer is set no later than its deadline.\<close>

definition settled :: "Timestamp \<Rightarrow> receiverState \<Rightarrow> bool" where
  "settled now r \<longleftrightarrow> (\<forall>n. \<not> buffered r n) \<or>
     (\<exists>n. buffered r n \<and> now < sl_outputTime (slot_at r n) \<and>
          (\<forall>m. buffered r m \<longrightarrow> unat (n - r_deliverNext r) \<le> unat (m - r_deliverNext r)) \<and>
          r_playoutArmed r \<and> r_playoutDeadline r \<le> sl_outputTime (slot_at r n))"

lemma settled_arm:
  assumes "buffered (receiver f) n" "now < sl_outputTime (slot_at (receiver f) n)"
    "\<And>m. buffered (receiver f) m \<Longrightarrow> unat (n - r_deliverNext (receiver f)) \<le> unat (m - r_deliverNext (receiver f))"
  shows "settled now (receiver (armPlayout (sl_outputTime (slot_at (receiver f) n)) f))"
  unfolding settled_def using assms by (intro disjI2 exI [of _ n]) auto

lemma deliver_round_stop:
  assumes inv: "ring_inv (receiver f)" "r_started (receiver f)"
    and stop: "deliver_round now f = (False, f')"
  shows "settled now (receiver f') \<and> ((\<exists>t. f' = armPlayout t f) \<or> f' = disarmPlayout f)"
proof (cases "buffered (receiver f) (r_deliverNext (receiver f))")
  case True
  then show ?thesis
    using stop ring_inv_idx [OF inv(1)]
    by (auto simp: deliver_round_def Let_def buffered_def slot_full_def intro!: settled_arm split: if_splits)
next
  case hole: False
  let ?r = "receiver f" and ?dn = "r_deliverNext (receiver f)"
  let ?N = "int (length (r_ring ?r))" and ?dist = "Distance32 ?dn (r_highest ?r)"
  let ?lim = "nat (if ?dist > ?N then ?N else ?dist)"
  have d: "?dist = int (ahead ?r) - 1" using inv by (intro Distance32_ahead) (simp add: ring_inv_def)
  have pos: "1 \<le> unat (m - ?dn)" if "buffered ?r m" for m
    using hole that unat_gt_0 [of "m - ?dn"] by (cases "m = ?dn") auto
  have h: "(sl_state (slot_at ?r ?dn) = slotFilled \<and> sl_seq (slot_at ?r ?dn) = ?dn) = False"
    using hole by (simp add: buffered_def slot_full_def)
  have idx: "(ring_idx (r_mask ?r) ?dn < length (r_ring ?r)) = True" using ring_inv_idx [OF inv(1)] by simp
  have run: "deliver_round now f =
      (if ?dist \<le> 0 then (False, disarmPlayout f)
       else case find_buffered ?r 1 ?lim of
              None \<Rightarrow> if ?dist > ?N then (True, skipTo (?dn + word_of_int ?N) f) else (False, disarmPlayout f)
            | Some n \<Rightarrow> if now < sl_outputTime (slot_at ?r n) then (False, armPlayout (sl_outputTime (slot_at ?r n)) f)
                        else (True, skipTo n f))"
    by (simp only: deliver_round_def Let_def Before_def h idx not_True_eq_False if_False)
  show ?thesis
  proof (cases "\<exists>m. buffered ?r m")
    case False
    then have f': "f' = disarmPlayout f"
      using stop unfolding run by (auto split: if_splits option.splits dest!: find_buffered_Some)
    then show ?thesis using False by (simp add: settled_def)
  next
    case True
    then obtain m where m: "buffered ?r m" by blast
    have dist: "0 < ?dist" using pos [OF m] ring_inv_buffered(2) [OF inv(1) m] d by simp
    show ?thesis
    proof (cases "find_buffered ?r 1 ?lim")
      case None
      then have "?dist \<le> ?N" using stop dist unfolding run by (auto split: if_splits)
      then have "\<not> buffered ?r (?dn + of_nat (unat (m - ?dn)))"
        using pos [OF m] ring_inv_buffered(2) [OF inv(1) m] d
        by (intro find_buffered_None [OF None]) auto
      then show ?thesis using m by simp
    next
      case (Some n)
      obtain j where j: "1 \<le> j" "j < 1 + ?lim" "n = ?dn + of_nat j" "buffered ?r n"
        "\<forall>i. 1 \<le> i \<and> i < j \<longrightarrow> \<not> buffered ?r (?dn + of_nat i)"
        using find_buffered_Some [OF Some] by blast
      have near: "unat (n - ?dn) \<le> unat (k - ?dn)" if k: "buffered ?r k" for k
      proof (rule ccontr)
        assume "\<not> unat (n - ?dn) \<le> unat (k - ?dn)"
        moreover have "unat (n - ?dn) \<le> j" by (simp add: j(3) unat_of_nat)
        ultimately have "\<not> buffered ?r (?dn + of_nat (unat (k - ?dn)))" using j(5) pos [OF k] by fastforce
        then show False using k by simp
      qed
      have "now < sl_outputTime (slot_at ?r n)" "f' = armPlayout (sl_outputTime (slot_at ?r n)) f"
        using stop dist Some unfolding run by (auto split: if_splits)
      then show ?thesis using settled_arm [of f n now] j(4) near by blast
    qed
  qed
qed

section \<open>The whole pass\<close>

lemma delivers_event:
  "delivers now f f' evs k \<Longrightarrow> e \<in> set evs \<Longrightarrow>
   \<exists>n b. buffered (receiver f) n \<and> sl_outputTime (slot_at (receiver f) n) \<le> now
        \<and> e = event_of (slot_at (receiver f) n) b"
  unfolding delivers_def by (elim conjE, drule (1) bspec)

lemma delivers_refl:
  "f' = armPlayout t f \<or> f' = disarmPlayout f \<or> f' = f \<Longrightarrow> delivers now f f' [] 0"
  by (auto simp: delivers_def intro: playout_done)

lemma delivers_trans:
  assumes "delivery_frame f g" "delivers now f g es k" "delivers now g h es' k'"
  shows "delivers now f h (es @ es') (k + k')"
proof -
  have "\<exists>n b. buffered (receiver f) n \<and> sl_outputTime (slot_at (receiver f) n) \<le> now
            \<and> e = event_of (slot_at (receiver f) n) b" if "e \<in> set es'" for e
  proof -
    obtain n b where "buffered (receiver g) n" "sl_outputTime (slot_at (receiver g) n) \<le> now"
      "e = event_of (slot_at (receiver g) n) b"
      using delivers_event [OF assms(3) \<open>e \<in> set es'\<close>] by blast
    then show ?thesis using delivery_frame_slot [OF assms(1), of n] by (auto simp: buffered_def)
  qed
  then show ?thesis
    using assms(2,3) by (auto simp: delivers_def intro: playout_trans)
qed

lemma deliver_loop_spec:
  assumes "ring_inv (receiver f)" "r_started (receiver f)" "fifo_inv (events f)"
  shows "delivery_frame f (deliver_loop now f) \<and> ring_inv (receiver (deliver_loop now f))
       \<and> fifo_inv (events (deliver_loop now f)) \<and> settled now (receiver (deliver_loop now f))
       \<and> (\<exists>evs k. delivers now f (deliver_loop now f) evs k)"
  using assms
proof (induction now f rule: deliver_loop.induct)
  case (1 now f)
  obtain go f1 where round: "deliver_round now f = (go, f1)" by fastforce
  show ?case
  proof (cases go)
    case True
    then have loop: "deliver_loop now f = deliver_loop now f1" and go: "deliver_round now f = (True, f1)"
      using round by (simp_all add: deliver_loop.simps [of now f])
    have step: "delivery_frame f f1" "ring_inv (receiver f1)" "fifo_inv (events f1)"
      "\<exists>es k. delivers now f f1 es k"
      using deliver_round_go [OF 1(2-4) go] by blast+
    have st: "r_started (receiver f1)" using 1(3) delivery_frame_simps(2) [OF step(1)] by simp
    note IH = 1(1) [OF round [symmetric] True step(2) st step(3)]
    have "\<exists>es k. delivers now f (deliver_loop now f1) es k"
      using step(4) IH delivers_trans [OF step(1)] by blast
    then show ?thesis unfolding loop using IH delivery_frame_trans [OF step(1)] by blast
  next
    case False
    then have loop: "deliver_loop now f = f1" and stop: "deliver_round now f = (False, f1)"
      using round by (simp_all add: deliver_loop.simps [of now f])
    have s: "settled now (receiver f1)" "(\<exists>t. f1 = armPlayout t f) \<or> f1 = disarmPlayout f"
      using deliver_round_stop [OF 1(2,3) stop] by blast+
    then have "delivery_frame f f1" "ring_inv (receiver f1)" "fifo_inv (events f1)"
      using 1(2,4) timer_delivery_frame by auto
    then show ?thesis unfolding loop using s delivers_refl by blast
  qed
qed

lemma deliverDue_spec:
  assumes "ring_inv (receiver f)" "fifo_inv (events f)"
  shows "delivery_frame f (deliverDue now f) \<and> ring_inv (receiver (deliverDue now f))
       \<and> fifo_inv (events (deliverDue now f)) \<and> (\<exists>evs k. delivers now f (deliverDue now f) evs k)"
  using assms deliver_loop_spec [of f now] delivery_frame_refl delivers_refl
  by (cases "r_started (receiver f)") (simp_all add: deliverDue_def, blast)

text \<open>C3: delivery refines the abstract playout machine. Whatever the ring holds, one pass appends
  events that the machine allows from the receiver's cursor: in sequence order, flagged as
  discontinuous exactly after a loss, with the \<open>Delivered\<close> and \<open>Lost\<close> counters accounting for
  every sequence the cursor passed. Every event is a buffered packet, unchanged, whose playout
  deadline has come.\<close>

theorem deliverDue_refines_playout:
  assumes "ring_inv (receiver f)" "fifo_inv (events f)"
  shows "\<exists>evs k. fifo_list (events (deliverDue now f)) = fifo_list (events f) @ evs
     \<and> playout (r_deliverNext (receiver f)) (r_pendingDiscontinuity (receiver f)) evs k
         (r_deliverNext (receiver (deliverDue now f))) (r_pendingDiscontinuity (receiver (deliverDue now f)))
     \<and> Delivered (stats (deliverDue now f)) = Delivered (stats f) + of_nat (length evs)
     \<and> Lost (stats (deliverDue now f)) = Lost (stats f) + of_nat k
     \<and> (\<forall>e\<in>set evs. \<exists>n b. buffered (receiver f) n \<and> sl_outputTime (slot_at (receiver f) n) \<le> now
           \<and> e = event_of (slot_at (receiver f) n) b)
     \<and> ring_inv (receiver (deliverDue now f))"
  using deliverDue_spec [OF assms] unfolding delivers_def by blast

text \<open>C4: a pass never stops early. When it returns, either the ring is empty, or the packet nearest
  to the cursor is not due yet and the playout timer is armed no later than its deadline.\<close>

theorem deliverDue_settles:
  assumes "ring_inv (receiver f)" "r_started (receiver f)" "fifo_inv (events f)"
  shows "(\<forall>n. \<not> buffered (receiver (deliverDue now f)) n) \<or>
     (\<exists>n. buffered (receiver (deliverDue now f)) n
        \<and> now < sl_outputTime (slot_at (receiver (deliverDue now f)) n)
        \<and> (\<forall>m. buffered (receiver (deliverDue now f)) m \<longrightarrow>
             unat (n - r_deliverNext (receiver (deliverDue now f))) \<le> unat (m - r_deliverNext (receiver (deliverDue now f))))
        \<and> r_playoutArmed (receiver (deliverDue now f))
        \<and> r_playoutDeadline (receiver (deliverDue now f)) \<le> sl_outputTime (slot_at (receiver (deliverDue now f)) n))"
  using deliver_loop_spec [OF assms] assms(2) unfolding settled_def by (simp add: deliverDue_def)

end
