(* ===== verification/Receiver_Feed.thy ===== *)
theory Receiver_Feed
  imports Receiver_Inv
begin

text \<open>
  What feeding a packet does: each section of \<open>feed\<close> keeps the ring and missing-queue
  invariants, never moves the playout cursor of a running flow, and stores the packet
  unchanged or leaves the ring contents alone. A duplicate only records its path.
\<close>

section \<open>Missing detection\<close>

definition missing_inv :: "Flow \<Rightarrow> bool" where
  "missing_inv f \<longleftrightarrow>
     r_missingCount (receiver f) = int (length (r_missing (receiver f))) \<and>
     r_missingCount (receiver f) \<le> int (unat (missingCounterMax f)) + 1 \<and>
     (\<forall>e\<in>set (r_missing (receiver f)). 0 \<le> me_nackCount e \<and> me_nackCount e \<le> max 0 (MaxRetries (cfg f)))"

definition missing_frame :: "Flow \<Rightarrow> Flow \<Rightarrow> bool" where
  "missing_frame f f' \<longleftrightarrow>
     (\<exists>m c. receiver f' = (receiver f)\<lparr>r_missing := m, r_missingCount := c\<rparr>) \<and>
     (\<exists>n. stats f' = (stats f)\<lparr>Missing := n\<rparr>) \<and> events f' = events f \<and> outputs f' = outputs f \<and>
     cfg f' = cfg f \<and> role f' = role f \<and> missingCounterMax f' = missingCounterMax f \<and>
     recoveryBuffer f' = recoveryBuffer f \<and> recoveryBuffer110 f' = recoveryBuffer110 f \<and> est f' = est f"

lemma missing_frame_refl: "missing_frame f f"
  unfolding missing_frame_def
  by (intro conjI exI [of _ "r_missing (receiver f)"] exI [of _ "r_missingCount (receiver f)"]
      exI [of _ "Missing (stats f)"]) simp_all

lemma missing_frame_trans: "missing_frame f g \<Longrightarrow> missing_frame g h \<Longrightarrow> missing_frame f h"
  unfolding missing_frame_def by (elim conjE exE, simp) blast

lemma Missing_bump: "\<exists>n. Missing_update g s = s\<lparr>Missing := n\<rparr>"
  by (cases s) auto

lemma addMissing_frame: "missing_frame f (addMissing now path m t f)"
  unfolding missing_frame_def addMissing_def Let_def by (intro conjI) (simp_all add: Missing_bump, blast)

lemma addMissing_inv:
  assumes "missing_inv f" "r_missingCount (receiver f) \<le> int (unat (missingCounterMax f))"
  shows "missing_inv (addMissing now path m t f)"
  using assms by (auto simp: missing_inv_def addMissing_def Let_def)

lemma markMissing_loop_spec:
  "missing_inv f \<Longrightarrow>
   missing_inv (markMissing_loop now path current ip m t cnt f)
   \<and> missing_frame f (markMissing_loop now path current ip m t cnt f)"
proof (induction now path current ip m t cnt f rule: markMissing_loop.induct)
  case (1 now path current ip m t cnt f)
  let ?f1 = "addMissing now path m (Timestamp_Add t ip) f"
  show ?case
  proof (cases "m = current \<or> r_missingCount (receiver f) > int (unat (missingCounterMax f))")
    case True
    then have "markMissing_loop now path current ip m t cnt f = f"
      by (subst markMissing_loop.simps) auto
    then show ?thesis using 1(2) missing_frame_refl by simp
  next
    case False
    then have inv: "missing_inv ?f1" using 1(2) by (intro addMissing_inv) auto
    show ?thesis
    proof (cases "cnt + 1 = length (r_ring (receiver ?f1))")
      case True
      then have "markMissing_loop now path current ip m t cnt f = ?f1"
        using False by (subst markMissing_loop.simps) (simp add: Let_def)
      then show ?thesis using inv addMissing_frame by simp
    next
      case more: False
      then have "markMissing_loop now path current ip m t cnt f
          = markMissing_loop now path current ip (m + 1) (Timestamp_Add t ip) (cnt + 1) ?f1"
        using False by (subst markMissing_loop.simps) (simp add: Let_def)
      moreover have "m \<noteq> current" "\<not> r_missingCount (receiver f) > int (unat (missingCounterMax f))"
        using False by blast+
      note IH = 1(1) [OF this refl refl refl more inv]
      ultimately show ?thesis
        using conjunct1 [OF IH] missing_frame_trans [OF addMissing_frame conjunct2 [OF IH]] by (simp only: simp_thms)
    qed
  qed
qed

lemma markMissing_spec:
  "missing_inv f \<Longrightarrow> missing_inv (markMissing now path current t f) \<and> missing_frame f (markMissing now path current t f)"
  unfolding markMissing_def Let_def using markMissing_loop_spec missing_frame_refl by simp

section \<open>Inserting a packet\<close>

lemma highest_update:
  assumes a: "ahead r \<le> 2147483648" and g: "unat (n - r_deliverNext r) < 2147483648"
  shows "Less32 (r_highest r) n \<longleftrightarrow> ahead r \<le> unat (n - r_deliverNext r)"
proof -
  let ?d = "r_deliverNext r" and ?h = "r_highest r"
  obtain k l where k: "k = ahead r" and l: "l = unat (n - ?d)" by simp
  have n: "n = ?d + of_nat l" and h: "?h = ?d + of_nat k - 1" by (simp_all add: k l ahead_def)
  show ?thesis
  proof (cases "k \<le> l")
    case True
    then have "n - ?h = of_nat (l - k + 1)" by (simp add: n h of_nat_diff)
    then have "unat (n - ?h) = l - k + 1"
      using g l by (simp add: unat_of_nat take_bit_nat_eq_self del: of_nat_add of_nat_Suc)
    then show ?thesis using True g by (simp add: Less32_gap k l)
  next
    case False
    show ?thesis
    proof (cases "l + 1 = k")
      case True
      then have "n = ?h" by (simp add: n h flip: True)
      then show ?thesis using False by (simp add: Less32_gap k l)
    next
      case ne: False
      have "?h = n + of_nat (k - 1 - l)"
        using False by (simp add: n h of_nat_diff)
      moreover have "unat (n - (n + of_nat (k - 1 - l))) = 2 ^ 32 - (k - 1 - l)"
        using False ne a k by (intro unat_gap_back) auto
      ultimately have "unat (n - ?h) = 2 ^ 32 - (k - 1 - l)" by (simp only:)
      then show ?thesis using False a k by (simp add: Less32_gap l)
    qed
  qed
qed

lemma ring_inv_insert:
  assumes inv: "ring_inv r" "r_started r" and g: "unat (n - r_deliverNext r) < 2147483648"
    and s: "slot_full s" "sl_seq s = n"
  shows "ring_inv ((put_slot r n s)\<lparr>r_highest := (if Less32 (r_highest r) n then n else r_highest r)\<rparr>)"
proof -
  let ?r = "(put_slot r n s)\<lparr>r_highest := (if Less32 (r_highest r) n then n else r_highest r)\<rparr>"
  have a: "ahead r \<le> 2147483648" using inv by (simp add: ring_inv_def)
  have gap: "unat (n + 1 - r_deliverNext r) = unat (n - r_deliverNext r) + 1"
  proof -
    have "n + 1 - r_deliverNext r = (n - r_deliverNext r) + 1" by simp
    also have "unat \<dots> = unat (n - r_deliverNext r) + 1"
      using g by (intro unat_word_ariths(1) [THEN trans]) simp
    finally show ?thesis .
  qed
  have ah: "ahead ?r = max (ahead r) (unat (n - r_deliverNext r) + 1)"
    using highest_update [OF a g] gap by (auto simp: ahead_def)
  have "slot_ok ?r i" if i: "i < length (r_ring r)" for i
  proof (cases "ring_idx (r_mask r) n = i")
    case True
    then have "r_ring ?r ! i = s" using i by (simp add: put_slot_def)
    then show ?thesis using True s inv(2) unfolding slot_ok_def ah by simp
  next
    case False
    then have "r_ring ?r ! i = r_ring r ! i" by (simp add: put_slot_def)
    then show ?thesis
      using ring_inv_slot [OF inv(1) i] unfolding slot_ok_def ah by auto
  qed
  moreover have "ring_geom (r_ring ?r) (r_mask ?r)" using inv(1) by (simp add: ring_inv_def put_slot_def)
  ultimately show ?thesis using g a by (auto simp: ring_inv_def ah)
qed

lemma scheduleNack_frame [simp]:
  "stats (scheduleNack now f) = stats f" "events (scheduleNack now f) = events f"
  "cfg (scheduleNack now f) = cfg f" "role (scheduleNack now f) = role f"
  "missingCounterMax (scheduleNack now f) = missingCounterMax f"
  "receiver (scheduleNack now f) =
     (receiver f)\<lparr>r_nackArmed := (r_nackArmed (receiver f) \<or> r_missingCount (receiver f) \<noteq> 0)\<rparr>"
  by (auto simp: scheduleNack_def Let_def)

lemma missing_inv_frame:
  "missing_inv f \<Longrightarrow> r_missing (receiver g) = r_missing (receiver f) \<Longrightarrow>
   r_missingCount (receiver g) = r_missingCount (receiver f) \<Longrightarrow> cfg g = cfg f \<Longrightarrow>
   missingCounterMax g = missingCounterMax f \<Longrightarrow> missing_inv g"
  by (simp add: missing_inv_def)

text \<open>What stays untouched when a running flow is fed: events, cursor, loss accounting.\<close>

definition feed_keeps :: "Flow \<Rightarrow> Flow \<Rightarrow> bool" where
  "feed_keeps f f' \<longleftrightarrow>
     events f' = events f \<and> cfg f' = cfg f \<and> role f' = role f \<and>
     missingCounterMax f' = missingCounterMax f \<and>
     Delivered (stats f') = Delivered (stats f) \<and> Lost (stats f') = Lost (stats f) \<and>
     r_deliverNext (receiver f') = r_deliverNext (receiver f) \<and>
     r_pendingDiscontinuity (receiver f') = r_pendingDiscontinuity (receiver f) \<and>
     r_started (receiver f') = r_started (receiver f) \<and> r_ssrc (receiver f') = r_ssrc (receiver f) \<and>
     r_nackTokens (receiver f') = r_nackTokens (receiver f) \<and>
     r_nackTokenBurst (receiver f') = r_nackTokenBurst (receiver f) \<and>
     r_nackSeqsPerSec (receiver f') = r_nackSeqsPerSec (receiver f)"

lemma feed_keeps_refl: "feed_keeps f f"
  by (simp add: feed_keeps_def)

lemma feed_keeps_trans: "feed_keeps f g \<Longrightarrow> feed_keeps g h \<Longrightarrow> feed_keeps f h"
  by (simp add: feed_keeps_def)

lemma missing_frame_keeps:
  assumes "missing_frame f f'"
  shows "feed_keeps f f'" "r_ring (receiver f') = r_ring (receiver f)"
    "ring_inv (receiver f') = ring_inv (receiver f)" "r_mask (receiver f') = r_mask (receiver f)"
  using assms by (auto simp: missing_frame_def feed_keeps_def)

lemma feed_store_receiver:
  "receiver (feed_store now path pkt pt ooo f) =
     ((put_slot (receiver f) (pkt_Seq pkt) (filled_slot now path pkt pt f))
        \<lparr>r_highest := (if Less32 (r_highest (receiver f)) (pkt_Seq pkt) then pkt_Seq pkt else r_highest (receiver f))\<rparr>)
        \<lparr>r_lastPath := path\<rparr>"
  by (simp add: feed_store_def Let_def put_slot_def)

lemma feed_store_keeps:
  "feed_keeps f (feed_store now path pkt pt ooo f)"
  by (simp add: feed_keeps_def feed_store_receiver) (simp add: feed_store_def Let_def)

lemma feed_gaps_spec:
  assumes "missing_inv f"
  shows "missing_inv (feed_gaps now path pkt pt ooo f)" "feed_keeps f (feed_gaps now path pkt pt ooo f)"
    "ring_inv (receiver (feed_gaps now path pkt pt ooo f)) = ring_inv (receiver f)"
    "r_ring (receiver (feed_gaps now path pkt pt ooo f)) = r_ring (receiver f)"
    "r_mask (receiver (feed_gaps now path pkt pt ooo f)) = r_mask (receiver f)"
proof -
  define g where "g = (if \<not> ooo \<and> pkt_Seq pkt - 1 \<noteq> r_lastFound (receiver f)
      then markMissing now path (pkt_Seq pkt) pt f else f)"
  have m: "missing_inv g" "missing_frame f g"
    using assms markMissing_spec missing_frame_refl by (simp_all add: g_def)
  note k = missing_frame_keeps [OF m(2)]
  have run: "feed_gaps now path pkt pt ooo f =
      (if pkt_Retransmit pkt then f else if ooo then g else g\<lparr>receiver := (receiver g)\<lparr>r_lastFound := pkt_Seq pkt\<rparr>\<rparr>)"
    by (simp add: feed_gaps_def Let_def g_def)
  have lf: "feed_keeps g (g\<lparr>receiver := (receiver g)\<lparr>r_lastFound := n\<rparr>\<rparr>)" for n by (simp add: feed_keeps_def)
  show "missing_inv (feed_gaps now path pkt pt ooo f)"
    unfolding run using assms m(1) by (auto simp: missing_inv_def)
  show "feed_keeps f (feed_gaps now path pkt pt ooo f)"
    unfolding run using k(1) feed_keeps_trans [OF k(1) lf] feed_keeps_refl by simp
  show "ring_inv (receiver (feed_gaps now path pkt pt ooo f)) = ring_inv (receiver f)"
    "r_ring (receiver (feed_gaps now path pkt pt ooo f)) = r_ring (receiver f)"
    "r_mask (receiver (feed_gaps now path pkt pt ooo f)) = r_mask (receiver f)"
    unfolding run using k by simp_all
qed

lemma feed_insert_spec:
  assumes inv: "ring_inv (receiver f)" "r_started (receiver f)" "missing_inv f"
    and g: "unat (pkt_Seq pkt - r_deliverNext (receiver f)) < 2147483648"
    and f': "f' = feed_insert now path pkt pt ooo f"
  shows "feed_keeps f f'" "ring_inv (receiver f')" "missing_inv f'"
    "r_ring (receiver f') = (r_ring (receiver f))
       [ring_idx (r_mask (receiver f)) (pkt_Seq pkt) := filled_slot now path pkt pt f]"
    "r_mask (receiver f') = r_mask (receiver f)"
proof -
  let ?n = "pkt_Seq pkt" and ?r = "receiver f" and ?s = "filled_slot now path pkt pt f"
  define f1 where "f1 = feed_store now path pkt pt ooo f"
  define f2 where "f2 = feed_gaps now path pkt pt ooo f1"
  have run: "f' = scheduleNack now (armPlayout (sl_outputTime ?s) f2)"
    unfolding f' feed_insert_def Let_def f2_def f1_def ..
  have k1: "feed_keeps f f1" unfolding f1_def by (rule feed_store_keeps)
  have "missing_inv f1"
    using k1 by (intro missing_inv_frame [OF inv(3)]) (simp_all add: feed_keeps_def f1_def feed_store_receiver)
  note f2 = feed_gaps_spec [OF this, of now path pkt pt ooo, folded f2_def]
  have "slot_full ?s" "sl_seq ?s = ?n" by (simp_all add: filled_slot_def slot_full_def)
  then have "ring_inv (receiver f1)"
    unfolding f1_def feed_store_receiver ring_inv_frame by (rule ring_inv_insert [OF inv(1,2) g])
  then show "ring_inv (receiver f')" using f2(3) by (simp add: run)
  show "missing_inv f'" by (rule missing_inv_frame [OF f2(1)]) (simp_all add: run)
  have "feed_keeps f2 f'" by (simp add: feed_keeps_def run)
  then show "feed_keeps f f'" using k1 f2(2) by (blast intro: feed_keeps_trans)
  show "r_ring (receiver f') = (r_ring ?r)[ring_idx (r_mask ?r) ?n := ?s]"
    using f2(4) by (simp add: run f1_def feed_store_receiver put_slot_def)
  show "r_mask (receiver f') = r_mask ?r" using f2(5) by (simp add: run f1_def feed_store_receiver)
qed

section \<open>Acceptance\<close>

text \<open>The cursor guard accepts exactly the forward half of the sequence space.\<close>

lemma cursor_guard: "\<not> Less32 n d \<longleftrightarrow> unat (n - d) < 2147483648"
proof (cases "n = d")
  case False
  obtain k where k: "unat (d - n) = k" "k < 4294967296" by simp
  have "0 < k" using False k(1) unat_gt_0 [of "d - n"] by simp
  moreover have "d = n + of_nat k" by (simp flip: k(1))
  ultimately have "unat (n - d) = 4294967296 - k"
    using unat_gap_back [of k n] k(2) by simp
  then show ?thesis using k \<open>0 < k\<close> by (auto simp: Less32_gap)
qed (simp add: Less32_gap)

definition slot_is :: "slot \<Rightarrow> MediaPacket \<Rightarrow> bool" where
  "slot_is s pkt \<longleftrightarrow> sl_seq s = pkt_Seq pkt \<and> sl_sourceTime s = pkt_SourceTime pkt \<and>
     sl_payload s = pkt_Payload pkt \<and> sl_frag s = pkt_Frag pkt \<and>
     sl_virtSrcPort s = pkt_VirtSrcPort pkt \<and> sl_virtDstPort s = pkt_VirtDstPort pkt"

definition stored_from :: "MediaPacket set \<Rightarrow> receiverState \<Rightarrow> bool" where
  "stored_from P r \<longleftrightarrow> (\<forall>i<length (r_ring r). slot_full (r_ring r ! i) \<longrightarrow> (\<exists>pkt\<in>P. slot_is (r_ring r ! i) pkt))"

lemma stored_from_mono: "stored_from P r \<Longrightarrow> P \<subseteq> Q \<Longrightarrow> stored_from Q r"
  by (meson stored_from_def subsetD)

lemma stored_from_put:
  assumes "stored_from P r" "slot_full x \<Longrightarrow> \<exists>pkt\<in>P. slot_is x pkt"
  shows "stored_from P (r\<lparr>r_ring := (r_ring r)[i := x]\<rparr>)"
  unfolding stored_from_def
proof (intro allI impI)
  fix j
  assume "j < length (r_ring (r\<lparr>r_ring := (r_ring r)[i := x]\<rparr>))"
    "slot_full (r_ring (r\<lparr>r_ring := (r_ring r)[i := x]\<rparr>) ! j)"
  then show "\<exists>pkt\<in>P. slot_is (r_ring (r\<lparr>r_ring := (r_ring r)[i := x]\<rparr>) ! j) pkt"
    using assms by (cases "i = j") (simp_all add: stored_from_def)
qed

text \<open>Sections of \<open>feed\<close> that do not touch the ring or the missing queue at all.\<close>

definition quiet :: "Flow \<Rightarrow> Flow \<Rightarrow> bool" where
  "quiet f f' \<longleftrightarrow> feed_keeps f f' \<and> r_ring (receiver f') = r_ring (receiver f) \<and>
     r_mask (receiver f') = r_mask (receiver f) \<and> r_highest (receiver f') = r_highest (receiver f) \<and>
     r_missing (receiver f') = r_missing (receiver f) \<and>
     r_missingCount (receiver f') = r_missingCount (receiver f)"

lemma quiet_trans: "quiet f g \<Longrightarrow> quiet g h \<Longrightarrow> quiet f h"
  by (auto simp: quiet_def intro: feed_keeps_trans)

lemma quiet_refl [simp]: "quiet f f"
  by (simp add: quiet_def feed_keeps_refl)

lemma quiet_simps:
  assumes "quiet f f'"
  shows "ring_inv (receiver f') = ring_inv (receiver f)" "missing_inv f' = missing_inv f"
    "stored_from P (receiver f') = stored_from P (receiver f)"
    "r_deliverNext (receiver f') = r_deliverNext (receiver f)" "r_started (receiver f') = r_started (receiver f)"
    "slot_at (receiver f') = slot_at (receiver f)" "r_ssrc (receiver f') = r_ssrc (receiver f)"
    "cfg f' = cfg f" "role f' = role f"
  using assms
  by (auto simp: quiet_def feed_keeps_def ring_inv_def slot_ok_def ahead_def missing_inv_def stored_from_def
      slot_at_def fun_eq_iff)

lemma feed_ips_quiet: "quiet f (feed_ips now f)"
  by (simp add: quiet_def feed_keeps_def feed_ips_def Let_def)

lemma feed_framing_quiet: "quiet f (feed_framing now pkt f)"
  by (simp add: quiet_def feed_keeps_def feed_framing_def Let_def)

lemma feed_packetTime_quiet: "feed_packetTime now pkt f = (pt, f') \<Longrightarrow> quiet f f'"
  by (auto simp: quiet_def feed_keeps_def feed_packetTime_def Let_def split: if_splits)

lemma shed_quiet: "quiet f (shed pkt f)"
  by (simp add: quiet_def feed_keeps_def shed_def Let_def)

lemma count_quiet:
  "quiet f (count Overwritten_update f)" "quiet f (count RetransmittedReceived_update f)"
  by (simp_all add: quiet_def feed_keeps_def)

text \<open>The running flow's obligations, established section by section.\<close>

definition feed_ok :: "MediaPacket \<Rightarrow> Flow \<Rightarrow> Flow \<Rightarrow> bool" where
  "feed_ok pkt f f' \<longleftrightarrow> feed_keeps f f' \<and> ring_inv (receiver f') \<and> missing_inv f' \<and>
     (\<forall>P. stored_from P (receiver f) \<longrightarrow> stored_from (insert pkt P) (receiver f'))"

lemma feed_ok_quiet:
  "quiet f f' \<Longrightarrow> ring_inv (receiver f) \<Longrightarrow> missing_inv f \<Longrightarrow> feed_ok pkt f f'"
  by (auto simp: feed_ok_def quiet_simps stored_from_mono [OF _ subset_insertI]) (simp add: quiet_def)

lemma feed_ok_after:
  "quiet f g \<Longrightarrow> feed_ok pkt g f' \<Longrightarrow> feed_ok pkt f f'"
  by (auto simp: feed_ok_def quiet_simps intro: feed_keeps_trans) (auto simp: quiet_def intro: feed_keeps_trans)

lemma feed_insert_ok:
  assumes "ring_inv (receiver f)" "r_started (receiver f)" "missing_inv f"
    and "\<not> Less32 (pkt_Seq pkt) (r_deliverNext (receiver f))"
  shows "feed_ok pkt f (feed_insert now path pkt pt ooo f)"
proof -
  let ?s = "filled_slot now path pkt pt f" and ?i = "ring_idx (r_mask (receiver f)) (pkt_Seq pkt)"
  have g: "unat (pkt_Seq pkt - r_deliverNext (receiver f)) < 2147483648" using assms(4) by (simp only: cursor_guard)
  note spec = feed_insert_spec [OF assms(1-3) g refl, of now path pt ooo]
  have "slot_is ?s pkt" by (simp add: slot_is_def filled_slot_def)
  then have "stored_from (insert pkt P) (receiver (feed_insert now path pkt pt ooo f))" if "stored_from P (receiver f)" for P
    using stored_from_put [of "insert pkt P" "receiver f" ?s ?i] stored_from_mono [OF that subset_insertI [of P pkt]]
    by (simp add: stored_from_def spec(4))
  then show ?thesis using spec(1-3) by (simp add: feed_ok_def)
qed

lemma duplicate_ok:
  assumes inv: "ring_inv (receiver f)" "missing_inv f"
    and s: "s = slot_at (receiver f) n" "slot_full s" "sl_seq s = n"
    and f': "f' = count Duplicates_update (f\<lparr>receiver := put_slot (receiver f) n (s\<lparr>sl_pathSeen := x\<rparr>)\<rparr>)"
  shows "feed_ok pkt f f'"
proof -
  let ?r = "receiver f" and ?i = "ring_idx (r_mask (receiver f)) n"
  have at: "r_ring ?r ! ?i = s" and i: "?i < length (r_ring ?r)"
    using s(1) ring_inv_idx [OF inv(1)] by (simp_all add: slot_at_def)
  have "slot_ok (receiver f') j" if "j < length (r_ring ?r)" for j
    using inv(1) that i at s(2)
    by (cases "j = ?i") (auto simp: f' slot_ok_def ring_inv_def put_slot_def ahead_def slot_full_def)
  then have "ring_inv (receiver f')"
    using inv(1) by (simp add: ring_inv_def f') (simp add: put_slot_def ahead_def)
  moreover have "stored_from P (receiver f')" if P: "stored_from P ?r" for P
  proof -
    have "\<exists>pkt\<in>P. slot_is s pkt" using P i at s(2) by (auto simp: stored_from_def)
    then have "\<exists>pkt\<in>P. slot_is (s\<lparr>sl_pathSeen := x\<rparr>) pkt" by (simp add: slot_is_def)
    then show ?thesis using stored_from_put [OF P] by (simp add: f' put_slot_def)
  qed
  moreover have "missing_inv f'" using inv(2) by (rule missing_inv_frame) (simp_all add: f')
  moreover have "feed_keeps f f'" by (simp add: feed_keeps_def f')
  ultimately show ?thesis using stored_from_mono [OF _ subset_insertI] by (auto simp: feed_ok_def)
qed

lemma feed_accept_ok:
  assumes "ring_inv (receiver f)" "r_started (receiver f)" "missing_inv f"
  shows "feed_ok pkt f (feed_accept now path pkt pt ooo f)"
proof -
  let ?n = "pkt_Seq pkt" and ?s = "slot_at (receiver f) (pkt_Seq pkt)"
  have q: "quiet f (count Overwritten_update f)" by (rule count_quiet)
  consider (late) "Less32 ?n (r_deliverNext (receiver f))"
    | (dup) "\<not> Less32 ?n (r_deliverNext (receiver f))" "slot_full ?s" "sl_seq ?s = ?n" "sl_sourceTime ?s = pkt_SourceTime pkt"
    | (over) "\<not> Less32 ?n (r_deliverNext (receiver f))" "slot_full ?s" "\<not> (sl_seq ?s = ?n \<and> sl_sourceTime ?s = pkt_SourceTime pkt)"
    | (free) "\<not> Less32 ?n (r_deliverNext (receiver f))" "\<not> slot_full ?s"
    by blast
  then show ?thesis
  proof cases
    case late
    then show ?thesis
      using feed_ok_quiet [OF shed_quiet assms(1,3)] by (simp add: feed_accept_def Let_def)
  next
    case dup
    then show ?thesis
      using duplicate_ok [OF assms(1,3) refl dup(2,3) refl]
      by (simp add: feed_accept_def Let_def slot_full_def)
  next
    case over
    then have "feed_accept now path pkt pt ooo f = feed_insert now path pkt pt ooo (count Overwritten_update f)"
      by (auto simp: feed_accept_def Let_def slot_full_def)
    then show ?thesis
      using feed_ok_after [OF q feed_insert_ok] assms over(1) by (simp add: quiet_simps [OF q])
  next
    case free
    then have "feed_accept now path pkt pt ooo f = feed_insert now path pkt pt ooo f"
      by (simp add: feed_accept_def Let_def slot_full_def)
    then show ?thesis using feed_insert_ok [OF assms free(1)] by simp
  qed
qed

lemma feed_started_ok:
  assumes "ring_inv (receiver f)" "r_started (receiver f)" "missing_inv f"
  shows "feed_ok pkt f (feed_started now path pkt f)"
proof -
  define g where "g = (if pkt_Retransmit pkt then count RetransmittedReceived_update f else f)"
  obtain pt h where h: "feed_packetTime now pkt g = (pt, h)" by fastforce
  have q: "quiet f h"
    using quiet_trans [OF _ feed_packetTime_quiet [OF h]] count_quiet(2) by (simp add: g_def)
  note i = assms [folded quiet_simps(1,2,5) [OF q]]
  have "feed_ok pkt h (feed_accept now path pkt pt b h)" for b using feed_accept_ok i by blast
  moreover have "feed_ok pkt h (shed pkt h)" using feed_ok_quiet [OF shed_quiet] i by blast
  ultimately show ?thesis
    using feed_ok_after [OF q] by (simp add: feed_started_def Let_def h flip: g_def)
qed

section \<open>Anchoring and the whole of feed\<close>

text \<open>The receiver invariant: ring, missing queue, and that everything stored was fed.\<close>

definition rx_inv :: "MediaPacket set \<Rightarrow> Flow \<Rightarrow> bool" where
  "rx_inv P f \<longleftrightarrow> ring_inv (receiver f) \<and> missing_inv f \<and> stored_from P (receiver f)"

text \<open>Fields that no feed changes, anchoring included.\<close>

definition feed_constant :: "Flow \<Rightarrow> Flow \<Rightarrow> bool" where
  "feed_constant f f' \<longleftrightarrow> events f' = events f \<and> cfg f' = cfg f \<and> role f' = role f \<and>
     missingCounterMax f' = missingCounterMax f \<and>
     Delivered (stats f') = Delivered (stats f) \<and> Lost (stats f') = Lost (stats f) \<and>
     r_nackTokens (receiver f') = r_nackTokens (receiver f) \<and>
     r_nackTokenBurst (receiver f') = r_nackTokenBurst (receiver f) \<and>
     r_nackSeqsPerSec (receiver f') = r_nackSeqsPerSec (receiver f)"

lemma feed_constant_trans: "feed_constant f g \<Longrightarrow> feed_constant g h \<Longrightarrow> feed_constant f h"
  by (simp add: feed_constant_def)

lemma feed_keeps_constant: "feed_keeps f f' \<Longrightarrow> feed_constant f f'"
  by (simp add: feed_keeps_def feed_constant_def)

lemma quiet_constant: "quiet f f' \<Longrightarrow> feed_constant f f'"
  by (simp add: quiet_def feed_keeps_constant)

lemma ring_geom_map [simp]: "ring_geom (map h ring) m = ring_geom ring m"
  by (simp add: ring_geom_def)

lemma reset_rx:
  assumes "ring_inv (receiver f)"
  shows "ring_inv (receiver (resetReceiver f))" "missing_inv (resetReceiver f)"
    "stored_from P (receiver (resetReceiver f))" "feed_constant f (resetReceiver f)"
    "\<not> r_started (receiver (resetReceiver f))"
  using assms
  by (auto simp: resetReceiver_def Let_def ring_inv_def slot_ok_def slot_full_def slot_zero_def missing_inv_def
      stored_from_def feed_constant_def)

lemma feed_flow_id_cases:
  assumes "rx_inv P f"
  shows "rx_inv P (feed_flow_id pkt f)" "feed_constant f (feed_flow_id pkt f)"
    "feed_flow_id pkt f = f \<or> \<not> r_started (receiver (feed_flow_id pkt f))"
  using assms reset_rx(1,2,4,5) [of f] reset_rx(3) [of f P]
  by (auto simp: feed_flow_id_def rx_inv_def missing_inv_def feed_constant_def)

lemma start_receiver:
  "receiver (start now path pkt f) =
     (put_slot ((receiver f)\<lparr>r_offset := now - NTPTime_Timestamp (pkt_SourceTime pkt), r_started := True,
          r_ssrc := pkt_SSRC pkt, r_shortSeq := pkt_ShortSeq pkt, r_lastFound := pkt_Seq pkt,
          r_maxSourceTime := pkt_SourceTime pkt, r_lastPacketTime := now, r_lastResync := now,
          r_highest := pkt_Seq pkt, r_deliverNext := pkt_Seq pkt, r_lastPath := path\<rparr>)
        (pkt_Seq pkt) (filled_slot now path pkt now f))
     \<lparr>r_playoutArmed := True,
      r_playoutDeadline := (if r_playoutArmed (receiver f) \<and> \<not> now + recoveryBuffer f < r_playoutDeadline (receiver f)
                            then r_playoutDeadline (receiver f) else now + recoveryBuffer f)\<rparr>"
  by (simp add: start_def Let_def filled_slot_def put_slot_def)

lemma start_rx:
  assumes "rx_inv P f" "\<not> r_started (receiver f)"
  shows "rx_inv (insert pkt P) (start now path pkt f)" "feed_constant f (start now path pkt f)"
    "r_started (receiver (start now path pkt f))" "r_deliverNext (receiver (start now path pkt f)) = pkt_Seq pkt"
    "r_ssrc (receiver (start now path pkt f)) = pkt_SSRC pkt"
    "r_pendingDiscontinuity (receiver (start now path pkt f)) = r_pendingDiscontinuity (receiver f)"
proof -
  let ?r = "receiver f" and ?f = "start now path pkt f" and ?n = "pkt_Seq pkt"
  let ?i = "ring_idx (r_mask ?r) ?n" and ?s = "filled_slot now path pkt now f"
  have ring: "r_ring (receiver ?f) = (r_ring ?r)[?i := ?s]" "r_mask (receiver ?f) = r_mask ?r"
    "r_highest (receiver ?f) = ?n" "r_deliverNext (receiver ?f) = ?n" "r_started (receiver ?f)"
    by (simp_all add: start_receiver put_slot_def)
  then show "r_started (receiver ?f)" "r_deliverNext (receiver ?f) = ?n" by blast+
  show "r_ssrc (receiver ?f) = pkt_SSRC pkt"
    "r_pendingDiscontinuity (receiver ?f) = r_pendingDiscontinuity ?r"
    by (simp_all add: start_receiver)
  have inv: "ring_inv ?r" "missing_inv f" using assms(1) by (simp_all add: rx_inv_def)
  have empty: "\<not> slot_full (r_ring ?r ! j)" if "j < length (r_ring ?r)" for j
    using ring_inv_slot(1) [OF inv(1) that] assms(2) by blast
  have ah: "ahead (receiver ?f) = 1" by (simp add: ahead_def ring)
  have "slot_ok (receiver ?f) j" if "j < length (r_ring ?r)" for j
    using empty [OF that] that
    by (cases "j = ?i") (auto simp: slot_ok_def ring ah filled_slot_def)
  then have "ring_inv (receiver ?f)" using inv(1) ah by (simp add: ring_inv_def ring)
  moreover have const: "feed_constant f ?f"
    by (simp add: feed_constant_def start_receiver) (simp add: start_def Let_def)
  moreover have "missing_inv ?f"
    using inv(2) by (rule missing_inv_frame) (use const in \<open>simp_all add: start_receiver feed_constant_def\<close>)
  moreover have "stored_from (insert pkt P) (receiver ?f)"
  proof -
    have "slot_is ?s pkt" by (simp add: slot_is_def filled_slot_def)
    then have "stored_from (insert pkt P) (?r\<lparr>r_ring := (r_ring ?r)[?i := ?s]\<rparr>)"
      using empty by (intro stored_from_put) (auto simp: stored_from_def)
    then show ?thesis by (simp add: stored_from_def ring)
  qed
  ultimately show "rx_inv (insert pkt P) ?f" "feed_constant f ?f" by (simp_all add: rx_inv_def)
qed

text \<open>The packet continues the flow the receiver is anchored to.\<close>

definition same_flow :: "MediaPacket \<Rightarrow> Flow \<Rightarrow> bool" where
  "same_flow pkt f \<longleftrightarrow> r_started (receiver f) \<and>
     (pkt_Retransmit pkt \<or> (pkt_SSRC pkt AND NOT 1) = (r_ssrc (receiver f) AND NOT 1))"

lemma feed_spec:
  assumes "rx_inv P f"
  shows "rx_inv (insert pkt P) (feed now path pkt f)" "feed_constant f (feed now path pkt f)"
    "same_flow pkt f \<Longrightarrow> feed_keeps f (feed now path pkt f)"
proof -
  define f1 where "f1 = feed_ips now f"
  define f2 where "f2 = feed_flow_id pkt f1"
  define f3 where "f3 = feed_framing now pkt f2"
  have q1: "quiet f f1" and q3: "quiet f2 f3" by (simp_all add: f1_def f3_def feed_ips_quiet feed_framing_quiet)
  have rx1: "rx_inv P f1" using assms by (simp add: rx_inv_def quiet_simps [OF q1])
  note c = feed_flow_id_cases [OF rx1, of pkt, folded f2_def]
  have rx3: "rx_inv P f3" using c(1) by (simp add: rx_inv_def quiet_simps [OF q3])
  have const: "feed_constant f f3"
    using quiet_constant [OF q1] c(2) quiet_constant [OF q3] by (blast intro: feed_constant_trans)
  have run: "feed now path pkt f =
      (if \<not> r_started (receiver f3) then if pkt_Retransmit pkt then f3 else start now path pkt f3
       else feed_started now path pkt f3)"
    by (simp add: feed_def Let_def f1_def f2_def f3_def)
  have ok: "feed_ok pkt f3 (feed_started now path pkt f3)" if "r_started (receiver f3)"
    using feed_started_ok rx3 that by (simp add: rx_inv_def)
  show "rx_inv (insert pkt P) (feed now path pkt f)"
    using run rx3 start_rx(1) [OF rx3] ok stored_from_mono [OF _ subset_insertI]
    by (auto simp: rx_inv_def feed_ok_def)
  show "feed_constant f (feed now path pkt f)"
    using run const start_rx(2) [OF rx3] ok feed_keeps_constant
    by (auto simp: feed_ok_def intro: feed_constant_trans)
  show "feed_keeps f (feed now path pkt f)" if same: "same_flow pkt f"
  proof -
    have "f2 = f1" using same quiet_simps(5,7) [OF q1] by (auto simp: f2_def feed_flow_id_def same_flow_def)
    then have q: "quiet f f3" using q1 q3 quiet_trans by simp
    then have "r_started (receiver f3)" using same quiet_simps(5) by (simp add: same_flow_def)
    then show ?thesis using ok run q by (auto simp: feed_ok_def quiet_def intro: feed_keeps_trans)
  qed
qed

end
