(* ===== verification/Receiver_Nack.thy ===== *)
theory Receiver_Nack
  imports Receiver_Feed "HOL-Library.Sublist"
begin

text \<open>
  The NACK pass: \<open>processNacks\<close> keeps the missing-queue and token-bucket invariants,
  requests only sequences that are missing, due and worth requesting, in queue order and at
  most \<open>ristMaxNacks\<close> of them, and drops an entry only when its slot is occupied or it is given up.
\<close>

section \<open>The token bucket\<close>

definition tokens_inv :: "receiverState \<Rightarrow> bool" where
  "tokens_inv r \<longleftrightarrow> 0 \<le> r_nackSeqsPerSec r \<and>
     (0 < r_nackSeqsPerSec r \<longrightarrow> r_nackTokenBurst r = of_nat ristMaxNacks \<and> 0 \<le> r_nackTokens r
        \<and> r_nackTokens r \<le> r_nackTokenBurst r)"

lemma tokens_inv_frame:
  "r_nackSeqsPerSec r' = r_nackSeqsPerSec r \<Longrightarrow> r_nackTokenBurst r' = r_nackTokenBurst r \<Longrightarrow>
   r_nackTokens r' = r_nackTokens r \<Longrightarrow> tokens_inv r' = tokens_inv r"
  by (simp only: tokens_inv_def)

lemma refillTokens_frame:
  "\<exists>t u. refillTokens now r = r\<lparr>r_nackTokens := t, r_nackTokensTime := u\<rparr>"
proof (cases "0 < r_nackSeqsPerSec r")
  case True
  then show ?thesis
    by (cases r; cases "r_nackTokensTime r < now") (auto simp: refillTokens_def Let_def)
next
  case False
  then have "refillTokens now r = r\<lparr>r_nackTokens := r_nackTokens r, r_nackTokensTime := r_nackTokensTime r\<rparr>"
    by (simp add: refillTokens_def)
  then show ?thesis by blast
qed

lemma tokens_inv_refill: "tokens_inv r \<Longrightarrow> tokens_inv (refillTokens now r)"
proof -
  assume inv: "tokens_inv r"
  have "0 \<le> f_add (r_nackTokens r) (f_mul (f_div (f_of_int (now - r_nackTokensTime r)) 1000000) (r_nackSeqsPerSec r))"
    if "0 < r_nackSeqsPerSec r" "r_nackTokensTime r < now"
    using inv that
    by (auto simp: tokens_inv_def f_add_def f_mul_def f_div_def f_of_int_def
        intro!: rnd64_nonneg add_nonneg_nonneg mult_nonneg_nonneg divide_nonneg_nonneg)
  then show ?thesis using inv by (auto simp: tokens_inv_def refillTokens_def Let_def ristMaxNacks_def)
qed

lemma spend_token:
  assumes "1 \<le> t" "t \<le> of_nat ristMaxNacks"
  shows "0 \<le> f_sub t 1" "f_sub t 1 \<le> of_nat ristMaxNacks"
  using assms rnd64_le_int [of "t - 1" 200] by (auto simp: f_sub_def ristMaxNacks_def intro!: rnd64_nonneg)

section \<open>One queue entry\<close>

definition requestable :: "Timestamp \<Rightarrow> Flow \<Rightarrow> missingEntry \<Rightarrow> bool" where
  "requestable now f e \<longleftrightarrow> \<not> slot_full (slot_at (receiver f) (me_seq e)) \<and>
     me_nackCount e < MaxRetries (cfg f) \<and> now - me_insertionTime e \<le> recoveryBuffer110 f \<and> me_nextNack e \<le> now"

text \<open>Why an entry leaves the queue: its slot is occupied, or it is given up.\<close>

definition resolved :: "Timestamp \<Rightarrow> Flow \<Rightarrow> missingEntry \<Rightarrow> bool" where
  "resolved now f e \<longleftrightarrow> slot_full (slot_at (receiver f) (me_seq e)) \<or> MaxRetries (cfg f) \<le> me_nackCount e \<or>
     recoveryBuffer110 f < now - me_insertionTime e"

definition nack_frame :: "Flow \<Rightarrow> Flow \<Rightarrow> bool" where
  "nack_frame f f' \<longleftrightarrow>
     receiver f' = (receiver f)\<lparr>r_missingCount := r_missingCount (receiver f'), r_nackTokens := r_nackTokens (receiver f')\<rparr> \<and>
     events f' = events f \<and> outputs f' = outputs f \<and> cfg f' = cfg f \<and> role f' = role f \<and> est f' = est f \<and>
     missingCounterMax f' = missingCounterMax f \<and> recoveryBuffer110 f' = recoveryBuffer110 f \<and>
     Delivered (stats f') = Delivered (stats f) \<and> Lost (stats f') = Lost (stats f)"

lemma nack_frameE:
  assumes "nack_frame f f'"
  obtains c t where "receiver f' = (receiver f)\<lparr>r_missingCount := c, r_nackTokens := t\<rparr>"
  using assms unfolding nack_frame_def by blast

lemma nack_frame_simps:
  assumes "nack_frame f f'"
  shows "slot_at (receiver f') = slot_at (receiver f)"
    "r_ring (receiver f') = r_ring (receiver f)" "r_mask (receiver f') = r_mask (receiver f)"
    "ring_inv (receiver f') = ring_inv (receiver f)" "stored_from P (receiver f') = stored_from P (receiver f)"
    "r_missing (receiver f') = r_missing (receiver f)" "r_lastPath (receiver f') = r_lastPath (receiver f)"
    "r_ssrc (receiver f') = r_ssrc (receiver f)" "r_started (receiver f') = r_started (receiver f)"
    "r_deliverNext (receiver f') = r_deliverNext (receiver f)"
    "r_pendingDiscontinuity (receiver f') = r_pendingDiscontinuity (receiver f)"
  by (rule nack_frameE [OF assms], simp add: slot_at_def fun_eq_iff stored_from_def)+

lemma nack_frame_tests:
  assumes "nack_frame f f'"
  shows "requestable now f' = requestable now f" "resolved now f' = resolved now f"
  using assms nack_frame_simps(1) [OF assms]
  by (simp_all add: fun_eq_iff requestable_def resolved_def nack_frame_def)

lemma nack_frame_refl: "nack_frame f f"
  by (simp add: nack_frame_def)

lemma nack_frame_trans:
  assumes "nack_frame f g" "nack_frame g h"
  shows "nack_frame f h"
proof -
  obtain c t c' t' where "receiver g = (receiver f)\<lparr>r_missingCount := c, r_nackTokens := t\<rparr>"
    "receiver h = (receiver g)\<lparr>r_missingCount := c', r_nackTokens := t'\<rparr>"
    using nack_frameE [OF assms(1)] nack_frameE [OF assms(2)] by metis
  then have "receiver h = (receiver f)\<lparr>r_missingCount := r_missingCount (receiver h), r_nackTokens := r_nackTokens (receiver h)\<rparr>"
    by simp
  then show ?thesis using assms unfolding nack_frame_def by simp
qed

lemma count_recovered_frame [simp]:
  "receiver (count_recovered n f) = receiver f" "events (count_recovered n f) = events f"
  "outputs (count_recovered n f) = outputs f" "cfg (count_recovered n f) = cfg f"
  "role (count_recovered n f) = role f" "missingCounterMax (count_recovered n f) = missingCounterMax f"
  "recoveryBuffer110 (count_recovered n f) = recoveryBuffer110 f" "est (count_recovered n f) = est f"
  "Delivered (stats (count_recovered n f)) = Delivered (stats f)" "Lost (stats (count_recovered n f)) = Lost (stats f)"
  by (simp_all add: count_recovered_def Let_def)

lemma nack_entry_spec:
  assumes "nack_entry now e f batch = (k, f', batch')"
  shows "nack_frame f f'"
    "r_missingCount (receiver f') = r_missingCount (receiver f) - (if k = None then 1 else 0)"
    "tokens_inv (receiver f) \<Longrightarrow> tokens_inv (receiver f')"
    "k = None \<and> resolved now f e \<and> batch' = batch \<or> k = Some e \<and> batch' = batch
     \<or> requestable now f e \<and> length batch < ristMaxNacks \<and> batch' = batch @ [me_seq e]
       \<and> k = Some (e\<lparr>me_nextNack := now + RetryInterval (est f) (RTTMin (cfg f)) (RTTMax (cfg f)),
                     me_nackCount := me_nackCount e + 1\<rparr>)"
proof -
  let ?r = "receiver f"
  show "nack_frame f f'"
    using assms by (auto simp: nack_entry_def Let_def nack_frame_def split: if_splits)
  show "r_missingCount (receiver f') = r_missingCount ?r - (if k = None then 1 else 0)"
    using assms by (auto simp: nack_entry_def Let_def split: if_splits)
  show "tokens_inv (receiver f')" if "tokens_inv ?r"
    using assms that spend_token [of "r_nackTokens ?r"]
    by (auto simp: nack_entry_def Let_def tokens_inv_def split: if_splits)
  show "k = None \<and> resolved now f e \<and> batch' = batch \<or> k = Some e \<and> batch' = batch
     \<or> requestable now f e \<and> length batch < ristMaxNacks \<and> batch' = batch @ [me_seq e]
       \<and> k = Some (e\<lparr>me_nextNack := now + RetryInterval (est f) (RTTMin (cfg f)) (RTTMax (cfg f)),
                     me_nackCount := me_nackCount e + 1\<rparr>)"
    using assms by (auto simp: nack_entry_def Let_def resolved_def requestable_def slot_full_def split: if_splits)
qed

section \<open>The walk\<close>

definition walk_ok :: "Timestamp \<Rightarrow> Flow \<Rightarrow> missingEntry list \<Rightarrow> missingEntry list \<Rightarrow> missingEntry list \<Rightarrow> bool" where
  "walk_ok now f es es' rs \<longleftrightarrow> subseq rs es \<and> (\<forall>e\<in>set rs. requestable now f e) \<and>
     length es' \<le> length es \<and>
     (\<forall>e\<in>set es. resolved now f e \<or> (\<exists>e'\<in>set es'. me_seq e' = me_seq e)) \<and>
     (\<forall>e'\<in>set es'. \<exists>e\<in>set es. e' = e \<or> requestable now f e \<and> me_seq e' = me_seq e
         \<and> me_nackCount e' = me_nackCount e + 1)"

lemma walk_ok_step:
  assumes "walk_ok now f es es' rs"
  shows "resolved now f e \<Longrightarrow> walk_ok now f (e # es) es' rs"
    "walk_ok now f (e # es) (e # es') rs"
    "requestable now f e \<Longrightarrow> me_seq k = me_seq e \<Longrightarrow> me_nackCount k = me_nackCount e + 1 \<Longrightarrow>
       walk_ok now f (e # es) (k # es') (e # rs)"
  using assms by (auto simp: walk_ok_def)

lemma nack_walk_spec:
  assumes "nack_walk now es f batch = (es', f', batch')"
  shows "nack_frame f f' \<and> (tokens_inv (receiver f) \<longrightarrow> tokens_inv (receiver f'))
       \<and> r_missingCount (receiver f') = r_missingCount (receiver f) - (int (length es) - int (length es'))
       \<and> (length batch \<le> ristMaxNacks \<longrightarrow> length batch' \<le> ristMaxNacks)
       \<and> (\<exists>rs. batch' = batch @ map me_seq rs \<and> walk_ok now f es es' rs)"
  using assms
proof (induction es arbitrary: f batch es' f' batch')
  case Nil
  then show ?case by (auto simp: nack_frame_refl walk_ok_def)
next
  case (Cons e es)
  obtain k f1 b1 where one: "nack_entry now e f batch = (k, f1, b1)" by (metis prod_cases3)
  obtain es1 f2 b2 where rest: "nack_walk now es f1 b1 = (es1, f2, b2)" by (metis prod_cases3)
  have out: "es' = (case k of None \<Rightarrow> es1 | Some k \<Rightarrow> k # es1)" "f' = f2" "batch' = b2"
    using Cons.prems one rest by simp_all
  note s1 = nack_entry_spec [OF one]
  obtain rs where IH: "nack_frame f1 f2" "tokens_inv (receiver f1) \<longrightarrow> tokens_inv (receiver f2)"
    "r_missingCount (receiver f2) = r_missingCount (receiver f1) - (int (length es) - int (length es1))"
    "length b1 \<le> ristMaxNacks \<longrightarrow> length b2 \<le> ristMaxNacks" "b2 = b1 @ map me_seq rs" "walk_ok now f es es1 rs"
    using Cons.IH [OF rest] unfolding walk_ok_def nack_frame_tests [OF s1(1)] by blast
  note w = walk_ok_step [OF IH(6)]
  have frame: "nack_frame f f'" unfolding out by (rule nack_frame_trans [OF s1(1) IH(1)])
  have tok: "tokens_inv (receiver f) \<longrightarrow> tokens_inv (receiver f')" unfolding out using s1(3) IH(2) by blast
  have cnt: "r_missingCount (receiver f') = r_missingCount (receiver f) - (int (length (e # es)) - int (length es'))"
    unfolding out using s1(2) IH(3) by (cases k) simp_all
  from s1(4) consider "k = None" "resolved now f e" "b1 = batch" | "k = Some e" "b1 = batch"
    | l where "requestable now f e" "length batch < ristMaxNacks" "b1 = batch @ [me_seq e]" "k = Some l"
        "me_seq l = me_seq e" "me_nackCount l = me_nackCount e + 1"
    by fastforce
  then have "(length batch \<le> ristMaxNacks \<longrightarrow> length batch' \<le> ristMaxNacks)
       \<and> (\<exists>rs. batch' = batch @ map me_seq rs \<and> walk_ok now f (e # es) es' rs)"
  proof cases
    case 1
    then show ?thesis using IH(4,5) w(1) by (auto simp: out)
  next
    case 2
    then show ?thesis using IH(4,5) w(2) by (auto simp: out)
  next
    case (3 l)
    then show ?thesis using IH(4,5) w(3) [of e l] by (intro conjI exI [of _ "e # rs"]) (auto simp: out)
  qed
  then show ?case using frame tok cnt by blast
qed

lemma walk_missing_inv:
  assumes "missing_inv f" "walk_ok now f (r_missing (receiver f)) es' rs"
    and "r_missing (receiver g) = es'" "r_missingCount (receiver g) = r_missingCount (receiver f)
          - (int (length (r_missing (receiver f))) - int (length es'))"
    and "cfg g = cfg f" "missingCounterMax g = missingCounterMax f"
  shows "missing_inv g"
proof -
  have "0 \<le> me_nackCount e' \<and> me_nackCount e' \<le> max 0 (MaxRetries (cfg f))" if e': "e' \<in> set es'" for e'
  proof -
    obtain e where e: "e \<in> set (r_missing (receiver f))"
      "e' = e \<or> requestable now f e \<and> me_nackCount e' = me_nackCount e + 1"
      using assms(2) e' unfolding walk_ok_def by blast
    then have "0 \<le> me_nackCount e" "me_nackCount e \<le> max 0 (MaxRetries (cfg f))"
      using assms(1) by (auto simp: missing_inv_def)
    then show ?thesis using e(2) by (auto simp: requestable_def)
  qed
  then show ?thesis using assms by (auto simp: missing_inv_def walk_ok_def)
qed

text \<open>Everything but the missing queue, token bucket and outputs is untouched by the pass.\<close>

definition nack_pass :: "Timestamp \<Rightarrow> Flow \<Rightarrow> Flow \<Rightarrow> missingEntry list \<Rightarrow> bool" where
  "nack_pass now f f' rs \<longleftrightarrow>
     walk_ok now f (r_missing (receiver f)) (r_missing (receiver f')) rs \<and> length rs \<le> ristMaxNacks \<and>
     outputs f' = (if rs = [] then outputs f
        else fifo_push (outputs f) (SendFeedback (r_lastPath (receiver f)) (NackRequest (r_ssrc (receiver f)) (map me_seq rs))))"

lemma processNacks_spec:
  assumes "missing_inv f"
  shows "missing_inv (processNacks now f) \<and> (tokens_inv (receiver f) \<longrightarrow> tokens_inv (receiver (processNacks now f)))
       \<and> feed_keeps f ((processNacks now f)\<lparr>receiver := (receiver (processNacks now f))\<lparr>r_nackTokens := r_nackTokens (receiver f)\<rparr>\<rparr>)
       \<and> ring_inv (receiver (processNacks now f)) = ring_inv (receiver f)
       \<and> stored_from P (receiver (processNacks now f)) = stored_from P (receiver f)
       \<and> (\<exists>rs. nack_pass now f (processNacks now f) rs)"
proof (cases "r_missingCount (receiver f) = 0")
  case True
  then have "processNacks now f = f" "r_missing (receiver f) = []"
    using assms by (simp_all add: processNacks_def missing_inv_def)
  then show ?thesis using assms by (auto simp: nack_pass_def walk_ok_def feed_keeps_def)
next
  case False
  define f0 where "f0 = f\<lparr>receiver := refillTokens now (receiver f)\<rparr>"
  obtain t u where r0: "refillTokens now (receiver f) = (receiver f)\<lparr>r_nackTokens := t, r_nackTokensTime := u\<rparr>"
    using refillTokens_frame by blast
  have tests: "requestable now f0 = requestable now f" "resolved now f0 = resolved now f"
    by (simp_all add: fun_eq_iff f0_def r0 requestable_def resolved_def slot_at_def)
  obtain es f1 b where walk: "nack_walk now (r_missing (receiver f0)) f0 [] = (es, f1, b)" by (metis prod_cases3)
  obtain rs where w: "nack_frame f0 f1" "tokens_inv (receiver f0) \<longrightarrow> tokens_inv (receiver f1)"
    "r_missingCount (receiver f1) = r_missingCount (receiver f0) - (int (length (r_missing (receiver f0))) - int (length es))"
    "length b \<le> ristMaxNacks" "b = map me_seq rs" "walk_ok now f (r_missing (receiver f)) es rs"
    using nack_walk_spec [OF walk] unfolding walk_ok_def tests by (auto simp: f0_def r0)
  obtain c t' where r1: "receiver f1 = (receiver f0)\<lparr>r_missingCount := c, r_nackTokens := t'\<rparr>"
    by (rule nack_frameE [OF w(1)])
  define f2 where "f2 = f1\<lparr>receiver := (receiver f1)\<lparr>r_missing := es\<rparr>\<rparr>"
  have run: "processNacks now f = (if b \<noteq> [] then push_output (SendFeedback (r_lastPath (receiver f2))
      (NackRequest (r_ssrc (receiver f2)) b)) f2 else f2)"
    using False walk by (simp add: processNacks_def Let_def f0_def f2_def)
  have r2: "receiver (processNacks now f) = (receiver f)\<lparr>r_missing := es, r_missingCount := c, r_nackTokens := t', r_nackTokensTime := u\<rparr>"
    by (simp add: run f2_def r1 f0_def r0)
  have rest: "events (processNacks now f) = events f" "cfg (processNacks now f) = cfg f" "role (processNacks now f) = role f"
    "missingCounterMax (processNacks now f) = missingCounterMax f"
    "Delivered (stats (processNacks now f)) = Delivered (stats f)" "Lost (stats (processNacks now f)) = Lost (stats f)"
    using w(1) by (simp_all add: run f2_def nack_frame_def f0_def)
  have "missing_inv (processNacks now f)"
    using w(3) by (intro walk_missing_inv [OF assms w(6)]) (simp_all add: rest r2 r1 f0_def r0)
  moreover have "tokens_inv (receiver (processNacks now f))" if "tokens_inv (receiver f)"
  proof -
    have "tokens_inv (receiver f1)" using w(2) tokens_inv_refill [OF that] by (simp add: f0_def)
    then show ?thesis by (auto simp: run f2_def tokens_inv_def)
  qed
  moreover have "nack_pass now f (processNacks now f) rs"
    using w(1,4,5,6) by (simp add: nack_pass_def r2) (simp add: run f2_def r1 f0_def r0 nack_frame_def)
  ultimately show ?thesis by (auto simp: feed_keeps_def rest r2 stored_from_def)
qed

text \<open>C7: what a NACK pass asks for, and what it forgets. The pass sends at most one request, of at
  most 200 sequences, in queue order; each of them is missing from the ring, below the retry
  cap, young enough to be recovered and due for a (re-)request. A queue entry disappears only
  when its slot is occupied, its retries are used up or it is too old.\<close>

theorem processNacks_requests:
  assumes "missing_inv f"
  shows "\<exists>rs. subseq rs (r_missing (receiver f)) \<and> length rs \<le> 200
     \<and> (\<forall>e\<in>set rs. sl_state (slot_at (receiver f) (me_seq e)) \<noteq> slotFilled \<and> me_nackCount e < MaxRetries (cfg f)
          \<and> now - me_insertionTime e \<le> recoveryBuffer110 f \<and> me_nextNack e \<le> now)
     \<and> outputs (processNacks now f) = (if rs = [] then outputs f else fifo_push (outputs f)
          (SendFeedback (r_lastPath (receiver f)) (NackRequest (r_ssrc (receiver f)) (map me_seq rs))))
     \<and> (\<forall>e\<in>set (r_missing (receiver f)).
          sl_state (slot_at (receiver f) (me_seq e)) = slotFilled \<or> MaxRetries (cfg f) \<le> me_nackCount e
          \<or> recoveryBuffer110 f < now - me_insertionTime e
          \<or> (\<exists>e'\<in>set (r_missing (receiver (processNacks now f))). me_seq e' = me_seq e))"
  using processNacks_spec [OF assms, of now "{}"]
  unfolding nack_pass_def walk_ok_def requestable_def resolved_def slot_full_def ristMaxNacks_def by blast

end
