(* ===== verification/Flow_Core.thy ===== *)
theory Flow_Core
  imports Flow_Sender Receiver_Delivery Receiver_Nack
begin

text \<open>
  The entry points of \<^verbatim>\<open>src/internal/flow/flow.go\<close> and the flow as a state
  machine: every host call is an \<open>Op\<close>, and the receiver invariants hold after any
  sequence of calls from construction.
\<close>

section \<open>Entry points\<close>

definition Flow_Role :: "Flow \<Rightarrow> Role" where
  "Flow_Role f = role f"

definition SetRTTMultiplier :: "int \<Rightarrow> Flow \<Rightarrow> Flow" where
  "SetRTTMultiplier multiplier f = f\<lparr>cfg := (cfg f)\<lparr>RTTMultiplier := multiplier\<rparr>\<rparr>"

definition avgBufferTimeUs :: "Flow \<Rightarrow> int" where
  "avgBufferTimeUs f =
     (if role f \<noteq> RoleReceiver then 0
      else if r_bufferTimeSamples (receiver f) = 0 then recoveryBuffer f
      else quot (r_bufferTimeSum (receiver f)) (i64 (r_bufferTimeSamples (receiver f))))"

definition Flow_Stats :: "Flow \<Rightarrow> Stats" where
  "Flow_Stats f =
     (let s = (stats f)\<lparr>SmoothedRTTUs := Smoothed (est f),
                        DataBitrateBps := slowBps (s_dataBW (sender f)),
                        RetryBitrateBps := slowBps (s_retryBW (sender f))\<rparr>;
          s = (if r_ipsMinUs (receiver f) \<noteq> MaxInt64 then s\<lparr>IpsMinUs := r_ipsMinUs (receiver f)\<rparr> else s)
      in s\<lparr>IpsCurUs := r_ipsCurUs (receiver f), IpsMaxUs := r_ipsMaxUs (receiver f),
           AvgBufferTimeUs := avgBufferTimeUs f, Anchored := r_started (receiver f),
           ShortSeq := r_shortSeq (receiver f)\<rparr>)"

definition Feed :: "Timestamp \<Rightarrow> u8 \<Rightarrow> MediaPacket \<Rightarrow> Flow \<Rightarrow> Flow" where
  "Feed now path pkt f = (if role f \<noteq> RoleReceiver then f else feed now path pkt f)"

definition feedbackPath :: "Flow \<Rightarrow> u8" where
  "feedbackPath f = (if role f = RoleSender then s_txPath (sender f) else r_lastPath (receiver f))"

definition FeedFeedback :: "Timestamp \<Rightarrow> Feedback \<Rightarrow> Flow \<Rightarrow> Flow" where
  "FeedFeedback now fb f =
     (case fb of
        RttEchoRequest ssrc ts \<Rightarrow> push_output (SendFeedback (feedbackPath f) (RttEchoResponse ssrc ts 0)) f
      | RttEchoResponse ssrc ts delay \<Rightarrow>
          (let sent = NTPTime_Timestamp ts;
               sample = Timestamp_Sub now sent - int (unat delay)
           in f\<lparr>est := Observe (est f) sample\<rparr>)
      | NackRequest ssrc missing \<Rightarrow>
          if role f = RoleSender then serviceNack now missing f else count IgnoredFeedback_update f
      | _ \<Rightarrow> count IgnoredFeedback_update f)"

definition PushAppFrag :: "Timestamp \<Rightarrow> bytes \<Rightarrow> FragRole \<Rightarrow> Flow \<Rightarrow> Flow" where
  "PushAppFrag now payload frag f = (if role f \<noteq> RoleSender then f else pushApp now payload frag f)"

definition PushApp :: "Timestamp \<Rightarrow> bytes \<Rightarrow> Flow \<Rightarrow> Flow" where
  "PushApp now payload f = PushAppFrag now payload FragStandalone f"

definition PushAppBlock ::
  "Timestamp \<Rightarrow> bytes \<Rightarrow> FragRole \<Rightarrow> u32 option \<Rightarrow> u64 option \<Rightarrow> Flow \<Rightarrow> Flow" where
  "PushAppBlock now payload frag seq sourceTime f =
     (if role f \<noteq> RoleSender then f else pushAppBlock now payload frag seq sourceTime f)"

definition HandleTimer :: "Timestamp \<Rightarrow> TimerID \<Rightarrow> Flow \<Rightarrow> Flow" where
  "HandleTimer now tid f =
     (if role f = RoleSender then senderHandleTimer now tid f
      else if tid = TimerPlayout
           then deliverDue now (f\<lparr>receiver := (receiver f)\<lparr>r_playoutArmed := False\<rparr>\<rparr>)
      else if tid = TimerNack
           then let f = f\<lparr>receiver := (receiver f)\<lparr>r_nackArmed := False\<rparr>\<rparr>;
                    f = processNacks now f
                in scheduleNack now f
      else if tid = TimerRttEcho
           then if r_started (receiver f)
                then let f = push_output (SendFeedback (r_lastPath (receiver f))
                               (RttEchoRequest 0 (NTPTimeFromTimestamp now))) f;
                         f = push_output (SetTimer TimerRttEcho (Timestamp_Add now rttEchoInterval)) f
                     in autoScaleBuffer f
                else f
      else f)"

definition Tick :: "Timestamp \<Rightarrow> Flow \<Rightarrow> Flow" where
  "Tick now f = (if role f \<noteq> RoleReceiver then f else processNacks now (deliverDue now f))"

definition PollOutput :: "Flow \<Rightarrow> Output option \<times> Flow" where
  "PollOutput f = (let (out, q) = fifo_pop (outputs f) in (out, f\<lparr>outputs := q\<rparr>))"

definition PollEvent :: "Flow \<Rightarrow> Event option \<times> Flow" where
  "PollEvent f = (let (ev, q) = fifo_pop (events f) in (ev, f\<lparr>events := q\<rparr>))"

section \<open>Runs\<close>

datatype Op =
    OpFeed Timestamp u8 MediaPacket
  | OpFeedback Timestamp Feedback
  | OpPush Timestamp bytes FragRole "u32 option" "u64 option"
  | OpTimer Timestamp TimerID
  | OpTick Timestamp
  | OpPollOutput
  | OpPollEvent
  | OpSenderMax Microseconds
  | OpRTTMultiplier int

text \<open>One host call: the events it hands to the application, and the flow afterwards.\<close>

fun exec :: "Op \<Rightarrow> Flow \<Rightarrow> Event list \<times> Flow" where
  "exec (OpFeed now path pkt) f = ([], Feed now path pkt f)"
| "exec (OpFeedback now fb) f = ([], FeedFeedback now fb f)"
| "exec (OpPush now p frag sq src) f = ([], PushAppBlock now p frag sq src f)"
| "exec (OpTimer now tid) f = ([], HandleTimer now tid f)"
| "exec (OpTick now) f = ([], Tick now f)"
| "exec OpPollOutput f = ([], snd (PollOutput f))"
| "exec OpPollEvent f = (case PollEvent f of (ev, f') \<Rightarrow> (case ev of None \<Rightarrow> [] | Some e \<Rightarrow> [e], f'))"
| "exec (OpSenderMax m) f = ([], SetSenderMaxBuffer m f)"
| "exec (OpRTTMultiplier m) f = ([], SetRTTMultiplier m f)"

fun run :: "Op list \<Rightarrow> Flow \<Rightarrow> Event list \<times> Flow" where
  "run [] f = ([], f)"
| "run (op # ops) f = (case exec op f of (es, f1) \<Rightarrow> case run ops f1 of (es', f2) \<Rightarrow> (es @ es', f2))"

fun fed :: "Op \<Rightarrow> MediaPacket set" where
  "fed (OpFeed now path pkt) = {pkt}"
| "fed _ = {}"

definition fed_all :: "Op list \<Rightarrow> MediaPacket set" where
  "fed_all ops = (\<Union>op\<in>set ops. fed op)"

text \<open>The receiver's invariant over runs.\<close>

definition flow_inv :: "MediaPacket set \<Rightarrow> Flow \<Rightarrow> bool" where
  "flow_inv P f \<longleftrightarrow> role f = RoleReceiver \<and> rx_inv P f \<and> tokens_inv (receiver f) \<and> fifo_inv (events f)"

definition event_is :: "Event \<Rightarrow> MediaPacket \<Rightarrow> bool" where
  "event_is e pkt \<longleftrightarrow> ev_Seq e = pkt_Seq pkt \<and> ev_SourceTime e = pkt_SourceTime pkt \<and>
     ev_Payload e = pkt_Payload pkt \<and> ev_Frag e = pkt_Frag pkt \<and>
     ev_VirtSrcPort e = pkt_VirtSrcPort pkt \<and> ev_VirtDstPort e = pkt_VirtDstPort pkt"

text \<open>Handing \<open>out\<close> to the application, the flow went from \<open>f\<close> to \<open>f'\<close> as the playout machine
  allows, producing \<open>evs\<close> (handed out or still queued) from packets in \<open>P\<close>.\<close>

definition plays :: "MediaPacket set \<Rightarrow> Flow \<Rightarrow> Event list \<Rightarrow> Flow \<Rightarrow> Event list \<Rightarrow> nat \<Rightarrow> bool" where
  "plays P f out f' evs k \<longleftrightarrow>
     out @ fifo_list (events f') = fifo_list (events f) @ evs \<and>
     playout (r_deliverNext (receiver f)) (r_pendingDiscontinuity (receiver f)) evs k
       (r_deliverNext (receiver f')) (r_pendingDiscontinuity (receiver f')) \<and>
     Delivered (stats f') = Delivered (stats f) + of_nat (length evs) \<and>
     Lost (stats f') = Lost (stats f) + of_nat k \<and>
     r_started (receiver f') = r_started (receiver f) \<and> r_ssrc (receiver f') = r_ssrc (receiver f) \<and>
     (\<forall>e\<in>set evs. \<exists>pkt\<in>P. event_is e pkt)"

lemma plays_trans:
  assumes "plays P f out g evs k" "plays Q g out' h evs' k'" "P \<subseteq> Q"
  shows "plays Q f (out @ out') h (evs @ evs') (k + k')"
proof -
  have "\<forall>e\<in>set (evs @ evs'). \<exists>pkt\<in>Q. event_is e pkt"
    using assms unfolding plays_def by (simp add: ball_Un) (meson subsetD)
  moreover have "(out @ out') @ fifo_list (events h) = fifo_list (events f) @ (evs @ evs')"
    using assms unfolding plays_def by (metis append.assoc)
  moreover have "playout (r_deliverNext (receiver f)) (r_pendingDiscontinuity (receiver f)) (evs @ evs') (k + k')
      (r_deliverNext (receiver h)) (r_pendingDiscontinuity (receiver h))"
    using assms(1,2) playout_trans unfolding plays_def by blast
  ultimately show ?thesis using assms(1,2) unfolding plays_def by simp
qed

lemma plays_refl:
  assumes "fifo_list (events f') = fifo_list (events f)"
    "r_deliverNext (receiver f') = r_deliverNext (receiver f)"
    "r_pendingDiscontinuity (receiver f') = r_pendingDiscontinuity (receiver f)"
    "Delivered (stats f') = Delivered (stats f)" "Lost (stats f') = Lost (stats f)"
    "r_started (receiver f') = r_started (receiver f)" "r_ssrc (receiver f') = r_ssrc (receiver f)"
  shows "plays P f [] f' [] 0"
  using assms by (simp add: plays_def playout_done)

lemma feed_keeps_plays: "feed_keeps f f' \<Longrightarrow> plays P f [] f' [] 0"
  by (rule plays_refl) (simp_all add: feed_keeps_def)

lemma deliverDue_plays:
  assumes "flow_inv P f"
  shows "flow_inv P (deliverDue now f)" "\<exists>evs k. plays P f [] (deliverDue now f) evs k"
proof -
  let ?f = "deliverDue now f"
  have inv: "ring_inv (receiver f)" "missing_inv f" "stored_from P (receiver f)" "fifo_inv (events f)"
    using assms by (auto simp: flow_inv_def rx_inv_def)
  obtain evs k where s: "delivery_frame f ?f" "ring_inv (receiver ?f)" "fifo_inv (events ?f)" "delivers now f ?f evs k"
    using deliverDue_spec [OF inv(1,4)] by blast
  note fr = delivery_frame_simps [OF s(1)]
  have "stored_from P (receiver ?f)"
    using inv(3) s(1) by (auto simp: stored_from_def fr(13)) (auto simp: delivery_frame_def)
  moreover have "missing_inv ?f" using inv(2) by (rule missing_inv_frame) (simp_all add: fr)
  moreover have "tokens_inv (receiver ?f)"
    using assms tokens_inv_frame [OF fr(9,8,7)] by (simp add: flow_inv_def)
  moreover have "role ?f = RoleReceiver" using assms by (simp add: flow_inv_def fr)
  ultimately show "flow_inv P ?f" using s(2,3) by (simp add: flow_inv_def rx_inv_def)
  have "\<exists>pkt\<in>P. event_is e pkt" if "e \<in> set evs" for e
  proof -
    obtain n b where n: "buffered (receiver f) n" "e = event_of (slot_at (receiver f) n) b"
      using delivers_event [OF s(4) \<open>e \<in> set evs\<close>] by blast
    obtain pkt where "pkt \<in> P" "slot_is (slot_at (receiver f) n) pkt"
      using inv(3) n(1) ring_inv_idx [OF inv(1), of n]
      by (auto simp: stored_from_def buffered_def slot_at_def)
    moreover have "event_is (event_of s b) pkt = slot_is s pkt" for s b
      by (simp add: event_is_def slot_is_def event_of_def)
    ultimately show ?thesis using n(2) by metis
  qed
  then show "\<exists>evs k. plays P f [] ?f evs k"
    using s(4) fr(2,6) unfolding plays_def delivers_def append_Nil
    by (elim conjE, intro exI [of _ evs] exI [of _ k] conjI ballI)
qed

lemma processNacks_plays:
  assumes "flow_inv P f"
  shows "flow_inv P (processNacks now f)" "plays P f [] (processNacks now f) [] 0"
proof -
  have "missing_inv f" using assms by (simp add: flow_inv_def rx_inv_def)
  from processNacks_spec [OF this, of now P] assms show "flow_inv P (processNacks now f)"
    by (auto simp: flow_inv_def rx_inv_def feed_keeps_def)
  from processNacks_spec [OF \<open>missing_inv f\<close>, of now P] show "plays P f [] (processNacks now f) [] 0"
    by (intro plays_refl) (auto simp: feed_keeps_def)
qed

text \<open>A change that leaves ring, missing queue, bucket, events and accounting alone.\<close>

lemma flow_inv_quiet:
  assumes "flow_inv P f" "quiet f f'"
  shows "flow_inv P f'" "plays P f [] f' [] 0"
proof -
  show "flow_inv P f'"
    using assms(1) quiet_simps [OF assms(2)] assms(2) tokens_inv_frame [of "receiver f'" "receiver f"]
    by (simp add: flow_inv_def rx_inv_def quiet_def feed_keeps_def)
  show "plays P f [] f' [] 0" using assms(2) by (auto simp: quiet_def intro: feed_keeps_plays)
qed

lemma arm_quiet:
  "quiet f (f\<lparr>receiver := (receiver f)\<lparr>r_playoutArmed := b\<rparr>\<rparr>)" "quiet f (f\<lparr>receiver := (receiver f)\<lparr>r_nackArmed := b\<rparr>\<rparr>)"
  "quiet f (scheduleNack now f)" "quiet f (push_output x f)" "quiet f (f\<lparr>est := e\<rparr>)"
  "quiet f (count IgnoredFeedback_update f)" "quiet f (autoScaleBuffer f)" "quiet f (SetSenderMaxBuffer m f)"
  by (auto simp: quiet_def feed_keeps_def autoScaleBuffer_def SetSenderMaxBuffer_def Let_def)

lemma FeedFeedback_quiet: "role f = RoleReceiver \<Longrightarrow> quiet f (FeedFeedback now fb f)"
  by (cases fb) (simp_all add: FeedFeedback_def arm_quiet Let_def)

lemma HandleTimer_plays:
  assumes "flow_inv P f"
  shows "flow_inv P (HandleTimer now tid f)" "\<exists>evs k. plays P f [] (HandleTimer now tid f) evs k"
proof -
  have role: "role f \<noteq> RoleSender" using assms by (simp add: flow_inv_def)
  define g where "g = f\<lparr>receiver := (receiver f)\<lparr>r_playoutArmed := False\<rparr>\<rparr>"
  define h where "h = f\<lparr>receiver := (receiver f)\<lparr>r_nackArmed := False\<rparr>\<rparr>"
  define e where "e = push_output (SetTimer TimerRttEcho (now + rttEchoInterval))
      (push_output (SendFeedback (r_lastPath (receiver f)) (RttEchoRequest 0 (NTPTimeFromTimestamp now))) f)"
  note q = flow_inv_quiet [OF assms]
  have g: "flow_inv P g" "plays P f [] g [] 0" and h: "flow_inv P h" "plays P f [] h [] 0"
    unfolding g_def h_def by (rule q arm_quiet)+
  have e: "quiet f (autoScaleBuffer e)"
    unfolding e_def by (rule quiet_trans [OF quiet_trans [OF arm_quiet(4) arm_quiet(4)] arm_quiet(7)])
  note pn = processNacks_plays [OF h(1), of now]
  have n: "flow_inv P (scheduleNack now (processNacks now h))"
    "plays P (processNacks now h) [] (scheduleNack now (processNacks now h)) [] 0"
    by (rule flow_inv_quiet [OF pn(1) arm_quiet(3)])+
  have "plays P f ([] @ ([] @ [])) (scheduleNack now (processNacks now h)) ([] @ ([] @ [])) (0 + (0 + 0))"
    by (intro plays_trans [OF h(2)] plays_trans [OF pn(2)] n(2) order_refl)
  moreover have "\<exists>evs k. plays P f [] (deliverDue now g) evs k"
    using deliverDue_plays(2) [OF g(1)] plays_trans [OF g(2) _ order_refl] by force
  ultimately show "\<exists>evs k. plays P f [] (HandleTimer now tid f) evs k"
    using role q(2) [OF e] q(2) [OF quiet_refl]
    by (auto simp: HandleTimer_def Let_def simp flip: g_def h_def e_def)
  show "flow_inv P (HandleTimer now tid f)"
    using role assms n(1) deliverDue_plays(1) [OF g(1)] q(1) [OF e]
    by (simp add: HandleTimer_def Let_def flip: g_def h_def e_def)
qed

lemma Tick_plays:
  assumes "flow_inv P f"
  shows "flow_inv P (Tick now f)" "\<exists>evs k. plays P f [] (Tick now f) evs k"
proof -
  note d = deliverDue_plays [OF assms, of now]
  note n = processNacks_plays [OF d(1), of now]
  have t: "Tick now f = processNacks now (deliverDue now f)" using assms by (simp add: Tick_def flow_inv_def)
  show "flow_inv P (Tick now f)" unfolding t by (rule n(1))
  show "\<exists>evs k. plays P f [] (Tick now f) evs k"
    unfolding t using d(2) plays_trans [OF _ n(2) order_refl] by force
qed

lemma PollEvent_plays:
  assumes "flow_inv P f" "exec OpPollEvent f = (out, f')"
  shows "flow_inv P f'" "plays P f out f' [] 0"
proof -
  obtain ev q where pop: "fifo_pop (events f) = (ev, q)" by fastforce
  have inv: "fifo_inv (events f)" using assms(1) by (simp add: flow_inv_def)
  have f': "f' = f\<lparr>events := q\<rparr>" "out = (case ev of None \<Rightarrow> [] | Some e \<Rightarrow> [e])"
    using assms(2) pop by (auto simp: PollEvent_def)
  have q: "fifo_inv q" "out @ fifo_list q = fifo_list (events f)"
    using pop f'(2) inv fifo.pop_Nil [OF inv] fifo.pop_Cons [OF inv]
    by (cases "fifo_list (events f)"; auto)+
  then show "flow_inv P f'" using assms(1) by (simp add: flow_inv_def f'(1) rx_inv_def missing_inv_def)
  show "plays P f out f' [] 0" using q by (simp add: plays_def f'(1) playout_done)
qed

lemma flow_inv_mono: "flow_inv P f \<Longrightarrow> P \<subseteq> Q \<Longrightarrow> flow_inv Q f"
  by (auto simp: flow_inv_def rx_inv_def intro: stored_from_mono)

lemma plays_mono: "plays P f out f' evs k \<Longrightarrow> P \<subseteq> Q \<Longrightarrow> plays Q f out f' evs k"
  unfolding plays_def by blast

lemma Feed_plays:
  assumes "flow_inv P f"
  shows "flow_inv (insert pkt P) (Feed now path pkt f)"
    "same_flow pkt f \<Longrightarrow> plays Q f [] (Feed now path pkt f) [] 0"
proof -
  have rx: "rx_inv P f" and feed: "Feed now path pkt f = feed now path pkt f"
    using assms by (simp_all add: flow_inv_def Feed_def)
  note s = feed_spec [OF rx, where pkt = pkt and now = now and path = path]
  have "tokens_inv (receiver (feed now path pkt f)) = tokens_inv (receiver f)"
    using s(2) by (intro tokens_inv_frame) (simp_all add: feed_constant_def)
  then show "flow_inv (insert pkt P) (Feed now path pkt f)"
    using assms s(1,2) unfolding feed by (simp add: flow_inv_def feed_constant_def)
  show "plays Q f [] (Feed now path pkt f) [] 0" if "same_flow pkt f"
    unfolding feed using s(3) [OF that] by (rule feed_keeps_plays)
qed

lemma config_plays:
  assumes "flow_inv P f"
  shows "flow_inv P (SetRTTMultiplier m f)" "plays P f [] (SetRTTMultiplier m f) [] 0"
    "flow_inv P (snd (PollOutput f))" "plays P f [] (snd (PollOutput f)) [] 0"
  using assms
  by (auto simp: flow_inv_def rx_inv_def missing_inv_def SetRTTMultiplier_def PollOutput_def Let_def
      split: prod.splits intro!: plays_refl)

text \<open>The call may follow in the flow \<open>f\<close> is anchored to.\<close>

fun continues :: "Op \<Rightarrow> Flow \<Rightarrow> bool" where
  "continues (OpFeed now path pkt) f = same_flow pkt f"
| "continues _ f = True"

lemma exec_inv:
  assumes "flow_inv P f"
  shows "flow_inv (fed op \<union> P) (snd (exec op f))"
proof (cases op)
  case OpPollEvent
  obtain out f' where "exec OpPollEvent f = (out, f')" by fastforce
  then show ?thesis using PollEvent_plays(1) [OF assms] OpPollEvent by simp
next
  case (OpFeed now path pkt)
  then show ?thesis using Feed_plays(1) [OF assms] by simp
next
  case (OpTimer now tid)
  then show ?thesis using HandleTimer_plays(1) [OF assms] by simp
next
  case (OpTick now)
  then show ?thesis using Tick_plays(1) [OF assms] by simp
next
  case (OpFeedback now fb)
  have "role f = RoleReceiver" using assms by (simp add: flow_inv_def)
  then show ?thesis using flow_inv_quiet(1) [OF assms FeedFeedback_quiet] OpFeedback by simp
next
  case (OpPush now p frag sq src)
  have "role f \<noteq> RoleSender" using assms by (simp add: flow_inv_def)
  then show ?thesis using assms OpPush by (simp add: PushAppBlock_def)
next
  case (OpSenderMax m)
  then show ?thesis using flow_inv_quiet(1) [OF assms arm_quiet(8)] by simp
qed (use config_plays(1,3) [OF assms] in simp_all)

lemma exec_plays:
  assumes "flow_inv P f" "continues op f"
  shows "\<exists>evs k. plays P f (fst (exec op f)) (snd (exec op f)) evs k"
proof (cases op)
  case OpPollEvent
  obtain out f' where "exec OpPollEvent f = (out, f')" by fastforce
  then show ?thesis using PollEvent_plays(2) [OF assms(1)] OpPollEvent by auto
next
  case (OpFeed now path pkt)
  then have "plays P f (fst (exec op f)) (snd (exec op f)) [] 0"
    using Feed_plays(2) [OF assms(1)] assms(2) by simp
  then show ?thesis by blast
next
  case (OpTimer now tid)
  then show ?thesis using HandleTimer_plays(2) [OF assms(1)] by simp
next
  case (OpTick now)
  then show ?thesis using Tick_plays(2) [OF assms(1)] by simp
next
  case (OpFeedback now fb)
  have "quiet f (FeedFeedback now fb f)" using assms(1) by (intro FeedFeedback_quiet) (simp add: flow_inv_def)
  then show ?thesis using flow_inv_quiet(2) [OF assms(1)] OpFeedback by auto
next
  case (OpPush now p frag sq src)
  then show ?thesis
    using flow_inv_quiet(2) [OF assms(1) quiet_refl] assms(1) by (auto simp: PushAppBlock_def flow_inv_def)
next
  case (OpSenderMax m)
  then show ?thesis using flow_inv_quiet(2) [OF assms(1) arm_quiet(8)] by auto
next
  case OpPollOutput
  then show ?thesis using config_plays(4) [OF assms(1)] by auto
next
  case (OpRTTMultiplier m)
  then show ?thesis using config_plays(2) [OF assms(1)] by auto
qed

lemma run_inv: "flow_inv P f \<Longrightarrow> flow_inv (fed_all ops \<union> P) (snd (run ops f))"
proof (induction ops arbitrary: P f)
  case (Cons op ops)
  have "flow_inv (fed_all ops \<union> (fed op \<union> P)) (snd (run ops (snd (exec op f))))"
    using Cons.IH [OF exec_inv [OF Cons.prems]] .
  then show ?case by (auto simp: fed_all_def Un_ac split: prod.splits)
qed (simp add: fed_all_def)

definition same_source :: "u32 \<Rightarrow> MediaPacket \<Rightarrow> bool" where
  "same_source ssrc pkt \<longleftrightarrow> pkt_Retransmit pkt \<or> (pkt_SSRC pkt AND NOT 1) = (ssrc AND NOT 1)"

lemma run_plays:
  assumes "flow_inv P f" "r_started (receiver f)" "\<forall>pkt\<in>fed_all ops. same_source (r_ssrc (receiver f)) pkt"
  shows "\<exists>evs k. plays (fed_all ops \<union> P) f (fst (run ops f)) (snd (run ops f)) evs k"
  using assms
proof (induction ops arbitrary: P f)
  case Nil
  then show ?case using flow_inv_quiet(2) [OF Nil(1) quiet_refl] by (auto simp: fed_all_def)
next
  case (Cons op ops)
  let ?f1 = "snd (exec op f)"
  have "continues op f" using Cons.prems(2,3) by (cases op) (auto simp: same_flow_def same_source_def fed_all_def)
  then obtain evs k where p: "plays P f (fst (exec op f)) ?f1 evs k" using exec_plays [OF Cons.prems(1)] by blast
  then have "r_started (receiver ?f1)" "r_ssrc (receiver ?f1) = r_ssrc (receiver f)"
    using Cons.prems(2) by (simp_all add: plays_def)
  then obtain evs' k' where "plays (fed_all ops \<union> (fed op \<union> P)) ?f1 (fst (run ops ?f1)) (snd (run ops ?f1)) evs' k'"
    using Cons.IH [OF exec_inv [OF Cons.prems(1), of op]] Cons.prems(3) by (auto simp: fed_all_def)
  then have "plays (fed_all ops \<union> (fed op \<union> P)) f (fst (exec op f) @ fst (run ops ?f1)) (snd (run ops ?f1)) (evs @ evs') (k + k')"
    by (rule plays_trans [OF p]) auto
  moreover have "fed_all (op # ops) \<union> P = fed_all ops \<union> (fed op \<union> P)" by (auto simp: fed_all_def)
  moreover have "run (op # ops) f = (fst (exec op f) @ fst (run ops ?f1), snd (run ops ?f1))"
    by (simp split: prod.splits)
  ultimately show ?case by (simp only: fst_conv snd_conv) blast
qed

section \<open>From construction\<close>

lemma New_receiver:
  "r_mask (receiver (Flow_New RoleReceiver c)) = word_of_int (nextPow2 (if RingSize c \<le> 0 then deriveRingSize c else RingSize c) - 1)"
  "r_ring (receiver (Flow_New RoleReceiver c)) = replicate (ring_slots c) slot_zero"
  "\<not> r_started (receiver (Flow_New RoleReceiver c))" "r_missing (receiver (Flow_New RoleReceiver c)) = []"
  "r_missingCount (receiver (Flow_New RoleReceiver c)) = 0"
  by (simp_all add: Flow_New_def Let_def receiverState_zero_def ring_slots_def)

lemma New_tokens: "tokens_inv (receiver (Flow_New RoleReceiver c))"
  by (auto simp: Flow_New_def Let_def receiverState_zero_def tokens_inv_def f_div_def f_mul_def f_of_int_def
      ristNackBytesPerSeq_def intro!: rnd64_nonneg divide_nonneg_nonneg mult_nonneg_nonneg)

lemma New_flow_inv: "flow_inv {} (Flow_New RoleReceiver c)"
proof -
  have "ring_geom (r_ring (receiver (Flow_New RoleReceiver c))) (r_mask (receiver (Flow_New RoleReceiver c)))"
    unfolding New_receiver ring_slots_def by (rule nextPow2_geom)
  then have "ring_inv (receiver (Flow_New RoleReceiver c))"
    by (simp add: ring_inv_def slot_ok_def New_receiver slot_full_def slot_zero_def)
  moreover have "stored_from {} (receiver (Flow_New RoleReceiver c))"
    by (simp add: stored_from_def New_receiver slot_full_def slot_zero_def)
  moreover have "role (Flow_New RoleReceiver c) = RoleReceiver" by (simp add: Flow_New_def Let_def)
  ultimately show ?thesis
    by (simp add: flow_inv_def rx_inv_def missing_inv_def New_receiver New_tokens New_sender)
qed

lemma reachable_inv: "flow_inv (fed_all ops) (snd (run ops (Flow_New RoleReceiver c)))"
  using run_inv [OF New_flow_inv, of ops c] by simp

text \<open>C2: the receiver is safe after any sequence of host calls. From construction on, whatever
  packets, feedback, timers, polls and configuration changes arrive in whatever order: every
  ring index is in bounds, an occupied slot holds a sequence that belongs there and lies in
  the window between the playout cursor and the newest sequence (at most half the sequence
  space), the missing queue agrees with its counter and its bound, no entry exceeds the retry
  cap, and the return-bandwidth bucket stays between empty and full.\<close>

theorem receiver_always_safe:
  shows "let f = snd (run ops (Flow_New RoleReceiver c)); r = receiver f in
     (\<forall>n. ring_idx (r_mask r) n < length (r_ring r)) \<and>
     (\<forall>i<length (r_ring r). sl_state (r_ring r ! i) \<noteq> slotFilled \<or>
        r_started r \<and> ring_idx (r_mask r) (sl_seq (r_ring r ! i)) = i
        \<and> unat (sl_seq (r_ring r ! i) - r_deliverNext r) < unat (r_highest r + 1 - r_deliverNext r)
        \<and> unat (r_highest r + 1 - r_deliverNext r) \<le> 2 ^ 31) \<and>
     r_missingCount r = int (length (r_missing r)) \<and>
     r_missingCount r \<le> int (unat (missingCounterMax f)) + 1 \<and>
     list_all (\<lambda>e. 0 \<le> me_nackCount e \<and> me_nackCount e \<le> max 0 (MaxRetries (cfg f))) (r_missing r) \<and>
     (r_nackSeqsPerSec r = 0 \<or> 0 \<le> r_nackTokens r \<and> r_nackTokens r \<le> 200)"
proof -
  let ?f = "snd (run ops (Flow_New RoleReceiver c))"
  let ?r = "receiver ?f"
  have inv: "ring_inv ?r" "missing_inv ?f" "tokens_inv ?r"
    using reachable_inv [of ops c] by (simp_all add: flow_inv_def rx_inv_def)
  have tok: "r_nackSeqsPerSec ?r = 0 \<or> 0 \<le> r_nackTokens ?r \<and> r_nackTokens ?r \<le> 200"
    using inv(3) by (auto simp: tokens_inv_def ristMaxNacks_def)
  have slots: "sl_state (r_ring ?r ! i) \<noteq> slotFilled \<or>
        r_started ?r \<and> ring_idx (r_mask ?r) (sl_seq (r_ring ?r ! i)) = i
        \<and> unat (sl_seq (r_ring ?r ! i) - r_deliverNext ?r) < unat (r_highest ?r + 1 - r_deliverNext ?r)
        \<and> unat (r_highest ?r + 1 - r_deliverNext ?r) \<le> 2 ^ 31" if "i < length (r_ring ?r)" for i
    using ring_inv_slot [OF inv(1) that] inv(1) by (auto simp: slot_full_def ahead_def ring_inv_def)
  show ?thesis
    unfolding Let_def using tok slots ring_inv_idx [OF inv(1)] inv(2)
    by (simp add: missing_inv_def list_all_iff)
qed

text \<open>C1: the whole receiver refines the playout machine. From any reachable anchored state, and any
  further calls whose packets belong to the anchored flow, the events handed to the
  application followed by those still queued are what was queued before plus a sequence of
  events the machine allows: in order, discontinuities flagged exactly after a loss, cursor
  and counters accounting for every sequence; every event is a packet that was fed, unchanged,
  and none is delivered twice before the cursor has gone round the sequence space.\<close>

theorem receiver_run_refines_playout:
  assumes "f = snd (run ops0 (Flow_New RoleReceiver c))" "r_started (receiver f)"
    and "\<forall>pkt\<in>fed_all ops. same_source (r_ssrc (receiver f)) pkt"
    and "(out, f') = run ops f"
  shows "\<exists>evs k. out @ fifo_list (events f') = fifo_list (events f) @ evs
     \<and> playout (r_deliverNext (receiver f)) (r_pendingDiscontinuity (receiver f)) evs k
         (r_deliverNext (receiver f')) (r_pendingDiscontinuity (receiver f'))
     \<and> Delivered (stats f') = Delivered (stats f) + of_nat (length evs)
     \<and> Lost (stats f') = Lost (stats f) + of_nat k
     \<and> (\<forall>e\<in>set evs. \<exists>pkt\<in>fed_all (ops0 @ ops). event_is e pkt)
     \<and> (length evs + k \<le> 2 ^ 32 \<longrightarrow> distinct (map ev_Seq evs))"
proof -
  have "flow_inv (fed_all ops0) f" using reachable_inv assms(1) by simp
  from run_plays [OF this assms(2,3)] obtain evs k where
    p: "plays (fed_all ops \<union> fed_all ops0) f out f' evs k" by (metis assms(4) fst_conv snd_conv)
  moreover have "fed_all ops \<union> fed_all ops0 = fed_all (ops0 @ ops)" by (auto simp: fed_all_def)
  ultimately show ?thesis
    using playout_distinct unfolding plays_def by (intro exI [of _ evs] exI [of _ k]) auto
qed

section \<open>Witnesses\<close>

lemma feed_starts:
  assumes "flow_inv P f" "\<not> pkt_Retransmit pkt"
  shows "r_started (receiver (Feed now path pkt f))"
proof -
  define f1 where "f1 = feed_ips now f"
  define f2 where "f2 = feed_flow_id pkt f1"
  define f3 where "f3 = feed_framing now pkt f2"
  have q1: "quiet f f1" and q3: "quiet f2 f3" by (simp_all add: f1_def f3_def feed_ips_quiet feed_framing_quiet)
  have "rx_inv P f1" using assms(1) by (simp add: flow_inv_def rx_inv_def quiet_simps [OF q1])
  then have "rx_inv P f2" unfolding f2_def by (rule feed_flow_id_cases(1))
  then have rx3: "rx_inv P f3" by (simp add: rx_inv_def quiet_simps [OF q3])
  have "r_started (receiver (feed_started now path pkt f3))" if "r_started (receiver f3)"
    using feed_started_ok [of f3 pkt now path] rx3 that by (simp add: rx_inv_def feed_ok_def feed_keeps_def)
  then show ?thesis
    using assms start_rx(3) [OF rx3] by (simp add: Feed_def feed_def Let_def flow_inv_def flip: f1_def f2_def f3_def)
qed

definition demo_pkt :: MediaPacket where
  "demo_pkt = \<lparr>pkt_Seq = 0xFFFFFFFF, pkt_SourceTime = 0, pkt_SSRC = 2, pkt_Payload = [1, 2, 3], pkt_Retransmit = False,
     pkt_PathID = 0, pkt_Frag = FragStandalone, pkt_VirtSrcPort = 0, pkt_VirtDstPort = 0, pkt_ShortSeq = True\<rparr>"

definition demo_flow :: Flow where
  "demo_flow = snd (run [OpFeed 1000 0 demo_pkt] (Flow_New RoleReceiver small_config))"

lemma demo_flow_facts:
  "flow_inv {demo_pkt} demo_flow" "r_started (receiver demo_flow)"
  using reachable_inv [of "[OpFeed 1000 0 demo_pkt]" small_config]
    feed_starts [OF New_flow_inv, of demo_pkt 1000 0 small_config]
  by (simp_all add: demo_flow_def fed_all_def demo_pkt_def)

theorem deliverDue_refines_playout_witness:
  "\<exists>evs k. playout (r_deliverNext (receiver demo_flow)) (r_pendingDiscontinuity (receiver demo_flow)) evs k
     (r_deliverNext (receiver (deliverDue 5000000 demo_flow))) (r_pendingDiscontinuity (receiver (deliverDue 5000000 demo_flow)))"
  using deliverDue_refines_playout [of demo_flow 5000000] demo_flow_facts(1) by (auto simp: flow_inv_def rx_inv_def)

theorem deliverDue_settles_witness:
  "(\<forall>n. \<not> buffered (receiver (deliverDue 5000000 demo_flow)) n) \<or>
   (\<exists>n. buffered (receiver (deliverDue 5000000 demo_flow)) n
      \<and> 5000000 < sl_outputTime (slot_at (receiver (deliverDue 5000000 demo_flow)) n))"
  using deliverDue_settles [of demo_flow 5000000] demo_flow_facts by (auto simp: flow_inv_def rx_inv_def)

theorem processNacks_requests_witness:
  "\<exists>rs. subseq rs (r_missing (receiver demo_flow)) \<and> length rs \<le> 200
     \<and> outputs (processNacks 2000 demo_flow) = (if rs = [] then outputs demo_flow else fifo_push (outputs demo_flow)
          (SendFeedback (r_lastPath (receiver demo_flow)) (NackRequest (r_ssrc (receiver demo_flow)) (map me_seq rs))))"
  using processNacks_requests [of demo_flow 2000] demo_flow_facts(1) by (auto simp: flow_inv_def rx_inv_def)

theorem receiver_always_safe_witness:
  "r_missingCount (receiver demo_flow) \<le> int (unat (missingCounterMax demo_flow)) + 1
   \<and> ring_idx (r_mask (receiver demo_flow)) 12345 < length (r_ring (receiver demo_flow))"
  using receiver_always_safe [of "[OpFeed 1000 0 demo_pkt]" small_config]
  unfolding Let_def demo_flow_def by blast

theorem receiver_run_refines_playout_witness:
  "\<exists>evs k. fst (run [OpTick 5000000, OpPollEvent] demo_flow)
       @ fifo_list (events (snd (run [OpTick 5000000, OpPollEvent] demo_flow))) = fifo_list (events demo_flow) @ evs
     \<and> Lost (stats (snd (run [OpTick 5000000, OpPollEvent] demo_flow))) = Lost (stats demo_flow) + of_nat k"
proof -
  have "\<exists>evs k. fst (run [OpTick 5000000, OpPollEvent] demo_flow)
       @ fifo_list (events (snd (run [OpTick 5000000, OpPollEvent] demo_flow))) = fifo_list (events demo_flow) @ evs
     \<and> playout (r_deliverNext (receiver demo_flow)) (r_pendingDiscontinuity (receiver demo_flow)) evs k
         (r_deliverNext (receiver (snd (run [OpTick 5000000, OpPollEvent] demo_flow))))
         (r_pendingDiscontinuity (receiver (snd (run [OpTick 5000000, OpPollEvent] demo_flow))))
     \<and> Delivered (stats (snd (run [OpTick 5000000, OpPollEvent] demo_flow))) = Delivered (stats demo_flow) + of_nat (length evs)
     \<and> Lost (stats (snd (run [OpTick 5000000, OpPollEvent] demo_flow))) = Lost (stats demo_flow) + of_nat k
     \<and> (\<forall>e\<in>set evs. \<exists>pkt\<in>fed_all ([OpFeed 1000 0 demo_pkt] @ [OpTick 5000000, OpPollEvent]). event_is e pkt)
     \<and> (length evs + k \<le> 2 ^ 32 \<longrightarrow> distinct (map ev_Seq evs))"
    by (rule receiver_run_refines_playout [OF demo_flow_def demo_flow_facts(2)]) (simp_all add: fed_all_def)
  then show ?thesis by blast
qed

end
