(* ===== verification/Codec.thy ===== *)
theory Codec
  imports Prelude
begin

text \<open>What the wire codecs share: bit fields of a byte, the append-to-buffer convention of the
  \<open>AppendTo\<close> methods, and the contract of a self-delimiting codec as a locale.\<close>

unbundle bit_operations_syntax

section \<open>Bit fields\<close>

text \<open>Go's \<open>b >> n & 1 != 0\<close>.\<close>

lemma flag_bit [simp, codec_simps]: "drop_bit n x AND 1 = (0 :: 'a::len word) \<longleftrightarrow> \<not> bit x n"
  by (simp add: and_one_eq bit_iff_odd_drop_bit odd_iff_mod_2_eq_one)

text \<open>Go's \<open>w & (1 << n) == 0\<close>.\<close>

lemma and_bit_zero_iff: "(w :: 'a::len word) AND 2 ^ n = 0 \<longleftrightarrow> \<not> (n < LENGTH('a) \<and> bit w n)"
proof
  assume "w AND 2 ^ n = 0"
  then have "\<not> bit (w AND 2 ^ n) n" by simp
  then show "\<not> (n < LENGTH('a) \<and> bit w n)" by (auto simp: bit_simps)
next
  assume "\<not> (n < LENGTH('a) \<and> bit w n)"
  then show "w AND 2 ^ n = 0" by (intro bit_word_eqI) (auto simp: bit_simps)
qed

lemma u8_eqI:
  assumes "bit x 0 = bit y 0" "bit x 1 = bit y 1" "bit x 2 = bit y 2" "bit x 3 = bit y 3"
    "bit x 4 = bit y 4" "bit x 5 = bit y 5" "bit x 6 = bit y 6" "bit x 7 = bit y 7"
  shows "x = (y :: u8)"
proof (rule bit_word_eqI)
  fix n assume "n < LENGTH(8)"
  then have "n = 0 \<or> n = 1 \<or> n = 2 \<or> n = 3 \<or> n = 4 \<or> n = 5 \<or> n = 6 \<or> n = 7" by auto
  then show "bit x n = bit y n" using assms by auto
qed

lemma u8_masks [codec_simps]:
  "(0x7F :: u8) = mask 7" "(0x3F :: u8) = mask 6" "(0x1F :: u8) = mask 5" "(0xF :: u8) = mask 4"
  "(0x7 :: u8) = mask 3" "(0x3 :: u8) = mask 2"
  by (simp_all add: mask_eq_exp_minus_1)

text \<open>A value that fits a field, and a length that fits a count field.\<close>

definition fits :: "nat \<Rightarrow> 'a::len word \<Rightarrow> bool" where
  "fits n x \<longleftrightarrow> unat x < 2 ^ n"

lemma fits_bit: "fits n x \<Longrightarrow> n \<le> k \<Longrightarrow> \<not> bit x k"
  unfolding fits_def by (rule bit_lt_exp)

lemma fits_mask: "fits n (x AND mask n :: 'a::len word)"
  by (simp add: fits_def)

lemma mask_fits: "fits n x \<Longrightarrow> x AND mask n = (x :: 'a::len word)"
  by (rule bit_word_eqI) (use fits_bit [of n x] in \<open>auto simp: bit_simps not_less [symmetric]\<close>)

lemma fits_of_nat: "k < 2 ^ n \<Longrightarrow> fits n (of_nat k :: 'a::len word)"
  by (simp add: fits_def unsigned_of_nat) (metis le_less_trans take_bit_nat_less_eq_self)

section \<open>Reading at a literal offset\<close>

text \<open>A read at offset \<open>k\<close> is a read at the front of what follows; with these the simplifier walks
  over the encoded fields before it.\<close>

lemma be16_get_drop: "numeral k \<le> length b \<Longrightarrow> be16_get b (numeral k) = be16_get (drop (numeral k) b) 0"
  by (simp add: be16_get_def)

lemma be32_get_drop: "numeral k \<le> length b \<Longrightarrow> be32_get b (numeral k) = be32_get (drop (numeral k) b) 0"
  by (simp add: be32_get_def)

lemma be64_get_skip: "n \<le> length b \<Longrightarrow> be64_get b n = be64_get (drop n b) 0"
  using be64_get_append_skip [of "take n b" n "drop n b"] by simp

lemma be64_get_drop: "numeral k \<le> length b \<Longrightarrow> be64_get b (numeral k) = be64_get (drop (numeral k) b) 0"
  by (rule be64_get_skip)

lemma be_get_put_self [simp]:
  "be16_get (be16_put a) 0 = a" "be32_get (be32_put b) 0 = b" "be64_get (be64_put c) 0 = c"
  using be16_get_put0 [of a "[]"] be32_get_put0 [of b "[]"] be64_get_put0 [of c "[]"] by simp_all

lemma byte_get_drop: "numeral k < length b \<Longrightarrow> b ! numeral k = drop (numeral k) b ! 0"
  by simp

lemmas be_reads = be16_get_drop be32_get_drop be64_get_drop

section \<open>Buffers\<close>

text \<open>\<open>growSlice\<close>: the extended slice keeps the old contents; the added bytes are whatever the spare
  capacity held, or zeros after a reallocation.\<close>

definition growSlice :: "bytes \<Rightarrow> bytes \<Rightarrow> nat \<Rightarrow> bytes" where
  "growSlice spare buf n =
     (if length spare \<ge> n then buf @ take n spare else buf @ replicate n 0)"

lemma growSlice_split:
  obtains junk where "growSlice spare buf n = buf @ junk" "length junk = n"
  by (cases "length spare \<ge> n") (auto simp: growSlice_def)

text \<open>Writing at the front of a buffer that is long enough.\<close>

definition overwrite :: "bytes \<Rightarrow> bytes \<Rightarrow> bytes" where
  "overwrite new buf = new @ drop (length new) buf"

lemma overwrite_exact [simp]: "length new = length buf \<Longrightarrow> overwrite new buf = new"
  by (simp add: overwrite_def)

section \<open>Self-delimiting codecs\<close>

text \<open>The contract: a well-formed value is read back from the front of any buffer its encoding starts,
  together with the number of bytes it took.\<close>

locale prefix_codec =
  fixes enc :: "'a \<Rightarrow> bytes" and dec :: "bytes \<Rightarrow> 'e + nat \<times> 'a" and wf :: "'a \<Rightarrow> bool"
  assumes dec_enc: "wf x \<Longrightarrow> dec (enc x @ rest) = Inr (length (enc x), x)"
begin

lemma dec_exact: "wf x \<Longrightarrow> dec (enc x) = Inr (length (enc x), x)"
  using dec_enc [of x "[]"] by simp

lemma prefix_free:
  assumes "wf x" "wf y" "enc x @ r = enc y @ s"
  shows "x = y \<and> r = s"
proof -
  have "dec (enc x @ r) = dec (enc y @ s)" using assms(3) by simp
  then have "x = y" using assms(1,2) by (simp add: dec_enc)
  then show ?thesis using assms(3) by simp
qed

lemma enc_inj: "inj_on enc {x. wf x}"
  using prefix_free [where r = "[]" and s = "[]"] by (auto simp: inj_on_def)

end

lemma word_split_mask: "(x AND NOT (mask k)) + (x AND mask k) = (x :: 'a::len word)"
proof -
  have "(x AND NOT (mask k)) AND (x AND mask k) = 0" by (rule bit_word_eqI) (auto simp: bit_simps)
  then have "(x AND NOT (mask k)) + (x AND mask k) = (x AND NOT (mask k)) OR (x AND mask k)"
    by (rule disjunctive_add_eq_or)
  also have "\<dots> = x" by (rule bit_word_eqI) (auto simp: bit_simps)
  finally show ?thesis .
qed

end
