(* ===== verification/Rtp.thy ===== *)
theory Rtp
  imports Codec
begin

text \<open>The RTP codec of internal/rtp (rtp.go) and the RIST retransmission marking of the SSRC (ssrc.go):
  header with CSRC list and opaque extension, payload, padding.  The lemmas give the round trip in both
  directions, the exact error of every refused input, and the marking laws.\<close>

unbundle bit_operations_syntax

section \<open>Definitions\<close>

datatype rtp_err =
    ErrHeaderTooShort | ErrExtensionTooShort | ErrPacketTooShort | ErrInvalidPadding | ErrShortBuffer
  | ErrInvalidVersion | ErrTooManyCSRC | ErrExtensionNotAligned | ErrExtensionTooLong

definition FixedHeaderSize :: nat where "FixedHeaderSize = 12"
definition MaxCSRC :: nat where "MaxCSRC = 15"
definition csrcLength :: nat where "csrcLength = 4"
definition extHeaderSize :: nat where "extHeaderSize = 4"

record rtp_Header =
  rh_Version :: u8
  rh_Padding :: bool
  rh_Extension :: bool
  rh_CSRCCount :: u8
  rh_Marker :: bool
  rh_PayloadType :: u8
  rh_SequenceNumber :: u16
  rh_Timestamp :: u32
  rh_SSRC :: u32
  rh_CSRC :: "u32 list"
  rh_ExtensionProfile :: u16
  rh_ExtensionPayload :: bytes

record rtp_Packet =
  rp_Header :: rtp_Header
  rp_Payload :: bytes
  rp_PaddingSize :: u8

definition read_u32s :: "bytes \<Rightarrow> nat \<Rightarrow> nat \<Rightarrow> u32 list" where
  "read_u32s buf off k = map (\<lambda>i. be32_get buf (off + i * csrcLength)) [0..<k]"

definition rtp_Header_Unmarshal :: "bytes \<Rightarrow> rtp_err + nat \<times> rtp_Header" where
  "rtp_Header_Unmarshal buf =
     (if length buf < FixedHeaderSize then Inl ErrHeaderTooShort
      else
        let b0 = buf ! 0; b1 = buf ! 1;
            nCSRC = unat (b0 AND 0xF);
            h = \<lparr>rh_Version = drop_bit 6 b0 AND 0x3,
                 rh_Padding = (drop_bit 5 b0 AND 1 \<noteq> 0),
                 rh_Extension = (drop_bit 4 b0 AND 1 \<noteq> 0),
                 rh_CSRCCount = of_nat nCSRC,
                 rh_Marker = (drop_bit 7 b1 \<noteq> 0),
                 rh_PayloadType = b1 AND 0x7F,
                 rh_SequenceNumber = be16_get buf 2,
                 rh_Timestamp = be32_get buf 4,
                 rh_SSRC = be32_get buf 8,
                 rh_CSRC = [], rh_ExtensionProfile = 0, rh_ExtensionPayload = []\<rparr>;
            n = FixedHeaderSize + nCSRC * csrcLength
        in if length buf < n then Inl ErrHeaderTooShort
           else
             let h = h\<lparr>rh_CSRC := read_u32s buf FixedHeaderSize nCSRC\<rparr> in
             if rh_Extension h then
               if length buf < n + extHeaderSize then Inl ErrExtensionTooShort
               else
                 let h = h\<lparr>rh_ExtensionProfile := be16_get buf n\<rparr>;
                     extLen = unat (be16_get buf (n + 2)) * 4;
                     n = n + extHeaderSize
                 in if length buf < n + extLen then Inl ErrExtensionTooShort
                    else Inr (n + extLen, h\<lparr>rh_ExtensionPayload := take extLen (drop n buf)\<rparr>)
             else Inr (n, h))"

definition rtp_Header_MarshalSize :: "rtp_Header \<Rightarrow> nat" where
  "rtp_Header_MarshalSize h =
     FixedHeaderSize + length (rh_CSRC h) * csrcLength +
     (if rh_Extension h then extHeaderSize + length (rh_ExtensionPayload h) else 0)"

text \<open>The bytes \<open>MarshalTo\<close> stores, in order.\<close>

definition rtp_Header_bytes :: "rtp_Header \<Rightarrow> bytes" where
  "rtp_Header_bytes h =
     (let b0 = push_bit 6 (rh_Version h) OR of_nat (length (rh_CSRC h));
          b0 = (if rh_Padding h then b0 OR push_bit 5 1 else b0);
          b0 = (if rh_Extension h then b0 OR push_bit 4 1 else b0);
          b1 = rh_PayloadType h AND 0x7F;
          b1 = (if rh_Marker h then b1 OR push_bit 7 1 else b1)
      in [b0, b1] @ be16_put (rh_SequenceNumber h) @ be32_put (rh_Timestamp h) @ be32_put (rh_SSRC h) @
         concat (map be32_put (rh_CSRC h)) @
         (if rh_Extension h
          then be16_put (rh_ExtensionProfile h) @
               be16_put (of_nat (length (rh_ExtensionPayload h) div 4)) @ rh_ExtensionPayload h
          else []))"

text \<open>\<open>MarshalTo\<close> returns the number of bytes written and the buffer after the call.\<close>

definition rtp_Header_MarshalTo :: "rtp_Header \<Rightarrow> bytes \<Rightarrow> rtp_err + nat \<times> bytes" where
  "rtp_Header_MarshalTo h buf =
     (if rh_Version h > 0x3 then Inl ErrInvalidVersion
      else if length (rh_CSRC h) > MaxCSRC then Inl ErrTooManyCSRC
      else if rh_Extension h \<and> length (rh_ExtensionPayload h) mod 4 \<noteq> 0 then Inl ErrExtensionNotAligned
      else if rh_Extension h \<and> length (rh_ExtensionPayload h) div 4 > 0xFFFF then Inl ErrExtensionTooLong
      else if length buf < rtp_Header_MarshalSize h then Inl ErrShortBuffer
      else Inr (length (rtp_Header_bytes h), overwrite (rtp_Header_bytes h) buf))"

text \<open>\<open>AppendTo\<close> returns the error, if any, and the slice, which on error is the input.\<close>

definition rtp_Header_AppendTo :: "bytes \<Rightarrow> rtp_Header \<Rightarrow> bytes \<Rightarrow> rtp_err option \<times> bytes" where
  "rtp_Header_AppendTo spare h buf =
     (let n = length buf; buf = growSlice spare buf (rtp_Header_MarshalSize h)
      in case rtp_Header_MarshalTo h (drop n buf) of
           Inl e \<Rightarrow> (Some e, take n buf)
         | Inr (_, b) \<Rightarrow> (None, take n buf @ b))"

definition rtp_Packet_Unmarshal :: "bytes \<Rightarrow> rtp_err + rtp_Packet" where
  "rtp_Packet_Unmarshal buf =
     (case rtp_Header_Unmarshal buf of
        Inl e \<Rightarrow> Inl e
      | Inr (n, h) \<Rightarrow>
          let stop = length buf in
          if rh_Padding h then
            if stop \<le> n then Inl ErrPacketTooShort
            else let pad = buf ! (stop - 1) in
              if pad = 0 then Inl ErrInvalidPadding
              else if unat pad > stop - n then Inl ErrInvalidPadding
              else Inr \<lparr>rp_Header = h, rp_Payload = take (stop - unat pad - n) (drop n buf), rp_PaddingSize = pad\<rparr>
          else Inr \<lparr>rp_Header = h, rp_Payload = take (stop - n) (drop n buf), rp_PaddingSize = 0\<rparr>)"

definition rtp_Packet_MarshalSize :: "rtp_Packet \<Rightarrow> nat" where
  "rtp_Packet_MarshalSize p =
     rtp_Header_MarshalSize (rp_Header p) + length (rp_Payload p) + unat (rp_PaddingSize p)"

definition padding_bytes :: "u8 \<Rightarrow> bytes" where
  "padding_bytes pad = (if pad > 0 then replicate (unat pad - 1) 0 @ [pad] else [])"

definition rtp_Packet_MarshalTo :: "rtp_Packet \<Rightarrow> bytes \<Rightarrow> rtp_err + nat \<times> bytes" where
  "rtp_Packet_MarshalTo p buf =
     (if rh_Padding (rp_Header p) \<noteq> (rp_PaddingSize p > 0) then Inl ErrInvalidPadding
      else case rtp_Header_MarshalTo (rp_Header p) buf of
        Inl e \<Rightarrow> Inl e
      | Inr (n, buf) \<Rightarrow>
          if length buf < n + length (rp_Payload p) + unat (rp_PaddingSize p) then Inl ErrShortBuffer
          else Inr (n + length (rp_Payload p) + unat (rp_PaddingSize p),
                    take n buf @ overwrite (rp_Payload p @ padding_bytes (rp_PaddingSize p)) (drop n buf)))"

definition rtp_Packet_AppendTo :: "bytes \<Rightarrow> rtp_Packet \<Rightarrow> bytes \<Rightarrow> rtp_err option \<times> bytes" where
  "rtp_Packet_AppendTo spare p buf =
     (let n = length buf; buf = growSlice spare buf (rtp_Packet_MarshalSize p)
      in case rtp_Packet_MarshalTo p (drop n buf) of
           Inl e \<Rightarrow> (Some e, take n buf)
         | Inr (_, b) \<Rightarrow> (None, take n buf @ b))"

section \<open>SSRC marking\<close>

definition NormalizeSSRC :: "u32 \<Rightarrow> u32" where "NormalizeSSRC ssrc = ssrc AND NOT 1"
definition MarkRetransmit :: "u32 \<Rightarrow> u32" where "MarkRetransmit ssrc = ssrc OR 1"
definition IsRetransmit :: "u32 \<Rightarrow> bool" where "IsRetransmit ssrc \<longleftrightarrow> ssrc AND 1 \<noteq> 0"

section \<open>Reading back a header\<close>

definition rtp_wf :: "rtp_Header \<Rightarrow> bool" where
  "rtp_wf h \<longleftrightarrow>
     rh_Version h \<le> 0x3 \<and> rh_PayloadType h \<le> 0x7F \<and> length (rh_CSRC h) \<le> MaxCSRC \<and>
     rh_CSRCCount h = of_nat (length (rh_CSRC h)) \<and>
     (if rh_Extension h
      then length (rh_ExtensionPayload h) mod 4 = 0 \<and> length (rh_ExtensionPayload h) div 4 \<le> 0xFFFF
      else rh_ExtensionProfile h = 0 \<and> rh_ExtensionPayload h = [])"

lemma concat_be32_length [simp]: "length (concat (map be32_put cs)) = length cs * 4"
  by (induction cs) simp_all

lemma rtp_Header_bytes_length: "length (rtp_Header_bytes h) = rtp_Header_MarshalSize h"
  by (simp add: rtp_Header_bytes_def rtp_Header_MarshalSize_def FixedHeaderSize_def csrcLength_def
      extHeaderSize_def Let_def)

lemma read_u32s_concat:
  "read_u32s (pre @ concat (map be32_put cs) @ post) (length pre) (length cs) = cs"
proof (induction cs arbitrary: pre)
  case (Cons c cs)
  have "read_u32s (pre @ be32_put c @ concat (map be32_put cs) @ post) (length pre) (Suc (length cs)) =
      c # read_u32s ((pre @ be32_put c) @ concat (map be32_put cs) @ post) (length (pre @ be32_put c)) (length cs)"
    by (simp add: read_u32s_def csrcLength_def upt_conv_Cons map_Suc_upt [symmetric] o_def add.assoc del: upt_Suc)
  also have "\<dots> = c # cs" using Cons [of "pre @ be32_put c"] by simp
  finally show ?case by simp
qed (simp add: read_u32s_def)

lemma concat_read_u32s:
  "off + 4 * k \<le> length buf \<Longrightarrow> concat (map be32_put (read_u32s buf off k)) = take (4 * k) (drop off buf)"
proof (induction k)
  case (Suc k)
  have "concat (map be32_put (read_u32s buf off (Suc k))) =
      concat (map be32_put (read_u32s buf off k)) @ be32_put (be32_get buf (off + 4 * k))"
    by (simp add: read_u32s_def csrcLength_def mult.commute)
  also have "\<dots> = take (4 * k) (drop off buf) @ take 4 (drop (4 * k) (drop off buf))"
    using Suc by (simp add: be32_put_get add.commute)
  also have "\<dots> = take (4 * k + 4) (drop off buf)" by (simp only: take_add)
  also have "\<dots> = take (4 * Suc k) (drop off buf)" by (simp add: add.commute)
  finally show ?case .
qed (simp add: read_u32s_def)

text \<open>The two flag bytes.\<close>

definition rtp_b0 :: "u8 \<Rightarrow> bool \<Rightarrow> bool \<Rightarrow> nat \<Rightarrow> u8" where
  "rtp_b0 v p x cc =
     (let b0 = push_bit 6 v OR of_nat cc; b0 = (if p then b0 OR push_bit 5 1 else b0)
      in if x then b0 OR push_bit 4 1 else b0)"

definition rtp_b1 :: "u8 \<Rightarrow> bool \<Rightarrow> u8" where
  "rtp_b1 pt m = (if m then (pt AND 0x7F) OR push_bit 7 1 else pt AND 0x7F)"

lemmas rtp_bits = rtp_b0_def rtp_b1_def Let_def bit_simps u8_masks

lemma rtp_b0_fields:
  assumes "v \<le> 0x3" "cc \<le> 15"
  shows "drop_bit 6 (rtp_b0 v p x cc) AND 0x3 = v" "bit (rtp_b0 v p x cc) 5 = p"
    "bit (rtp_b0 v p x cc) 4 = x" "unat (rtp_b0 v p x cc AND 0xF) = cc"
proof -
  obtain c :: u8 where c: "c = of_nat cc" by simp
  have v: "fits 2 v" using assms(1) by (simp add: fits_def word_le_nat_alt)
  have cf: "fits 4 c" unfolding c using assms(2) by (intro fits_of_nat) simp
  have cu: "unat c = cc" unfolding c using assms(2) by (simp add: unsigned_of_nat take_bit_nat_eq_self)
  note bits = fits_bit [OF v] fits_bit [OF cf] rtp_bits c [symmetric]
  show "drop_bit 6 (rtp_b0 v p x cc) AND 0x3 = v"
    by (rule u8_eqI) (simp_all add: bits)
  show "bit (rtp_b0 v p x cc) 5 = p" "bit (rtp_b0 v p x cc) 4 = x"
    by (simp_all add: bits)
  have "rtp_b0 v p x cc AND 0xF = c"
    by (rule u8_eqI) (simp_all add: bits)
  then show "unat (rtp_b0 v p x cc AND 0xF) = cc" using cu by simp
qed

lemma rtp_b1_fields:
  assumes "pt \<le> 0x7F"
  shows "rtp_b1 pt m AND 0x7F = pt" "drop_bit 7 (rtp_b1 pt m) = 0 \<longleftrightarrow> \<not> m"
proof -
  have pt: "fits 7 pt" using assms by (simp add: fits_def word_le_nat_alt)
  show "rtp_b1 pt m AND 0x7F = pt"
    by (rule u8_eqI) (simp_all add: fits_bit [OF pt] rtp_bits)
  have "drop_bit 7 (rtp_b1 pt m) = (if m then 1 else 0)"
    by (rule u8_eqI) (simp_all add: rtp_bits)
  then show "drop_bit 7 (rtp_b1 pt m) = 0 \<longleftrightarrow> \<not> m" by simp
qed

lemma rtp_b0_read:
  "rtp_b0 (drop_bit 6 b AND 0x3) (bit b 5) (bit b 4) (unat (b AND 0xF)) = b"
proof -
  obtain c where c: "c = b AND mask 4" by simp
  have "rtp_b0 (drop_bit 6 b AND mask 2) (bit b 5) (bit b 4) (unat c) = b"
    by (rule u8_eqI) (simp_all add: rtp_bits, simp_all add: c bit_simps)
  then show ?thesis by (simp only: c u8_masks)
qed

lemma rtp_b1_read: "rtp_b1 (b AND 0x7F) (drop_bit 7 b \<noteq> 0) = b"
proof -
  have "drop_bit 7 b = (if bit b 7 then 1 else 0)"
    by (rule u8_eqI) (simp_all add: bit_simps)
  then have "(drop_bit 7 b \<noteq> 0) = bit b 7" by simp
  then show ?thesis
    by (simp only:) (rule u8_eqI; simp add: rtp_bits)
qed

text \<open>The layout of an encoded header.\<close>

definition rtp_ext :: "rtp_Header \<Rightarrow> bytes" where
  "rtp_ext h =
     (if rh_Extension h
      then be16_put (rh_ExtensionProfile h) @
           be16_put (of_nat (length (rh_ExtensionPayload h) div 4)) @ rh_ExtensionPayload h
      else [])"

definition rtp_fixed :: "rtp_Header \<Rightarrow> bytes" where
  "rtp_fixed h =
     [rtp_b0 (rh_Version h) (rh_Padding h) (rh_Extension h) (length (rh_CSRC h)),
      rtp_b1 (rh_PayloadType h) (rh_Marker h)] @
     be16_put (rh_SequenceNumber h) @ be32_put (rh_Timestamp h) @ be32_put (rh_SSRC h)"

lemma rtp_Header_bytes_layout:
  "rtp_Header_bytes h = rtp_fixed h @ concat (map be32_put (rh_CSRC h)) @ rtp_ext h"
  by (simp add: rtp_Header_bytes_def rtp_fixed_def rtp_ext_def rtp_b0_def rtp_b1_def Let_def)

lemma rtp_fixed_length [simp]: "length (rtp_fixed h) = 12"
  by (simp add: rtp_fixed_def)

lemma rtp_fixed_fields:
  "(rtp_fixed h @ r) ! 0 = rtp_b0 (rh_Version h) (rh_Padding h) (rh_Extension h) (length (rh_CSRC h))"
  "(rtp_fixed h @ r) ! Suc 0 = rtp_b1 (rh_PayloadType h) (rh_Marker h)"
  "be16_get (rtp_fixed h @ r) 2 = rh_SequenceNumber h"
  "be32_get (rtp_fixed h @ r) 4 = rh_Timestamp h"
  "be32_get (rtp_fixed h @ r) 8 = rh_SSRC h"
  by (simp_all add: rtp_fixed_def be_reads)

lemma be16_get_middle: "n = length pre \<Longrightarrow> be16_get (pre @ be16_put v @ post) n = v"
  by simp

lemma rtp_ext_fields:
  assumes "rh_Extension h" "length pre = n"
  shows "be16_get (pre @ rtp_ext h @ r) n = rh_ExtensionProfile h"
    "be16_get (pre @ rtp_ext h @ r) (n + 2) = of_nat (length (rh_ExtensionPayload h) div 4)"
    "drop (n + 4) (pre @ rtp_ext h @ r) = rh_ExtensionPayload h @ r"
  using assms be16_get_middle [of n pre "rh_ExtensionProfile h"]
    be16_get_middle [of "n + 2" "pre @ be16_put (rh_ExtensionProfile h)"
      "of_nat (length (rh_ExtensionPayload h) div 4)"]
  by (simp_all add: rtp_ext_def)

lemma rtp_Header_roundtrip:
  assumes wf: "rtp_wf h"
  shows "rtp_Header_Unmarshal (rtp_Header_bytes h @ r) = Inr (length (rtp_Header_bytes h), h)"
proof -
  let ?cs = "concat (map be32_put (rh_CSRC h))"
  define buf where "buf = rtp_Header_bytes h @ r"
  have lay: "buf = rtp_fixed h @ ?cs @ rtp_ext h @ r"
    by (simp add: buf_def rtp_Header_bytes_layout)
  let ?n = "12 + length (rh_CSRC h) * 4"
  have wfs: "rh_Version h \<le> 0x3" "rh_PayloadType h \<le> 0x7F" "length (rh_CSRC h) \<le> 15"
    "rh_CSRCCount h = of_nat (length (rh_CSRC h))"
    using wf by (simp_all add: rtp_wf_def MaxCSRC_def)
  note f = rtp_fixed_fields [of h "?cs @ rtp_ext h @ r", folded lay]
  note b = rtp_b0_fields [OF wfs(1,3)] rtp_b1_fields [OF wfs(2)]
  have cs: "read_u32s buf 12 (length (rh_CSRC h)) = rh_CSRC h"
    using read_u32s_concat [of "rtp_fixed h" "rh_CSRC h" "rtp_ext h @ r"] by (simp add: lay)
  have len: "length buf = ?n + length (rtp_ext h) + length r"
    "length (rtp_Header_bytes h) = ?n + length (rtp_ext h)"
    by (simp_all add: lay rtp_Header_bytes_layout)
  show ?thesis
  proof (cases "rh_Extension h")
    case False
    then have "rtp_ext h = []" "rh_ExtensionProfile h = 0" "rh_ExtensionPayload h = []"
      using wf by (simp_all add: rtp_ext_def rtp_wf_def)
    then show ?thesis
      using len False wfs(4) unfolding buf_def [symmetric]
      by (simp add: rtp_Header_Unmarshal_def f b cs FixedHeaderSize_def csrcLength_def Let_def)
  next
    case True
    have el: "length (rh_ExtensionPayload h) mod 4 = 0" "length (rh_ExtensionPayload h) div 4 \<le> 0xFFFF"
      using wf True by (simp_all add: rtp_wf_def)
    have ul: "unat (of_nat (length (rh_ExtensionPayload h) div 4) :: u16) = length (rh_ExtensionPayload h) div 4"
      using el(2) by (simp add: unsigned_of_nat take_bit_nat_eq_self)
    have extl: "length (rtp_ext h) = 4 + length (rh_ExtensionPayload h)"
      "length (rh_ExtensionPayload h) div 4 * 4 = length (rh_ExtensionPayload h)"
      using True el by (auto simp: rtp_ext_def)
    note e = rtp_ext_fields [OF True, of "rtp_fixed h @ ?cs" ?n r, simplified, folded lay]
    have pay: "take (length (rh_ExtensionPayload h)) (drop (16 + length (rh_CSRC h) * 4) buf) = rh_ExtensionPayload h"
      using rtp_ext_fields(3) [OF True, of "rtp_fixed h @ ?cs" ?n r] by (simp add: lay)
    show ?thesis
      using len True wfs(4) extl unfolding buf_def [symmetric]
      by (simp add: rtp_Header_Unmarshal_def f b cs e pay ul FixedHeaderSize_def csrcLength_def extHeaderSize_def
          Let_def)
  qed
qed

interpretation rtp_hdr: prefix_codec rtp_Header_bytes rtp_Header_Unmarshal rtp_wf
  by unfold_locales (rule rtp_Header_roundtrip)

section \<open>Writing back a parsed header\<close>

lemma take_12_fields:
  assumes "12 \<le> length buf"
  shows "take 12 buf = [buf ! 0, buf ! 1] @ be16_put (be16_get buf 2) @ be32_put (be32_get buf 4) @
    be32_put (be32_get buf 8)"
proof -
  have "take 12 buf = take 2 buf @ take 2 (drop 2 buf) @ take 4 (drop 4 buf) @ take 4 (drop 8 buf)"
    using take_add [of 2 10 buf] take_add [of 2 8 "drop 2 buf"] take_add [of 4 4 "drop 4 buf"] by simp
  moreover have "take 2 buf = [buf ! 0, buf ! 1]"
    using assms by (cases buf; cases "tl buf") auto
  ultimately show ?thesis using assms by (simp add: be16_put_get be32_put_get)
qed

lemma take_2_2: "take 2 (drop n b) @ take 2 (drop (n + 2) b) @ take e (drop (n + 4) b) = take (4 + e) (drop n (b :: bytes))"
proof -
  have "take (4 + e) ys = take 2 ys @ take 2 (drop 2 ys) @ take e (drop 4 ys)" for ys :: bytes
    using take_add [of 2 "2 + e" ys] take_add [of 2 e "drop 2 ys"]
    by (simp del: add_2_eq_Suc add_2_eq_Suc')
  from this [of "drop n b"] show ?thesis by (simp add: add.commute)
qed

lemma rtp_Header_Unmarshal_canonical:
  assumes "rtp_Header_Unmarshal buf = Inr (n, h)"
  shows "rtp_wf h \<and> n \<le> length buf \<and> rtp_Header_bytes h = take n buf"
proof -
  define k where "k = unat (buf ! 0 AND 0xF)"
  let ?n = "12 + k * 4"
  have len: "12 \<le> length buf" "?n \<le> length buf"
    using assms by (auto simp: rtp_Header_Unmarshal_def FixedHeaderSize_def csrcLength_def Let_def k_def split: if_splits)
  have k: "k \<le> 15" by (simp add: k_def u8_masks)
  have h: "rh_Version h = drop_bit 6 (buf ! 0) AND 0x3" "rh_Padding h = bit (buf ! 0) 5"
    "rh_Extension h = bit (buf ! 0) 4" "rh_CSRCCount h = of_nat k" "rh_Marker h = (drop_bit 7 (buf ! 1) \<noteq> 0)"
    "rh_PayloadType h = buf ! 1 AND 0x7F" "rh_SequenceNumber h = be16_get buf 2"
    "rh_Timestamp h = be32_get buf 4" "rh_SSRC h = be32_get buf 8" "rh_CSRC h = read_u32s buf 12 k"
    using assms by (auto simp: rtp_Header_Unmarshal_def FixedHeaderSize_def csrcLength_def Let_def k_def split: if_splits)
  have csl: "length (rh_CSRC h) = k" by (simp add: h read_u32s_def)
  have fixed: "rtp_fixed h = take 12 buf"
    using take_12_fields [OF len(1)] rtp_b0_read [of "buf ! 0"] rtp_b1_read [of "buf ! 1"]
    by (simp add: rtp_fixed_def csl) (simp add: h k_def)
  have cs: "concat (map be32_put (rh_CSRC h)) = take (k * 4) (drop 12 buf)"
    using concat_read_u32s [of 12 k buf] len(2) by (simp add: h mult.commute)
  have v: "rh_Version h \<le> 0x3" "rh_PayloadType h \<le> 0x7F"
    by (simp_all add: h word_and_le1)
  have upto: "rtp_fixed h @ concat (map be32_put (rh_CSRC h)) = take ?n buf"
    by (simp add: fixed cs take_add)
  show ?thesis
  proof (cases "rh_Extension h")
    case False
    then have "rtp_ext h = []" "n = ?n" "rh_ExtensionProfile h = 0" "rh_ExtensionPayload h = []"
      using assms by (auto simp: rtp_ext_def rtp_Header_Unmarshal_def FixedHeaderSize_def csrcLength_def Let_def
          h k_def split: if_splits)
    moreover from this have "rtp_wf h" using csl k h(4) False v by (simp add: rtp_wf_def MaxCSRC_def)
    moreover have "rtp_Header_bytes h = take ?n buf"
      using upto \<open>rtp_ext h = []\<close> by (simp only: rtp_Header_bytes_layout append_Nil2)
    ultimately show ?thesis using len(2) by simp
  next
    case True
    let ?e = "unat (be16_get buf (?n + 2)) * 4"
    have e: "rh_ExtensionProfile h = be16_get buf ?n" "rh_ExtensionPayload h = take ?e (drop (?n + 4) buf)"
      "n = ?n + 4 + ?e" "?n + 4 + ?e \<le> length buf"
      using assms True [unfolded h(3)] by (auto simp: rtp_Header_Unmarshal_def FixedHeaderSize_def csrcLength_def
          extHeaderSize_def Let_def k_def split: if_splits)
    have el: "length (rh_ExtensionPayload h) = ?e" using e by simp
    have "rtp_ext h = be16_put (be16_get buf ?n) @ be16_put (be16_get buf (?n + 2)) @ rh_ExtensionPayload h"
      using True by (simp add: rtp_ext_def el e(1))
    also have "\<dots> = take 2 (drop ?n buf) @ take 2 (drop (?n + 2) buf) @ take ?e (drop (?n + 4) buf)"
      using e by (simp add: be16_put_get)
    also have "\<dots> = take (4 + ?e) (drop ?n buf)"
      by (rule take_2_2)
    finally have ext: "rtp_ext h = take (4 + ?e) (drop ?n buf)" .
    have "rtp_Header_bytes h = take ?n buf @ take (4 + ?e) (drop ?n buf)"
      using upto by (simp only: rtp_Header_bytes_layout ext append_assoc [symmetric])
    also have "\<dots> = take n buf" using take_add [of ?n "4 + ?e" buf] by (simp only: e(3) add.assoc)
    finally have "rtp_Header_bytes h = take n buf" .
    moreover have "unat x \<le> 0xFFFF" for x :: u16 using unat_lt_u16 [of x] by linarith
    then have "?e div 4 \<le> 0xFFFF" by simp
    then have "rtp_wf h"
      using csl k h(4) True v el by (simp add: rtp_wf_def MaxCSRC_def)
    ultimately show ?thesis using e(3,4) by simp
  qed
qed

section \<open>Packets\<close>

definition rtp_packet_wf :: "rtp_Packet \<Rightarrow> bool" where
  "rtp_packet_wf p \<longleftrightarrow> rtp_wf (rp_Header p) \<and> (rh_Padding (rp_Header p) \<longleftrightarrow> rp_PaddingSize p > 0)"

definition rtp_packet_bytes :: "rtp_Packet \<Rightarrow> bytes" where
  "rtp_packet_bytes p = rtp_Header_bytes (rp_Header p) @ rp_Payload p @ padding_bytes (rp_PaddingSize p)"

lemma length_padding_bytes [simp]: "length (padding_bytes n) = unat n"
  by (auto simp: padding_bytes_def word_less_nat_alt unat_eq_0)

lemma length_rtp_packet_bytes [simp]: "length (rtp_packet_bytes p) = rtp_Packet_MarshalSize p"
  by (simp add: rtp_packet_bytes_def rtp_Packet_MarshalSize_def rtp_Header_bytes_length)

lemma rtp_Header_MarshalTo_wf:
  assumes "rtp_wf h" "rtp_Header_MarshalSize h \<le> length buf"
  shows "rtp_Header_MarshalTo h buf = Inr (rtp_Header_MarshalSize h, overwrite (rtp_Header_bytes h) buf)"
  using assms by (auto simp: rtp_Header_MarshalTo_def rtp_wf_def rtp_Header_bytes_length not_less split: if_splits)

lemma rtp_Packet_MarshalTo_wf:
  assumes wf: "rtp_packet_wf p" and len: "rtp_Packet_MarshalSize p \<le> length buf"
  shows "rtp_Packet_MarshalTo p buf = Inr (rtp_Packet_MarshalSize p, overwrite (rtp_packet_bytes p) buf)"
proof -
  have "rtp_Header_MarshalTo (rp_Header p) buf =
      Inr (rtp_Header_MarshalSize (rp_Header p), overwrite (rtp_Header_bytes (rp_Header p)) buf)"
    using assms by (intro rtp_Header_MarshalTo_wf) (simp_all add: rtp_packet_wf_def rtp_Packet_MarshalSize_def)
  then show ?thesis
    using assms
    by (simp add: rtp_Packet_MarshalTo_def rtp_packet_wf_def overwrite_def rtp_Header_bytes_length
        rtp_Packet_MarshalSize_def rtp_packet_bytes_def add.commute add.left_commute)
qed

lemma rtp_Packet_AppendTo_wf:
  assumes "rtp_packet_wf p"
  shows "rtp_Packet_AppendTo spare p buf = (None, buf @ rtp_packet_bytes p)"
proof -
  obtain junk where junk: "growSlice spare buf (rtp_Packet_MarshalSize p) = buf @ junk"
    "length junk = rtp_Packet_MarshalSize p"
    by (rule growSlice_split)
  then have "rtp_Packet_MarshalTo p junk = Inr (rtp_Packet_MarshalSize p, rtp_packet_bytes p)"
    using rtp_Packet_MarshalTo_wf [OF assms, of junk] by simp
  then show ?thesis using junk by (simp add: rtp_Packet_AppendTo_def Let_def)
qed

lemma padding_last: "0 < n \<Longrightarrow> padding_bytes n = replicate (unat n - 1) 0 @ [n]"
  by (simp add: padding_bytes_def)

lemma rtp_Packet_Unmarshal_bytes:
  assumes "rtp_packet_wf p"
  shows "rtp_Packet_Unmarshal (rtp_packet_bytes p) = Inr p"
proof -
  let ?h = "rp_Header p" and ?pad = "rp_PaddingSize p"
  have dec: "rtp_Header_Unmarshal (rtp_packet_bytes p) = Inr (length (rtp_Header_bytes ?h), ?h)"
    using assms rtp_hdr.dec_enc by (simp add: rtp_packet_wf_def rtp_packet_bytes_def)
  show ?thesis
  proof (cases "rh_Padding ?h")
    case True
    then have pos: "?pad > 0" using assms by (simp add: rtp_packet_wf_def)
    then have u: "0 < unat ?pad" by (simp add: word_less_nat_alt)
    have "last (rtp_packet_bytes p) = ?pad" "rtp_packet_bytes p \<noteq> []"
      using pos by (simp_all add: rtp_packet_bytes_def padding_last)
    then have last: "rtp_packet_bytes p ! (length (rtp_packet_bytes p) - 1) = ?pad"
      by (simp add: last_conv_nth del: length_rtp_packet_bytes)
    have "length (rtp_packet_bytes p) = length (rtp_Header_bytes ?h) + length (rp_Payload p) + unat ?pad"
      by (simp add: rtp_Packet_MarshalSize_def rtp_Header_bytes_length)
    moreover have "drop (length (rtp_Header_bytes ?h)) (rtp_packet_bytes p) = rp_Payload p @ padding_bytes ?pad"
      by (simp add: rtp_packet_bytes_def)
    moreover have "?pad \<noteq> 0" using pos by auto
    ultimately show ?thesis
      using True u last by (simp add: rtp_Packet_Unmarshal_def dec Let_def del: length_rtp_packet_bytes)
  next
    case False
    then have "?pad = 0" using assms by (simp add: rtp_packet_wf_def word_gt_0)
    then show ?thesis
      using False dec by (simp add: rtp_Packet_Unmarshal_def Let_def rtp_packet_bytes_def padding_bytes_def
          del: length_rtp_packet_bytes)
  qed
qed

text \<open>C18: RTP packets survive the wire.  Appending a well-formed packet (two-bit version, seven-bit payload
  type, at most 15 CSRCs, aligned extension, padding size agreeing with the P bit) to any buffer, with
  any spare capacity, succeeds and adds exactly the packet's size; parsing the added bytes gives the
  packet back, every header field, the CSRC list, the extension and the payload included.\<close>

theorem rtp_packet_roundtrip:
  assumes "rtp_packet_wf p"
  shows "\<exists>bs. rtp_Packet_AppendTo spare p buf = (None, buf @ bs) \<and>
    length bs = rtp_Packet_MarshalSize p \<and> rtp_Packet_Unmarshal bs = Inr p"
  using rtp_Packet_AppendTo_wf [OF assms] rtp_Packet_Unmarshal_bytes [OF assms] by simp

definition demo_rtp :: rtp_Packet where
  "demo_rtp = \<lparr>rp_Header = \<lparr>rh_Version = 2, rh_Padding = True, rh_Extension = True, rh_CSRCCount = 1,
     rh_Marker = False, rh_PayloadType = 33, rh_SequenceNumber = 0xFFFF, rh_Timestamp = 90000, rh_SSRC = 8,
     rh_CSRC = [5], rh_ExtensionProfile = 0x5249, rh_ExtensionPayload = [1, 2, 3, 4]\<rparr>,
     rp_Payload = [0x47, 0], rp_PaddingSize = 3\<rparr>"

theorem rtp_packet_roundtrip_witness:
  "\<exists>bs. rtp_Packet_AppendTo [] demo_rtp [7] = (None, [7] @ bs) \<and> length bs = 29 \<and>
    rtp_Packet_Unmarshal bs = Inr demo_rtp"
  using rtp_packet_roundtrip [of demo_rtp "[]" "[7]"]
  by (simp add: demo_rtp_def rtp_packet_wf_def rtp_wf_def MaxCSRC_def rtp_Packet_MarshalSize_def
      rtp_Header_MarshalSize_def FixedHeaderSize_def csrcLength_def extHeaderSize_def)

text \<open>C19: Whatever bytes the RTP parser accepts, the packet it returns is well formed and stands for exactly
  those bytes: writing it back gives the input up to the padding filler, whose bytes before the count
  are written as zeros.\<close>

theorem rtp_parse_canonical:
  assumes "rtp_Packet_Unmarshal bs = Inr p"
  shows "rtp_packet_wf p \<and>
    rtp_Packet_AppendTo spare p buf =
      (None, buf @ take (length bs - unat (rp_PaddingSize p)) bs @ padding_bytes (rp_PaddingSize p))"
proof -
  obtain n h where nh: "rtp_Header_Unmarshal bs = Inr (n, h)"
    using assms by (auto simp: rtp_Packet_Unmarshal_def split: sum.splits)
  note can = rtp_Header_Unmarshal_canonical [OF nh]
  have p: "rp_Header p = h" "rh_Padding h \<longleftrightarrow> rp_PaddingSize p > 0"
    "n + unat (rp_PaddingSize p) \<le> length bs"
    "rp_Payload p = take (length bs - unat (rp_PaddingSize p) - n) (drop n bs)"
    using assms nh can by (auto simp: rtp_Packet_Unmarshal_def Let_def word_gt_0 split: if_splits)
  have wf: "rtp_packet_wf p" using can p by (simp add: rtp_packet_wf_def)
  have "take n bs @ rp_Payload p = take (length bs - unat (rp_PaddingSize p)) bs"
    using take_add [of n "length bs - unat (rp_PaddingSize p) - n" bs] p(3) by (simp add: p(4))
  then have "rtp_packet_bytes p = take (length bs - unat (rp_PaddingSize p)) bs @ padding_bytes (rp_PaddingSize p)"
    using can p(1) by (simp add: rtp_packet_bytes_def)
  then show ?thesis using wf rtp_Packet_AppendTo_wf [OF wf] by simp
qed

lemma rtp_demo_parse:
  "rtp_Packet_Unmarshal [0xA0, 0xA1, 1, 2, 0, 0, 0, 3, 0, 0, 0, 4, 9, 7, 2] =
   Inr \<lparr>rp_Header = \<lparr>rh_Version = 2, rh_Padding = True, rh_Extension = False,
     rh_CSRCCount = 0, rh_Marker = True, rh_PayloadType = 33, rh_SequenceNumber = 0x0102,
     rh_Timestamp = 3, rh_SSRC = 4, rh_CSRC = [], rh_ExtensionProfile = 0, rh_ExtensionPayload = []\<rparr>,
     rp_Payload = [9], rp_PaddingSize = 2\<rparr>"
  by code_simp

theorem rtp_parse_canonical_witness:
  "rtp_Packet_AppendTo [] \<lparr>rp_Header = \<lparr>rh_Version = 2, rh_Padding = True, rh_Extension = False,
     rh_CSRCCount = 0, rh_Marker = True, rh_PayloadType = 33, rh_SequenceNumber = 0x0102,
     rh_Timestamp = 3, rh_SSRC = 4, rh_CSRC = [], rh_ExtensionProfile = 0, rh_ExtensionPayload = []\<rparr>,
     rp_Payload = [9], rp_PaddingSize = 2\<rparr> [] =
   (None, [0xA0, 0xA1, 1, 2, 0, 0, 0, 3, 0, 0, 0, 4, 9, 0, 2])"
  using rtp_parse_canonical [of "[0xA0, 0xA1, 1, 2, 0, 0, 0, 3, 0, 0, 0, 4, 9, 7, 2]"
      "\<lparr>rp_Header = \<lparr>rh_Version = 2, rh_Padding = True, rh_Extension = False,
     rh_CSRCCount = 0, rh_Marker = True, rh_PayloadType = 33, rh_SequenceNumber = 0x0102,
     rh_Timestamp = 3, rh_SSRC = 4, rh_CSRC = [], rh_ExtensionProfile = 0, rh_ExtensionPayload = []\<rparr>,
     rp_Payload = [9], rp_PaddingSize = 2\<rparr>" "[]" "[]", OF rtp_demo_parse]
  by (simp add: padding_bytes_def)

section \<open>Retransmissions on the wire\<close>

lemma be32_put_mark: "be32_put (s OR 1) = (be32_put s)[3 := be32_put s ! 3 OR 1]"
proof -
  have "ucast (drop_bit 24 (s OR 1)) = (ucast (drop_bit 24 s) :: u8)"
    "ucast (drop_bit 16 (s OR 1)) = (ucast (drop_bit 16 s) :: u8)"
    "ucast (drop_bit 8 (s OR 1)) = (ucast (drop_bit 8 s) :: u8)"
    "ucast (s OR 1) = (ucast s OR 1 :: u8)"
    by (rule bit_word_eqI; auto simp: bit_simps bit_1_iff)+
  then show ?thesis by (simp add: be32_put_def numeral_3_eq_3)
qed

lemma ssrc_laws:
  "IsRetransmit (MarkRetransmit s)" "\<not> IsRetransmit (NormalizeSSRC s)"
  "NormalizeSSRC (MarkRetransmit s) = NormalizeSSRC s" "NormalizeSSRC (NormalizeSSRC s) = NormalizeSSRC s"
  "\<not> IsRetransmit s \<Longrightarrow> NormalizeSSRC s = s"
proof -
  have lsb: "IsRetransmit x \<longleftrightarrow> bit x 0" for x
    using flag_bit [of 0 x] by (simp add: IsRetransmit_def)
  show "IsRetransmit (MarkRetransmit s)" "\<not> IsRetransmit (NormalizeSSRC s)"
    by (simp_all add: lsb MarkRetransmit_def NormalizeSSRC_def bit_simps)
  show "NormalizeSSRC (MarkRetransmit s) = NormalizeSSRC s" "NormalizeSSRC (NormalizeSSRC s) = NormalizeSSRC s"
    by (rule bit_word_eqI; auto simp: MarkRetransmit_def NormalizeSSRC_def bit_simps bit_1_iff)+
  show "NormalizeSSRC s = s" if "\<not> IsRetransmit s"
    using that by (intro bit_word_eqI) (auto simp: lsb NormalizeSSRC_def bit_simps bit_1_iff intro: gr0I)
qed

text \<open>C20: A retransmission is the original packet with one bit changed.  For a packet of an even flow SSRC,
  encoding it with the marked SSRC gives the same bytes with the lowest bit of byte 11 set; the mark is
  recognised on parsing, and normalising the parsed SSRC recovers the flow.\<close>

theorem retransmission_differs_in_one_bit:
  assumes wf: "rtp_packet_wf p" and even: "\<not> IsRetransmit (rh_SSRC (rp_Header p))"
    and marked: "q = p\<lparr>rp_Header := (rp_Header p)\<lparr>rh_SSRC := MarkRetransmit (rh_SSRC (rp_Header p))\<rparr>\<rparr>"
  shows "\<exists>bs. rtp_Packet_AppendTo spare p [] = (None, bs) \<and>
    rtp_Packet_AppendTo spare q [] = (None, bs[11 := bs ! 11 OR 1]) \<and>
    rtp_Packet_Unmarshal (bs[11 := bs ! 11 OR 1]) = Inr q \<and>
    IsRetransmit (rh_SSRC (rp_Header q)) \<and> NormalizeSSRC (rh_SSRC (rp_Header q)) = rh_SSRC (rp_Header p)"
proof -
  let ?s = "rh_SSRC (rp_Header p)"
  have wfq: "rtp_packet_wf q" using wf by (simp add: marked rtp_packet_wf_def rtp_wf_def)
  obtain pre post where lay: "rtp_packet_bytes p = pre @ be32_put ?s @ post"
    "rtp_packet_bytes q = pre @ be32_put (?s OR 1) @ post" "length pre = 8"
  proof
    let ?h = "rp_Header p"
    let ?pre = "[rtp_b0 (rh_Version ?h) (rh_Padding ?h) (rh_Extension ?h) (length (rh_CSRC ?h)),
      rtp_b1 (rh_PayloadType ?h) (rh_Marker ?h)] @ be16_put (rh_SequenceNumber ?h) @ be32_put (rh_Timestamp ?h)"
    let ?post = "concat (map be32_put (rh_CSRC ?h)) @ rtp_ext ?h @ rp_Payload p @ padding_bytes (rp_PaddingSize p)"
    show "rtp_packet_bytes p = ?pre @ be32_put ?s @ ?post"
      by (simp add: rtp_packet_bytes_def rtp_Header_bytes_layout rtp_fixed_def)
    show "rtp_packet_bytes q = ?pre @ be32_put (?s OR 1) @ ?post"
      by (simp add: marked rtp_packet_bytes_def rtp_Header_bytes_layout rtp_fixed_def rtp_ext_def MarkRetransmit_def)
    show "length ?pre = 8" by simp
  qed
  have "rtp_packet_bytes q = (rtp_packet_bytes p)[11 := rtp_packet_bytes p ! 11 OR 1]"
    using lay by (simp add: be32_put_mark list_update_append nth_append)
  then show ?thesis
    using rtp_Packet_AppendTo_wf [OF wf, of spare "[]"] rtp_Packet_AppendTo_wf [OF wfq, of spare "[]"]
      rtp_Packet_Unmarshal_bytes [OF wfq] ssrc_laws(1,3,5) [of ?s] even
    by (simp add: marked)
qed

theorem retransmission_differs_in_one_bit_witness:
  "\<exists>bs. rtp_Packet_AppendTo [] demo_rtp [] = (None, bs) \<and>
    rtp_Packet_AppendTo [] (demo_rtp\<lparr>rp_Header := (rp_Header demo_rtp)\<lparr>rh_SSRC := 9\<rparr>\<rparr>) [] =
      (None, bs[11 := bs ! 11 OR 1])"
  using retransmission_differs_in_one_bit [of demo_rtp _ "[]", OF _ _ refl]
  by (simp add: demo_rtp_def rtp_packet_wf_def rtp_wf_def MaxCSRC_def MarkRetransmit_def IsRetransmit_def) blast

end
