(* ===== verification/Rtcp.thy ===== *)
theory Rtcp
  imports Codec
begin

text \<open>The RTCP packets of internal/rtcp (rtcp.go, report.go, sdes.go, extseq.go, echo.go and the two NACK
  formats of nack.go): one record per packet struct, its encoder and its decoder, and the framing parser
  \<open>Parse\<close> with its fallback to raw packets.  The lemmas give the round trip through \<open>Parse\<close>, and that
  re-encoding whatever was parsed is stable.\<close>

unbundle bit_operations_syntax

section \<open>Packet structs\<close>

datatype rtcp_err = ErrShortPacket | ErrBadVersion | ErrEmptyCompound | ErrCompoundOrder

record SenderReport =
  sr_SSRC :: u32
  sr_NTP :: u64
  sr_RTPTime :: u32
  sr_PacketCount :: u32
  sr_OctetCount :: u32

record EmptyReceiverReport =
  er_SSRC :: u32

record ReceiverReport =
  rr_SenderSSRC :: u32
  rr_MediaSSRC :: u32
  rr_FractionLost :: u8
  rr_CumulativeLost :: u32
  rr_HighestSeq :: u32
  rr_Jitter :: u32
  rr_LSR :: u32
  rr_DLSR :: u32

record LinkQualityReport =
  lq_SSRC :: u32
  lq_LQM :: bytes

record SDES =
  sd_SSRC :: u32
  sd_CNAME :: bytes

record NackRange =
  nr_Start :: u16
  nr_Extra :: u16

record RangeNACK =
  rn_MediaSSRC :: u32
  rn_Ranges :: "NackRange list"

record NackPair =
  np_PID :: u16
  np_BLP :: u16

record BitmaskNACK =
  bn_SenderSSRC :: u32
  bn_MediaSSRC :: u32
  bn_FCIs :: "NackPair list"

record ExtSeq =
  es_SSRC :: u32
  es_SeqHigh :: u16

record EchoRequest =
  eq_SSRC :: u32
  eq_Timestamp :: u64
  eq_Padding :: bytes

record EchoResponse =
  ep_SSRC :: u32
  ep_Timestamp :: u64
  ep_ProcessingDelay :: u32
  ep_Padding :: bytes

text \<open>The sealed \<open>Packet\<close> interface: one constructor per implementing type.\<close>

datatype rtcp_Packet =
    P_SR SenderReport | P_EmptyRR EmptyReceiverReport | P_RR ReceiverReport | P_LQR LinkQualityReport
  | P_SDES SDES | P_Range RangeNACK | P_Bitmask BitmaskNACK | P_ExtSeq ExtSeq
  | P_EchoReq EchoRequest | P_EchoResp EchoResponse | P_Raw bytes

record rtcp_header =
  hd_count :: u8
  hd_pt :: u8
  hd_size :: nat

section \<open>Constants\<close>

definition PTSenderReport :: u8 where "PTSenderReport = 200"
definition PTReceiverReport :: u8 where "PTReceiverReport = 201"
definition PTSDES :: u8 where "PTSDES = 202"
definition PTApp :: u8 where "PTApp = 204"
definition PTTransportFeedback :: u8 where "PTTransportFeedback = 205"
definition AppSubtypeRangeNACK :: u8 where "AppSubtypeRangeNACK = 0"
definition AppSubtypeExtSeq :: u8 where "AppSubtypeExtSeq = 1"
definition AppSubtypeEchoRequest :: u8 where "AppSubtypeEchoRequest = 2"
definition AppSubtypeEchoResponse :: u8 where "AppSubtypeEchoResponse = 3"
definition FMTGenericNACK :: u8 where "FMTGenericNACK = 1"
definition NameRIST :: u32 where "NameRIST = 0x52495354"
definition rtcp_headerSize :: nat where "rtcp_headerSize = 4"
definition appFixedSize :: nat where "appFixedSize = 12"
definition versionFlag :: u8 where "versionFlag = 0x80"
definition senderReportSize :: nat where "senderReportSize = 28"
definition emptyRRSize :: nat where "emptyRRSize = 8"
definition receiverReportSize :: nat where "receiverReportSize = 32"
definition LQMExtensionSize :: nat where "LQMExtensionSize = 44"
definition lqmReportSize :: nat where "lqmReportSize = emptyRRSize + LQMExtensionSize"
definition sdesFixedSize :: nat where "sdesFixedSize = 10"
definition sdesItemCNAME :: u8 where "sdesItemCNAME = 1"
definition maxCNAMELen :: nat where "maxCNAMELen = 255"
definition extSeqSize :: nat where "extSeqSize = 16"
definition echoFixedSize :: nat where "echoFixedSize = 24"

lemmas rtcp_consts = PTSenderReport_def PTReceiverReport_def PTSDES_def PTApp_def PTTransportFeedback_def
  AppSubtypeRangeNACK_def AppSubtypeExtSeq_def AppSubtypeEchoRequest_def AppSubtypeEchoResponse_def
  FMTGenericNACK_def rtcp_headerSize_def appFixedSize_def senderReportSize_def emptyRRSize_def
  receiverReportSize_def LQMExtensionSize_def lqmReportSize_def sdesFixedSize_def sdesItemCNAME_def
  maxCNAMELen_def extSeqSize_def echoFixedSize_def

section \<open>Encoders\<close>

text \<open>\<open>AppendTo\<close> extends the buffer; \<open>grow\<close> gives the window that the encoder then fills completely, so
  the appended bytes are the fields in order.\<close>

definition appendHeader :: "bytes \<Rightarrow> u8 \<Rightarrow> u8 \<Rightarrow> u16 \<Rightarrow> bytes" where
  "appendHeader buf cnt pt words = buf @ [versionFlag OR cnt, pt, ucast (drop_bit 8 words), ucast words]"

definition SenderReport_AppendTo :: "SenderReport \<Rightarrow> bytes \<Rightarrow> bytes" where
  "SenderReport_AppendTo p buf =
     appendHeader buf 0 PTSenderReport 6 @ be32_put (sr_SSRC p) @ be64_put (sr_NTP p) @
     be32_put (sr_RTPTime p) @ be32_put (sr_PacketCount p) @ be32_put (sr_OctetCount p)"

definition EmptyReceiverReport_AppendTo :: "EmptyReceiverReport \<Rightarrow> bytes \<Rightarrow> bytes" where
  "EmptyReceiverReport_AppendTo p buf = appendHeader buf 0 PTReceiverReport 1 @ be32_put (er_SSRC p)"

definition ReceiverReport_AppendTo :: "ReceiverReport \<Rightarrow> bytes \<Rightarrow> bytes" where
  "ReceiverReport_AppendTo p buf =
     appendHeader buf 1 PTReceiverReport 7 @ be32_put (rr_SenderSSRC p) @ be32_put (rr_MediaSSRC p) @
     (be32_put (rr_CumulativeLost p AND 0x00FFFFFF))[0 := rr_FractionLost p] @
     be32_put (rr_HighestSeq p) @ be32_put (rr_Jitter p) @ be32_put (rr_LSR p) @ be32_put (rr_DLSR p)"

definition LinkQualityReport_AppendTo :: "LinkQualityReport \<Rightarrow> bytes \<Rightarrow> bytes" where
  "LinkQualityReport_AppendTo p buf =
     appendHeader buf 0 PTReceiverReport (of_nat (lqmReportSize div 4 - 1)) @
     be32_put (lq_SSRC p) @ lq_LQM p"

definition sdesSize :: "nat \<Rightarrow> nat" where
  "sdesSize n = (sdesFixedSize + n + 1 + 3) div 4 * 4"

definition SDES_AppendTo :: "SDES \<Rightarrow> bytes \<Rightarrow> bytes" where
  "SDES_AppendTo p buf =
     (let name = (if length (sd_CNAME p) > maxCNAMELen then take maxCNAMELen (sd_CNAME p) else sd_CNAME p);
          sz = sdesSize (length name)
      in appendHeader buf 1 PTSDES (of_nat (sz div 4 - 1)) @
         be32_put (sd_SSRC p) @ [sdesItemCNAME, of_nat (length name)] @ name @
         replicate (sz - rtcp_headerSize - (6 + length name)) 0)"

definition RangeNACK_AppendTo :: "RangeNACK \<Rightarrow> bytes \<Rightarrow> bytes" where
  "RangeNACK_AppendTo p buf =
     appendHeader buf AppSubtypeRangeNACK PTApp (of_nat (2 + length (rn_Ranges p))) @
     be32_put (rn_MediaSSRC p) @ be32_put NameRIST @
     concat (map (\<lambda>r. be16_put (nr_Start r) @ be16_put (nr_Extra r)) (rn_Ranges p))"

definition BitmaskNACK_AppendTo :: "BitmaskNACK \<Rightarrow> bytes \<Rightarrow> bytes" where
  "BitmaskNACK_AppendTo p buf =
     appendHeader buf FMTGenericNACK PTTransportFeedback (of_nat (2 + length (bn_FCIs p))) @
     be32_put (bn_SenderSSRC p) @ be32_put (bn_MediaSSRC p) @
     concat (map (\<lambda>f. be16_put (np_PID f) @ be16_put (np_BLP f)) (bn_FCIs p))"

definition ExtSeq_AppendTo :: "ExtSeq \<Rightarrow> bytes \<Rightarrow> bytes" where
  "ExtSeq_AppendTo p buf =
     appendHeader buf AppSubtypeExtSeq PTApp 3 @ be32_put (es_SSRC p) @ be32_put NameRIST @
     be16_put (es_SeqHigh p) @ [0, 0]"

definition padTo4 :: "nat \<Rightarrow> nat" where "padTo4 n = (n + 3) div 4 * 4"

definition appendEcho :: "bytes \<Rightarrow> u8 \<Rightarrow> u32 \<Rightarrow> u64 \<Rightarrow> u32 \<Rightarrow> bytes \<Rightarrow> bytes" where
  "appendEcho buf subtype ssrc ts delay padding =
     (let pad = padTo4 (length padding)
      in appendHeader buf subtype PTApp (of_nat (5 + pad div 4)) @
         be32_put ssrc @ be32_put NameRIST @ be64_put ts @ be32_put delay @
         padding @ replicate (pad - length padding) 0)"

definition EchoRequest_AppendTo :: "EchoRequest \<Rightarrow> bytes \<Rightarrow> bytes" where
  "EchoRequest_AppendTo p buf =
     appendEcho buf AppSubtypeEchoRequest (eq_SSRC p) (eq_Timestamp p) 0 (eq_Padding p)"

definition EchoResponse_AppendTo :: "EchoResponse \<Rightarrow> bytes \<Rightarrow> bytes" where
  "EchoResponse_AppendTo p buf =
     appendEcho buf AppSubtypeEchoResponse (ep_SSRC p) (ep_Timestamp p) (ep_ProcessingDelay p) (ep_Padding p)"

definition Raw_AppendTo :: "bytes \<Rightarrow> bytes \<Rightarrow> bytes" where
  "Raw_AppendTo r buf = buf @ r"

text \<open>The dynamic dispatch of the interface methods.\<close>

fun rtcp_AppendTo :: "rtcp_Packet \<Rightarrow> bytes \<Rightarrow> bytes" where
  "rtcp_AppendTo (P_SR p) buf = SenderReport_AppendTo p buf"
| "rtcp_AppendTo (P_EmptyRR p) buf = EmptyReceiverReport_AppendTo p buf"
| "rtcp_AppendTo (P_RR p) buf = ReceiverReport_AppendTo p buf"
| "rtcp_AppendTo (P_LQR p) buf = LinkQualityReport_AppendTo p buf"
| "rtcp_AppendTo (P_SDES p) buf = SDES_AppendTo p buf"
| "rtcp_AppendTo (P_Range p) buf = RangeNACK_AppendTo p buf"
| "rtcp_AppendTo (P_Bitmask p) buf = BitmaskNACK_AppendTo p buf"
| "rtcp_AppendTo (P_ExtSeq p) buf = ExtSeq_AppendTo p buf"
| "rtcp_AppendTo (P_EchoReq p) buf = EchoRequest_AppendTo p buf"
| "rtcp_AppendTo (P_EchoResp p) buf = EchoResponse_AppendTo p buf"
| "rtcp_AppendTo (P_Raw r) buf = Raw_AppendTo r buf"

fun rtcp_MarshalSize :: "rtcp_Packet \<Rightarrow> nat" where
  "rtcp_MarshalSize (P_SR p) = senderReportSize"
| "rtcp_MarshalSize (P_EmptyRR p) = emptyRRSize"
| "rtcp_MarshalSize (P_RR p) = receiverReportSize"
| "rtcp_MarshalSize (P_LQR p) = lqmReportSize"
| "rtcp_MarshalSize (P_SDES p) = sdesSize (min (length (sd_CNAME p)) maxCNAMELen)"
| "rtcp_MarshalSize (P_Range p) = appFixedSize + 4 * length (rn_Ranges p)"
| "rtcp_MarshalSize (P_Bitmask p) = appFixedSize + 4 * length (bn_FCIs p)"
| "rtcp_MarshalSize (P_ExtSeq p) = extSeqSize"
| "rtcp_MarshalSize (P_EchoReq p) = echoFixedSize + padTo4 (length (eq_Padding p))"
| "rtcp_MarshalSize (P_EchoResp p) = echoFixedSize + padTo4 (length (ep_Padding p))"
| "rtcp_MarshalSize (P_Raw r) = length r"

section \<open>Decoders\<close>

text \<open>A typed decoder returns \<^const>\<open>None\<close> when the packet is not of a RIST shape.\<close>

definition decodeSenderReport :: "rtcp_header \<Rightarrow> bytes \<Rightarrow> rtcp_Packet option" where
  "decodeSenderReport h body =
     (if hd_count h \<noteq> 0 \<or> hd_size h \<noteq> senderReportSize then None
      else Some (P_SR \<lparr>sr_SSRC = be32_get body 4, sr_NTP = be64_get body 8, sr_RTPTime = be32_get body 16,
             sr_PacketCount = be32_get body 20, sr_OctetCount = be32_get body 24\<rparr>))"

definition decodeReceiverReport :: "rtcp_header \<Rightarrow> bytes \<Rightarrow> rtcp_Packet option" where
  "decodeReceiverReport h body =
     (if hd_count h = 0 \<and> hd_size h = emptyRRSize then Some (P_EmptyRR \<lparr>er_SSRC = be32_get body 4\<rparr>)
      else if hd_count h = 1 \<and> hd_size h = receiverReportSize then
        Some (P_RR \<lparr>rr_SenderSSRC = be32_get body 4, rr_MediaSSRC = be32_get body 8,
                rr_FractionLost = body ! 12, rr_CumulativeLost = be32_get body 12 AND 0x00FFFFFF,
                rr_HighestSeq = be32_get body 16, rr_Jitter = be32_get body 20, rr_LSR = be32_get body 24,
                rr_DLSR = be32_get body 28\<rparr>)
      else if hd_count h = 0 \<and> hd_size h = lqmReportSize then
        Some (P_LQR \<lparr>lq_SSRC = be32_get body 4, lq_LQM = take (lqmReportSize - 8) (drop 8 body)\<rparr>)
      else None)"

definition decodeSDES :: "rtcp_header \<Rightarrow> bytes \<Rightarrow> rtcp_Packet option" where
  "decodeSDES h body =
     (if hd_count h \<noteq> 1 \<or> hd_size h < sdesFixedSize + 1 \<or> body ! 8 \<noteq> sdesItemCNAME then None
      else let n = unat (body ! 9) in
        if sdesFixedSize + n + 1 > hd_size h then None
        else if list_ex (\<lambda>b. b \<noteq> 0) (drop (sdesFixedSize + n) body) then None
        else Some (P_SDES \<lparr>sd_SSRC = be32_get body 4, sd_CNAME = take n (drop sdesFixedSize body)\<rparr>))"

definition decodeRangeNACK :: "bytes \<Rightarrow> rtcp_Packet option" where
  "decodeRangeNACK body =
     (let n = (length body - appFixedSize) div 4
      in Some (P_Range \<lparr>rn_MediaSSRC = be32_get body 4,
           rn_Ranges = map (\<lambda>i. \<lparr>nr_Start = be16_get body (appFixedSize + 4 * i),
                                nr_Extra = be16_get body (appFixedSize + 4 * i + 2)\<rparr>) [0..<n]\<rparr>))"

definition decodeBitmaskNACK :: "rtcp_header \<Rightarrow> bytes \<Rightarrow> rtcp_Packet option" where
  "decodeBitmaskNACK h body =
     (if hd_count h \<noteq> FMTGenericNACK \<or> hd_size h < appFixedSize then None
      else let n = (hd_size h - appFixedSize) div 4
           in Some (P_Bitmask \<lparr>bn_SenderSSRC = be32_get body 4, bn_MediaSSRC = be32_get body 8,
                bn_FCIs = map (\<lambda>i. \<lparr>np_PID = be16_get body (appFixedSize + 4 * i),
                                   np_BLP = be16_get body (appFixedSize + 4 * i + 2)\<rparr>) [0..<n]\<rparr>))"

definition decodeExtSeq :: "bytes \<Rightarrow> rtcp_Packet option" where
  "decodeExtSeq body =
     (if length body \<noteq> extSeqSize then None
      else Some (P_ExtSeq \<lparr>es_SSRC = be32_get body 4, es_SeqHigh = be16_get body 12\<rparr>))"

definition decodeEcho :: "u8 \<Rightarrow> bytes \<Rightarrow> rtcp_Packet option" where
  "decodeEcho subtype body =
     (if length body < echoFixedSize then None
      else let ssrc = be32_get body 4; ts = be64_get body 12; padding = drop echoFixedSize body
           in if subtype = AppSubtypeEchoRequest
              then Some (P_EchoReq \<lparr>eq_SSRC = ssrc, eq_Timestamp = ts, eq_Padding = padding\<rparr>)
              else Some (P_EchoResp \<lparr>ep_SSRC = ssrc, ep_Timestamp = ts,
                     ep_ProcessingDelay = be32_get body 20, ep_Padding = padding\<rparr>))"

definition decodeApp :: "rtcp_header \<Rightarrow> bytes \<Rightarrow> rtcp_Packet option" where
  "decodeApp h body =
     (if length body < appFixedSize \<or> be32_get body 8 \<noteq> NameRIST then None
      else if hd_count h = AppSubtypeRangeNACK then decodeRangeNACK body
      else if hd_count h = AppSubtypeExtSeq then decodeExtSeq body
      else if hd_count h = AppSubtypeEchoRequest \<or> hd_count h = AppSubtypeEchoResponse
           then decodeEcho (hd_count h) body
      else None)"

definition decodeTyped :: "rtcp_header \<Rightarrow> bytes \<Rightarrow> rtcp_Packet option" where
  "decodeTyped h body =
     (if hd_pt h = PTSenderReport then decodeSenderReport h body
      else if hd_pt h = PTReceiverReport then decodeReceiverReport h body
      else if hd_pt h = PTSDES then decodeSDES h body
      else if hd_pt h = PTApp then decodeApp h body
      else if hd_pt h = PTTransportFeedback then decodeBitmaskNACK h body
      else None)"

definition parseHeader :: "bytes \<Rightarrow> rtcp_err + rtcp_header" where
  "parseHeader b =
     (if length b < rtcp_headerSize then Inl ErrShortPacket
      else if drop_bit 6 (b ! 0) \<noteq> 2 then Inl ErrBadVersion
      else let sz = (unat (be16_get b 2) + 1) * 4 in
        if sz > length b then Inl ErrShortPacket
        else Inr \<lparr>hd_count = b ! 0 AND 0x1F, hd_pt = b ! 1, hd_size = sz\<rparr>)"

text \<open>\<open>Parse\<close> returns the number of bytes consumed with the packet.\<close>

definition rtcp_Parse :: "bytes \<Rightarrow> rtcp_err + nat \<times> rtcp_Packet" where
  "rtcp_Parse b =
     (case parseHeader b of
        Inl e \<Rightarrow> Inl e
      | Inr h \<Rightarrow>
          let body = take (hd_size h) b in
          case (if b ! 0 AND 0x20 = 0 then decodeTyped h body else None) of
            Some pkt \<Rightarrow> Inr (hd_size h, pkt)
          | None \<Rightarrow> Inr (hd_size h, P_Raw body))"

section \<open>Framing\<close>

text \<open>What \<open>Parse\<close> does after the header checks, on the body alone.\<close>

definition classify :: "bytes \<Rightarrow> rtcp_Packet" where
  "classify body =
     (let h = \<lparr>hd_count = body ! 0 AND 0x1F, hd_pt = body ! 1, hd_size = length body\<rparr>
      in case (if body ! 0 AND 0x20 = 0 then decodeTyped h body else None) of
           Some pkt \<Rightarrow> pkt | None \<Rightarrow> P_Raw body)"

definition framed :: "bytes \<Rightarrow> bool" where
  "framed body \<longleftrightarrow>
     4 \<le> length body \<and> drop_bit 6 (body ! 0) = 2 \<and> length body = (unat (be16_get body 2) + 1) * 4"

lemma be16_get_take: "i + 2 \<le> n \<Longrightarrow> n \<le> length b \<Longrightarrow> be16_get (take n b) i = be16_get b i"
  by (simp add: be16_get_def)

lemma be16_get_append_left: "i + 2 \<le> length b \<Longrightarrow> be16_get (b @ r) i = be16_get b i"
  by (simp add: be16_get_def nth_append)

lemma Parse_framed:
  assumes "framed body"
  shows "rtcp_Parse (body @ rest) = Inr (length body, classify body)"
proof -
  have len: "4 \<le> length body" and v: "drop_bit 6 (body ! 0) = 2"
    and size: "(unat (be16_get body 2) + 1) * 4 = length body"
    using assms by (auto simp: framed_def)
  have nth: "(body @ rest) ! 0 = body ! 0" "(body @ rest) ! Suc 0 = body ! Suc 0"
    using len by (auto simp: nth_append)
  have b16: "be16_get (body @ rest) 2 = be16_get body 2"
    using len by (simp add: be16_get_append_left)
  have "parseHeader (body @ rest) =
      Inr \<lparr>hd_count = body ! 0 AND 0x1F, hd_pt = body ! 1, hd_size = length body\<rparr>"
    using len v size unfolding parseHeader_def
    by (simp only: nth b16 Let_def rtcp_headerSize_def One_nat_def) simp
  then show ?thesis
    using nth(1) by (simp add: rtcp_Parse_def classify_def Let_def split: option.split)
qed

lemma Parse_inv:
  assumes "rtcp_Parse b = Inr (n, p)"
  shows "n \<le> length b \<and> framed (take n b) \<and> p = classify (take n b)"
proof -
  obtain h where h: "parseHeader b = Inr h"
    using assms by (auto simp: rtcp_Parse_def split: sum.splits)
  then have hs: "4 \<le> length b" "drop_bit 6 (b ! 0) = 2" "hd_size h = (unat (be16_get b 2) + 1) * 4"
    "hd_size h \<le> length b" "hd_count h = b ! 0 AND 0x1F" "hd_pt h = b ! 1"
    by (auto simp: parseHeader_def rtcp_headerSize_def Let_def split: if_splits)
  have n: "n = hd_size h" using assms h by (auto simp: rtcp_Parse_def Let_def split: option.splits)
  have n4: "4 \<le> n" using hs(3) n by simp
  have "framed (take n b)"
    using hs n n4 by (simp add: framed_def be16_get_take)
  moreover have "p = classify (take n b)"
  proof -
    have t: "take n b ! 0 = b ! 0" "take n b ! 1 = b ! 1" "length (take n b) = n"
      using hs(4) n n4 by simp_all
    have "\<lparr>hd_count = b ! 0 AND 0x1F, hd_pt = b ! 1, hd_size = n\<rparr> = h" using hs(5,6) n by simp
    then have "classify (take n b) =
        (case (if b ! 0 AND 0x20 = 0 then decodeTyped h (take n b) else None) of
           Some pkt \<Rightarrow> pkt | None \<Rightarrow> P_Raw (take n b))"
      unfolding classify_def Let_def t by (simp only:)
    then show ?thesis
      using assms h n by (auto simp: rtcp_Parse_def Let_def split: option.splits if_splits)
  qed
  ultimately show ?thesis using hs(4) n by simp
qed

section \<open>Reading back what was encoded\<close>

lemma appendHeader_append: "appendHeader buf c pt w = buf @ appendHeader [] c pt w"
  by (simp add: appendHeader_def)

lemma rtcp_AppendTo_append: "rtcp_AppendTo p buf = buf @ rtcp_AppendTo p []"
  by (cases p)
     (simp_all add: SenderReport_AppendTo_def EmptyReceiverReport_AppendTo_def ReceiverReport_AppendTo_def
       LinkQualityReport_AppendTo_def SDES_AppendTo_def RangeNACK_AppendTo_def BitmaskNACK_AppendTo_def
       ExtSeq_AppendTo_def EchoRequest_AppendTo_def EchoResponse_AppendTo_def appendEcho_def Raw_AppendTo_def
       Let_def appendHeader_append [of buf])

lemma flags_byte:
  assumes "c \<le> 0x1F"
  shows "drop_bit 6 (versionFlag OR c) = 2" "(versionFlag OR c) AND 0x20 = 0" "(versionFlag OR c) AND 0x1F = c"
proof -
  have c: "fits 5 c" using assms by (simp add: fits_def word_le_nat_alt)
  note bits = fits_bit [OF c] versionFlag_def bit_simps
  show "drop_bit 6 (versionFlag OR c) = 2" "(versionFlag OR c) AND 0x20 = 0" "(versionFlag OR c) AND 0x1F = c"
    by (rule u8_eqI; simp add: bits)+
qed

lemma be16_header: "be16_get (appendHeader [] c pt w @ r) 2 = w"
  using be16_get_put [of "[versionFlag OR c, pt]" w r]
  by (simp add: appendHeader_def be16_put_def numeral_2_eq_2)

lemma appendHeader_nth:
  "(appendHeader [] c pt w @ r) ! 0 = versionFlag OR c" "(appendHeader [] c pt w @ r) ! Suc 0 = pt"
  "length (appendHeader [] c pt w) = 4"
  by (simp_all add: appendHeader_def)

text \<open>A packet made of a header and a body of the length the header announces.\<close>

lemma classify_header:
  assumes "bs = appendHeader [] c pt w @ tail" "c \<le> 0x1F" "length tail = unat w * 4"
  shows "framed bs"
    "classify bs = (case decodeTyped \<lparr>hd_count = c, hd_pt = pt, hd_size = length bs\<rparr> bs of
       Some pkt \<Rightarrow> pkt | None \<Rightarrow> P_Raw bs)"
proof -
  show "framed bs"
    using assms flags_byte [OF assms(2)]
    by (simp add: framed_def be16_header appendHeader_nth del: drop_bit_or)
  show "classify bs = (case decodeTyped \<lparr>hd_count = c, hd_pt = pt, hd_size = length bs\<rparr> bs of
       Some pkt \<Rightarrow> pkt | None \<Rightarrow> P_Raw bs)"
    using assms(2) unfolding assms(1) by (simp add: classify_def Let_def appendHeader_nth flags_byte)
qed

lemma drop_header: "4 \<le> n \<Longrightarrow> drop n (appendHeader [] c pt w @ r) = drop (n - 4) r"
  by (simp add: appendHeader_nth)

lemma nth_header: "4 \<le> n \<Longrightarrow> (appendHeader [] c pt w @ r) ! n = r ! (n - 4)"
  by (simp add: appendHeader_nth nth_append)

lemma wire_read:
  "4 \<le> n \<Longrightarrow> be16_get (appendHeader [] c pt w @ r) n = be16_get r (n - 4)"
  "4 \<le> n \<Longrightarrow> be32_get (appendHeader [] c pt w @ r) n = be32_get r (n - 4)"
  "4 \<le> n \<Longrightarrow> be64_get (appendHeader [] c pt w @ r) n = be64_get r (n - 4)"
  by (simp_all add: appendHeader_nth be16_get_append_skip be32_get_append_skip be64_get_append_skip)

text \<open>The field bounds the encoders document.\<close>

fun rtcp_wf :: "rtcp_Packet \<Rightarrow> bool" where
  "rtcp_wf (P_SR p) = True"
| "rtcp_wf (P_EmptyRR p) = True"
| "rtcp_wf (P_RR p) = (rr_CumulativeLost p \<le> 0x00FFFFFF)"
| "rtcp_wf (P_LQR p) = (length (lq_LQM p) = LQMExtensionSize)"
| "rtcp_wf (P_SDES p) = (length (sd_CNAME p) \<le> maxCNAMELen)"
| "rtcp_wf (P_Range p) = (length (rn_Ranges p) \<le> 65533)"
| "rtcp_wf (P_Bitmask p) = (length (bn_FCIs p) \<le> 65533)"
| "rtcp_wf (P_ExtSeq p) = True"
| "rtcp_wf (P_EchoReq p) = (length (eq_Padding p) mod 4 = 0 \<and> length (eq_Padding p) div 4 \<le> 65530)"
| "rtcp_wf (P_EchoResp p) = (length (ep_Padding p) mod 4 = 0 \<and> length (ep_Padding p) div 4 \<le> 65530)"
| "rtcp_wf (P_Raw r) = (framed r \<and> classify r = P_Raw r)"

lemmas wire_walk = appendHeader_nth wire_read drop_header nth_header be_reads

lemma SR_classify: "framed (SenderReport_AppendTo p [])" "classify (SenderReport_AppendTo p []) = P_SR p"
proof -
  note c = classify_header [OF SenderReport_AppendTo_def [of p "[]"]]
  show "framed (SenderReport_AppendTo p [])" by (rule c(1)) simp_all
  show "classify (SenderReport_AppendTo p []) = P_SR p"
    by (subst c(2)) (simp_all add: decodeTyped_def decodeSenderReport_def rtcp_consts SenderReport_AppendTo_def
        wire_walk)
qed

lemma EmptyRR_classify:
  "framed (EmptyReceiverReport_AppendTo p [])" "classify (EmptyReceiverReport_AppendTo p []) = P_EmptyRR p"
proof -
  note c = classify_header [OF EmptyReceiverReport_AppendTo_def [of p "[]"]]
  show "framed (EmptyReceiverReport_AppendTo p [])" by (rule c(1)) simp_all
  show "classify (EmptyReceiverReport_AppendTo p []) = P_EmptyRR p"
    by (subst c(2)) (simp_all add: decodeTyped_def decodeReceiverReport_def rtcp_consts
        EmptyReceiverReport_AppendTo_def wire_walk)
qed

lemma ExtSeq_classify:
  "framed (ExtSeq_AppendTo p [])" "classify (ExtSeq_AppendTo p []) = P_ExtSeq p"
proof -
  note c = classify_header [OF ExtSeq_AppendTo_def [of p "[]"]]
  show "framed (ExtSeq_AppendTo p [])" by (rule c(1)) (simp_all add: rtcp_consts)
  show "classify (ExtSeq_AppendTo p []) = P_ExtSeq p"
    by (subst c(2)) (simp_all add: decodeTyped_def decodeApp_def decodeExtSeq_def rtcp_consts ExtSeq_AppendTo_def
        wire_walk)
qed

lemma cum_lost_bytes:
  assumes "x \<le> 0x00FFFFFF"
  shows "be32_get ((be32_put x)[0 := f] @ r) 0 AND 0x00FFFFFF = x"
    "(be32_put (x AND 0x00FFFFFF))[0 := f] = (be32_put x)[0 := f]"
proof -
  have m: "(0x00FFFFFF :: u32) = mask 24" by (simp add: mask_eq_exp_minus_1)
  have "fits 24 x" using assms by (simp add: fits_def word_le_nat_alt)
  then have x: "x AND mask 24 = x" by (rule mask_fits)
  have "be32_get ((be32_put x)[0 := f] @ r) 0 AND mask 24 = be32_get (be32_put x @ r) 0 AND mask 24"
    by (rule bit_word_eqI) (auto simp: be32_get_def be32_put_def bit_simps)
  then show "be32_get ((be32_put x)[0 := f] @ r) 0 AND 0x00FFFFFF = x" by (simp add: m x)
  show "(be32_put (x AND 0x00FFFFFF))[0 := f] = (be32_put x)[0 := f]" by (simp add: m x)
qed

lemma RR_classify:
  assumes "rr_CumulativeLost p \<le> 0x00FFFFFF"
  shows "framed (ReceiverReport_AppendTo p [])" "classify (ReceiverReport_AppendTo p []) = P_RR p"
proof -
  note c = classify_header [OF ReceiverReport_AppendTo_def [of p "[]"]]
  show "framed (ReceiverReport_AppendTo p [])" by (rule c(1)) simp_all
  have "((be32_put x)[0 := f] @ r) ! 0 = f" for x f and r :: bytes by (simp add: be32_put_def)
  then show "classify (ReceiverReport_AppendTo p []) = P_RR p"
    by (subst c(2)) (simp_all add: decodeTyped_def decodeReceiverReport_def rtcp_consts cum_lost_bytes [OF assms]
        ReceiverReport_AppendTo_def wire_walk nth_append)
qed

lemma LQR_classify:
  assumes "length (lq_LQM p) = LQMExtensionSize"
  shows "framed (LinkQualityReport_AppendTo p [])" "classify (LinkQualityReport_AppendTo p []) = P_LQR p"
proof -
  note c = classify_header [OF LinkQualityReport_AppendTo_def [of p "[]"]]
  show "framed (LinkQualityReport_AppendTo p [])"
    by (rule c(1)) (use assms in \<open>simp_all add: rtcp_consts\<close>)
  show "classify (LinkQualityReport_AppendTo p []) = P_LQR p"
    by (subst c(2)) (use assms in \<open>simp_all add: decodeTyped_def decodeReceiverReport_def rtcp_consts
        LinkQualityReport_AppendTo_def wire_walk\<close>)
qed

text \<open>Lists of 16-bit pairs: the NACK records.\<close>

definition put_pair :: "u16 \<Rightarrow> u16 \<Rightarrow> bytes" where "put_pair a b = be16_put a @ be16_put b"

lemma length_put_pair [simp]: "length (put_pair a b) = 4"
  by (simp add: put_pair_def)

lemma length_concat_pairs [simp]: "length (concat (map (\<lambda>r. put_pair (f r) (g r)) rs)) = length rs * 4"
  by (induction rs) simp_all

lemma read_pairs:
  assumes "i < length rs"
  shows "be16_get (pre @ concat (map (\<lambda>r. put_pair (f r) (g r)) rs)) (length pre + 4 * i) = f (rs ! i)"
    "be16_get (pre @ concat (map (\<lambda>r. put_pair (f r) (g r)) rs)) (length pre + 4 * i + 2) = g (rs ! i)"
proof -
  let ?c = "\<lambda>rs. concat (map (\<lambda>r. put_pair (f r) (g r)) rs)"
  obtain xs x ys where rs: "rs = xs @ x # ys" "length xs = i" "rs ! i = x"
    using id_take_nth_drop [OF assms] assms by (metis length_take min.absorb4)
  let ?p = "pre @ ?c xs"
  have l: "length ?p = length pre + 4 * i" using rs by simp
  have c: "pre @ ?c rs = ?p @ be16_put (f x) @ be16_put (g x) @ ?c ys"
    by (simp add: rs(1) put_pair_def)
  show "be16_get (pre @ ?c rs) (length pre + 4 * i) = f (rs ! i)"
    unfolding c rs(3) l [symmetric] by (rule be16_get_put)
  have "be16_get ((?p @ be16_put (f x)) @ be16_put (g x) @ ?c ys) (length (?p @ be16_put (f x))) = g x"
    by (rule be16_get_put)
  moreover have "length (?p @ be16_put (f x)) = length pre + 4 * i + 2" using l by simp
  ultimately show "be16_get (pre @ ?c rs) (length pre + 4 * i + 2) = g (rs ! i)"
    unfolding c rs(3) by (simp only: append_assoc)
qed

lemma RangeNACK_bytes:
  "RangeNACK_AppendTo p [] =
     appendHeader [] AppSubtypeRangeNACK PTApp (of_nat (2 + length (rn_Ranges p))) @
     be32_put (rn_MediaSSRC p) @ be32_put NameRIST @ concat (map (\<lambda>r. put_pair (nr_Start r) (nr_Extra r)) (rn_Ranges p))"
  by (simp add: RangeNACK_AppendTo_def put_pair_def)

lemma BitmaskNACK_bytes:
  "BitmaskNACK_AppendTo p [] =
     appendHeader [] FMTGenericNACK PTTransportFeedback (of_nat (2 + length (bn_FCIs p))) @
     be32_put (bn_SenderSSRC p) @ be32_put (bn_MediaSSRC p) @
     concat (map (\<lambda>r. put_pair (np_PID r) (np_BLP r)) (bn_FCIs p))"
  by (simp add: BitmaskNACK_AppendTo_def put_pair_def)

lemma unat_of_nat_u16: "n < 65536 \<Longrightarrow> unat (of_nat n :: u16) = n"
  by (simp add: unsigned_of_nat take_bit_nat_eq_self)

lemma Range_classify:
  assumes "length (rn_Ranges p) \<le> 65533"
  shows "framed (RangeNACK_AppendTo p [])" "classify (RangeNACK_AppendTo p []) = P_Range p"
proof -
  let ?rs = "rn_Ranges p" and ?bs = "RangeNACK_AppendTo p []"
  define W :: u16 where "W = of_nat (2 + length ?rs)"
  note c = classify_header [OF RangeNACK_bytes [of p, folded W_def]]
  have w: "unat W = 2 + length ?rs"
    unfolding W_def using assms by (intro unat_of_nat_u16) simp
  show "framed ?bs"
    by (rule c(1)) (simp_all add: w rtcp_consts)
  let ?pre = "appendHeader [] AppSubtypeRangeNACK PTApp W @
    be32_put (rn_MediaSSRC p) @ be32_put NameRIST"
  have bs: "?bs = ?pre @ concat (map (\<lambda>r. put_pair (nr_Start r) (nr_Extra r)) ?rs)"
    by (simp only: RangeNACK_bytes W_def append_assoc)
  have lp: "length ?pre = 12" by (simp add: appendHeader_nth)
  have len: "length ?bs = 12 + length ?rs * 4" unfolding bs length_append [of ?pre] lp by simp
  have "map (\<lambda>i. \<lparr>nr_Start = be16_get ?bs (12 + 4 * i), nr_Extra = be16_get ?bs (12 + 4 * i + 2)\<rparr>)
      [0..<length ?rs] = ?rs"
    by (rule nth_equalityI) (use read_pairs [of _ ?rs ?pre nr_Start nr_Extra, unfolded lp, folded bs] in simp_all)
  then have "decodeRangeNACK ?bs = Some (P_Range p)"
    using len by (simp add: decodeRangeNACK_def rtcp_consts Let_def)
       (simp add: RangeNACK_bytes wire_walk)
  moreover have "be32_get ?bs 8 = NameRIST" by (simp add: RangeNACK_bytes wire_walk)
  ultimately have "decodeTyped \<lparr>hd_count = AppSubtypeRangeNACK, hd_pt = PTApp, hd_size = length ?bs\<rparr> ?bs =
      Some (P_Range p)"
    using len by (simp add: decodeTyped_def decodeApp_def rtcp_consts)
  then show "classify ?bs = P_Range p"
    by (subst c(2)) (simp_all add: w rtcp_consts)
qed

lemma Bitmask_classify:
  assumes "length (bn_FCIs p) \<le> 65533"
  shows "framed (BitmaskNACK_AppendTo p [])" "classify (BitmaskNACK_AppendTo p []) = P_Bitmask p"
proof -
  let ?rs = "bn_FCIs p" and ?bs = "BitmaskNACK_AppendTo p []"
  define W :: u16 where "W = of_nat (2 + length ?rs)"
  note c = classify_header [OF BitmaskNACK_bytes [of p, folded W_def]]
  have w: "unat W = 2 + length ?rs"
    unfolding W_def using assms by (intro unat_of_nat_u16) simp
  show "framed ?bs"
    by (rule c(1)) (simp_all add: w rtcp_consts)
  let ?pre = "appendHeader [] FMTGenericNACK PTTransportFeedback W @
    be32_put (bn_SenderSSRC p) @ be32_put (bn_MediaSSRC p)"
  have bs: "?bs = ?pre @ concat (map (\<lambda>r. put_pair (np_PID r) (np_BLP r)) ?rs)"
    by (simp only: BitmaskNACK_bytes W_def append_assoc)
  have lp: "length ?pre = 12" by (simp add: appendHeader_nth)
  have len: "length ?bs = 12 + length ?rs * 4" unfolding bs length_append [of ?pre] lp by simp
  have "map (\<lambda>i. \<lparr>np_PID = be16_get ?bs (12 + 4 * i), np_BLP = be16_get ?bs (12 + 4 * i + 2)\<rparr>)
      [0..<length ?rs] = ?rs"
    by (rule nth_equalityI) (use read_pairs [of _ ?rs ?pre np_PID np_BLP, unfolded lp, folded bs] in simp_all)
  then have "decodeBitmaskNACK \<lparr>hd_count = FMTGenericNACK, hd_pt = PTTransportFeedback, hd_size = length ?bs\<rparr> ?bs =
      Some (P_Bitmask p)"
    using len by (simp add: decodeBitmaskNACK_def rtcp_consts Let_def)
       (simp add: BitmaskNACK_bytes wire_walk)
  then have "decodeTyped \<lparr>hd_count = FMTGenericNACK, hd_pt = PTTransportFeedback, hd_size = length ?bs\<rparr> ?bs =
      Some (P_Bitmask p)"
    by (simp add: decodeTyped_def rtcp_consts)
  then show "classify ?bs = P_Bitmask p"
    by (subst c(2)) (simp_all add: w rtcp_consts)
qed

lemma padTo4_aligned: "n mod 4 = 0 \<Longrightarrow> padTo4 n = n"
  by (auto simp: padTo4_def)

lemma echo_classify:
  assumes "length pad mod 4 = 0" "length pad div 4 \<le> 65530"
    and bs: "bs = appendEcho [] sub ssrc ts delay pad" and sub: "sub = 2 \<or> sub = 3"
  shows "framed bs" "classify bs =
    (if sub = 2 then P_EchoReq \<lparr>eq_SSRC = ssrc, eq_Timestamp = ts, eq_Padding = pad\<rparr>
     else P_EchoResp \<lparr>ep_SSRC = ssrc, ep_Timestamp = ts, ep_ProcessingDelay = delay, ep_Padding = pad\<rparr>)"
proof -
  define W :: u16 where "W = of_nat (5 + length pad div 4)"
  have w: "unat W = 5 + length pad div 4"
    unfolding W_def using assms(2) by (intro unat_of_nat_u16) simp
  have b: "bs = appendHeader [] sub PTApp W @ be32_put ssrc @ be32_put NameRIST @ be64_put ts @ be32_put delay @ pad"
    by (simp add: bs appendEcho_def Let_def padTo4_aligned [OF assms(1)] W_def)
  have sub': "sub \<le> 0x1F" using sub by auto
  have len: "length pad div 4 * 4 = length pad" using assms(1) by auto
  note c = classify_header [OF b sub']
  show "framed bs" by (rule c(1)) (simp add: w len)
  have "decodeTyped \<lparr>hd_count = sub, hd_pt = PTApp, hd_size = length bs\<rparr> bs = decodeEcho sub bs"
    using sub by (auto simp: decodeTyped_def decodeApp_def rtcp_consts b wire_walk)
  moreover have "decodeEcho sub bs = Some
    (if sub = 2 then P_EchoReq \<lparr>eq_SSRC = ssrc, eq_Timestamp = ts, eq_Padding = pad\<rparr>
     else P_EchoResp \<lparr>ep_SSRC = ssrc, ep_Timestamp = ts, ep_ProcessingDelay = delay, ep_Padding = pad\<rparr>)"
    by (simp add: decodeEcho_def rtcp_consts Let_def b wire_walk)
  ultimately show "classify bs =
    (if sub = 2 then P_EchoReq \<lparr>eq_SSRC = ssrc, eq_Timestamp = ts, eq_Padding = pad\<rparr>
     else P_EchoResp \<lparr>ep_SSRC = ssrc, ep_Timestamp = ts, ep_ProcessingDelay = delay, ep_Padding = pad\<rparr>)"
    by (subst c(2)) (simp_all add: w len)
qed

lemma sdesSize_props:
  "11 + n \<le> sdesSize n" "sdesSize n \<le> 14 + n" "sdesSize n mod 4 = 0"
  by (simp_all add: sdesSize_def sdesFixedSize_def)

lemma SDES_classify:
  assumes "length (sd_CNAME p) \<le> maxCNAMELen"
  shows "framed (SDES_AppendTo p [])" "classify (SDES_AppendTo p []) = P_SDES p"
proof -
  let ?n = "length (sd_CNAME p)" and ?bs = "SDES_AppendTo p []"
  define Z where "Z = sdesSize ?n"
  note z = sdesSize_props [of ?n, folded Z_def]
  have n: "?n \<le> 255" using assms by (simp add: maxCNAMELen_def)
  define W :: u16 where "W = of_nat (Z div 4 - 1)"
  have zk: "Z div 4 * 4 = Z" using z(3) by auto
  have "Z div 4 - 1 < 65536" using z(2) n by linarith
  then have w: "unat W = Z div 4 - 1" unfolding W_def by (rule unat_of_nat_u16)
  have ln: "unat (of_nat ?n :: u8) = ?n" using n by (simp add: unsigned_of_nat take_bit_nat_eq_self)
  have b: "?bs = appendHeader [] 1 PTSDES W @ be32_put (sd_SSRC p) @ [1, of_nat ?n] @ sd_CNAME p @
      replicate (Z - (10 + ?n)) 0"
    using assms by (simp add: SDES_AppendTo_def Let_def Z_def W_def rtcp_consts)
  have len: "length ?bs = Z" using z(1) by (simp add: b appendHeader_nth)
  note c = classify_header [OF b]
  have wl: "4 + (6 + ?n + (Z - (10 + ?n))) = Z" "(Z div 4 - 1) * 4 = Z - 4"
    using z(1) zk by (simp_all add: diff_mult_distrib)
  have tail: "length (be32_put (sd_SSRC p) @ [1, of_nat ?n] @ sd_CNAME p @ replicate (Z - (10 + ?n)) 0) = unat W * 4"
    using z(1) wl(2) by (simp add: w)
  show "framed ?bs" by (rule c(1) [OF _ tail]) simp
  have rd: "?bs ! 8 = 1" "?bs ! 9 = of_nat ?n" "be32_get ?bs 4 = sd_SSRC p"
    "drop (10 + ?n) ?bs = replicate (Z - (10 + ?n)) 0" "take ?n (drop 10 ?bs) = sd_CNAME p"
    by (simp_all add: b wire_walk nth_append)
  have "decodeSDES \<lparr>hd_count = 1, hd_pt = PTSDES, hd_size = length ?bs\<rparr> ?bs = Some (P_SDES p)"
    using z(1) unfolding decodeSDES_def len
    by (simp add: rd ln rtcp_consts Let_def list_ex_iff)
  then have "decodeTyped \<lparr>hd_count = 1, hd_pt = PTSDES, hd_size = length ?bs\<rparr> ?bs = Some (P_SDES p)"
    by (simp add: decodeTyped_def rtcp_consts)
  then show "classify ?bs = P_SDES p"
    by (subst c(2) [OF _ tail]) simp_all
qed

lemma rtcp_wf_classify:
  assumes "rtcp_wf p"
  shows "framed (rtcp_AppendTo p [])" "classify (rtcp_AppendTo p []) = p"
  using assms
  by (cases p; simp add: SR_classify EmptyRR_classify RR_classify LQR_classify SDES_classify Range_classify
      Bitmask_classify ExtSeq_classify EchoRequest_AppendTo_def EchoResponse_AppendTo_def rtcp_consts
      echo_classify [OF _ _ refl] Raw_AppendTo_def)+

lemma rtcp_roundtrip:
  "rtcp_wf p \<Longrightarrow> rtcp_Parse (rtcp_AppendTo p [] @ rest) = Inr (length (rtcp_AppendTo p []), p)"
  using Parse_framed [OF rtcp_wf_classify(1)] by (simp add: rtcp_wf_classify)

interpretation rtcp: prefix_codec "\<lambda>p. rtcp_AppendTo p []" rtcp_Parse rtcp_wf
  by unfold_locales (rule rtcp_roundtrip)

section \<open>What the parser returns is well formed\<close>

lemma framed_length:
  assumes "framed body"
  obtains k where "length body = k * 4" "0 < k" "k \<le> 65536"
proof (rule that)
  show "length body = (unat (be16_get body 2) + 1) * 4" using assms by (simp add: framed_def)
  show "unat (be16_get body 2) + 1 \<le> 65536" using unat_lt_u16 [of "be16_get body 2"] by linarith
qed simp

lemma decodeApp_wf:
  assumes "decodeApp h body = Some p" "length body = k * 4" "k \<le> 65536"
  shows "rtcp_wf p"
proof -
  have 12: "3 \<le> k" using assms by (auto simp: decodeApp_def rtcp_consts split: if_splits)
  consider "decodeRangeNACK body = Some p" | "decodeExtSeq body = Some p" | "decodeEcho (hd_count h) body = Some p"
    using assms(1) by (auto simp: decodeApp_def split: if_splits)
  then show ?thesis
  proof cases
    case 1
    have "(k * 4 - 12) div 4 \<le> 65533" using assms(3) by linarith
    then show ?thesis using 1 assms(2) by (auto simp: decodeRangeNACK_def rtcp_consts Let_def)
  next
    case 2
    then show ?thesis by (auto simp: decodeExtSeq_def split: if_splits)
  next
    case 3
    have k6: "6 \<le> k" using 3 assms(2) by (auto simp: decodeEcho_def rtcp_consts split: if_splits)
    have "length (drop 24 body) = (k - 6) * 4" using assms(2) by (simp add: diff_mult_distrib)
    then show ?thesis using 3 assms(3) k6
      by (auto simp: decodeEcho_def rtcp_consts Let_def split: if_splits)
  qed
qed

lemma decodeTyped_wf:
  assumes "decodeTyped h body = Some p" "length body = k * 4" "k \<le> 65536" "hd_size h = length body"
  shows "rtcp_wf p"
proof -
  consider "decodeSenderReport h body = Some p" | "decodeReceiverReport h body = Some p"
    | "decodeSDES h body = Some p" | "decodeApp h body = Some p" | "decodeBitmaskNACK h body = Some p"
    using assms(1) by (auto simp: decodeTyped_def split: if_splits)
  then show ?thesis
  proof cases
    case 1
    then show ?thesis by (auto simp: decodeSenderReport_def split: if_splits)
  next
    case 2
    then show ?thesis
      using assms(2,4) by (auto simp: decodeReceiverReport_def rtcp_consts word_and_le1 split: if_splits)
  next
    case 3
    have "unat (body ! 9) \<le> 255" using unat_lt_u8 [of "body ! 9"] by linarith
    then show ?thesis
      using 3 by (auto simp: decodeSDES_def rtcp_consts Let_def min_def split: if_splits)
  next
    case 4
    then show ?thesis using decodeApp_wf assms(2,3) by blast
  next
    case 5
    have "(k * 4 - 12) div 4 \<le> 65533" using assms(3) by linarith
    then show ?thesis
      using 5 assms(2,4) by (auto simp: decodeBitmaskNACK_def rtcp_consts Let_def split: if_splits)
  qed
qed

lemma classify_wf:
  assumes "framed body"
  shows "rtcp_wf (classify body)"
proof (cases "\<exists>r. classify body = P_Raw r")
  case True
  have "p \<noteq> P_Raw r" if "decodeTyped h b = Some p" for h b p r
    using that by (auto simp: decodeTyped_def decodeSenderReport_def decodeReceiverReport_def decodeSDES_def
        decodeApp_def decodeBitmaskNACK_def decodeRangeNACK_def decodeExtSeq_def decodeEcho_def Let_def
        split: if_splits)
  then have "classify body = P_Raw body"
    using True by (auto simp: classify_def Let_def split: option.splits if_splits)
  then show ?thesis using assms by simp
next
  case False
  then have d: "decodeTyped \<lparr>hd_count = body ! 0 AND 0x1F, hd_pt = body ! 1, hd_size = length body\<rparr> body =
      Some (classify body)"
    by (auto simp: classify_def Let_def split: option.splits if_splits)
  obtain k where k: "length body = k * 4" "k \<le> 65536" using framed_length [OF assms] by metis
  show ?thesis by (rule decodeTyped_wf [OF d k]) simp
qed

lemma rtcp_size:
  assumes "rtcp_wf p"
  shows "length (rtcp_AppendTo p []) = rtcp_MarshalSize p"
proof (cases p)
  case (P_SDES q)
  then show ?thesis using assms sdesSize_props(1) [of "length (sd_CNAME q)"]
    by (simp add: SDES_AppendTo_def Let_def appendHeader_nth rtcp_consts)
next
  case (P_EchoReq q)
  then show ?thesis using assms
    by (simp add: EchoRequest_AppendTo_def appendEcho_def Let_def appendHeader_nth rtcp_consts padTo4_aligned)
next
  case (P_EchoResp q)
  then show ?thesis using assms
    by (simp add: EchoResponse_AppendTo_def appendEcho_def Let_def appendHeader_nth rtcp_consts padTo4_aligned)
qed (use assms in \<open>simp_all add: SenderReport_AppendTo_def EmptyReceiverReport_AppendTo_def
    ReceiverReport_AppendTo_def LinkQualityReport_AppendTo_def RangeNACK_bytes BitmaskNACK_bytes
    ExtSeq_AppendTo_def Raw_AppendTo_def appendHeader_nth rtcp_consts\<close>)

text \<open>C21: Every RTCP packet survives the wire.  Parsing at the start of a buffer that begins with an encoded
  packet, whatever follows it, returns that packet and exactly its length, for all eleven packet kinds
  within their documented field bounds; and the encoded length is the declared marshal size.\<close>

theorem rtcp_packet_roundtrip:
  assumes "rtcp_wf p"
  shows "rtcp_Parse (rtcp_AppendTo p [] @ rest) = Inr (rtcp_MarshalSize p, p) \<and>
    rtcp_AppendTo p buf = buf @ rtcp_AppendTo p []"
  using rtcp_size [OF assms] rtcp.dec_enc [OF assms, of rest] rtcp_AppendTo_append [of p buf] by simp

theorem rtcp_packet_roundtrip_witness:
  "rtcp_Parse (rtcp_AppendTo (P_SDES \<lparr>sd_SSRC = 7, sd_CNAME = [104, 105]\<rparr>) [] @ [1, 2]) =
     Inr (16, P_SDES \<lparr>sd_SSRC = 7, sd_CNAME = [104, 105]\<rparr>)"
  using rtcp_packet_roundtrip [of "P_SDES \<lparr>sd_SSRC = 7, sd_CNAME = [104, 105]\<rparr>" "[1, 2]" "[]"]
  by (simp add: rtcp_consts sdesSize_def)

text \<open>C22: Re-encoding is stable on everything the parser can produce.  Whatever bytes arrive, a packet that
  \<open>Parse\<close> returns is within the field bounds of its kind, consumes at least four bytes and no more than
  there are, and its own encoding parses back to the same packet (foreign packets are kept verbatim).\<close>

theorem rtcp_parse_stable:
  assumes "rtcp_Parse b = Inr (n, p)"
  shows "rtcp_wf p \<and> 4 \<le> n \<and> n \<le> length b \<and>
    rtcp_Parse (rtcp_AppendTo p []) = Inr (length (rtcp_AppendTo p []), p) \<and>
    (\<forall>r. p = P_Raw r \<longrightarrow> r = take n b)"
proof -
  note inv = Parse_inv [OF assms]
  have wf: "rtcp_wf p" using inv classify_wf by blast
  have n4: "4 \<le> n" using inv by (auto simp: framed_def)
  have "r = take n b" if "p = P_Raw r" for r
  proof -
    have "p = P_Raw (take n b)"
      using assms that
      by (auto simp: rtcp_Parse_def Let_def decodeTyped_def decodeSenderReport_def decodeReceiverReport_def
          decodeSDES_def decodeApp_def decodeBitmaskNACK_def decodeRangeNACK_def decodeExtSeq_def decodeEcho_def
          split: sum.splits option.splits if_splits)
    then show ?thesis using that by simp
  qed
  then show ?thesis using wf n4 inv rtcp.dec_exact by blast
qed

theorem rtcp_parse_stable_witness:
  "rtcp_Parse [0x80, 201, 0, 1, 0, 0, 0, 9, 5] = Inr (8, P_EmptyRR \<lparr>er_SSRC = 9\<rparr>) \<and>
   rtcp_Parse (rtcp_AppendTo (P_EmptyRR \<lparr>er_SSRC = 9\<rparr>) []) =
     Inr (length (rtcp_AppendTo (P_EmptyRR \<lparr>er_SSRC = 9\<rparr>) []), P_EmptyRR \<lparr>er_SSRC = 9\<rparr>)"
proof -
  have p: "rtcp_Parse [0x80, 201, 0, 1, 0, 0, 0, 9, 5] = Inr (8, P_EmptyRR \<lparr>er_SSRC = 9\<rparr>)"
    by code_simp
  then show ?thesis using rtcp_parse_stable [OF p] by simp
qed

end
