(* ===== verification/Rtcp_Nack.thy ===== *)
theory Rtcp_Nack
  imports Rtcp
begin

text \<open>The NACK encoders and expanders of internal/rtcp/nack.go: packing a list of missing sequence numbers
  into range or bitmask records, splitting at sixteen records a packet, and expanding received records
  with the amplification guard.  Encoding followed by expansion asks for exactly the missing packets.\<close>

unbundle bit_operations_syntax

section \<open>Expansion\<close>

definition MaxNackRecordsPerPacket :: nat where "MaxNackRecordsPerPacket = 16"
definition maxNackExpand :: nat where "maxNackExpand = 65536"

text \<open>The inner loop over one record: remaining iterations, next sequence, sequences appended so far and
  the output.  The flag reports the early return.\<close>

fun expand_range :: "nat \<Rightarrow> u16 \<Rightarrow> nat \<Rightarrow> u32 list \<Rightarrow> bool \<times> nat \<times> u32 list" where
  "expand_range 0 s appended dst = (False, appended, dst)"
| "expand_range (Suc n) s appended dst =
     (if appended \<ge> maxNackExpand then (True, appended, dst)
      else expand_range n (s + 1) (appended + 1) (dst @ [ucast s]))"

fun expand_ranges :: "NackRange list \<Rightarrow> nat \<Rightarrow> u32 list \<Rightarrow> u32 list" where
  "expand_ranges [] appended dst = dst"
| "expand_ranges (r # rs) appended dst =
     (let (stop, appended, dst) = expand_range (unat (nr_Extra r) + 1) (nr_Start r) appended dst
      in if stop then dst else expand_ranges rs appended dst)"

definition RangeNACK_AppendMissingSeqs :: "RangeNACK \<Rightarrow> u32 list \<Rightarrow> u32 list" where
  "RangeNACK_AppendMissingSeqs p dst = expand_ranges (rn_Ranges p) 0 dst"

definition RangeNACK_MissingSeqs :: "RangeNACK \<Rightarrow> u32 list" where
  "RangeNACK_MissingSeqs p = RangeNACK_AppendMissingSeqs p []"

definition NackPair_AppendSeqs :: "NackPair \<Rightarrow> u32 list \<Rightarrow> u32 list" where
  "NackPair_AppendSeqs n dst =
     dst @ [ucast (np_PID n)] @
     map (\<lambda>i. ucast (np_PID n + of_nat i + 1)) (filter (\<lambda>i. np_BLP n AND push_bit i 1 \<noteq> 0) [0..<16])"

fun expand_bits :: "NackPair \<Rightarrow> nat list \<Rightarrow> u32 list \<Rightarrow> bool \<times> u32 list" where
  "expand_bits f [] dst = (False, dst)"
| "expand_bits f (i # is) dst =
     (if np_BLP f AND push_bit i 1 = 0 then expand_bits f is dst
      else if length dst \<ge> maxNackExpand then (True, dst)
      else expand_bits f is (dst @ [ucast (np_PID f + of_nat i + 1)]))"

fun expand_pairs :: "NackPair list \<Rightarrow> u32 list \<Rightarrow> u32 list" where
  "expand_pairs [] dst = dst"
| "expand_pairs (f # fs) dst =
     (if length dst \<ge> maxNackExpand then dst
      else let (stop, dst) = expand_bits f [0..<16] (dst @ [ucast (np_PID f)])
           in if stop then dst else expand_pairs fs dst)"

definition BitmaskNACK_AppendMissingSeqs :: "BitmaskNACK \<Rightarrow> u32 list \<Rightarrow> u32 list" where
  "BitmaskNACK_AppendMissingSeqs p dst = expand_pairs (bn_FCIs p) dst"

definition BitmaskNACK_MissingSeqs :: "BitmaskNACK \<Rightarrow> u32 list" where
  "BitmaskNACK_MissingSeqs p = BitmaskNACK_AppendMissingSeqs p []"

fun DecodeNACK :: "rtcp_Packet \<Rightarrow> u32 list option" where
  "DecodeNACK (P_Range p) = Some (RangeNACK_MissingSeqs p)"
| "DecodeNACK (P_Bitmask p) = Some (BitmaskNACK_MissingSeqs p)"
| "DecodeNACK _ = None"

section \<open>Packing\<close>

text \<open>\<open>EncodeRangeNACK\<close>: the closure \<open>flushRange\<close> works on the packets and the open record list.\<close>

definition flushRange ::
  "u32 \<Rightarrow> NackRange \<Rightarrow> RangeNACK list \<times> NackRange list \<Rightarrow> RangeNACK list \<times> NackRange list" where
  "flushRange mediaSSRC cur st =
     (let (pkts, ranges) = st; ranges = ranges @ [cur]
      in if length ranges = MaxNackRecordsPerPacket
         then (pkts @ [\<lparr>rn_MediaSSRC = mediaSSRC, rn_Ranges = ranges\<rparr>], []) else (pkts, ranges))"

fun encode_ranges ::
  "u32 \<Rightarrow> u32 list \<Rightarrow> NackRange \<Rightarrow> u16 \<Rightarrow> RangeNACK list \<times> NackRange list \<Rightarrow>
   NackRange \<times> RangeNACK list \<times> NackRange list" where
  "encode_ranges mediaSSRC [] cur prev st = (cur, st)"
| "encode_ranges mediaSSRC (m # ms) cur prev st =
     (let s = ucast m in
      if s = prev + 1 \<and> nr_Extra cur < 0xFFFF
      then encode_ranges mediaSSRC ms (cur\<lparr>nr_Extra := nr_Extra cur + 1\<rparr>) s st
      else encode_ranges mediaSSRC ms \<lparr>nr_Start = s, nr_Extra = 0\<rparr> s (flushRange mediaSSRC cur st))"

definition EncodeRangeNACK :: "u32 \<Rightarrow> u32 \<Rightarrow> u32 list \<Rightarrow> RangeNACK list" where
  "EncodeRangeNACK senderSSRC mediaSSRC missing =
     (case missing of [] \<Rightarrow> []
      | m # ms \<Rightarrow>
          let (cur, st) = encode_ranges mediaSSRC ms \<lparr>nr_Start = ucast m, nr_Extra = 0\<rparr> (ucast m) ([], []);
              (pkts, ranges) = flushRange mediaSSRC cur st
          in if length ranges > 0 then pkts @ [\<lparr>rn_MediaSSRC = mediaSSRC, rn_Ranges = ranges\<rparr>] else pkts)"

fun nack_pairs :: "u32 list \<Rightarrow> NackPair \<Rightarrow> NackPair list \<Rightarrow> NackPair list" where
  "nack_pairs [] cur pairs = pairs @ [cur]"
| "nack_pairs (m # ms) cur pairs =
     (let s = ucast m; d = s - np_PID cur in
      if d \<ge> 1 \<and> d \<le> 16
      then nack_pairs ms (cur\<lparr>np_BLP := np_BLP cur OR push_bit (unat (d - 1)) 1\<rparr>) pairs
      else nack_pairs ms \<lparr>np_PID = s, np_BLP = 0\<rparr> (pairs @ [cur]))"

definition nackPairsFromSequenceNumbers :: "u32 list \<Rightarrow> NackPair list" where
  "nackPairsFromSequenceNumbers missing =
     (case missing of [] \<Rightarrow> [] | m # ms \<Rightarrow> nack_pairs ms \<lparr>np_PID = ucast m, np_BLP = 0\<rparr> [])"

definition add_pair :: "u32 \<Rightarrow> u32 \<Rightarrow> NackPair \<Rightarrow> BitmaskNACK list \<Rightarrow> BitmaskNACK list" where
  "add_pair senderSSRC mediaSSRC pair pkts =
     (let pkts = (if length pkts = 0 \<or> length (bn_FCIs (last pkts)) = MaxNackRecordsPerPacket
                  then pkts @ [\<lparr>bn_SenderSSRC = senderSSRC, bn_MediaSSRC = mediaSSRC, bn_FCIs = []\<rparr>]
                  else pkts);
          p = last pkts
      in butlast pkts @ [p\<lparr>bn_FCIs := bn_FCIs p @ [pair]\<rparr>])"

definition EncodeBitmaskNACK :: "u32 \<Rightarrow> u32 \<Rightarrow> u32 list \<Rightarrow> BitmaskNACK list" where
  "EncodeBitmaskNACK senderSSRC mediaSSRC missing =
     (if length missing = 0 then []
      else fold (add_pair senderSSRC mediaSSRC) (nackPairsFromSequenceNumbers missing) [])"

section \<open>What expansion yields\<close>

definition range_seqs :: "NackRange \<Rightarrow> u16 list" where
  "range_seqs r = map (\<lambda>i. nr_Start r + of_nat i) [0..<unat (nr_Extra r) + 1]"

definition pair_seqs :: "NackPair \<Rightarrow> u16 list" where
  "pair_seqs f = np_PID f # map (\<lambda>i. np_PID f + of_nat i + 1) (filter (bit (np_BLP f)) [0..<16])"

definition low16 :: "u32 \<Rightarrow> u32" where "low16 m = ucast (ucast m :: u16)"

lemma expand_range_take:
  "expand_range n s appended dst =
     (appended \<le> maxNackExpand \<and> maxNackExpand < appended + n \<or> maxNackExpand < appended \<and> 0 < n,
      (if appended \<le> maxNackExpand then min (appended + n) maxNackExpand else appended),
      dst @ map (\<lambda>i. ucast (s + of_nat i)) [0..<min n (maxNackExpand - appended)])"
proof (induction n s appended dst rule: expand_range.induct)
  case (2 n s appended dst)
  show ?case
  proof (cases "appended \<ge> maxNackExpand")
    case True
    then show ?thesis by auto
  next
    case False
    then have "min (Suc n) (maxNackExpand - appended) = Suc (min n (maxNackExpand - (appended + 1)))" by auto
    moreover have "map (\<lambda>i. ucast (s + of_nat i)) [0..<Suc k] =
        (ucast s :: u32) # map (\<lambda>i. ucast (s + 1 + of_nat i)) [0..<k]" for k
      by (simp add: upt_conv_Cons map_Suc_upt [symmetric] o_def add.assoc del: upt_Suc)
    ultimately show ?thesis using False 2 by auto
  qed
qed simp

lemma expand_ranges_take:
  assumes "appended \<le> maxNackExpand"
  shows "expand_ranges rs appended dst =
    dst @ take (maxNackExpand - appended) (map ucast (concat (map range_seqs rs)))"
  using assms
proof (induction rs arbitrary: appended dst)
  case (Cons r rs)
  let ?n = "unat (nr_Extra r) + 1"
  have seqs: "map ucast (range_seqs r) = map (\<lambda>i. ucast (nr_Start r + of_nat i)) [0..<?n]"
    by (simp add: range_seqs_def)
  show ?case
  proof (cases "appended + ?n \<le> maxNackExpand")
    case True
    then have m: "min ?n (maxNackExpand - appended) = ?n" "min (appended + ?n) maxNackExpand = appended + ?n" by auto
    define xs :: "u32 list" where "xs = map ucast (range_seqs r)"
    have lx: "length xs = ?n" by (simp add: xs_def range_seqs_def)
    have "expand_ranges (r # rs) appended dst = expand_ranges rs (appended + ?n) (dst @ xs)"
      using True Cons.prems unfolding xs_def seqs
      by (simp only: expand_ranges.simps expand_range_take Let_def case_prod_conv m) simp
    moreover have "take (maxNackExpand - appended) (xs @ ys) = xs @ take (maxNackExpand - (appended + ?n)) ys" for ys
      using True by (simp add: lx)
    ultimately show ?thesis
      using Cons.IH [OF True, of "dst @ xs"] by (simp add: xs_def [symmetric])
  next
    case False
    then have m: "min ?n (maxNackExpand - appended) = maxNackExpand - appended" by auto
    have "expand_ranges (r # rs) appended dst =
        dst @ map (\<lambda>i. ucast (nr_Start r + of_nat i) :: u32) [0..<maxNackExpand - appended]"
      using False Cons.prems by (simp only: expand_ranges.simps expand_range_take Let_def case_prod_conv m) simp
    moreover have "take (maxNackExpand - appended) (map ucast (concat (map range_seqs (r # rs)))) =
        take (maxNackExpand - appended) (map (\<lambda>i. ucast (nr_Start r + of_nat i) :: u32) [0..<?n])"
      using False by (simp add: seqs)
    moreover have "\<dots> = map (\<lambda>i. ucast (nr_Start r + of_nat i) :: u32) [0..<maxNackExpand - appended]"
      using False by (simp only: take_map take_upt add_0)
    ultimately show ?thesis by (simp only:)
  qed
qed simp

lemma RangeNACK_MissingSeqs_take:
  "RangeNACK_MissingSeqs p = take 65536 (map ucast (concat (map range_seqs (rn_Ranges p))))"
  by (simp add: RangeNACK_MissingSeqs_def RangeNACK_AppendMissingSeqs_def expand_ranges_take maxNackExpand_def)

lemma expand_bits_small:
  assumes "length dst + length is \<le> maxNackExpand" "\<forall>i\<in>set is. i < 16"
  shows "expand_bits f is dst =
    (False, dst @ map (\<lambda>i. ucast (np_PID f + of_nat i + 1)) (filter (bit (np_BLP f)) is))"
  using assms
proof (induction "is" arbitrary: dst)
  case (Cons i "is")
  then show ?case by (auto simp: and_bit_zero_iff)
qed simp

lemma pair_seqs_length: "length (pair_seqs f) \<le> 17"
  using length_filter_le [of "bit (np_BLP f)" "[0..<16]"] by (simp add: pair_seqs_def)

lemma expand_pairs_small:
  assumes "length dst + 17 * length fs \<le> maxNackExpand"
  shows "expand_pairs fs dst = dst @ map ucast (concat (map pair_seqs fs))"
  using assms
proof (induction fs arbitrary: dst)
  case (Cons f fs)
  define xs :: "u32 list" where "xs = map ucast (pair_seqs f)"
  have lx: "length xs \<le> 17" using pair_seqs_length [of f] by (simp add: xs_def)
  have "expand_bits f [0..<16] (dst @ [ucast (np_PID f)]) = (False, dst @ xs)"
    using Cons.prems by (subst expand_bits_small) (auto simp: xs_def pair_seqs_def)
  then have "expand_pairs (f # fs) dst = expand_pairs fs (dst @ xs)" using Cons.prems by simp
  also have "\<dots> = dst @ xs @ map ucast (concat (map pair_seqs fs))"
    using Cons.IH [of "dst @ xs"] Cons.prems lx by simp
  finally show ?case by (simp add: xs_def)
qed simp

section \<open>Packing is faithful\<close>

definition rn_all :: "RangeNACK list \<Rightarrow> u16 list" where
  "rn_all pkts = concat (map (\<lambda>p. concat (map range_seqs (rn_Ranges p))) pkts)"

definition full_packets :: "u32 \<Rightarrow> RangeNACK list \<Rightarrow> bool" where
  "full_packets mediaSSRC pkts \<longleftrightarrow>
     list_all (\<lambda>p. rn_MediaSSRC p = mediaSSRC \<and> length (rn_Ranges p) \<le> MaxNackRecordsPerPacket) pkts"

definition st_seqs :: "RangeNACK list \<times> NackRange list \<Rightarrow> u16 list" where
  "st_seqs st = rn_all (fst st) @ concat (map range_seqs (snd st))"

definition st_ok :: "u32 \<Rightarrow> RangeNACK list \<times> NackRange list \<Rightarrow> bool" where
  "st_ok mediaSSRC st \<longleftrightarrow> full_packets mediaSSRC (fst st) \<and> length (snd st) < MaxNackRecordsPerPacket"

lemma flushRange_ok:
  assumes "st_ok m st"
  shows "st_ok m (flushRange m cur st)" "st_seqs (flushRange m cur st) = st_seqs st @ range_seqs cur"
  using assms
  by (auto simp: st_ok_def st_seqs_def flushRange_def full_packets_def rn_all_def MaxNackRecordsPerPacket_def
      Let_def split: prod.splits)

lemma range_seqs_extend:
  assumes "nr_Extra cur < 0xFFFF"
  shows "range_seqs (cur\<lparr>nr_Extra := nr_Extra cur + 1\<rparr>) = range_seqs cur @ [nr_Start cur + nr_Extra cur + 1]"
proof -
  have "unat (nr_Extra cur + 1) = unat (nr_Extra cur) + 1"
    using assms by (simp add: unat_word_ariths word_less_nat_alt)
  then show ?thesis by (simp add: range_seqs_def add.assoc)
qed

lemma encode_ranges_seqs:
  assumes "st_ok m st" "prev = nr_Start cur + nr_Extra cur"
    and "encode_ranges m ms cur prev st = (cur', st')"
  shows "st_ok m st' \<and> st_seqs st' @ range_seqs cur' = st_seqs st @ range_seqs cur @ map ucast ms"
  using assms
proof (induction m ms cur prev st rule: encode_ranges.induct)
  case (2 mediaSSRC m ms cur prev st)
  show ?case
  proof (cases "ucast m = prev + 1 \<and> nr_Extra cur < 0xFFFF")
    case True
    then have e: "range_seqs (cur\<lparr>nr_Extra := nr_Extra cur + 1\<rparr>) = range_seqs cur @ [ucast m]"
      using range_seqs_extend [of cur] "2.prems"(2) by simp
    have "st_ok mediaSSRC st' \<and> st_seqs st' @ range_seqs cur' =
        st_seqs st @ range_seqs (cur\<lparr>nr_Extra := nr_Extra cur + 1\<rparr>) @ map ucast ms"
      using True "2.prems" by (intro "2.IH"(1) [OF refl]) (simp_all add: add.assoc)
    then show ?thesis by (simp add: e)
  next
    case False
    have "st_ok mediaSSRC st' \<and> st_seqs st' @ range_seqs cur' =
        st_seqs (flushRange mediaSSRC cur st) @ range_seqs \<lparr>nr_Start = ucast m, nr_Extra = 0\<rparr> @ map ucast ms"
      using False "2.prems" flushRange_ok [of mediaSSRC st cur]
      by (intro "2.IH"(2) [OF refl]) (auto simp: Let_def)
    then show ?thesis
      using flushRange_ok(2) [OF "2.prems"(1), of cur] by (simp add: range_seqs_def)
  qed
qed simp

lemma EncodeRangeNACK_seqs:
  "full_packets m (EncodeRangeNACK s m missing) \<and> rn_all (EncodeRangeNACK s m missing) = map ucast missing"
proof (cases missing)
  case Nil
  then show ?thesis by (simp add: EncodeRangeNACK_def full_packets_def rn_all_def)
next
  case (Cons x xs)
  let ?c = "\<lparr>nr_Start = ucast x, nr_Extra = 0\<rparr>"
  obtain cur st where enc: "encode_ranges m xs ?c (ucast x) ([], []) = (cur, st)" by (cases "encode_ranges m xs ?c (ucast x) ([], [])")
  have init: "st_ok m ([], [])" by (simp add: st_ok_def full_packets_def MaxNackRecordsPerPacket_def)
  have st: "st_ok m st" "st_seqs st @ range_seqs cur = map ucast (x # xs)"
    using encode_ranges_seqs [OF init _ enc] by (simp_all add: st_seqs_def rn_all_def range_seqs_def)
  obtain pkts ranges where fl: "flushRange m cur st = (pkts, ranges)" by (cases "flushRange m cur st")
  have f: "full_packets m pkts" "length ranges < 16" "rn_all pkts @ concat (map range_seqs ranges) = map ucast (x # xs)"
    using flushRange_ok [OF st(1), of cur] fl st(2) by (simp_all add: st_ok_def st_seqs_def MaxNackRecordsPerPacket_def)
  then show ?thesis
    using enc fl by (auto simp: Cons EncodeRangeNACK_def rn_all_def full_packets_def MaxNackRecordsPerPacket_def)
qed

text \<open>A range NACK asks for exactly what is missing.  Packing any list of at most 65536 missing sequence
  numbers into range NACKs and expanding the packets on the other side gives back the low 16 bits of the
  list, in the same order, nothing added and nothing left out, across the wrap at 65535; every packet
  carries the media SSRC and at most sixteen records, so it also survives the wire.\<close>

lemma range_nack_exact:
  assumes "length missing \<le> 65536"
  shows "concat (map RangeNACK_MissingSeqs (EncodeRangeNACK senderSSRC mediaSSRC missing)) = map low16 missing \<and>
    (\<forall>p\<in>set (EncodeRangeNACK senderSSRC mediaSSRC missing).
       rn_MediaSSRC p = mediaSSRC \<and> length (rn_Ranges p) \<le> 16 \<and>
       rtcp_Parse (RangeNACK_AppendTo p []) = Inr (rtcp_MarshalSize (P_Range p), P_Range p))"
proof -
  let ?pkts = "EncodeRangeNACK senderSSRC mediaSSRC missing"
  note enc = EncodeRangeNACK_seqs [of mediaSSRC senderSSRC missing]
  have bound: "length (concat (map range_seqs (rn_Ranges p))) \<le> 65536" if "p \<in> set ?pkts" for p
  proof -
    obtain as bs where "?pkts = as @ p # bs" using split_list [OF \<open>p \<in> set ?pkts\<close>] by blast
    then have "length (concat (map range_seqs (rn_Ranges p))) \<le> length (rn_all ?pkts)"
      by (simp add: rn_all_def)
    then show ?thesis using enc assms by simp
  qed
  have "map RangeNACK_MissingSeqs ?pkts = map (\<lambda>p. map ucast (concat (map range_seqs (rn_Ranges p)))) ?pkts"
    using bound by (simp add: RangeNACK_MissingSeqs_take)
  then have "concat (map RangeNACK_MissingSeqs ?pkts) = map ucast (rn_all ?pkts)"
    by (simp only:) (simp add: rn_all_def map_concat o_def)
  then have "concat (map RangeNACK_MissingSeqs ?pkts) = map low16 missing"
    using enc by (simp add: low16_def)
  moreover have "rn_MediaSSRC p = mediaSSRC \<and> length (rn_Ranges p) \<le> 16" if "p \<in> set ?pkts" for p
    using enc that by (auto simp: full_packets_def list_all_iff MaxNackRecordsPerPacket_def)
  moreover have "rtcp_Parse (RangeNACK_AppendTo p []) = Inr (rtcp_MarshalSize (P_Range p), P_Range p)"
    if "length (rn_Ranges p) \<le> 16" for p
    using that rtcp.dec_exact [of "P_Range p"] by (simp add: RangeNACK_bytes appendHeader_nth appFixedSize_def)
  ultimately show ?thesis by blast
qed

section \<open>Bitmask packing\<close>

lemma set_pair_seqs: "set (pair_seqs f) = insert (np_PID f) {np_PID f + of_nat i + 1 | i. i < 16 \<and> bit (np_BLP f) i}"
  by (auto simp: pair_seqs_def)

lemma pair_seqs_or:
  assumes "1 \<le> s - np_PID cur" "s - np_PID cur \<le> 16"
  shows "set (pair_seqs (cur\<lparr>np_BLP := np_BLP cur OR push_bit (unat (s - np_PID cur - 1)) 1\<rparr>)) =
    insert s (set (pair_seqs cur))"
proof -
  define k where "k = unat (s - np_PID cur - 1)"
  have "unat (s - np_PID cur - 1) = unat (s - np_PID cur) - 1"
    using assms(1) by (simp add: unat_sub)
  then have k: "k < 16" "of_nat k = s - np_PID cur - 1"
    using assms by (simp_all add: k_def word_le_nat_alt)
  have b: "bit (np_BLP cur OR push_bit k 1) i \<longleftrightarrow> bit (np_BLP cur) i \<or> i = k" if "i < 16" for i
    using that by (auto simp: bit_simps)
  have s: "np_PID cur + of_nat k + 1 = s" by (simp add: k)
  have "set (pair_seqs (cur\<lparr>np_BLP := np_BLP cur OR push_bit k 1\<rparr>)) =
      insert (np_PID cur) {np_PID cur + of_nat i + 1 | i. i < 16 \<and> (bit (np_BLP cur) i \<or> i = k)}"
    unfolding set_pair_seqs using b by auto
  also have "\<dots> = insert s (set (pair_seqs cur))"
    unfolding set_pair_seqs using k(1) s by blast
  finally show ?thesis by (simp only: k_def)
qed

lemma nack_pairs_set:
  "set (concat (map pair_seqs (nack_pairs ms cur pairs))) =
     set (concat (map pair_seqs pairs)) \<union> set (pair_seqs cur) \<union> ucast ` set ms"
proof (induction ms cur pairs rule: nack_pairs.induct)
  case (2 m ms cur pairs)
  let ?s = "ucast m :: u16"
  show ?case
  proof (cases "1 \<le> ?s - np_PID cur \<and> ?s - np_PID cur \<le> 16")
    case True
    then show ?thesis
      using "2.IH"(1) [OF refl refl] pair_seqs_or [of ?s cur] by (simp add: Let_def)
  next
    case False
    then show ?thesis
      using "2.IH"(2) [OF refl refl] by (simp add: Let_def set_pair_seqs) blast
  qed
qed auto

lemma concat_map_concat: "concat (map (\<lambda>p. concat (f p)) xs) = concat (concat (map f xs))"
  by (induction xs) simp_all

definition bn_ok :: "u32 \<Rightarrow> u32 \<Rightarrow> BitmaskNACK list \<Rightarrow> bool" where
  "bn_ok s m pkts \<longleftrightarrow>
     list_all (\<lambda>p. bn_SenderSSRC p = s \<and> bn_MediaSSRC p = m \<and> length (bn_FCIs p) \<le> MaxNackRecordsPerPacket) pkts"

lemma add_pair_ok:
  assumes "bn_ok s m pkts"
  shows "bn_ok s m (add_pair s m pair pkts)"
    "concat (map bn_FCIs (add_pair s m pair pkts)) = concat (map bn_FCIs pkts) @ [pair]"
proof -
  consider "pkts = []" | xs x where "pkts = xs @ [x]" by (cases pkts rule: rev_cases) auto
  then have "bn_ok s m (add_pair s m pair pkts) \<and>
    concat (map bn_FCIs (add_pair s m pair pkts)) = concat (map bn_FCIs pkts) @ [pair]"
    using assms by cases (auto simp: add_pair_def bn_ok_def MaxNackRecordsPerPacket_def Let_def butlast_append)
  then show "bn_ok s m (add_pair s m pair pkts)"
    "concat (map bn_FCIs (add_pair s m pair pkts)) = concat (map bn_FCIs pkts) @ [pair]" by auto
qed

lemma fold_add_pair:
  "bn_ok s m pkts \<Longrightarrow> bn_ok s m (fold (add_pair s m) pairs pkts) \<and>
     concat (map bn_FCIs (fold (add_pair s m) pairs pkts)) = concat (map bn_FCIs pkts) @ pairs"
proof (induction pairs arbitrary: pkts)
  case (Cons p ps)
  then show ?case using add_pair_ok [OF Cons.prems, of p] by simp
qed simp

text \<open>A bitmask NACK asks for exactly what is missing.  Packing any list of missing sequence numbers, in
  any order, into bitmask NACKs and expanding the packets gives precisely the set of their low 16 bits,
  across the wrap at 65535; every packet carries both SSRCs and at most sixteen records, so the
  amplification guard never cuts it and it survives the wire.\<close>

lemma bitmask_nack_exact:
  "set (concat (map BitmaskNACK_MissingSeqs (EncodeBitmaskNACK senderSSRC mediaSSRC missing))) = low16 ` set missing \<and>
   list_all (\<lambda>p. bn_SenderSSRC p = senderSSRC \<and> bn_MediaSSRC p = mediaSSRC \<and> length (bn_FCIs p) \<le> 16 \<and>
       rtcp_Parse (BitmaskNACK_AppendTo p []) = Inr (rtcp_MarshalSize (P_Bitmask p), P_Bitmask p))
     (EncodeBitmaskNACK senderSSRC mediaSSRC missing)"
proof -
  let ?pkts = "EncodeBitmaskNACK senderSSRC mediaSSRC missing"
  have enc: "bn_ok senderSSRC mediaSSRC ?pkts \<and> concat (map bn_FCIs ?pkts) = nackPairsFromSequenceNumbers missing"
    using fold_add_pair [of senderSSRC mediaSSRC "[]" "nackPairsFromSequenceNumbers missing"]
    by (simp add: EncodeBitmaskNACK_def bn_ok_def nackPairsFromSequenceNumbers_def)
  have m: "BitmaskNACK_MissingSeqs p = map ucast (concat (map pair_seqs (bn_FCIs p)))" if "p \<in> set ?pkts" for p
    using enc that expand_pairs_small [of "[]" "bn_FCIs p"]
    by (auto simp: BitmaskNACK_MissingSeqs_def BitmaskNACK_AppendMissingSeqs_def bn_ok_def list_all_iff
        MaxNackRecordsPerPacket_def maxNackExpand_def)
  have "concat (map BitmaskNACK_MissingSeqs ?pkts) =
      concat (map (\<lambda>p. map ucast (concat (map pair_seqs (bn_FCIs p)))) ?pkts)"
    using m by (metis (mono_tags, lifting) map_eq_conv)
  also have "\<dots> = map ucast (concat (map pair_seqs (concat (map bn_FCIs ?pkts))))"
    by (simp add: map_concat o_def concat_map_concat)
  also have "\<dots> = map ucast (concat (map pair_seqs (nackPairsFromSequenceNumbers missing)))"
    using enc by simp
  finally have e: "concat (map BitmaskNACK_MissingSeqs ?pkts) =
    map ucast (concat (map pair_seqs (nackPairsFromSequenceNumbers missing)))" .
  have "set (concat (map pair_seqs (nackPairsFromSequenceNumbers missing))) = ucast ` set missing"
    by (cases missing) (auto simp: nackPairsFromSequenceNumbers_def nack_pairs_set set_pair_seqs
        simp del: set_concat)
  then have "set (concat (map BitmaskNACK_MissingSeqs ?pkts)) = low16 ` set missing"
    unfolding e by (simp add: image_image low16_def del: set_concat)
  moreover have "rtcp_Parse (BitmaskNACK_AppendTo p []) = Inr (rtcp_MarshalSize (P_Bitmask p), P_Bitmask p)"
    if "length (bn_FCIs p) \<le> 16" for p
    using that rtcp.dec_exact [of "P_Bitmask p"] by (simp add: BitmaskNACK_bytes appendHeader_nth appFixedSize_def)
  then have "list_all (\<lambda>p. bn_SenderSSRC p = senderSSRC \<and> bn_MediaSSRC p = mediaSSRC \<and> length (bn_FCIs p) \<le> 16 \<and>
       rtcp_Parse (BitmaskNACK_AppendTo p []) = Inr (rtcp_MarshalSize (P_Bitmask p), P_Bitmask p)) ?pkts"
    using enc by (auto simp: bn_ok_def list_all_iff MaxNackRecordsPerPacket_def)
  ultimately show ?thesis by (rule conjI)
qed

end
