(* ===== verification/Rtcp_Compound.thy ===== *)
theory Rtcp_Compound
  imports Rtcp_Nack
begin

text \<open>Compound RTCP datagrams (internal/rtcp/compound.go): the parser, the builder and the ordering rules.
  The ordering check is shown equivalent to a grammar of compounds, and what the builder emits parses
  back to the same packets.\<close>

section \<open>Definitions\<close>

function parse_from :: "bytes \<Rightarrow> rtcp_err + rtcp_Packet list" where
  "parse_from b =
     (if length b = 0 then Inr []
      else case rtcp_Parse b of
        Inl e \<Rightarrow> Inl e
      | Inr (n, pkt) \<Rightarrow>
          (case parse_from (drop n b) of Inl e \<Rightarrow> Inl e | Inr pkts \<Rightarrow> Inr (pkt # pkts)))"
  by pat_completeness auto

termination
proof (relation "measure length")
  show "(drop n b, b) \<in> measure length" if "length b \<noteq> 0" "rtcp_Parse b = Inr nb" "(n, pkt) = nb"
    for b :: bytes and nb n pkt
    using that Parse_inv [of b n pkt] by (auto simp: framed_def)
qed simp

declare parse_from.simps [simp del]

definition ParseCompound :: "bytes \<Rightarrow> rtcp_err + rtcp_Packet list" where
  "ParseCompound b = (if length b = 0 then Inl ErrEmptyCompound else parse_from b)"

definition CompoundMarshalSize :: "rtcp_Packet list \<Rightarrow> nat" where
  "CompoundMarshalSize pkts = fold (\<lambda>p sz. sz + rtcp_MarshalSize p) pkts 0"

fun is_nack :: "rtcp_Packet \<Rightarrow> bool" where
  "is_nack (P_Range _) = True" | "is_nack (P_Bitmask _) = True" | "is_nack _ = False"

definition classFeedback :: nat where "classFeedback = 0"
definition classEcho :: nat where "classEcho = 1"

text \<open>The loop over the packets after the second: the class reached so far and the rest of the list.\<close>

fun check_rest :: "nat \<Rightarrow> rtcp_Packet list \<Rightarrow> rtcp_err option" where
  "check_rest class [] = None"
| "check_rest class (p # ps) =
     (let c = (case p of
                 P_ExtSeq _ \<Rightarrow> if ps = [] \<or> \<not> is_nack (hd ps) then None else Some classFeedback
               | P_Range _ \<Rightarrow> Some classFeedback
               | P_Bitmask _ \<Rightarrow> Some classFeedback
               | P_Raw _ \<Rightarrow> Some classFeedback
               | P_EchoReq _ \<Rightarrow> Some classEcho
               | P_EchoResp _ \<Rightarrow> Some classEcho
               | _ \<Rightarrow> None)
      in case c of None \<Rightarrow> Some ErrCompoundOrder
         | Some c \<Rightarrow> if c < class then Some ErrCompoundOrder else check_rest c ps)"

definition checkCompoundOrder :: "rtcp_Packet list \<Rightarrow> rtcp_err option" where
  "checkCompoundOrder pkts =
     (if length pkts < 2 then Some ErrCompoundOrder
      else case pkts ! 0 of
        P_SR _ \<Rightarrow> (case pkts ! 1 of P_SDES _ \<Rightarrow> check_rest classFeedback (drop 2 pkts) | _ \<Rightarrow> Some ErrCompoundOrder)
      | P_RR _ \<Rightarrow> (case pkts ! 1 of P_SDES _ \<Rightarrow> check_rest classFeedback (drop 2 pkts) | _ \<Rightarrow> Some ErrCompoundOrder)
      | P_EmptyRR _ \<Rightarrow> (case pkts ! 1 of P_SDES _ \<Rightarrow> check_rest classFeedback (drop 2 pkts) | _ \<Rightarrow> Some ErrCompoundOrder)
      | P_LQR _ \<Rightarrow> (case pkts ! 1 of P_SDES _ \<Rightarrow> check_rest classFeedback (drop 2 pkts) | _ \<Rightarrow> Some ErrCompoundOrder)
      | _ \<Rightarrow> Some ErrCompoundOrder)"

definition BuildCompound :: "bytes \<Rightarrow> rtcp_Packet list \<Rightarrow> rtcp_err option \<times> bytes" where
  "BuildCompound buf pkts =
     (case checkCompoundOrder pkts of
        Some e \<Rightarrow> (Some e, buf)
      | None \<Rightarrow> (None, fold rtcp_AppendTo pkts buf))"

section \<open>The grammar of compounds\<close>

fun is_report :: "rtcp_Packet \<Rightarrow> bool" where
  "is_report (P_SR _) = True" | "is_report (P_RR _) = True" | "is_report (P_EmptyRR _) = True"
| "is_report (P_LQR _) = True" | "is_report _ = False"

fun is_echo :: "rtcp_Packet \<Rightarrow> bool" where
  "is_echo (P_EchoReq _) = True" | "is_echo (P_EchoResp _) = True" | "is_echo _ = False"

text \<open>The feedback zone: NACKs, each optionally preceded by its sequence extension, and foreign packets.\<close>

inductive feedback :: "rtcp_Packet list \<Rightarrow> bool" where
  none: "feedback []"
| nack: "is_nack p \<Longrightarrow> feedback ps \<Longrightarrow> feedback (p # ps)"
| ext: "is_nack p \<Longrightarrow> feedback ps \<Longrightarrow> feedback (P_ExtSeq e # p # ps)"
| raw: "feedback ps \<Longrightarrow> feedback (P_Raw r # ps)"

inductive_cases feedback_consE: "feedback (p # ps)"

lemma echoes_check: "check_rest classEcho ps = None \<longleftrightarrow> list_all is_echo ps"
  by (induction ps) (auto simp: Let_def classFeedback_def classEcho_def split: rtcp_Packet.split)

lemma check_rest_echo: "is_echo p \<Longrightarrow> check_rest classFeedback (p # ps) = check_rest classEcho ps"
  by (cases p) (simp_all add: Let_def classFeedback_def classEcho_def)

lemma echoes_check_feedback: "list_all is_echo ps \<Longrightarrow> check_rest classFeedback ps = None"
  by (cases ps) (simp_all add: check_rest_echo echoes_check del: check_rest.simps(2))

lemma check_rest_nack: "is_nack p \<Longrightarrow> check_rest classFeedback (p # ps) = check_rest classFeedback ps"
  by (cases p) (simp_all add: Let_def)

lemma check_rest_ext:
  "check_rest classFeedback (P_ExtSeq e # ps) = None \<longleftrightarrow>
     ps \<noteq> [] \<and> is_nack (hd ps) \<and> check_rest classFeedback ps = None"
  by (simp add: Let_def)

lemma feedback_check:
  assumes "feedback fb" "list_all is_echo es"
  shows "check_rest classFeedback (fb @ es) = None"
  using assms
proof (induction rule: feedback.induct)
  case none
  then show ?case by (simp add: echoes_check_feedback)
next
  case (nack p ps)
  then show ?case by (simp add: check_rest_nack del: check_rest.simps)
next
  case (ext p ps e)
  then show ?case by (simp add: check_rest_nack check_rest_ext del: check_rest.simps)
next
  case (raw ps r)
  then show ?case by (simp add: Let_def)
qed

lemma check_feedback:
  "check_rest classFeedback ps = None \<Longrightarrow> \<exists>fb es. ps = fb @ es \<and> feedback fb \<and> list_all is_echo es"
proof (induction "length ps" arbitrary: ps rule: less_induct)
  case less
  show ?case
  proof (cases ps)
    case Nil
    then show ?thesis using feedback.none by fastforce
  next
    case (Cons p rest)
    consider "is_nack p" | e where "p = P_ExtSeq e" | r where "p = P_Raw r" | "is_echo p"
      using less.prems Cons by (cases p) (auto simp: Let_def)
    then show ?thesis
    proof cases
      case 1
      then have "check_rest classFeedback rest = None" using less.prems Cons check_rest_nack by simp
      then obtain fb es where "rest = fb @ es" "feedback fb" "list_all is_echo es"
        using less.hyps [of rest] Cons by auto
      then show ?thesis
        using feedback.nack [OF 1] Cons by (intro exI [of _ "p # fb"] exI [of _ es]) simp
    next
      case 2
      then obtain q rest' where r: "rest = q # rest'" "is_nack q" "check_rest classFeedback rest = None"
        using less.prems Cons check_rest_ext [of e rest] by (cases rest) auto
      then have "check_rest classFeedback rest' = None" using check_rest_nack by simp
      then obtain fb es where "rest' = fb @ es" "feedback fb" "list_all is_echo es"
        using less.hyps [of rest'] Cons r by auto
      then show ?thesis
        using feedback.ext [OF r(2), of fb e] Cons 2 r(1) by (intro exI [of _ "p # q # fb"] exI [of _ es]) simp
    next
      case 3
      then have "check_rest classFeedback rest = None" using less.prems Cons by (simp add: Let_def)
      then obtain fb es where "rest = fb @ es" "feedback fb" "list_all is_echo es"
        using less.hyps [of rest] Cons by auto
      then show ?thesis
        using feedback.raw [of fb r] Cons 3 by (intro exI [of _ "p # fb"] exI [of _ es]) simp
    next
      case 4
      then have "check_rest classEcho rest = None" using less.prems Cons check_rest_echo by simp
      then show ?thesis
        using 4 Cons feedback.none by (intro exI [of _ "[]"] exI [of _ ps]) (simp add: echoes_check)
    qed
  qed
qed

definition compound :: "rtcp_Packet list \<Rightarrow> bool" where
  "compound pkts \<longleftrightarrow>
     (\<exists>r d fb es. pkts = r # P_SDES d # fb @ es \<and> is_report r \<and> feedback fb \<and> list_all is_echo es)"

lemma compound_check: "checkCompoundOrder pkts = None \<longleftrightarrow> compound pkts"
proof -
  have "checkCompoundOrder pkts = None \<longleftrightarrow>
      (\<exists>r d rest. pkts = r # P_SDES d # rest \<and> is_report r \<and> check_rest classFeedback rest = None)"
  proof (cases "length pkts < 2")
    case True
    then show ?thesis by (auto simp: checkCompoundOrder_def)
  next
    case False
    then obtain p q rest where p: "pkts = p # q # rest" by (cases pkts; cases "tl pkts") auto
    show ?thesis by (cases p; cases q) (simp_all add: checkCompoundOrder_def p)
  qed
  moreover have "check_rest classFeedback rest = None \<longleftrightarrow> (\<exists>fb es. rest = fb @ es \<and> feedback fb \<and> list_all is_echo es)"
    for rest using check_feedback feedback_check by metis
  ultimately show ?thesis unfolding compound_def by (simp only:) metis
qed

lemma check_rest_error: "check_rest c ps = Some e \<Longrightarrow> e = ErrCompoundOrder"
proof (induction ps arbitrary: c)
  case (Cons p ps)
  then show ?case by (cases p) (auto simp: Let_def split: if_splits)
qed simp

lemma check_error:
  assumes "checkCompoundOrder pkts = Some e"
  shows "e = ErrCompoundOrder"
proof (cases "length pkts < 2")
  case True
  then show ?thesis using assms by (simp add: checkCompoundOrder_def)
next
  case False
  then obtain p q rest where p: "pkts = p # q # rest" by (cases pkts; cases "tl pkts") auto
  show ?thesis
    using assms check_rest_error [of classFeedback rest e]
    by (cases p; cases q) (simp_all add: checkCompoundOrder_def p)
qed

lemma fold_AppendTo: "fold rtcp_AppendTo pkts buf = buf @ concat (map (\<lambda>p. rtcp_AppendTo p []) pkts)"
proof (induction pkts arbitrary: buf)
  case (Cons p ps)
  then show ?case by (simp add: rtcp_AppendTo_append [of p buf])
qed simp


lemma parse_from_Nil: "parse_from [] = Inr []"
  by (subst parse_from.simps) simp

lemma parse_from_concat:
  "list_all rtcp_wf pkts \<Longrightarrow> parse_from (concat (map (\<lambda>p. rtcp_AppendTo p []) pkts)) = Inr pkts"
proof (induction pkts)
  case Nil
  show ?case by (simp add: parse_from_Nil)
next
  case (Cons p ps)
  have "framed (rtcp_AppendTo p [])" using Cons.prems by (simp add: rtcp_wf_classify)
  then have ne: "rtcp_AppendTo p [] \<noteq> []" by (auto simp: framed_def)
  then show ?case
    using Cons rtcp.dec_enc [of p "concat (map (\<lambda>p. rtcp_AppendTo p []) ps)"]
    by (subst parse_from.simps) simp
qed

lemma sum_sizes: "CompoundMarshalSize pkts = sum_list (map rtcp_MarshalSize pkts)"
proof -
  have "fold (\<lambda>p sz. sz + rtcp_MarshalSize p) pkts n = n + sum_list (map rtcp_MarshalSize pkts)" for n
    by (induction pkts arbitrary: n) simp_all
  then show ?thesis by (simp add: CompoundMarshalSize_def)
qed

text \<open>A compound datagram survives the wire: when the builder accepts packets that are within their field
  bounds, what it appends parses back to the same packets in the same order, and takes exactly the
  announced size.\<close>

lemma compound_roundtrip:
  assumes "BuildCompound buf pkts = (None, buf')" and "list_all rtcp_wf pkts"
  shows "\<exists>bs. buf' = buf @ bs \<and> ParseCompound bs = Inr pkts \<and> length bs = CompoundMarshalSize pkts"
proof -
  let ?bs = "concat (map (\<lambda>p. rtcp_AppendTo p []) pkts)"
  have b: "compound pkts" "buf' = buf @ ?bs"
    using assms(1) compound_check [of pkts] fold_AppendTo [of pkts buf] by (auto simp: BuildCompound_def split: option.splits)
  have size: "length (rtcp_AppendTo p []) = rtcp_MarshalSize p" if "rtcp_wf p" for p
    using rtcp_size [OF that] .
  then have len: "length ?bs = CompoundMarshalSize pkts"
    unfolding sum_sizes length_concat using assms(2)
    by (induction pkts) simp_all
  have "parse_from ?bs = Inr pkts" by (rule parse_from_concat [OF assms(2)])
  moreover have "?bs \<noteq> []"
  proof
    assume "?bs = []"
    then have "parse_from [] = Inr pkts" using \<open>parse_from ?bs = Inr pkts\<close> by (simp only:)
    then show False using b(1) by (auto simp: compound_def parse_from_Nil)
  qed
  ultimately show ?thesis using b(2) len by (auto simp: ParseCompound_def)
qed

end
