(* ===== verification/Machine.thy ===== *)
theory Machine
  imports Prelude
begin

text \<open>Runs of a step function that takes one input and returns a new state with an output.  The
  stateful components that are driven one call at a time (the reassemblers, the merger, the deletion
  encoder) are run over a whole input list with \<open>accum\<close>.\<close>

primrec accum :: "('s \<Rightarrow> 'i \<Rightarrow> 's \<times> 'o) \<Rightarrow> 's \<Rightarrow> 'i list \<Rightarrow> 's \<times> 'o list" where
  "accum step s [] = (s, [])"
| "accum step s (x # xs) =
     (let (s1, y) = step s x; (s2, ys) = accum step s1 xs in (s2, y # ys))"

lemma accum_append:
  "accum step s (xs @ ys) =
     (let (s1, os) = accum step s xs; (s2, ps) = accum step s1 ys in (s2, os @ ps))"
  by (induction xs arbitrary: s) (auto simp: Let_def split: prod.splits)

lemma accum_snoc:
  "fst (accum step s (xs @ [x])) = fst (step (fst (accum step s xs)) x)"
  "snd (accum step s (xs @ [x])) = snd (accum step s xs) @ [snd (step (fst (accum step s xs)) x)]"
  by (simp_all add: accum_append Let_def split: prod.split)

lemma length_accum [simp]: "length (snd (accum step s xs)) = length xs"
  by (induction xs arbitrary: s) (simp_all add: Let_def split_beta)

lemma nth_accum:
  "i < length xs \<Longrightarrow> snd (accum step s xs) ! i = snd (step (fst (accum step s (take i xs))) (xs ! i))"
  by (induction xs arbitrary: s i) (auto simp: Let_def split_beta nth_Cons split: nat.splits)

text \<open>An invariant relating the inputs seen so far to the state.\<close>

lemma accum_inv:
  assumes init: "I [] s"
    and step: "\<And>h t x. I h t \<Longrightarrow> I (h @ [x]) (fst (step t x))"
  shows "I xs (fst (accum step s xs))"
proof (induction xs rule: rev_induct)
  case Nil
  show ?case by (simp add: init)
next
  case (snoc x xs)
  show ?case using step [OF snoc, of x] by (simp add: accum_snoc)
qed

end
