(* ===== verification/Reassembler.thy ===== *)
theory Reassembler
  imports Wire Machine
begin

text \<open>The payload reassemblers of internal/session/reassembler.go.  \<open>fragReassembler\<close> folds the
  fragments the flow core delivers in order; \<open>fecCtrlReassembler\<close> derives the discontinuity of
  in-band FEC control fragments from their sequence numbers.  The lemmas show that a complete run is
  always reassembled, and that nothing else ever comes out.\<close>

section \<open>Definitions\<close>

record fragReassembler =
  fr_buf :: bytes
  fr_active :: bool
  fr_count :: nat

definition MaxReassemblyFragments :: nat where "MaxReassemblyFragments = 64"

definition frag_zero :: fragReassembler where
  "frag_zero = \<lparr>fr_buf = [], fr_active = False, fr_count = 0\<rparr>"

definition frag_reset :: "fragReassembler \<Rightarrow> fragReassembler" where
  "frag_reset r = r\<lparr>fr_buf := [], fr_active := False, fr_count := 0\<rparr>"

text \<open>\<open>push\<close> returns the completed payload, or \<^const>\<open>None\<close> for the \<open>(nil, false)\<close> of the code.\<close>

definition frag_push ::
  "fragReassembler \<Rightarrow> FragRole \<Rightarrow> bytes \<Rightarrow> bool \<Rightarrow> fragReassembler \<times> bytes option" where
  "frag_push r frag payload discontinuity =
     (case frag of
        FragFirst \<Rightarrow> (r\<lparr>fr_buf := payload, fr_active := True, fr_count := 1\<rparr>, None)
      | FragMiddle \<Rightarrow>
          if \<not> fr_active r \<or> discontinuity \<or> fr_count r \<ge> MaxReassemblyFragments
          then (frag_reset r, None)
          else (r\<lparr>fr_buf := fr_buf r @ payload, fr_count := fr_count r + 1\<rparr>, None)
      | FragLast \<Rightarrow>
          if \<not> fr_active r \<or> discontinuity \<or> fr_count r \<ge> MaxReassemblyFragments
          then (frag_reset r, None)
          else (r\<lparr>fr_buf := fr_buf r @ payload, fr_active := False\<rparr>, Some (fr_buf r @ payload))
      | FragStandalone \<Rightarrow> (frag_reset r, Some payload))"

record fecCtrlReassembler =
  fc_r :: fragReassembler
  fc_lastSeq :: u32
  fc_haveSeq :: bool

definition fecCtrl_zero :: fecCtrlReassembler where
  "fecCtrl_zero = \<lparr>fc_r = frag_zero, fc_lastSeq = 0, fc_haveSeq = False\<rparr>"

definition fecCtrl_push ::
  "fecCtrlReassembler \<Rightarrow> u32 \<Rightarrow> FragRole \<Rightarrow> bytes \<Rightarrow> fecCtrlReassembler \<times> bytes option" where
  "fecCtrl_push f seq role payload =
     (let discontinuity = fc_haveSeq f \<and> seq \<noteq> fc_lastSeq f + 1;
          (r, out) = frag_push (fc_r f) role payload discontinuity
      in (f\<lparr>fc_lastSeq := seq, fc_haveSeq := True, fc_r := r\<rparr>, out))"

section \<open>Runs\<close>

text \<open>A fragment as the flow core delivers it: its role, its bytes and the discontinuity flag.\<close>

type_synonym fragment = "FragRole \<times> bytes \<times> bool"

definition frag_step :: "fragReassembler \<Rightarrow> fragment \<Rightarrow> fragReassembler \<times> bytes option" where
  "frag_step r x = (case x of (role, p, d) \<Rightarrow> frag_push r role p d)"

definition frag_bytes :: "fragment \<Rightarrow> bytes" where "frag_bytes x = fst (snd x)"

text \<open>A complete run: a first fragment, middles and a last one without a gap inside.\<close>

definition middle :: "fragment \<Rightarrow> bool" where
  "middle x \<longleftrightarrow> fst x = FragMiddle \<and> \<not> snd (snd x)"

definition open_run :: "fragment list \<Rightarrow> bool" where
  "open_run xs \<longleftrightarrow>
     (case xs of [] \<Rightarrow> False
      | x # ms \<Rightarrow> fst x = FragFirst \<and> list_all middle ms \<and> length xs \<le> MaxReassemblyFragments)"

definition complete_run :: "fragment list \<Rightarrow> bool" where
  "complete_run xs \<longleftrightarrow>
     xs \<noteq> [] \<and> open_run (butlast xs) \<and> fst (last xs) = FragLast \<and> \<not> snd (snd (last xs)) \<and>
     length xs \<le> MaxReassemblyFragments"

lemma frag_step_simps [simp]:
  "frag_step r (role, p, d) = frag_push r role p d"
  by (simp add: frag_step_def)

lemma open_run_snoc:
  "open_run xs \<Longrightarrow> middle x \<Longrightarrow> length xs < MaxReassemblyFragments \<Longrightarrow> open_run (xs @ [x])"
  by (cases xs) (auto simp: open_run_def)

text \<open>What the state remembers of its history: an active run is a suffix of it.\<close>

definition remembers :: "fragment list \<Rightarrow> fragReassembler \<Rightarrow> bool" where
  "remembers h r \<longleftrightarrow> (fr_active r \<longrightarrow>
     (\<exists>pre run. h = pre @ run \<and> open_run run \<and> fr_buf r = concat (map frag_bytes run) \<and>
        fr_count r = length run))"

lemma remembers_active:
  assumes "remembers h r" "fr_active r"
  obtains pre run where "h = pre @ run" "open_run run" "fr_buf r = concat (map frag_bytes run)"
    "fr_count r = length run"
  using assms by (auto simp: remembers_def)

lemma remembers_step:
  assumes R: "remembers h r"
  shows "remembers (h @ [x]) (fst (frag_step r x))"
proof (cases x)
  case [simp]: (fields role p d)
  consider "role = FragFirst" | "role = FragMiddle" "fr_active r" "\<not> d" "fr_count r < MaxReassemblyFragments"
    | "\<not> fr_active (fst (frag_step r x))"
    by (cases role; cases "\<not> fr_active r \<or> d \<or> fr_count r \<ge> MaxReassemblyFragments")
       (auto simp: frag_push_def frag_reset_def not_le)
  then show ?thesis
  proof cases
    case 1
    then have "h @ [x] = h @ [x] \<and> open_run [x]"
      by (simp add: open_run_def MaxReassemblyFragments_def)
    then show ?thesis
      using 1 unfolding remembers_def
      by (intro impI exI [of _ h] exI [of _ "[x]"]) (simp add: frag_push_def frag_bytes_def)
  next
    case 2
    obtain pre run where run: "h = pre @ run" "open_run run" "fr_buf r = concat (map frag_bytes run)"
      "fr_count r = length run"
      using remembers_active [OF R 2(2)] .
    have "open_run (run @ [x])"
      using open_run_snoc [of run x] run 2 by (simp add: middle_def)
    then show ?thesis
      using 2 run unfolding remembers_def
      by (intro impI exI [of _ pre] exI [of _ "run @ [x]"]) (simp add: frag_push_def frag_bytes_def)
  next
    case 3
    then show ?thesis by (simp add: remembers_def)
  qed
qed

lemma remembers_run: "remembers h (fst (accum frag_step frag_zero h))"
  by (rule accum_inv [where I = remembers, OF _ remembers_step]) (simp_all add: remembers_def frag_zero_def)

lemma frag_push_some:
  assumes "snd (frag_push r role p d) = Some out"
  shows "role = FragStandalone \<and> out = p \<or>
    role = FragLast \<and> \<not> d \<and> fr_active r \<and> fr_count r < MaxReassemblyFragments \<and> out = fr_buf r @ p"
  using assms by (cases role) (auto simp: frag_push_def split: if_splits)

lemma remembers_sound:
  assumes R: "remembers h r" and out: "snd (frag_step r x) = Some out"
  shows "fst x = FragStandalone \<and> out = frag_bytes x \<or>
    (\<exists>pre run. h @ [x] = pre @ run \<and> complete_run run \<and> out = concat (map frag_bytes run))"
proof (cases x)
  case [simp]: (fields role p d)
  consider "role = FragStandalone" "out = p"
    | "role = FragLast" "\<not> d" "fr_active r" "fr_count r < MaxReassemblyFragments" "out = fr_buf r @ p"
    using frag_push_some [of r role p d out] out by auto
  then show ?thesis
  proof cases
    case 1
    then show ?thesis by (simp add: frag_bytes_def)
  next
    case 2
    obtain pre run where "h = pre @ run" "open_run run" "fr_buf r = concat (map frag_bytes run)"
      "fr_count r = length run"
      using remembers_active [OF R 2(3)] .
    then show ?thesis
      using 2 by (intro disjI2 exI [of _ pre] exI [of _ "run @ [x]"])
        (simp add: complete_run_def frag_bytes_def)
  qed
qed

text \<open>The converse: a complete run comes out whole, whatever happened before it.\<close>

lemma frag_open_run:
  assumes "open_run run"
  shows "fr_active (fst (accum frag_step r run)) \<and>
    fr_buf (fst (accum frag_step r run)) = concat (map frag_bytes run) \<and>
    fr_count (fst (accum frag_step r run)) = length run \<and>
    snd (accum frag_step r run) = replicate (length run) None"
  using assms
proof (induction run rule: rev_induct)
  case Nil
  then show ?case by (simp add: open_run_def)
next
  case (snoc x xs)
  show ?case
  proof (cases "xs = []")
    case True
    then show ?thesis
      using snoc.prems by (cases x) (simp add: open_run_def frag_push_def frag_bytes_def)
  next
    case False
    then have x: "open_run xs" "middle x" "length xs < MaxReassemblyFragments"
      using snoc.prems by (auto simp: open_run_def neq_Nil_conv)
    note IH = snoc.IH [OF x(1)]
    obtain p where "x = (FragMiddle, p, False)"
      using x(2) by (cases x) (auto simp: middle_def)
    then show ?thesis
      using IH x(3) by (simp add: accum_snoc frag_push_def frag_bytes_def replicate_append_same)
  qed
qed

lemma frag_complete_run:
  assumes "complete_run run"
  shows "snd (accum frag_step r run) =
    replicate (length run - 1) None @ [Some (concat (map frag_bytes run))]"
proof -
  obtain xs p where run: "run = xs @ [(FragLast, p, False)]" "open_run xs"
      "length xs < MaxReassemblyFragments"
    using assms unfolding complete_run_def
    by (cases run rule: rev_cases) (auto simp: Suc_le_eq)
  then show ?thesis
    using frag_open_run [OF run(2), of r] by (simp add: accum_snoc frag_push_def frag_bytes_def)
qed

text \<open>C37: The reassembler returns a payload in two cases only.  Over any sequence of delivered
  fragments, the output of a push is the pushed payload itself when it is unfragmented, or the
  concatenation of a complete run that ends with this push: a first fragment, middle fragments and a
  last fragment, delivered back to back with no discontinuity after the first, at most 64 of them.
  A run with a lost fragment, a fragment of another payload, or an over-long run never comes out.\<close>

theorem reassembler_sound:
  assumes "i < length h"
    and "snd (accum frag_step frag_zero h) ! i = Some out"
  shows "fst (h ! i) = FragStandalone \<and> out = frag_bytes (h ! i) \<or>
    (\<exists>pre run. take (Suc i) h = pre @ run \<and> complete_run run \<and> out = concat (map frag_bytes run))"
  using remembers_sound [OF remembers_run, of "take i h" "h ! i" out] assms
  by (simp add: nth_accum take_Suc_conv_app_nth)

theorem reassembler_sound_witness:
  "\<exists>pre run. take 3 [(FragMiddle, [9], False), (FragFirst, [1, 2], True), (FragLast, [3], False)] = pre @ run
     \<and> complete_run run \<and> [1, 2, 3] = concat (map frag_bytes run)"
  using reassembler_sound [of 2 "[(FragMiddle, [9], False), (FragFirst, [1, 2], True), (FragLast, [3], False)]"
      "[1, 2, 3]"]
  by (simp add: frag_push_def frag_zero_def frag_reset_def MaxReassemblyFragments_def Let_def)

section \<open>FEC control messages\<close>

text \<open>A FEC control fragment carries its own sequence number instead of a discontinuity flag.\<close>

type_synonym fec_fragment = "u32 \<times> FragRole \<times> bytes"

definition fecCtrl_step :: "fecCtrlReassembler \<Rightarrow> fec_fragment \<Rightarrow> fecCtrlReassembler \<times> bytes option" where
  "fecCtrl_step f x = (case x of (seq, role, p) \<Rightarrow> fecCtrl_push f seq role p)"

text \<open>The flow-core view of a FEC fragment sequence, with the gaps made explicit.\<close>

fun with_gaps :: "u32 option \<Rightarrow> fec_fragment list \<Rightarrow> fragment list" where
  "with_gaps prev [] = []"
| "with_gaps prev ((seq, role, p) # xs) =
     (role, p, (case prev of None \<Rightarrow> False | Some s \<Rightarrow> seq \<noteq> s + 1)) # with_gaps (Some seq) xs"

definition consecutive :: "fec_fragment list \<Rightarrow> bool" where
  "consecutive xs \<longleftrightarrow> (\<forall>i. Suc i < length xs \<longrightarrow> fst (xs ! Suc i) = fst (xs ! i) + 1)"

definition fec_prev :: "fecCtrlReassembler \<Rightarrow> u32 option" where
  "fec_prev f = (if fc_haveSeq f then Some (fc_lastSeq f) else None)"

lemma fecCtrl_run:
  "snd (accum fecCtrl_step f xs) = snd (accum frag_step (fc_r f) (with_gaps (fec_prev f) xs))"
proof (induction xs arbitrary: f)
  case (Cons x xs)
  obtain seq role p where x: "x = (seq, role, p)" by (cases x)
  let ?f = "fst (fecCtrl_push f seq role p)"
  have "fec_prev ?f = Some seq" by (simp add: fecCtrl_push_def fec_prev_def Let_def split_beta)
  then show ?case
    using Cons [of ?f]
    by (simp add: x fecCtrl_step_def Let_def split_beta)
       (simp add: fecCtrl_push_def fec_prev_def Let_def split_beta)
qed simp

lemma length_with_gaps [simp]: "length (with_gaps prev xs) = length xs"
  by (induction prev xs rule: with_gaps.induct) simp_all

lemma with_gaps_flag:
  "Suc i < length xs \<Longrightarrow> snd (snd (with_gaps prev xs ! Suc i)) \<longleftrightarrow> fst (xs ! Suc i) \<noteq> fst (xs ! i) + 1"
proof (induction prev xs arbitrary: i rule: with_gaps.induct)
  case (2 prev seq role p xs)
  show ?case
  proof (cases i)
    case 0
    then show ?thesis using "2.prems" by (cases xs) auto
  next
    case (Suc j)
    then show ?thesis using "2.IH" [of j] "2.prems" by simp
  qed
qed simp

lemma with_gaps_roles: "map fst (with_gaps prev xs) = map (fst \<circ> snd) xs"
  by (induction prev xs rule: with_gaps.induct) simp_all

lemma with_gaps_bytes: "map frag_bytes (with_gaps prev xs) = map (snd \<circ> snd) xs"
  by (induction prev xs rule: with_gaps.induct) (simp_all add: frag_bytes_def)

lemma complete_run_shape:
  assumes "complete_run run"
  obtains k where "map fst run = FragFirst # replicate k FragMiddle @ [FragLast]"
    "list_all (\<lambda>z. \<not> snd (snd z)) (tl run)" "length run \<le> MaxReassemblyFragments"
proof -
  obtain x ms y where run: "run = (x # ms) @ [y]" "fst x = FragFirst" "list_all middle ms"
      "fst y = FragLast" "\<not> snd (snd y)" "length run \<le> MaxReassemblyFragments"
    using assms by (cases run rule: rev_cases)
      (auto simp: complete_run_def open_run_def split: list.splits)
  then have "map fst ms = replicate (length ms) FragMiddle"
    by (auto simp: list_all_iff middle_def intro!: nth_equalityI)
  then have "map fst run = FragFirst # replicate (length ms) FragMiddle @ [FragLast]"
    using run by simp
  moreover have "list_all (\<lambda>z. \<not> snd (snd z)) (tl run)"
    using run by (auto simp: list_all_iff middle_def)
  ultimately show thesis using run(6) by (rule that)
qed

text \<open>In-band FEC control messages are never folded together.  A message the FEC control reassembler
  returns is either an unfragmented control payload or the concatenation of at most 64 fragments that
  arrived back to back with consecutive sequence numbers (modulo 2^32), marked first, middle, ...,
  middle, last, and ending with the fragment just pushed.\<close>

theorem fecCtrl_sound:
  assumes "i < length h"
    and "snd (accum fecCtrl_step fecCtrl_zero h) ! i = Some out"
  shows "fst (snd (h ! i)) = FragStandalone \<and> out = snd (snd (h ! i)) \<or>
    (\<exists>pre run k. take (Suc i) h = pre @ run \<and> consecutive run \<and>
       map (fst \<circ> snd) run = FragFirst # replicate k FragMiddle @ [FragLast] \<and>
       length run \<le> 64 \<and> out = concat (map (snd \<circ> snd) run))"
proof -
  let ?g = "with_gaps None h"
  have len: "i < length ?g" using assms by simp
  have "snd (accum frag_step frag_zero ?g) ! i = Some out"
    using assms(2) by (simp add: fecCtrl_run fecCtrl_zero_def fec_prev_def)
  then have "snd (frag_step (fst (accum frag_step frag_zero (take i ?g))) (?g ! i)) = Some out"
    using len by (simp only: nth_accum)
  from remembers_sound [OF remembers_run this]
  consider "fst (?g ! i) = FragStandalone" "out = frag_bytes (?g ! i)"
    | pre run where "take (Suc i) ?g = pre @ run" "complete_run run" "out = concat (map frag_bytes run)"
    using len by (auto simp: take_Suc_conv_app_nth)
  then show ?thesis
  proof cases
    case 1
    have "map fst ?g ! i = map (fst \<circ> snd) h ! i" "map frag_bytes ?g ! i = map (snd \<circ> snd) h ! i"
      by (simp_all add: with_gaps_roles with_gaps_bytes)
    then show ?thesis using 1 assms(1) by simp
  next
    case 2
    obtain k where k: "map fst run = FragFirst # replicate k FragMiddle @ [FragLast]"
      "list_all (\<lambda>z. \<not> snd (snd z)) (tl run)" "length run \<le> MaxReassemblyFragments"
      using complete_run_shape [OF 2(2)] .
    let ?n = "length pre" and ?run = "drop (length pre) (take (Suc i) h)"
    have n: "?n + length run = Suc i" using 2(1) len by (metis Suc_leI length_append length_take min.absorb2)
    have run: "run = drop ?n (take (Suc i) ?g)" using 2(1) by simp
    have same: "map fst run = map (fst \<circ> snd) ?run" "map frag_bytes run = map (snd \<circ> snd) ?run"
      unfolding run by (simp_all only: drop_map [symmetric] take_map [symmetric] with_gaps_roles with_gaps_bytes)
    have "consecutive ?run"
      unfolding consecutive_def
    proof (intro allI impI)
      fix j assume j: "Suc j < length ?run"
      then have jl: "Suc (?n + j) < Suc i" "Suc j < length run" using n assms(1) by simp_all
      have "\<not> snd (snd (tl run ! j))"
        using k(2) jl(2) by (auto simp: list_all_length)
      then have "\<not> snd (snd (?g ! Suc (?n + j)))"
        using jl by (simp add: run nth_tl)
      then show "fst (?run ! Suc j) = fst (?run ! j) + 1"
        using with_gaps_flag [of "?n + j" h None] jl assms(1) by simp
    qed
    moreover obtain pre' where "take (Suc i) h = pre' @ ?run" by (metis append_take_drop_id)
    ultimately show ?thesis
      using k(1,3) 2(3) same n assms(1)
      by (intro disjI2 exI [of _ pre'] exI [of _ ?run] exI [of _ k])
         (simp add: MaxReassemblyFragments_def)
  qed
qed

theorem fecCtrl_sound_witness:
  "\<exists>pre run k. take (Suc (Suc 0)) [(- 1, FragFirst, [1, 2]), (0, FragLast, [3])] = pre @ run \<and> consecutive run \<and>
     map (fst \<circ> snd) run = FragFirst # replicate k FragMiddle @ [FragLast] \<and>
     length run \<le> 64 \<and> [1, 2, 3] = concat (map (snd \<circ> snd) run)"
  using fecCtrl_sound [of "Suc 0" "[(- 1, FragFirst, [1, 2]), (0, FragLast, [3])]" "[1, 2, 3]"]
  by (simp add: fecCtrl_step_def fecCtrl_push_def fecCtrl_zero_def frag_push_def frag_zero_def
      MaxReassemblyFragments_def Let_def)

end
