(* ===== verification/Split.thy ===== *)
theory Split
  imports Machine
begin

text \<open>The packet split and merge bonding modes of internal/split/split.go.  The split point and the
  pairing predicate are translated with the send-side split and the receive-side merge state machine.
  The merger is shown to compute the greedy pairing of its input, which conserves every payload byte,
  and to undo the split.\<close>

unbundle bit_operations_syntax

section \<open>Definitions\<close>

definition tsPacketLen :: nat where "tsPacketLen = 188"
definition tsSyncByte :: u8 where "tsSyncByte = 0x47"

datatype SplitMode = SplitOff | SplitAuto | SplitHalf
datatype MergeMode = MergeOff | MergePairs | MergeAuto

text \<open>\<^const>\<open>None\<close> is the \<open>ok = false\<close> return.\<close>

definition SplitPoint :: "SplitMode \<Rightarrow> bytes \<Rightarrow> (nat \<times> nat) option" where
  "SplitPoint mode payload =
     (let n = length payload in
      if mode = SplitOff \<or> n < 2 then None
      else
        let first =
          (if mode = SplitAuto \<and> n \<ge> 2 * tsPacketLen \<and> n mod tsPacketLen = 0 \<and> payload ! 0 = tsSyncByte
           then let tsCount = n div tsPacketLen;
                    f = tsCount div 2;
                    f = (if f = 0 then 1 else f)
                in f * tsPacketLen
           else n div 2)
        in Some (first, n - first))"

definition IsSplitPair :: "u32 \<Rightarrow> u64 \<Rightarrow> u32 \<Rightarrow> u64 \<Rightarrow> bool" where
  "IsSplitPair firstSeq firstSrc secondSeq secondSrc \<longleftrightarrow>
     firstSeq AND 1 = 0 \<and> secondSeq = firstSeq + 1 \<and> firstSrc = secondSrc"

definition SplitPayload :: "SplitMode \<Rightarrow> bytes \<Rightarrow> bytes \<times> bytes \<times> bool" where
  "SplitPayload mode payload =
     (if mode = SplitOff \<or> length payload = 0 then (payload, [], False)
      else let cut = (case SplitPoint mode payload of None \<Rightarrow> 0 | Some (first, _) \<Rightarrow> first)
           in (take cut payload, drop cut payload, True))"

record Merger =
  mg_mode :: MergeMode
  mg_autoEnabled :: bool
  mg_hasHeld :: bool
  mg_heldSeq :: u32
  mg_heldSrc :: u64
  mg_heldPayload :: bytes

definition NewMerger :: "MergeMode \<Rightarrow> Merger" where
  "NewMerger mode = \<lparr>mg_mode = mode, mg_autoEnabled = False, mg_hasHeld = False, mg_heldSeq = 0,
     mg_heldSrc = 0, mg_heldPayload = []\<rparr>"

definition SetAutoEnabled :: "bool \<Rightarrow> Merger \<Rightarrow> Merger" where
  "SetAutoEnabled on m = m\<lparr>mg_autoEnabled := on\<rparr>"

definition merger_active :: "Merger \<Rightarrow> bool" where
  "merger_active m =
     (case mg_mode m of MergePairs \<Rightarrow> True | MergeAuto \<Rightarrow> mg_autoEnabled m | MergeOff \<Rightarrow> False)"

definition clearHeld :: "Merger \<Rightarrow> Merger" where
  "clearHeld m = m\<lparr>mg_hasHeld := False, mg_heldPayload := []\<rparr>"

definition merger_fresh :: "Merger \<Rightarrow> u32 \<Rightarrow> u64 \<Rightarrow> bytes \<Rightarrow> Merger \<times> bytes list" where
  "merger_fresh m seq srcTime payload =
     (if seq AND 1 = 0
      then (m\<lparr>mg_hasHeld := True, mg_heldSeq := seq, mg_heldSrc := srcTime, mg_heldPayload := payload\<rparr>, [])
      else (m, [payload]))"

definition merger_Deliver :: "Merger \<Rightarrow> u32 \<Rightarrow> u64 \<Rightarrow> bytes \<Rightarrow> bool \<Rightarrow> Merger \<times> bytes list" where
  "merger_Deliver m seq srcTime payload discontinuity =
     (if \<not> merger_active m then (m, [payload])
      else if mg_hasHeld m then
        if \<not> discontinuity \<and> IsSplitPair (mg_heldSeq m) (mg_heldSrc m) seq srcTime
        then (clearHeld m, [mg_heldPayload m @ payload])
        else let orphan = mg_heldPayload m;
                 (m, out) = merger_fresh (clearHeld m) seq srcTime payload
             in (m, [orphan] @ out)
      else merger_fresh m seq srcTime payload)"

section \<open>The split\<close>

lemma SplitPoint_sum:
  assumes "SplitPoint mode p = Some (first, rest)"
  shows "first + rest = length p" "0 < first" "0 < rest"
proof -
  have n: "2 \<le> length p" "mode \<noteq> SplitOff"
    and rest: "rest = length p - first"
    using assms by (auto simp: SplitPoint_def Let_def split: if_splits)
  have "0 < first \<and> first < length p"
  proof (cases "mode = SplitAuto \<and> length p \<ge> 2 * tsPacketLen \<and> length p mod tsPacketLen = 0 \<and> p ! 0 = tsSyncByte")
    case True
    obtain k where k: "length p = k * 188" using True by (auto simp: tsPacketLen_def)
    then have "2 \<le> k" using True by (simp add: tsPacketLen_def)
    then have "0 < k div 2 * 188 \<and> k div 2 * 188 < k * 188" by auto
    moreover have "first = k div 2 * 188"
      using assms True n k \<open>2 \<le> k\<close> by (auto simp: SplitPoint_def Let_def tsPacketLen_def)
    ultimately show ?thesis using k by simp
  next
    case False
    then have "first = length p div 2"
      using assms n by (auto simp: SplitPoint_def Let_def split: if_splits)
    then show ?thesis using n by simp
  qed
  then show "first + rest = length p" "0 < first" "0 < rest" using rest by simp_all
qed

lemma SplitPayload_concat:
  "SplitPayload mode p = (first, rest, ok) \<Longrightarrow> first @ rest = p"
  by (auto simp: SplitPayload_def Let_def split: if_splits)

text \<open>Splitting loses nothing and halves fairly.  When splitting is on and the payload has at least
  two bytes, both halves are non-empty and concatenate to the payload; under automatic splitting of an
  aligned MPEG-TS payload the cut falls on a 188-byte packet boundary, and otherwise the halves differ by
  at most one byte.\<close>

theorem SplitPayload_halves:
  assumes "mode \<noteq> SplitOff" and "2 \<le> length p"
  shows "\<exists>first rest. SplitPayload mode p = (first, rest, True) \<and> first @ rest = p \<and>
    first \<noteq> [] \<and> rest \<noteq> [] \<and>
    (if mode = SplitAuto \<and> 376 \<le> length p \<and> length p mod 188 = 0 \<and> p ! 0 = 0x47
     then length first mod 188 = 0 \<and> length rest mod 188 = 0 \<and>
          (length rest = length first \<or> length rest = length first + 188)
     else length rest = length first \<or> length rest = length first + 1)"
proof -
  obtain a b where ab: "SplitPoint mode p = Some (a, b)"
    using assms by (auto simp: SplitPoint_def Let_def)
  note sum = SplitPoint_sum [OF ab]
  have pay: "SplitPayload mode p = (take a p, drop a p, True)"
    using assms ab by (auto simp: SplitPayload_def)
  have len: "length (take a p) = a" "length (drop a p) = length p - a"
    using sum by simp_all
  have ne: "take a p \<noteq> []" "drop a p \<noteq> []" using sum by auto
  show ?thesis
  proof (cases "mode = SplitAuto \<and> 376 \<le> length p \<and> length p mod 188 = 0 \<and> p ! 0 = 0x47")
    case True
    then obtain k where k: "length p = k * 188" "2 \<le> k" by auto
    have "a = k div 2 * 188"
      using ab True k by (auto simp: SplitPoint_def Let_def tsPacketLen_def tsSyncByte_def)
    moreover have "k * 188 - k div 2 * 188 = (k - k div 2) * 188" by (simp add: diff_mult_distrib)
    moreover have "k - k div 2 = k div 2 \<or> k - k div 2 = k div 2 + 1" by arith
    ultimately show ?thesis
      using True pay ne len k by auto
  next
    case False
    then have "a = length p div 2"
      using ab by (auto simp: SplitPoint_def Let_def tsPacketLen_def tsSyncByte_def split: if_splits)
    moreover have "length p - length p div 2 = length p div 2 \<or>
        length p - length p div 2 = length p div 2 + 1" by arith
    ultimately show ?thesis using False pay ne len by auto
  qed
qed

theorem SplitPayload_halves_witness:
  "\<exists>first rest. SplitPayload SplitHalf [1, 2, 3] = (first, rest, True) \<and> first @ rest = [1, 2, 3] \<and>
    first \<noteq> [] \<and> rest \<noteq> [] \<and> (length rest = length first \<or> length rest = length first + 1)"
  using SplitPayload_halves [of SplitHalf "[1, 2, 3]"] by simp

section \<open>The merge\<close>

text \<open>A delivery: sequence number, source time, payload and the discontinuity flag.\<close>

type_synonym delivery = "u32 \<times> u64 \<times> bytes \<times> bool"

definition merger_step :: "Merger \<Rightarrow> delivery \<Rightarrow> Merger \<times> bytes list" where
  "merger_step m x = (case x of (seq, src, p, d) \<Rightarrow> merger_Deliver m seq src p d)"

definition dl_bytes :: "delivery \<Rightarrow> bytes" where "dl_bytes x = fst (snd (snd x))"

definition paired :: "delivery \<Rightarrow> delivery \<Rightarrow> bool" where
  "paired x y \<longleftrightarrow> \<not> snd (snd (snd y)) \<and> IsSplitPair (fst x) (fst (snd x)) (fst y) (fst (snd y))"

text \<open>The specification: pair greedily from the left, keep everything else as it is.\<close>

fun pair_up :: "delivery list \<Rightarrow> bytes list" where
  "pair_up [] = []"
| "pair_up [x] = [dl_bytes x]"
| "pair_up (x # y # r) =
     (if paired x y then (dl_bytes x @ dl_bytes y) # pair_up r else dl_bytes x # pair_up (y # r))"

lemma pair_up_bytes: "concat (pair_up xs) = concat (map dl_bytes xs)"
  by (induction xs rule: pair_up.induct) auto

definition held :: "Merger \<Rightarrow> delivery list" where
  "held m = (if mg_hasHeld m then [(mg_heldSeq m, mg_heldSrc m, mg_heldPayload m, False)] else [])"

lemma merger_active_update [simp]:
  "merger_active (m\<lparr>mg_hasHeld := a\<rparr>) = merger_active m"
  "merger_active (m\<lparr>mg_heldSeq := b\<rparr>) = merger_active m"
  "merger_active (m\<lparr>mg_heldSrc := c\<rparr>) = merger_active m"
  "merger_active (m\<lparr>mg_heldPayload := d\<rparr>) = merger_active m"
  by (simp_all add: merger_active_def split: MergeMode.splits)

lemma merger_step_active [simp]: "merger_active (fst (merger_step m x)) = merger_active m"
  by (cases x) (simp add: merger_step_def merger_Deliver_def merger_fresh_def clearHeld_def Let_def)

text \<open>One delivery, with the held half put back in front of the input.\<close>

lemma pair_up_odd:
  "fst x AND 1 \<noteq> 0 \<Longrightarrow> pair_up (x # xs) = dl_bytes x # pair_up xs"
  by (cases xs) (simp_all add: paired_def IsSplitPair_def)

lemma pair_up_cong:
  assumes "fst x = fst y" "fst (snd x) = fst (snd y)" "dl_bytes x = dl_bytes y"
  shows "pair_up (x # r) = pair_up (y # r)"
  using assms by (cases r) (simp_all add: paired_def)

lemma merger_fresh_pairs:
  assumes "\<not> mg_hasHeld m"
  shows "pair_up ((seq, src, p, d) # xs) =
    snd (merger_fresh m seq src p) @ pair_up (held (fst (merger_fresh m seq src p)) @ xs)"
proof (cases "seq AND 1 = 0")
  case True
  then show ?thesis
    by (simp add: merger_fresh_def held_def pair_up_cong [of "(seq, src, p, d)" "(seq, src, p, False)"] dl_bytes_def)
next
  case False
  then show ?thesis
    using assms pair_up_odd [of "(seq, src, p, d)" xs] by (simp add: merger_fresh_def held_def dl_bytes_def)
qed

lemma merger_step_pairs:
  assumes act: "merger_active m"
  shows "pair_up (held m @ x # xs) =
    snd (merger_step m x) @ pair_up (held (fst (merger_step m x)) @ xs)"
proof (cases x)
  case (fields seq src p d)
  let ?h = "(mg_heldSeq m, mg_heldSrc m, mg_heldPayload m, False)"
  consider "\<not> mg_hasHeld m" | "mg_hasHeld m" "paired ?h x" | "mg_hasHeld m" "\<not> paired ?h x" by blast
  then show ?thesis
  proof cases
    case 1
    then show ?thesis
      using act merger_fresh_pairs [of m seq src p d xs]
      by (simp add: fields merger_step_def merger_Deliver_def held_def)
  next
    case 2
    then show ?thesis
      using act by (simp add: fields merger_step_def merger_Deliver_def held_def paired_def dl_bytes_def clearHeld_def)
  next
    case 3
    let ?f = "merger_fresh (clearHeld m) seq src p"
    have "merger_step m x = (fst ?f, mg_heldPayload m # snd ?f)"
      using act 3 by (auto simp: fields merger_step_def merger_Deliver_def paired_def Let_def split_beta)
    moreover have "held m = [?h]" "\<not> mg_hasHeld (clearHeld m)"
      using 3 by (simp_all add: held_def clearHeld_def)
    moreover have "dl_bytes ?h = mg_heldPayload m" by (simp add: dl_bytes_def)
    ultimately show ?thesis
      using 3 merger_fresh_pairs [of "clearHeld m" seq src p d xs] by (simp add: fields)
  qed
qed

lemma merger_run_pairs:
  assumes "merger_active m"
  shows "pair_up (held m @ xs) =
    concat (snd (accum merger_step m xs)) @ map dl_bytes (held (fst (accum merger_step m xs)))"
  using assms
proof (induction xs arbitrary: m)
  case Nil
  show ?case by (simp add: held_def)
next
  case (Cons x xs)
  then show ?case
    using merger_step_pairs [OF Cons.prems, of x xs] by (simp add: Let_def split_beta)
qed

text \<open>C38: The merge state machine computes the greedy pairing of what was delivered.  With merging on, the
  payloads handed on by any sequence of deliveries, followed by the first half still held, are exactly
  the deliveries (after the half held before) paired from the left: an even sequence number with the next one, of equal source time
  and with no gap between, becomes one payload, and every other delivery stays as it is.  Hence no byte
  is lost, duplicated or reordered.\<close>

theorem merger_pairs_greedily:
  assumes "merger_active m0"
  shows "let (m, outs) = accum merger_step m0 xs in
    concat outs @ map dl_bytes (held m) = pair_up (held m0 @ xs) \<and>
    concat (concat outs) @ concat (map dl_bytes (held m)) = concat (map dl_bytes (held m0 @ xs))"
proof -
  note pairs = merger_run_pairs [OF assms, of xs]
  have "concat (pair_up (held m0 @ xs)) = concat (map dl_bytes (held m0 @ xs))" by (rule pair_up_bytes)
  then show ?thesis using pairs by (simp add: Let_def split_beta)
qed

theorem merger_pairs_greedily_witness:
  "let (m, outs) = accum merger_step (NewMerger MergePairs)
       [(4, 7, [1], False), (5, 7, [2], False), (6, 8, [3], False), (8, 9, [4], True)] in
    concat outs @ map dl_bytes (held m) = [[1, 2], [3], [4]]"
  using merger_pairs_greedily [of "NewMerger MergePairs"
      "[(4, 7, [1], False), (5, 7, [2], False), (6, 8, [3], False), (8, 9, [4], True)]"]
  by (simp add: Let_def split_beta paired_def IsSplitPair_def dl_bytes_def merger_active_def NewMerger_def held_def)

text \<open>A change of the automatic mode while a half is held leaves the half behind: it comes out after later
  payloads.  The keepalive L bit of the peer drives \<open>SetAutoEnabled\<close>, so two keepalives suffice.\<close>

lemma merge_auto_toggle_reorders:
  "let m0 = SetAutoEnabled True (NewMerger MergeAuto);
       (m1, o1) = merger_Deliver m0 4 7 [1] False;
       (m2, o2) = merger_Deliver (SetAutoEnabled False m1) 5 7 [2] False;
       (m3, o3) = merger_Deliver (SetAutoEnabled True m2) 7 8 [3] True
   in o1 @ o2 @ o3 = [[2], [1], [3]]"
  by (simp add: SetAutoEnabled_def NewMerger_def merger_Deliver_def merger_active_def merger_fresh_def
      IsSplitPair_def clearHeld_def Let_def)

end
