(* ===== verification/Replay.thy ===== *)
theory Replay
  imports Codec
begin

text \<open>The anti-replay window of the DTLS record layer (internal/dtls/replay.go): a 64-bit bitmap
  anchored at the highest accepted record sequence number.  The window is related to the set of
  accepted sequence numbers, and the answer of \<open>check\<close> is characterised by that set alone.\<close>

unbundle bit_operations_syntax

section \<open>The window\<close>

record replayWindow =
  rw_right :: u64
  rw_bitmap :: u64
  rw_seen :: bool

definition replayWindowSize :: u64 where "replayWindowSize = 64"

definition replayWindow_zero :: replayWindow where
  "replayWindow_zero = \<lparr>rw_right = 0, rw_bitmap = 0, rw_seen = False\<rparr>"

definition replay_check :: "replayWindow \<Rightarrow> u64 \<Rightarrow> bool" where
  "replay_check w seq =
     (if \<not> rw_seen w \<or> seq > rw_right w then True
      else let diff = rw_right w - seq in
        if diff \<ge> replayWindowSize then False
        else rw_bitmap w AND push_bit (unat diff) 1 = 0)"

definition replay_mark :: "replayWindow \<Rightarrow> u64 \<Rightarrow> replayWindow" where
  "replay_mark w seq =
     (if \<not> rw_seen w then w\<lparr>rw_seen := True, rw_right := seq, rw_bitmap := 1\<rparr>
      else if seq > rw_right w then
        let shift = seq - rw_right w in
          w\<lparr>rw_bitmap := if shift \<ge> replayWindowSize then 1
                        else push_bit (unat shift) (rw_bitmap w) OR 1,
            rw_right := seq\<rparr>
      else let diff = rw_right w - seq in
        if diff < replayWindowSize
        then w\<lparr>rw_bitmap := rw_bitmap w OR push_bit (unat diff) 1\<rparr> else w)"

section \<open>The set of accepted sequence numbers behind a window\<close>

definition window_of :: "replayWindow \<Rightarrow> u64 set \<Rightarrow> bool" where
  "window_of w A \<longleftrightarrow>
     finite A \<and> (rw_seen w \<longleftrightarrow> A \<noteq> {}) \<and>
     (A \<noteq> {} \<longrightarrow> rw_right w \<in> A \<and> (\<forall>s\<in>A. s \<le> rw_right w) \<and>
        (\<forall>s\<le>rw_right w. rw_right w - s < 64 \<longrightarrow>
           (bit (rw_bitmap w) (unat (rw_right w - s)) \<longleftrightarrow> s \<in> A)))"

lemma unat_less_64 [simp]: "(d :: u64) < 64 \<longleftrightarrow> unat d < 64"
  by (simp add: word_less_nat_alt)

lemma unat_ge_64 [simp]: "64 \<le> (d :: u64) \<longleftrightarrow> 64 \<le> unat d"
  by (simp add: word_le_nat_alt)

lemma window_of_zero: "window_of replayWindow_zero {}"
  by (simp add: window_of_def replayWindow_zero_def)

lemma window_of_check:
  assumes "window_of w A"
  shows "replay_check w s \<longleftrightarrow> A = {} \<or> s > Max A \<or> (Max A - s < 64 \<and> s \<notin> A)"
proof (cases "A = {}")
  case True
  then show ?thesis using assms by (simp add: window_of_def replay_check_def)
next
  case False
  then have "Max A = rw_right w" "rw_seen w"
    using assms by (auto simp: window_of_def intro!: Max_eqI)
  moreover have "bit (rw_bitmap w) (unat (rw_right w - s)) \<longleftrightarrow> s \<in> A"
    if "s \<le> rw_right w" "rw_right w - s < 64"
    using assms False that by (simp add: window_of_def)
  ultimately show ?thesis
    using False by (auto simp: replay_check_def replayWindowSize_def and_bit_zero_iff Let_def not_less)
qed

lemma mark_forward:
  assumes W: "window_of w A" "rw_seen w" and gt: "seq > rw_right w"
  shows "window_of (replay_mark w seq) (insert seq A)"
proof -
  let ?w = "replay_mark w seq"
  have A: "A \<noteq> {}" "finite A" "\<forall>s\<in>A. s \<le> rw_right w"
    and bits: "\<And>s. s \<le> rw_right w \<Longrightarrow> unat (rw_right w - s) < 64 \<Longrightarrow>
      bit (rw_bitmap w) (unat (rw_right w - s)) \<longleftrightarrow> s \<in> A"
    using W by (auto simp: window_of_def)
  have new: "rw_right ?w = seq" "rw_seen ?w"
    using W gt by (simp_all add: replay_mark_def Let_def)
  have bit_new: "bit (rw_bitmap ?w) (unat (seq - s)) \<longleftrightarrow> s = seq \<or> s \<in> A"
    if s: "s \<le> seq" "unat (seq - s) < 64" for s
  proof -
    have r: "unat (rw_right w) < unat seq" "unat s \<le> unat seq"
      using gt s by (simp_all add: word_less_nat_alt word_le_nat_alt)
    have d: "unat (seq - s) = unat seq - unat s" "unat (seq - rw_right w) = unat seq - unat (rw_right w)"
      using s gt by (simp_all add: unat_sub less_imp_le)
    show ?thesis
    proof (cases "s \<le> rw_right w")
      case True
      then have ds: "unat (rw_right w - s) = unat (rw_right w) - unat s" "unat s \<le> unat (rw_right w)"
        by (simp_all add: unat_sub word_le_nat_alt)
      have eq: "unat (seq - s) - unat (seq - rw_right w) = unat (rw_right w - s)"
        using d ds r by simp
      have lt: "unat (seq - rw_right w) < 64" "unat (rw_right w - s) < 64" "0 < unat (seq - s)"
        "unat (seq - rw_right w) \<le> unat (seq - s)"
        using s d ds r by simp_all
      then have "bit (rw_bitmap ?w) (unat (seq - s)) \<longleftrightarrow> bit (rw_bitmap w) (unat (rw_right w - s))"
        using W gt s by (simp add: replay_mark_def Let_def replayWindowSize_def bit_simps eq)
      then show ?thesis using bits [OF True lt(2)] True gt by auto
    next
      case False
      then have "s \<notin> A" using A by auto
      moreover have "unat (rw_right w) < unat s" using False by (simp add: word_le_nat_alt)
      then have "unat (seq - s) < unat (seq - rw_right w)" using d r by simp
      then have "bit (rw_bitmap ?w) (unat (seq - s)) \<longleftrightarrow> unat (seq - s) = 0"
        using W gt s by (simp add: replay_mark_def Let_def bit_simps)
      ultimately show ?thesis using d r by (auto simp: word_unat_eq_iff)
    qed
  qed
  show ?thesis
    using A gt new bit_new unfolding window_of_def by auto
qed

lemma mark_within:
  assumes W: "window_of w A" "rw_seen w" and le: "seq \<le> rw_right w"
  shows "window_of (replay_mark w seq) (insert seq A)"
proof -
  let ?w = "replay_mark w seq"
  have A: "A \<noteq> {}" "finite A" "\<forall>s\<in>A. s \<le> rw_right w" "rw_right w \<in> A"
    and bits: "\<And>s. s \<le> rw_right w \<Longrightarrow> unat (rw_right w - s) < 64 \<Longrightarrow>
      bit (rw_bitmap w) (unat (rw_right w - s)) \<longleftrightarrow> s \<in> A"
    using W by (auto simp: window_of_def)
  have new: "rw_right ?w = rw_right w" "rw_seen ?w"
    using W le by (simp_all add: replay_mark_def Let_def leD)
  have "bit (rw_bitmap ?w) (unat (rw_right w - s)) \<longleftrightarrow> s = seq \<or> s \<in> A"
    if s: "s \<le> rw_right w" "unat (rw_right w - s) < 64" for s
  proof -
    have "unat (rw_right w - s) = unat (rw_right w - seq) \<longleftrightarrow> s = seq"
      by (simp add: word_unat_eq_iff [symmetric])
    then show ?thesis
      using W le s bits [OF s]
      by (auto simp: replay_mark_def Let_def replayWindowSize_def bit_simps)
  qed
  then show ?thesis using A le new unfolding window_of_def by auto
qed

lemma window_of_mark:
  assumes "window_of w A"
  shows "window_of (replay_mark w seq) (insert seq A)"
proof (cases "rw_seen w")
  case True
  then show ?thesis using mark_forward mark_within assms by (meson not_le)
next
  case False
  then have "A = {}" using assms by (simp add: window_of_def)
  moreover have "unat (seq - s) = 0 \<longleftrightarrow> s = seq" for s
    by (auto simp: unat_eq_0)
  ultimately show ?thesis
    using False by (auto simp: window_of_def replay_mark_def bit_simps)
qed

lemma window_of_fold: "window_of (fold (\<lambda>s w. replay_mark w s) xs replayWindow_zero) (set xs)"
proof (induction xs rule: rev_induct)
  case Nil
  show ?case by (simp add: window_of_zero)
next
  case (snoc x xs)
  then show ?case using window_of_mark by simp
qed

text \<open>C39: The anti-replay window answers exactly what the set of accepted records determines, for any
  number of marked sequence numbers in any order: after marking \<open>xs\<close>, a record sequence number is
  acceptable iff it is above everything accepted so far, or within 63 of the highest accepted number
  and not itself accepted.  In particular no accepted sequence number is ever acceptable again.\<close>

theorem replay_check_exact:
  "replay_check (fold (\<lambda>s w. replay_mark w s) xs replayWindow_zero) seq \<longleftrightarrow>
     (case xs of [] \<Rightarrow> True
      | _ \<Rightarrow> seq > Max (set xs) \<or> (unat (Max (set xs) - seq) < 64 \<and> seq \<notin> set xs))"
  using window_of_check [OF window_of_fold, of xs seq] by (simp split: list.split)

end
