(* ===== verification/Fec_Header.thy ===== *)
theory Fec_Header
  imports Codec
begin

text \<open>The FEC headers of internal/fec: SMPTE ST 2022-1 (header.go) and ST 2022-5 (header2022_5.go), both
  sixteen bytes.\<close>

unbundle bit_operations_syntax

section \<open>SMPTE ST 2022-1\<close>

definition fec_HeaderSize :: nat where "fec_HeaderSize = 16"

datatype fec_err = ErrShortHeader

datatype Direction = Column | Row

record fec_Header =
  fh_SNBase :: u16
  fh_LengthRecovery :: u16
  fh_PTRecovery :: u8
  fh_TSRecovery :: u32
  fh_Direction :: Direction
  fh_Offset :: u8
  fh_NA :: u8
  fh_SNBaseExt :: u8

text \<open>The constants of the direction, and the conversion of the one-bit field.\<close>

definition direction_bit :: "Direction \<Rightarrow> u8" where
  "direction_bit d = (case d of Column \<Rightarrow> 0 | Row \<Rightarrow> 1)"

definition fec_Header_AppendTo :: "fec_Header \<Rightarrow> bytes \<Rightarrow> bytes" where
  "fec_Header_AppendTo h dst =
     dst @ be16_put (fh_SNBase h) @ be16_put (fh_LengthRecovery h) @ [fh_PTRecovery h AND 0x7F] @ [0, 0, 0] @
     be32_put (fh_TSRecovery h) @ [push_bit 6 (direction_bit (fh_Direction h) AND 1)] @
     [fh_Offset h, fh_NA h, fh_SNBaseExt h]"

definition fec_ParseHeader :: "bytes \<Rightarrow> fec_err + nat \<times> fec_Header" where
  "fec_ParseHeader b =
     (if length b < fec_HeaderSize then Inl ErrShortHeader
      else Inr (fec_HeaderSize,
        \<lparr>fh_SNBase = be16_get b 0, fh_LengthRecovery = be16_get b 2, fh_PTRecovery = b ! 4 AND 0x7F,
         fh_TSRecovery = be32_get b 8,
         fh_Direction = (if drop_bit 6 (b ! 12) AND 1 = 0 then Column else Row),
         fh_Offset = b ! 13, fh_NA = b ! 14, fh_SNBaseExt = b ! 15\<rparr>))"

definition base24 :: "fec_Header \<Rightarrow> u32" where
  "base24 h = push_bit 16 (ucast (fh_SNBaseExt h)) OR ucast (fh_SNBase h)"

definition setBase24 :: "u32 \<Rightarrow> fec_Header \<Rightarrow> fec_Header" where
  "setBase24 seq h = h\<lparr>fh_SNBase := ucast seq, fh_SNBaseExt := ucast (drop_bit 16 seq)\<rparr>"

section \<open>SMPTE ST 2022-5\<close>

record fec_Header5 =
  f5_PRecovery :: bool
  f5_XRecovery :: bool
  f5_CCRecovery :: u8
  f5_MRecovery :: bool
  f5_PTRecovery :: u8
  f5_SNBase :: u16
  f5_TSRecovery :: u32
  f5_LengthRecovery :: u16
  f5_Offset :: u16
  f5_NA :: u16

definition na10Max :: nat where "na10Max = 0x3FF"

definition boolBit :: "bool \<Rightarrow> u8" where "boolBit v = (if v then 1 else 0)"

definition fec_Header5_AppendTo :: "fec_Header5 \<Rightarrow> bytes \<Rightarrow> bytes" where
  "fec_Header5_AppendTo h dst =
     dst @ [push_bit 5 (boolBit (f5_PRecovery h)) OR push_bit 4 (boolBit (f5_XRecovery h)) OR
              (f5_CCRecovery h AND 0x0F),
            push_bit 7 (boolBit (f5_MRecovery h)) OR (f5_PTRecovery h AND 0x7F)] @
     be16_put (f5_SNBase h) @ be32_put (f5_TSRecovery h) @ be16_put (f5_LengthRecovery h) @ [0, 0] @
     be16_put (push_bit 6 (f5_Offset h AND 0x3FF)) @ be16_put (push_bit 6 (f5_NA h AND 0x3FF))"

definition fec_ParseHeader5 :: "bytes \<Rightarrow> fec_err + nat \<times> fec_Header5" where
  "fec_ParseHeader5 b =
     (if length b < fec_HeaderSize then Inl ErrShortHeader
      else Inr (fec_HeaderSize,
        \<lparr>f5_PRecovery = (drop_bit 5 (b ! 0) AND 1 = 1), f5_XRecovery = (drop_bit 4 (b ! 0) AND 1 = 1),
         f5_CCRecovery = b ! 0 AND 0x0F, f5_MRecovery = (drop_bit 7 (b ! 1) AND 1 = 1),
         f5_PTRecovery = b ! 1 AND 0x7F, f5_SNBase = be16_get b 2, f5_TSRecovery = be32_get b 4,
         f5_LengthRecovery = be16_get b 8, f5_Offset = drop_bit 6 (be16_get b 12),
         f5_NA = drop_bit 6 (be16_get b 14)\<rparr>))"

section \<open>Round trips\<close>

definition fec_wf :: "fec_Header \<Rightarrow> bool" where
  "fec_wf h \<longleftrightarrow> fh_PTRecovery h \<le> 0x7F"

definition fec5_wf :: "fec_Header5 \<Rightarrow> bool" where
  "fec5_wf h \<longleftrightarrow> f5_PTRecovery h \<le> 0x7F \<and> f5_CCRecovery h \<le> 0x0F \<and> f5_Offset h \<le> 0x3FF \<and> f5_NA h \<le> 0x3FF"

lemma mask7: "x AND 0x7F = x" if "x \<le> 0x7F" for x :: u8
proof -
  have "fits 7 x" using that by (simp add: fits_def word_le_nat_alt)
  then show ?thesis unfolding u8_masks by (rule mask_fits)
qed

lemma fec_Header_roundtrip:
  assumes "fec_wf h"
  shows "fec_ParseHeader (fec_Header_AppendTo h [] @ r) = Inr (length (fec_Header_AppendTo h []), h)"
proof -
  have "drop_bit 6 (push_bit 6 (direction_bit (fh_Direction h) AND 1)) AND 1 = (0 :: u8) \<longleftrightarrow> fh_Direction h = Column"
    by (cases "fh_Direction h") (simp_all add: direction_bit_def)
  then show ?thesis
    using assms
    by (cases "fh_Direction h")
       (simp_all add: fec_ParseHeader_def fec_Header_AppendTo_def fec_HeaderSize_def fec_wf_def be_reads byte_get_drop mask7
         direction_bit_def)
qed

interpretation fec1: prefix_codec "\<lambda>h. fec_Header_AppendTo h []" fec_ParseHeader fec_wf
  by unfold_locales (rule fec_Header_roundtrip)

lemma ten_bits: "x \<le> 0x3FF \<Longrightarrow> drop_bit 6 (push_bit 6 (x AND 0x3FF)) = (x :: u16)"
proof -
  assume "x \<le> 0x3FF"
  then have f: "fits 10 x" by (simp add: fits_def word_le_nat_alt)
  have m: "(0x3FF :: u16) = mask 10" by (simp add: mask_eq_exp_minus_1)
  show ?thesis unfolding m mask_fits [OF f]
    by (rule bit_word_eqI) (use fits_bit [OF f] in \<open>auto simp: bit_simps not_le [symmetric]\<close>)
qed

lemma fec5_flags:
  assumes "cc \<le> 0x0F" "pt \<le> 0x7F"
  shows "let b = push_bit 5 (boolBit p) OR push_bit 4 (boolBit x) OR (cc AND 0x0F) in
      (drop_bit 5 b AND 1 = 1) = p \<and> (drop_bit 4 b AND 1 = 1) = x \<and> b AND 0x0F = cc"
    "let b = push_bit 7 (boolBit m) OR (pt AND 0x7F) in (drop_bit 7 b AND 1 = 1) = m \<and> b AND 0x7F = pt"
proof -
  have c: "fits 4 cc" and t: "fits 7 pt" using assms by (simp_all add: fits_def word_le_nat_alt)
  have one: "drop_bit k b AND 1 = 1 \<longleftrightarrow> bit b k" for b :: u8 and k
    by (simp add: and_one_eq bit_iff_odd_drop_bit odd_iff_mod_2_eq_one)
  note bits = fits_bit [OF c] fits_bit [OF t] boolBit_def bit_simps u8_masks
  show "let b = push_bit 5 (boolBit p) OR push_bit 4 (boolBit x) OR (cc AND 0x0F) in
      (drop_bit 5 b AND 1 = 1) = p \<and> (drop_bit 4 b AND 1 = 1) = x \<and> b AND 0x0F = cc"
    unfolding Let_def one by (intro conjI; (rule u8_eqI)?; cases p; cases x; simp add: bits)
  show "let b = push_bit 7 (boolBit m) OR (pt AND 0x7F) in (drop_bit 7 b AND 1 = 1) = m \<and> b AND 0x7F = pt"
    unfolding Let_def one by (intro conjI; (rule u8_eqI)?; cases m; simp add: bits)
qed

lemma fec_Header5_roundtrip:
  assumes "fec5_wf h"
  shows "fec_ParseHeader5 (fec_Header5_AppendTo h [] @ r) = Inr (length (fec_Header5_AppendTo h []), h)"
proof -
  define b0 where "b0 = push_bit 5 (boolBit (f5_PRecovery h)) OR push_bit 4 (boolBit (f5_XRecovery h)) OR
    (f5_CCRecovery h AND 0x0F)"
  define b1 where "b1 = push_bit 7 (boolBit (f5_MRecovery h)) OR (f5_PTRecovery h AND 0x7F)"
  define o6 n6 where "o6 = push_bit 6 (f5_Offset h AND 0x3FF)" and "n6 = push_bit 6 (f5_NA h AND 0x3FF)"
  have wf: "f5_CCRecovery h \<le> 0x0F" "f5_PTRecovery h \<le> 0x7F" "f5_Offset h \<le> 0x3FF" "f5_NA h \<le> 0x3FF"
    using assms by (simp_all add: fec5_wf_def)
  have f: "(drop_bit 5 b0 AND 1 = 1) = f5_PRecovery h" "(drop_bit 4 b0 AND 1 = 1) = f5_XRecovery h"
    "b0 AND 0x0F = f5_CCRecovery h" "(drop_bit 7 b1 AND 1 = 1) = f5_MRecovery h" "b1 AND 0x7F = f5_PTRecovery h"
    using fec5_flags [OF wf(1,2)] by (simp_all add: b0_def b1_def Let_def)
  have "fec_Header5_AppendTo h [] = [b0, b1] @ be16_put (f5_SNBase h) @ be32_put (f5_TSRecovery h) @
      be16_put (f5_LengthRecovery h) @ [0, 0] @ be16_put o6 @ be16_put n6"
    by (simp only: fec_Header5_AppendTo_def b0_def b1_def o6_def n6_def append_Nil)
  moreover have "drop_bit 6 o6 = f5_Offset h" "drop_bit 6 n6 = f5_NA h"
    using wf ten_bits by (simp_all only: o6_def n6_def)
  ultimately show ?thesis
    by (simp add: fec_ParseHeader5_def fec_HeaderSize_def be_reads f)
qed

interpretation fec5: prefix_codec "\<lambda>h. fec_Header5_AppendTo h []" fec_ParseHeader5 fec5_wf
  by unfold_locales (rule fec_Header5_roundtrip)

lemma base24_set: "base24 (setBase24 s h) = s AND 0xFFFFFF"
proof -
  have m: "(0xFFFFFF :: u32) = mask 24" by (simp add: mask_eq_exp_minus_1)
  show ?thesis unfolding m
    by (rule bit_word_eqI) (auto simp: base24_def setBase24_def bit_simps)
qed

end
