(* ===== verification/Fec.thy ===== *)
theory Fec
  imports Fec_Header Seq_Num
begin

text \<open>The FEC matrix of internal/fec/fec.go: the encoder that clips media packets into row and column
  groups and emits their XOR, and the decoder that rebuilds a single missing member of a group.  This
  theory holds the definitions; the correctness lemmas follow in \<open>Fec_Encoder\<close> and \<open>Fec_Decoder\<close>.\<close>

unbundle bit_operations_syntax

section \<open>Configuration and packets\<close>

datatype Variant = Variant20221 | Variant20225

text \<open>The matrix dimensions are counts, positive by the configuration check.\<close>

record FecConfig =
  mx_Cols :: nat
  mx_Rows :: nat
  mx_ColumnOnly :: bool
  mx_Variant :: Variant

definition matrixSize :: "FecConfig \<Rightarrow> nat" where "matrixSize c = mx_Cols c * mx_Rows c"

record fec_Packet =
  fp_Direction :: Direction
  fp_Data :: bytes

record Recovered =
  rc_Seq :: u32
  rc_Timestamp :: u32
  rc_PayloadType :: u8
  rc_SSRC :: u32
  rc_Payload :: bytes

definition seqAdd :: "u32 \<Rightarrow> int \<Rightarrow> u32" where "seqAdd base off = Add32 base off"
definition seqDiff :: "u32 \<Rightarrow> u32 \<Rightarrow> int" where "seqDiff base s = Distance32 base s"
definition fec_abs :: "int \<Rightarrow> int" where "fec_abs x = (if x < 0 then - x else x)"

section \<open>Groups\<close>

record fecGroup =
  gr_base :: u32
  gr_collected :: nat
  gr_lengthClip :: u16
  gr_ptClip :: u8
  gr_tsClip :: u32
  gr_payloadClip :: bytes

definition newGroup :: "u32 \<Rightarrow> nat \<Rightarrow> fecGroup" where
  "newGroup base payloadSize = \<lparr>gr_base = base, gr_collected = 0, gr_lengthClip = 0, gr_ptClip = 0, gr_tsClip = 0,
     gr_payloadClip = replicate payloadSize 0\<rparr>"

definition group_reset :: "u32 \<Rightarrow> fecGroup \<Rightarrow> fecGroup" where
  "group_reset base g = g\<lparr>gr_base := base, gr_collected := 0, gr_lengthClip := 0, gr_ptClip := 0,
     gr_tsClip := 0, gr_payloadClip := replicate (length (gr_payloadClip g)) 0\<rparr>"

text \<open>The byte loop \<open>acc[i] ^= payload[i]\<close> over the common length.\<close>

fun xor_into :: "bytes \<Rightarrow> bytes \<Rightarrow> bytes" where
  "xor_into (a # as) (p # ps) = (a XOR p) # xor_into as ps"
| "xor_into as _ = as"

definition group_clip :: "u16 \<Rightarrow> u8 \<Rightarrow> u32 \<Rightarrow> bytes \<Rightarrow> fecGroup \<Rightarrow> fecGroup" where
  "group_clip len pt ts payload g =
     g\<lparr>gr_lengthClip := gr_lengthClip g XOR len, gr_ptClip := gr_ptClip g XOR (pt AND 0x7F),
       gr_tsClip := gr_tsClip g XOR ts, gr_payloadClip := xor_into (gr_payloadClip g) payload\<rparr>"

section \<open>Encoder\<close>

record Encoder =
  en_cfg :: FecConfig
  en_payloadSize :: nat
  en_row :: fecGroup
  en_cols :: "fecGroup list"
  en_rowBase :: u32

definition NewEncoder :: "FecConfig \<Rightarrow> nat \<Rightarrow> u32 \<Rightarrow> Encoder" where
  "NewEncoder cfg payloadSize isn =
     \<lparr>en_cfg = cfg, en_payloadSize = payloadSize, en_row = newGroup isn payloadSize,
      en_cols = (if mx_Rows cfg > 1
                 then map (\<lambda>i. newGroup (seqAdd isn (int i)) payloadSize) [0..<mx_Cols cfg] else []),
      en_rowBase = isn\<rparr>"

definition encoder_emit :: "Encoder \<Rightarrow> fecGroup \<Rightarrow> Direction \<Rightarrow> fec_Packet" where
  "encoder_emit e g dir =
     (let (offset, na) = (if dir = Row then (1, mx_Cols (en_cfg e)) else (mx_Cols (en_cfg e), mx_Rows (en_cfg e)));
          data = (if mx_Variant (en_cfg e) = Variant20225
                  then fec_Header5_AppendTo
                         \<lparr>f5_PRecovery = False, f5_XRecovery = False, f5_CCRecovery = 0, f5_MRecovery = False,
                          f5_PTRecovery = gr_ptClip g, f5_SNBase = ucast (gr_base g),
                          f5_TSRecovery = gr_tsClip g, f5_LengthRecovery = gr_lengthClip g,
                          f5_Offset = of_nat offset, f5_NA = of_nat na\<rparr> []
                  else fec_Header_AppendTo
                         (setBase24 (gr_base g)
                           \<lparr>fh_SNBase = 0, fh_LengthRecovery = gr_lengthClip g, fh_PTRecovery = gr_ptClip g,
                            fh_TSRecovery = gr_tsClip g, fh_Direction = dir, fh_Offset = of_nat offset,
                            fh_NA = of_nat na, fh_SNBaseExt = 0\<rparr>) [])
      in \<lparr>fp_Direction = dir, fp_Data = data @ gr_payloadClip g\<rparr>)"

text \<open>The three parts of \<open>Push\<close>: advancing the row, the column and the row clip.\<close>

definition push_advance :: "u32 \<Rightarrow> Encoder \<Rightarrow> Encoder" where
  "push_advance s e =
     (if seqDiff (en_rowBase e) s \<ge> int (mx_Cols (en_cfg e))
      then let rb = seqAdd (en_rowBase e) (int (mx_Cols (en_cfg e)))
           in e\<lparr>en_rowBase := rb, en_row := group_reset rb (en_row e)\<rparr>
      else e)"

definition push_col :: "u32 \<Rightarrow> u32 \<Rightarrow> u8 \<Rightarrow> bytes \<Rightarrow> int \<Rightarrow> Encoder \<Rightarrow> Encoder \<times> fec_Packet list" where
  "push_col s ts pt payload pos e =
     (if mx_Rows (en_cfg e) > 1 \<and> pos \<ge> 0 \<and> pos < int (length (en_cols e))
      then let col = en_cols e ! nat pos;
               msz = int (matrixSize (en_cfg e));
               col = (if seqDiff (gr_base col) s \<ge> msz then group_reset (seqAdd (gr_base col) msz) col else col);
               col = group_clip (of_nat (length payload)) pt ts payload col;
               col = col\<lparr>gr_collected := gr_collected col + 1\<rparr>
           in if gr_collected col \<ge> mx_Rows (en_cfg e)
              then (e\<lparr>en_cols := (en_cols e)[nat pos := group_reset (seqAdd (gr_base col) msz) col]\<rparr>,
                    [encoder_emit e col Column])
              else (e\<lparr>en_cols := (en_cols e)[nat pos := col]\<rparr>, [])
      else (e, []))"

definition push_row :: "Encoder \<Rightarrow> Encoder \<times> fec_Packet list" where
  "push_row e =
     (if gr_collected (en_row e) \<ge> mx_Cols (en_cfg e)
      then let out = (if \<not> mx_ColumnOnly (en_cfg e) then [encoder_emit e (en_row e) Row] else []);
               rb = seqAdd (en_rowBase e) (int (mx_Cols (en_cfg e)))
           in (e\<lparr>en_rowBase := rb, en_row := group_reset rb (en_row e)\<rparr>, out)
      else (e, []))"

definition Encoder_Push :: "u32 \<Rightarrow> u32 \<Rightarrow> u8 \<Rightarrow> bytes \<Rightarrow> Encoder \<Rightarrow> Encoder \<times> fec_Packet list" where
  "Encoder_Push s ts pt payload e =
     (let e = push_advance s e;
          pos = seqDiff (en_rowBase e) s;
          r = group_clip (of_nat (length payload)) pt ts payload (en_row e);
          e = e\<lparr>en_row := r\<lparr>gr_collected := gr_collected r + 1\<rparr>\<rparr>;
          (e, out1) = push_col s ts pt payload pos e;
          (e, out2) = push_row e
      in (e, out1 @ out2))"

section \<open>Decoder\<close>

record storedMedia =
  sm_ts :: u32
  sm_pt :: u8
  sm_ssrc :: u32
  sm_payload :: bytes

record storedFEC =
  sf_base :: u32
  sf_stride :: nat
  sf_count :: nat
  sf_lengthRec :: u16
  sf_ptRec :: u8
  sf_tsRec :: u32
  sf_payload :: bytes
  sf_done :: bool

record Decoder =
  de_cfg :: FecConfig
  de_payloadSize :: nat
  de_window :: nat
  de_maxFECs :: nat
  de_media :: "u32 \<rightharpoonup> storedMedia"
  de_fecs :: "storedFEC list"
  de_lastSeq :: u32
  de_haveSeq :: bool
  de_out :: "Recovered list"

definition NewDecoder :: "FecConfig \<Rightarrow> nat \<Rightarrow> u32 \<Rightarrow> Decoder" where
  "NewDecoder cfg payloadSize isn =
     \<lparr>de_cfg = cfg, de_payloadSize = payloadSize, de_window = matrixSize cfg * 3 + mx_Cols cfg + 8,
      de_maxFECs = (mx_Cols cfg + mx_Rows cfg) * 4 + 16, de_media = Map.empty, de_fecs = [],
      de_lastSeq = isn, de_haveSeq = False, de_out = []\<rparr>"

definition geometryOK :: "Decoder \<Rightarrow> nat \<Rightarrow> nat \<Rightarrow> bool" where
  "geometryOK d stride count =
     (if stride = mx_Cols (de_cfg d) \<and> count = mx_Rows (de_cfg d) then True
      else if \<not> mx_ColumnOnly (de_cfg d) \<and> stride = 1 \<and> count = mx_Cols (de_cfg d) then True
      else False)"

definition decoder_store :: "u32 \<Rightarrow> u32 \<Rightarrow> u8 \<Rightarrow> u32 \<Rightarrow> bytes \<Rightarrow> Decoder \<Rightarrow> Decoder" where
  "decoder_store s ts pt ssrc payload d =
     d\<lparr>de_media := (de_media d)(s \<mapsto> \<lparr>sm_ts = ts, sm_pt = pt, sm_ssrc = ssrc, sm_payload = payload\<rparr>)\<rparr>"

definition decoder_advance :: "u32 \<Rightarrow> Decoder \<Rightarrow> Decoder" where
  "decoder_advance s d =
     (if \<not> de_haveSeq d \<or> seqDiff (de_lastSeq d) s > 0 then d\<lparr>de_lastSeq := s, de_haveSeq := True\<rparr> else d)"

definition widen :: "Decoder \<Rightarrow> u32 \<Rightarrow> u32" where
  "widen d base =
     (let (msk, span) = (if mx_Variant (de_cfg d) = Variant20225 then (0xFFFF, 0x10000) else (0xFFFFFF, 0x1000000));
          cand = (de_lastSeq d AND NOT msk) OR (base AND msk);
          closer = (\<lambda>c best. if fec_abs (seqDiff (de_lastSeq d) c) < fec_abs (seqDiff (de_lastSeq d) best) then c else best)
      in closer (cand - span) (closer (cand + span) cand))"

text \<open>The sequence numbers a stored FEC packet protects.\<close>

definition fec_members :: "storedFEC \<Rightarrow> u32 list" where
  "fec_members sf = map (\<lambda>i. seqAdd (sf_base sf) (int (i * sf_stride sf))) [0..<sf_count sf]"

text \<open>\<open>tryRecover\<close> returns the decoder, the stored FEC packet and whether a packet was rebuilt.  The
  counting loop stops at the second absentee; only none, one or more matters.\<close>

definition xor_member :: "storedMedia \<Rightarrow> u16 \<times> u8 \<times> u32 \<times> u32 \<times> bytes \<Rightarrow> u16 \<times> u8 \<times> u32 \<times> u32 \<times> bytes" where
  "xor_member m acc =
     (case acc of (len, pt, ts, ssrc, payload) \<Rightarrow>
       (len XOR of_nat (length (sm_payload m)), pt XOR (sm_pt m AND 0x7F), ts XOR sm_ts m, sm_ssrc m,
        xor_into payload (sm_payload m)))"

definition fit_payload :: "nat \<Rightarrow> bytes \<Rightarrow> bytes" where
  "fit_payload n p = take n p @ replicate (n - length p) 0"

definition tryRecover :: "Decoder \<Rightarrow> storedFEC \<Rightarrow> Decoder \<times> storedFEC \<times> bool" where
  "tryRecover d sf =
     (if sf_done sf then (d, sf, False)
      else if seqDiff (seqAdd (de_lastSeq d) (- int (de_window d))) (sf_base sf) < 0
           then (d, sf\<lparr>sf_done := True\<rparr>, False)
      else if seqDiff (de_lastSeq d) (seqAdd (sf_base sf) (int ((sf_count sf - 1) * sf_stride sf))) > 0
           then (d, sf, False)
      else case filter (\<lambda>s. de_media d s = None) (fec_members sf) of
        [] \<Rightarrow> (d, sf\<lparr>sf_done := True\<rparr>, False)
      | [missing] \<Rightarrow>
          let present = List.map_filter (de_media d) (fec_members sf);
              (len, pt, ts, ssrc, payload) =
                fold xor_member present
                  (sf_lengthRec sf, sf_ptRec sf, sf_tsRec sf, 0, fit_payload (de_payloadSize d) (sf_payload sf))
          in if unat len > de_payloadSize d then (d, sf\<lparr>sf_done := True\<rparr>, False)
             else let rp = \<lparr>rc_Seq = missing, rc_Timestamp = ts, rc_PayloadType = pt, rc_SSRC = ssrc,
                            rc_Payload = take (unat len) payload\<rparr>
                  in (d\<lparr>de_out := de_out d @ [rp],
                        de_media := (de_media d)(missing \<mapsto> \<lparr>sm_ts = ts, sm_pt = pt, sm_ssrc = ssrc,
                                                          sm_payload = rc_Payload rp\<rparr>)\<rparr>,
                      sf\<lparr>sf_done := True\<rparr>, True)
      | _ \<Rightarrow> (d, sf, False))"

text \<open>One pass of \<open>recoverAll\<close> over the stored packets, in order.\<close>

fun scan_fecs :: "Decoder \<Rightarrow> storedFEC list \<Rightarrow> Decoder \<times> storedFEC list \<times> bool" where
  "scan_fecs d [] = (d, [], False)"
| "scan_fecs d (sf # sfs) =
     (let (d, sf, r1) = tryRecover d sf; (d, sfs, r2) = scan_fecs d sfs in (d, sf # sfs, r1 \<or> r2))"

text \<open>A pass that rebuilds a packet resolves at least one stored FEC packet, so the loop ends.\<close>

definition undone :: "storedFEC list \<Rightarrow> nat" where
  "undone sfs = length (filter (\<lambda>sf. \<not> sf_done sf) sfs)"

lemma tryRecover_done:
  assumes "tryRecover d sf = (d', sf', r)"
  shows "sf_done sf \<Longrightarrow> sf_done sf'" "r \<Longrightarrow> \<not> sf_done sf \<and> sf_done sf'"
    "de_fecs d' = de_fecs d" "sf' = sf \<or> sf' = sf\<lparr>sf_done := True\<rparr>"
  using assms
  by (auto simp: tryRecover_def Let_def split: if_splits list.splits prod.splits)

lemma scan_fecs_undone:
  assumes "scan_fecs d sfs = (d', sfs', r)"
  shows "undone sfs' \<le> undone sfs" "r \<Longrightarrow> undone sfs' < undone sfs"
proof -
  have "undone sfs' \<le> undone sfs \<and> (r \<longrightarrow> undone sfs' < undone sfs)"
    using assms
  proof (induction sfs arbitrary: d d' sfs' r)
    case (Cons sf sfs)
    obtain d1 sf1 r1 where t: "tryRecover d sf = (d1, sf1, r1)" by (cases "tryRecover d sf")
    obtain d2 sfs2 r2 where u: "scan_fecs d1 sfs = (d2, sfs2, r2)" by (cases "scan_fecs d1 sfs")
    have "sfs' = sf1 # sfs2" "r = (r1 \<or> r2)" using Cons.prems t u by (auto simp: Let_def)
    then show ?case
      using Cons.IH [OF u] tryRecover_done(1,2) [OF t] by (auto simp: undone_def)
  qed (simp add: undone_def)
  then show "undone sfs' \<le> undone sfs" "r \<Longrightarrow> undone sfs' < undone sfs" by auto
qed

function recoverAll :: "Decoder \<Rightarrow> Decoder" where
  "recoverAll d =
     (let (d', sfs, recovered) = scan_fecs d (de_fecs d);
          d' = d'\<lparr>de_fecs := sfs\<rparr>
      in if \<not> recovered then d' else recoverAll d')"
  by pat_completeness auto

termination
proof (relation "measure (\<lambda>d. undone (de_fecs d))")
  show "(d'', d) \<in> measure (\<lambda>d. undone (de_fecs d))"
    if "x = scan_fecs d (de_fecs d)" "(d', y) = x" "(sfs, recovered) = y" "d'' = d'\<lparr>de_fecs := sfs\<rparr>" "\<not> \<not> recovered"
    for d x d' y sfs recovered d''
    using that scan_fecs_undone(2) [of d "de_fecs d" d' sfs recovered] by simp
qed simp

declare recoverAll.simps [simp del]

definition evict :: "Decoder \<Rightarrow> Decoder" where
  "evict d =
     (let lo = seqAdd (de_lastSeq d) (- int (de_window d))
      in d\<lparr>de_media := (\<lambda>s. if seqDiff lo s < 0 then None else de_media d s),
           de_fecs := filter (\<lambda>f. seqDiff lo (sf_base f) \<ge> 0) (de_fecs d)\<rparr>)"

definition PushMedia :: "u32 \<Rightarrow> u32 \<Rightarrow> u8 \<Rightarrow> u32 \<Rightarrow> bytes \<Rightarrow> Decoder \<Rightarrow> Decoder \<times> Recovered list" where
  "PushMedia s ts pt ssrc payload d =
     (let d = d\<lparr>de_out := []\<rparr>;
          d = decoder_advance s d
      in if de_media d s \<noteq> None then (d, [])
         else let d = decoder_store s ts pt ssrc payload d;
                  d = recoverAll d;
                  d = evict d
              in (d, de_out d))"

text \<open>The two header variants of \<open>PushFEC\<close> yield the same fields: base, stride, count, the recovery
  fields and the payload offset.\<close>

definition parse_fec :: "Decoder \<Rightarrow> bytes \<Rightarrow> storedFEC option" where
  "parse_fec d fec =
     (if mx_Variant (de_cfg d) = Variant20225
      then case fec_ParseHeader5 fec of
             Inl _ \<Rightarrow> None
           | Inr (off, h) \<Rightarrow>
               Some \<lparr>sf_base = widen d (ucast (f5_SNBase h)), sf_stride = unat (f5_Offset h), sf_count = unat (f5_NA h),
                 sf_lengthRec = f5_LengthRecovery h, sf_ptRec = f5_PTRecovery h AND 0x7F,
                 sf_tsRec = f5_TSRecovery h, sf_payload = drop off fec, sf_done = False\<rparr>
      else case fec_ParseHeader fec of
             Inl _ \<Rightarrow> None
           | Inr (off, h) \<Rightarrow>
               Some \<lparr>sf_base = widen d (base24 h), sf_stride = unat (fh_Offset h), sf_count = unat (fh_NA h),
                 sf_lengthRec = fh_LengthRecovery h, sf_ptRec = fh_PTRecovery h AND 0x7F,
                 sf_tsRec = fh_TSRecovery h, sf_payload = drop off fec, sf_done = False\<rparr>)"

definition make_room :: "Decoder \<Rightarrow> Decoder" where
  "make_room d =
     (if length (de_fecs d) \<ge> de_maxFECs d
      then let d = evict d
           in if length (de_fecs d) \<ge> de_maxFECs d then d\<lparr>de_fecs := tl (de_fecs d)\<rparr> else d
      else d)"

definition PushFEC :: "bytes \<Rightarrow> Decoder \<Rightarrow> Decoder \<times> Recovered list" where
  "PushFEC fec d =
     (let d = d\<lparr>de_out := []\<rparr> in
      case parse_fec d fec of
        None \<Rightarrow> (d, [])
      | Some sf \<Rightarrow>
          if sf_stride sf \<le> 0 \<or> sf_count sf \<le> 1 \<or> sf_count sf > na10Max then (d, [])
          else if \<not> geometryOK d (sf_stride sf) (sf_count sf) then (d, [])
          else if list_ex (\<lambda>f. sf_base f = sf_base sf \<and> sf_stride f = sf_stride sf \<and> sf_count f = sf_count sf) (de_fecs d)
               then (d, [])
          else let d = make_room d;
                   d = d\<lparr>de_fecs := de_fecs d @ [sf]\<rparr>;
                   d = recoverAll d;
                   d = evict d
               in (d, de_out d))"

end
