(* ===== verification/Fec_Xor.thy ===== *)
theory Fec_Xor
  imports Fec
begin

text \<open>XOR sums over groups of media packets: what a group accumulator holds, what a stored FEC packet
  promises, and why XOR-ing the present members out of a FEC packet leaves the missing one.\<close>

unbundle bit_operations_syntax

section \<open>XOR sums\<close>

primrec xsum :: "'a::len word list \<Rightarrow> 'a word" where
  "xsum [] = 0"
| "xsum (x # xs) = x XOR xsum xs"

lemma xsum_append [simp]: "xsum (xs @ ys) = xsum xs XOR xsum ys"
  by (induction xs) (simp_all add: xor.assoc)

lemma xsum_split: "xsum (map f xs) = xsum (map f (filter P xs)) XOR xsum (map f (filter (\<lambda>x. \<not> P x) xs))"
  by (induction xs) (auto simp: ac_simps)

lemma xsum_cancel: "a XOR (a XOR b) = (b :: 'a::len word)"
  by (simp add: xor.assoc [symmetric])

lemma xsum_remainder:
  assumes "filter (\<lambda>x. \<not> P x) xs = [m]"
  shows "xsum (map f xs) XOR xsum (map f (filter P xs)) = f m"
  using assms by (simp add: xsum_split [of f xs P] ac_simps xsum_cancel)

lemma xsum_mask: "\<forall>x\<in>set xs. x AND m = x \<Longrightarrow> xsum xs AND m = xsum xs"
  by (induction xs) (auto simp: and.commute bit.conj_xor_distrib)

text \<open>A payload read with implicit zero padding.\<close>

definition byte_at :: "bytes \<Rightarrow> nat \<Rightarrow> u8" where
  "byte_at p j = (if j < length p then p ! j else 0)"

lemma length_xor_into [simp]: "length (xor_into a p) = length a"
  by (induction a p rule: xor_into.induct) simp_all

lemma nth_xor_into: "j < length a \<Longrightarrow> xor_into a p ! j = a ! j XOR byte_at p j"
proof (induction a p arbitrary: j rule: xor_into.induct)
  case (1 a as p ps)
  then show ?case by (cases j) (simp_all add: byte_at_def)
qed (simp_all add: byte_at_def)

lemma length_fit [simp]: "length (fit_payload n p) = n"
  by (auto simp: fit_payload_def min_def)

lemma nth_fit: "j < n \<Longrightarrow> fit_payload n p ! j = byte_at p j"
  by (auto simp: fit_payload_def byte_at_def nth_append min_def)

section \<open>The XOR of a group of packets\<close>

definition len_of :: "storedMedia \<Rightarrow> u16" where "len_of m = of_nat (length (sm_payload m))"
definition pt_of :: "storedMedia \<Rightarrow> u8" where "pt_of m = sm_pt m AND 0x7F"
definition byte_of :: "nat \<Rightarrow> storedMedia \<Rightarrow> u8" where "byte_of j m = byte_at (sm_payload m) j"

text \<open>Fields \<open>len\<close>, \<open>pt\<close>, \<open>ts\<close> and a payload that are the XOR of the packets \<open>ms\<close>.\<close>

definition xor_of :: "nat \<Rightarrow> storedMedia list \<Rightarrow> u16 \<Rightarrow> u8 \<Rightarrow> u32 \<Rightarrow> bytes \<Rightarrow> bool" where
  "xor_of n ms len pt ts p \<longleftrightarrow>
     len = xsum (map len_of ms) \<and> pt = xsum (map pt_of ms) \<and> ts = xsum (map sm_ts ms) \<and>
     (\<forall>j<n. byte_at p j = xsum (map (byte_of j) ms))"

lemma xor_member_simp [simp]:
  "xor_member m (len, pt, ts, ssrc, p) =
     (len XOR len_of m, pt XOR pt_of m, ts XOR sm_ts m, sm_ssrc m, xor_into p (sm_payload m))"
  by (simp add: xor_member_def len_of_def pt_of_def)

lemma fold_xor_member:
  assumes "fold xor_member ms (len, pt, ts, ssrc, p) = (len', pt', ts', ssrc', p')"
  shows "len' = len XOR xsum (map len_of ms)" "pt' = pt XOR xsum (map pt_of ms)"
    "ts' = ts XOR xsum (map sm_ts ms)" "length p' = length p"
    "j < length p \<Longrightarrow> p' ! j = p ! j XOR xsum (map (byte_of j) ms)"
    "ms \<noteq> [] \<Longrightarrow> ssrc' = sm_ssrc (last ms)"
proof -
  have "len' = len XOR xsum (map len_of ms) \<and> pt' = pt XOR xsum (map pt_of ms) \<and>
    ts' = ts XOR xsum (map sm_ts ms) \<and> length p' = length p \<and>
    (\<forall>j<length p. p' ! j = p ! j XOR xsum (map (byte_of j) ms)) \<and> (ms \<noteq> [] \<longrightarrow> ssrc' = sm_ssrc (last ms))"
    using assms
  proof (induction ms arbitrary: len pt ts ssrc p)
    case (Cons m ms)
    have "fold xor_member ms (len XOR len_of m, pt XOR pt_of m, ts XOR sm_ts m, sm_ssrc m, xor_into p (sm_payload m)) =
        (len', pt', ts', ssrc', p')"
      using Cons.prems by simp
    from Cons.IH [OF this] show ?case
      using Cons.prems by (auto simp: xor.assoc nth_xor_into byte_of_def)
  qed simp
  then show "len' = len XOR xsum (map len_of ms)" "pt' = pt XOR xsum (map pt_of ms)"
    "ts' = ts XOR xsum (map sm_ts ms)" "length p' = length p"
    "j < length p \<Longrightarrow> p' ! j = p ! j XOR xsum (map (byte_of j) ms)"
    "ms \<noteq> [] \<Longrightarrow> ssrc' = sm_ssrc (last ms)" by auto
qed

text \<open>A packet the matrix can carry.\<close>

definition fits_matrix :: "nat \<Rightarrow> storedMedia \<Rightarrow> bool" where
  "fits_matrix n m \<longleftrightarrow> length (sm_payload m) \<le> n \<and> n \<le> 65535 \<and> sm_pt m \<le> 0x7F"

lemma pt_of_fits: "fits_matrix n m \<Longrightarrow> pt_of m = sm_pt m"
  by (simp add: fits_matrix_def pt_of_def mask7)

lemma len_of_fits: "fits_matrix n m \<Longrightarrow> unat (len_of m) = length (sm_payload m)"
  by (simp add: fits_matrix_def len_of_def unsigned_of_nat take_bit_nat_eq_self)

text \<open>XOR-ing out all but one packet leaves that packet.\<close>

lemma recover_one:
  fixes truth :: "u32 \<Rightarrow> storedMedia"
  assumes x: "xor_of n (map truth ss) len pt ts p"
    and one: "filter (\<lambda>s. \<not> P s) ss = [m]" and two: "2 \<le> length ss"
    and fit: "fits_matrix n (truth m)" and ssrc: "\<And>s. s \<in> set ss \<Longrightarrow> sm_ssrc (truth s) = S"
    and f: "fold xor_member (map truth (filter P ss)) (len, pt, ts, 0, fit_payload n p) = (len', pt', ts', ssrc', p')"
  shows "unat len' = length (sm_payload (truth m))" "take (unat len') p' = sm_payload (truth m)"
    "ts' = sm_ts (truth m)" "pt' = sm_pt (truth m)" "ssrc' = S"
proof -
  note fx = fold_xor_member [OF f]
  have r: "xsum (map g (map truth ss)) XOR xsum (map g (map truth (filter P ss))) = g (truth m)"
    for g :: "storedMedia \<Rightarrow> 'b::len word"
    using xsum_remainder [OF one, of "g \<circ> truth"] by (simp add: o_def)
  have l: "len' = len_of (truth m)" "pt' = pt_of (truth m)" "ts' = sm_ts (truth m)"
    using fx(1-3) x r by (simp_all only: xor_of_def)
  show u: "unat len' = length (sm_payload (truth m))" using l(1) len_of_fits [OF fit] by simp
  show "ts' = sm_ts (truth m)" "pt' = sm_pt (truth m)" using l pt_of_fits [OF fit] by simp_all
  have "p' ! j = byte_of j (truth m)" if "j < n" for j
  proof -
    have "p' ! j = byte_at p j XOR xsum (map (byte_of j) (map truth (filter P ss)))"
      using fx(5) that nth_fit by simp
    also have "byte_at p j = xsum (map (byte_of j) (map truth ss))" using x that by (simp only: xor_of_def)
    finally show ?thesis using r by simp
  qed
  moreover have "length p' = n" using fx(4) by simp
  ultimately show "take (unat len') p' = sm_payload (truth m)"
    using fit by (intro nth_equalityI) (auto simp: u fits_matrix_def byte_of_def byte_at_def)
  have "length (filter P ss) + length (filter (\<lambda>s. \<not> P s) ss) = length ss" by (rule sum_length_filter_compl)
  then have ne: "filter P ss \<noteq> []" using one two by auto
  then have "last (filter P ss) \<in> set ss" by (metis filter_is_subset last_in_set subsetD)
  then show "ssrc' = S" using fx(6) ne ssrc by (simp add: last_map)
qed

end
