(* ===== verification/Fec_Decoder.thy ===== *)
theory Fec_Decoder
  imports Fec_Xor
begin

text \<open>Correctness of the FEC decoder of internal/fec/fec.go: everything it rebuilds is the packet that was
  sent, it keeps its memory bounds, and when it stops no stored group could still yield a packet.\<close>

unbundle bit_operations_syntax

section \<open>What the decoder may hold\<close>

text \<open>\<open>truth\<close> gives the packet sent under each sequence number of \<open>V\<close>; all packets carry the SSRC \<open>S\<close>.\<close>

definition fec_true :: "(u32 \<Rightarrow> storedMedia) \<Rightarrow> u32 set \<Rightarrow> u32 \<Rightarrow> nat \<Rightarrow> storedFEC \<Rightarrow> bool" where
  "fec_true truth V S n sf \<longleftrightarrow>
     2 \<le> sf_count sf \<and>
     xor_of n (map truth (fec_members sf)) (sf_lengthRec sf) (sf_ptRec sf) (sf_tsRec sf) (sf_payload sf) \<and>
     (\<forall>s\<in>set (fec_members sf). s \<in> V \<and> fits_matrix n (truth s) \<and> sm_ssrc (truth s) = S)"

definition media_true :: "(u32 \<Rightarrow> storedMedia) \<Rightarrow> Decoder \<Rightarrow> bool" where
  "media_true truth d \<longleftrightarrow> (\<forall>s m. de_media d s = Some m \<longrightarrow> m = truth s)"

definition rec_true :: "(u32 \<Rightarrow> storedMedia) \<Rightarrow> u32 set \<Rightarrow> Recovered \<Rightarrow> bool" where
  "rec_true truth V r \<longleftrightarrow>
     rc_Seq r \<in> V \<and>
     truth (rc_Seq r) = \<lparr>sm_ts = rc_Timestamp r, sm_pt = rc_PayloadType r, sm_ssrc = rc_SSRC r, sm_payload = rc_Payload r\<rparr>"

definition dec_true :: "(u32 \<Rightarrow> storedMedia) \<Rightarrow> u32 set \<Rightarrow> u32 \<Rightarrow> nat \<Rightarrow> Decoder \<Rightarrow> bool" where
  "dec_true truth V S n d \<longleftrightarrow>
     de_payloadSize d = n \<and> media_true truth d \<and> list_all (fec_true truth V S n) (de_fecs d) \<and>
     list_all (rec_true truth V) (de_out d)"

lemma fec_true_done [simp]: "fec_true truth V S n (sf\<lparr>sf_done := b\<rparr>) = fec_true truth V S n sf"
  by (simp add: fec_true_def fec_members_def)

section \<open>Recovery is exact\<close>

lemma map_filter_truth:
  "media_true truth d \<Longrightarrow>
     List.map_filter (de_media d) ss = map truth (filter (\<lambda>s. de_media d s \<noteq> None) ss)"
  by (induction ss) (auto simp: media_true_def List.map_filter_simps split: option.split)

lemma length_members [simp]: "length (fec_members sf) = sf_count sf"
  by (simp add: fec_members_def)

text \<open>The shape of a step that rebuilds a packet, and of one that does not.\<close>

lemma tryRecover_cases:
  assumes "tryRecover d sf = (d', sf', r)"
  obtains (stay) "\<not> r" "d' = d"
  | (rebuild) m len pt ts ssrc p where "r" "filter (\<lambda>s. de_media d s = None) (fec_members sf) = [m]"
      "fold xor_member (List.map_filter (de_media d) (fec_members sf))
         (sf_lengthRec sf, sf_ptRec sf, sf_tsRec sf, 0, fit_payload (de_payloadSize d) (sf_payload sf)) =
         (len, pt, ts, ssrc, p)"
      "d' = d\<lparr>de_out := de_out d @ [\<lparr>rc_Seq = m, rc_Timestamp = ts, rc_PayloadType = pt, rc_SSRC = ssrc,
                rc_Payload = take (unat len) p\<rparr>],
              de_media := (de_media d)(m \<mapsto> \<lparr>sm_ts = ts, sm_pt = pt, sm_ssrc = ssrc,
                sm_payload = take (unat len) p\<rparr>)\<rparr>"
proof (cases r)
  case False
  then show thesis
    using assms stay by (auto simp: tryRecover_def Let_def split: if_splits list.splits prod.splits)
next
  case True
  then show thesis
    using assms rebuild by (auto simp: tryRecover_def Let_def split: if_splits list.splits prod.splits)
qed

lemma tryRecover_true:
  assumes D: "dec_true truth V S n d" and F: "fec_true truth V S n sf"
    and t: "tryRecover d sf = (d', sf', r)"
  shows "dec_true truth V S n d'" "fec_true truth V S n sf'"
proof -
  show "fec_true truth V S n sf'" using F tryRecover_done(4) [OF t] by auto
  show "dec_true truth V S n d'"
    using t
  proof (cases rule: tryRecover_cases)
    case stay
    then show ?thesis using D by simp
  next
    case (rebuild m len pt ts ssrc p)
    let ?ss = "fec_members sf"
    have n: "de_payloadSize d = n" and mt: "media_true truth d" using D by (simp_all add: dec_true_def)
    have m: "m \<in> set ?ss" "de_media d m = None"
      using arg_cong [OF rebuild(2), of set] by auto
    have fit: "\<And>s. s \<in> set ?ss \<Longrightarrow> s \<in> V \<and> fits_matrix n (truth s) \<and> sm_ssrc (truth s) = S"
      using F by (simp add: fec_true_def)
    have one: "filter (\<lambda>s. \<not> de_media d s \<noteq> None) ?ss = [m]" using rebuild(2) by simp
    have x: "xor_of n (map truth ?ss) (sf_lengthRec sf) (sf_ptRec sf) (sf_tsRec sf) (sf_payload sf)"
      and two: "2 \<le> length ?ss" using F by (simp_all add: fec_true_def)
    have f: "fold xor_member (map truth (filter (\<lambda>s. de_media d s \<noteq> None) ?ss))
        (sf_lengthRec sf, sf_ptRec sf, sf_tsRec sf, 0, fit_payload n (sf_payload sf)) = (len, pt, ts, ssrc, p)"
      using rebuild(3) by (simp add: map_filter_truth [OF mt] n)
    have fm: "fits_matrix n (truth m)" "sm_ssrc (truth m) = S"
      and ss: "\<And>s. s \<in> set ?ss \<Longrightarrow> sm_ssrc (truth s) = S"
      using fit m(1) by simp_all
    note rec = recover_one [OF x one two fm(1) ss f]
    have "truth m = \<lparr>sm_ts = ts, sm_pt = pt, sm_ssrc = ssrc, sm_payload = take (unat len) p\<rparr>"
      by (rule storedMedia.equality) (simp_all add: rec(2-5) fm(2))
    then show ?thesis
      using D fit [OF m(1)] rebuild(4) by (auto simp: dec_true_def media_true_def rec_true_def)
  qed
qed

lemma scan_true:
  assumes "dec_true truth V S n d" "list_all (fec_true truth V S n) sfs" "scan_fecs d sfs = (d', sfs', r)"
  shows "dec_true truth V S n d' \<and> list_all (fec_true truth V S n) sfs'"
  using assms
proof (induction sfs arbitrary: d d' sfs' r)
  case (Cons sf sfs)
  obtain d1 sf1 r1 where t: "tryRecover d sf = (d1, sf1, r1)" by (cases "tryRecover d sf")
  obtain d2 sfs2 r2 where u: "scan_fecs d1 sfs = (d2, sfs2, r2)" by (cases "scan_fecs d1 sfs")
  have "dec_true truth V S n d1" "fec_true truth V S n sf1"
    using tryRecover_true [OF Cons.prems(1) _ t] Cons.prems(2) by simp_all
  then show ?case using Cons.IH [OF _ _ u] Cons.prems t u by (auto simp: Let_def)
qed simp

lemma recoverAll_true: "dec_true truth V S n d \<Longrightarrow> dec_true truth V S n (recoverAll d)"
proof (induction d rule: recoverAll.induct)
  case (1 d)
  obtain d1 sfs r where s: "scan_fecs d (de_fecs d) = (d1, sfs, r)" by (cases "scan_fecs d (de_fecs d)")
  have "dec_true truth V S n d1 \<and> list_all (fec_true truth V S n) sfs"
    using scan_true [OF "1.prems" _ s] "1.prems" by (simp add: dec_true_def)
  then have "dec_true truth V S n (d1\<lparr>de_fecs := sfs\<rparr>)" by (simp add: dec_true_def media_true_def)
  then show ?case
    using "1.IH" [OF s [symmetric] refl refl refl] s by (subst recoverAll.simps) (simp add: Let_def)
qed

lemma evict_true: "dec_true truth V S n d \<Longrightarrow> dec_true truth V S n (evict d)"
  by (auto simp: dec_true_def media_true_def evict_def Let_def list_all_iff)

lemma set_tl_subset: "x \<in> set (tl xs) \<Longrightarrow> x \<in> set xs"
  by (cases xs) simp_all

lemma make_room_true: "dec_true truth V S n d \<Longrightarrow> dec_true truth V S n (make_room d)"
  using evict_true [of truth V S n d]
  by (auto simp: make_room_def Let_def dec_true_def media_true_def list_all_iff dest!: set_tl_subset)

lemma PushMedia_true:
  assumes D: "dec_true truth V S n d" and m: "truth s = \<lparr>sm_ts = ts, sm_pt = pt, sm_ssrc = ssrc, sm_payload = p\<rparr>"
    and push: "PushMedia s ts pt ssrc p d = (d', rs)"
  shows "dec_true truth V S n d'" "list_all (rec_true truth V) rs"
proof -
  define d1 where "d1 = decoder_advance s (d\<lparr>de_out := []\<rparr>)"
  have d1: "dec_true truth V S n d1"
    using D by (auto simp: d1_def decoder_advance_def dec_true_def media_true_def)
  show "dec_true truth V S n d'" "list_all (rec_true truth V) rs"
  proof -
    have "dec_true truth V S n (decoder_store s ts pt ssrc p d1)"
      using d1 m by (auto simp: decoder_store_def dec_true_def media_true_def)
    from evict_true [OF recoverAll_true [OF this]] show "dec_true truth V S n d'" "list_all (rec_true truth V) rs"
      using push d1 unfolding PushMedia_def Let_def d1_def [symmetric]
      by (auto simp: dec_true_def split: if_splits)
  qed
qed

lemma PushFEC_true:
  assumes D: "dec_true truth V S n d"
    and F: "\<And>sf. parse_fec (d\<lparr>de_out := []\<rparr>) b = Some sf \<Longrightarrow> fec_true truth V S n sf"
    and push: "PushFEC b d = (d', rs)"
  shows "dec_true truth V S n d'" "list_all (rec_true truth V) rs"
proof -
  define d0 where "d0 = d\<lparr>de_out := []\<rparr>"
  have d0: "dec_true truth V S n d0" using D by (auto simp: d0_def dec_true_def media_true_def)
  have "dec_true truth V S n d' \<and> list_all (rec_true truth V) rs"
  proof (cases "parse_fec d0 b")
    case None
    then show ?thesis using push d0 by (simp add: PushFEC_def d0_def Let_def)
  next
    case (Some sf)
    have "dec_true truth V S n ((make_room d0)\<lparr>de_fecs := de_fecs (make_room d0) @ [sf]\<rparr>)"
      using make_room_true [OF d0] F Some by (auto simp: d0_def dec_true_def media_true_def)
    from evict_true [OF recoverAll_true [OF this]] show ?thesis
      using push Some d0 unfolding PushFEC_def Let_def d0_def [symmetric]
      by (auto simp: dec_true_def split: if_splits)
  qed
  then show "dec_true truth V S n d'" "list_all (rec_true truth V) rs" by auto
qed

lemma NewDecoder_true: "dec_true truth V S n (NewDecoder cfg n isn)"
  by (simp add: dec_true_def media_true_def NewDecoder_def)

section \<open>Recovery is complete\<close>

lemma tryRecover_fecs:
  "tryRecover (d\<lparr>de_fecs := x\<rparr>) sf = (let (d', sf', r) = tryRecover d sf in (d'\<lparr>de_fecs := x\<rparr>, sf', r))"
  by (auto simp: tryRecover_def Let_def split: list.splits prod.splits if_splits)

definition stuck :: "Decoder \<Rightarrow> storedFEC \<Rightarrow> bool" where
  "stuck d sf \<longleftrightarrow> (let (d', sf', r) = tryRecover d sf in sf' = sf \<and> \<not> r)"

lemma scan_stuck:
  assumes "scan_fecs d sfs = (d', sfs', r)" "\<not> r"
  shows "d' = d \<and> list_all (stuck d) sfs'"
  using assms
proof (induction sfs arbitrary: d d' sfs' r)
  case (Cons sf sfs)
  obtain d1 sf1 r1 where t: "tryRecover d sf = (d1, sf1, r1)" by (cases "tryRecover d sf")
  obtain d2 sfs2 r2 where u: "scan_fecs d1 sfs = (d2, sfs2, r2)" by (cases "scan_fecs d1 sfs")
  have r: "\<not> r1" "\<not> r2" "sfs' = sf1 # sfs2" "d' = d2" using Cons.prems t u by (auto simp: Let_def)
  have "d1 = d" using t r(1) by (cases rule: tryRecover_cases) auto
  moreover have "stuck d sf1"
  proof -
    consider "sf1 = sf" | "sf1 = sf\<lparr>sf_done := True\<rparr>" using tryRecover_done(4) [OF t] by blast
    then show ?thesis
    proof cases
      case 1
      then show ?thesis using t r(1) by (simp add: stuck_def)
    next
      case 2
      then show ?thesis by (simp add: stuck_def tryRecover_def)
    qed
  qed
  ultimately show ?case using Cons.IH [OF u] r by simp
qed simp

lemma recoverAll_stuck: "list_all (stuck (recoverAll d)) (de_fecs (recoverAll d))"
proof (induction d rule: recoverAll.induct)
  case (1 d)
  obtain d1 sfs r where s: "scan_fecs d (de_fecs d) = (d1, sfs, r)" by (cases "scan_fecs d (de_fecs d)")
  show ?case
  proof (cases r)
    case True
    then show ?thesis
      using "1.IH" [OF s [symmetric] refl refl] s by (subst (1 2) recoverAll.simps) (simp add: Let_def)
  next
    case False
    have "list_all (stuck (d\<lparr>de_fecs := sfs\<rparr>)) sfs"
      using scan_stuck [OF s False] by (simp add: stuck_def tryRecover_fecs Let_def split_beta list_all_iff)
    moreover have "recoverAll d = d\<lparr>de_fecs := sfs\<rparr>"
      using False s scan_stuck [OF s False] by (subst recoverAll.simps) (simp add: Let_def)
    ultimately show ?thesis by simp
  qed
qed

text \<open>The members of a group that are absent, and whether the group has been sent completely.\<close>

definition absent :: "Decoder \<Rightarrow> storedFEC \<Rightarrow> u32 list" where
  "absent d sf = filter (\<lambda>s. de_media d s = None) (fec_members sf)"

definition fully_sent :: "Decoder \<Rightarrow> storedFEC \<Rightarrow> bool" where
  "fully_sent d sf \<longleftrightarrow>
     seqDiff (de_lastSeq d) (seqAdd (sf_base sf) (int ((sf_count sf - 1) * sf_stride sf))) \<le> 0"

lemma stuck_absent:
  assumes "stuck d sf" "\<not> sf_done sf" "fully_sent d sf"
    "seqDiff (seqAdd (de_lastSeq d) (- int (de_window d))) (sf_base sf) \<ge> 0"
  shows "2 \<le> length (absent d sf)"
proof -
  have nd: "sf \<noteq> sf\<lparr>sf_done := True\<rparr>" using assms(2) by (metis storedFEC.select_convs(8) storedFEC.surjective storedFEC.update_convs(8))
  consider "absent d sf = []" | m where "absent d sf = [m]" | "2 \<le> length (absent d sf)"
    by (cases "absent d sf"; cases "tl (absent d sf)") auto
  then show ?thesis
  proof cases
    case 1
    then have "tryRecover d sf = (d, sf\<lparr>sf_done := True\<rparr>, False)"
      using assms by (simp add: tryRecover_def absent_def fully_sent_def)
    then show ?thesis using assms(1) nd by (simp add: stuck_def)
  next
    case 2
    then have "\<exists>d' r. tryRecover d sf = (d', sf\<lparr>sf_done := True\<rparr>, r)"
      using assms by (auto simp: tryRecover_def absent_def fully_sent_def Let_def split: prod.split)
    then show ?thesis using assms(1) nd by (auto simp: stuck_def)
  qed
qed

lemma evict_absent: "length (absent d sf) \<le> length (absent (evict d) sf)"
proof -
  have "absent d sf = filter (\<lambda>s. de_media d s = None) (absent (evict d) sf)"
    by (auto simp: absent_def evict_def Let_def intro!: filter_cong)
  then show ?thesis by (metis length_filter_le)
qed


section \<open>The recovery loop ends\<close>

text \<open>The loop of \<open>recoverAll\<close> with a bound on its passes.\<close>

fun recover_loop :: "nat \<Rightarrow> Decoder \<Rightarrow> Decoder option" where
  "recover_loop 0 d = None"
| "recover_loop (Suc k) d =
     (let (d', sfs, recovered) = scan_fecs d (de_fecs d);
          d' = d'\<lparr>de_fecs := sfs\<rparr>
      in if \<not> recovered then Some d' else recover_loop k d')"

lemma recover_loop_enough: "undone (de_fecs d) < k \<Longrightarrow> recover_loop k d = Some (recoverAll d)"
proof (induction k arbitrary: d)
  case (Suc k)
  obtain d1 sfs r where s: "scan_fecs d (de_fecs d) = (d1, sfs, r)" by (cases "scan_fecs d (de_fecs d)")
  show ?case
  proof (cases r)
    case True
    then have "undone sfs < k" using scan_fecs_undone(2) [OF s] Suc.prems by simp
    then show ?thesis using Suc.IH [of "d1\<lparr>de_fecs := sfs\<rparr>"] s True by (subst recoverAll.simps) simp
  next
    case False
    then show ?thesis using s by (subst recoverAll.simps) simp
  qed
qed simp

text \<open>C12: The recovery loop ends: one pass more than there are stored FEC packets always suffices, because each
  pass that rebuilds a packet resolves at least one of them.  As the store holds at most \<open>maxFECs\<close> packets
  this bounds the work of every push, whatever a peer sends.\<close>

theorem recoverAll_passes: "recover_loop (length (de_fecs d) + 1) d = Some (recoverAll d)"
proof (rule recover_loop_enough)
  show "undone (de_fecs d) < length (de_fecs d) + 1"
    unfolding undone_def using length_filter_le [of _ "de_fecs d"] by (simp add: le_imp_less_Suc)
qed

section \<open>Widening a truncated base\<close>

lemma distance_add: "- (2 ^ 31) < e \<Longrightarrow> e \<le> 2 ^ 31 \<Longrightarrow> seqDiff a (a + word_of_int e) = e"
  unfolding seqDiff_def using num32.dist_add [of e a] by (simp add: Add32_def)

text \<open>The nearest candidate with the given low bits is the base itself when it is within half a span.\<close>

lemma widen_near:
  assumes near: "fec_abs (seqDiff (de_lastSeq d) b) < 2 ^ (k - 1)" and k: "1 < k" "k \<le> 24"
    and w: "k = (if mx_Variant (de_cfg d) = Variant20225 then 16 else 24)"
  shows "widen d (b AND mask k) = b"
proof -
  let ?l = "de_lastSeq d"
  define span :: int where "span = 2 ^ k"
  define t where "t = seqDiff ?l b"
  define e where "e = uint (b AND mask k) - uint (?l AND mask k)"
  define cand where "cand = (?l AND NOT (mask k)) OR (b AND mask k)"
  have half: "2 * 2 ^ (k - 1) = span" using k by (cases k) (simp_all add: span_def)
  have span_le: "span \<le> 2 ^ 24" unfolding span_def using power_increasing [OF k(2), of "2 :: int"] by simp
  have t: "- span < 2 * t" "2 * t < span" using near half by (auto simp: fec_abs_def t_def split: if_splits)
  have b: "b = ?l + word_of_int t" using num32.add_dist [of ?l b] by (simp add: t_def seqDiff_def Add32_def)
  have lim: "uint (x AND mask k) < span" for x :: u32
    by (simp add: span_def take_bit_eq_mask [symmetric] unsigned_take_bit_eq)
  have e: "- span < e" "e < span" using lim [of b] lim [of ?l] by (simp_all add: e_def) (smt (verit) uint_nonnegative)+
  have "cand = (?l AND NOT (mask k)) + (b AND mask k)"
    unfolding cand_def by (rule disjunctive_add_eq_or [symmetric]) (rule bit_word_eqI; auto simp: bit_simps)
  also have "\<dots> = ?l + (b AND mask k) - (?l AND mask k)" using word_split_mask [of ?l k] by (simp add: algebra_simps)
  also have "\<dots> = ?l + word_of_int e" by (simp add: e_def)
  finally have cand: "cand = ?l + word_of_int e" .
  have "t mod span = e mod span"
  proof -
    have "uint (x AND mask k) = uint x mod span" for x :: u32
      by (simp only: span_def take_bit_eq_mask [symmetric] unsigned_take_bit_eq take_bit_eq_mod [where 'a = int])
    then have "e mod span = (uint b - uint ?l) mod span" by (simp add: e_def mod_diff_eq)
    moreover have "t mod span = (uint b - uint ?l) mod span"
    proof -
      have ub: "uint b = (uint ?l + t) mod 2 ^ 32" unfolding b by (simp add: uint_word_ariths uint_word_of_int mod_simps)
      have dv: "span dvd 2 ^ 32" unfolding span_def using k(2) by (intro le_imp_power_dvd) simp
      have "uint b mod span = (uint ?l + t) mod span" unfolding ub by (rule mod_mod_cancel [OF dv])
      then show ?thesis by (metis add.commute add_diff_cancel_right' mod_diff_left_eq)
    qed
    ultimately show ?thesis by simp
  qed
  then obtain q where q: "t = e + q * span" by (metis mod_eqE mult.commute add.commute diff_add_cancel)
  have "q = -1 \<or> q = 0 \<or> q = 1"
  proof (rule ccontr)
    assume "\<not> ?thesis"
    then have "2 \<le> q \<or> q \<le> -2" by linarith
    moreover have "0 < span" by (simp add: span_def)
    ultimately have "2 * span \<le> q * span \<or> q * span \<le> -2 * span"
      by (metis mult_right_mono less_imp_le)
    then show False using q t e by linarith
  qed
  have dist: "seqDiff ?l (?l + word_of_int x) = x" if "- (2 * span) < x" "x < 2 * span" for x
    using that span_le by (intro distance_add) simp_all
  have sp: "word_of_int span = (if mx_Variant (de_cfg d) = Variant20225 then 0x10000 else 0x1000000 :: u32)"
    using w by (auto simp: span_def)
  have cands: "cand + word_of_int span = ?l + word_of_int (e + span)" "cand - word_of_int span = ?l + word_of_int (e - span)"
    by (simp_all add: cand)
  have "widen d (b AND mask k) =
    (let closer = (\<lambda>c best. if fec_abs (seqDiff ?l c) < fec_abs (seqDiff ?l best) then c else best)
     in closer (cand - word_of_int span) (closer (cand + word_of_int span) cand))"
    unfolding sp using w by (auto simp: widen_def cand_def Let_def mask_eq_exp_minus_1)
  also have "\<dots> = b"
  proof -
    have sp0: "0 < span" by (simp add: span_def)
    have a: "fec_abs (seqDiff ?l (?l + word_of_int x)) = \<bar>x\<bar>" if "- (2 * span) < x" "x < 2 * span" for x
      using dist [OF that] by (simp add: fec_abs_def)
    have ds: "fec_abs (seqDiff ?l (?l + word_of_int e)) = \<bar>e\<bar>"
      "fec_abs (seqDiff ?l (?l + word_of_int (e + span))) = \<bar>e + span\<bar>"
      "fec_abs (seqDiff ?l (?l + word_of_int (e - span))) = \<bar>e - span\<bar>"
      using e sp0 by (intro a; linarith)+
    consider "t = e" | "t = e + span" | "t = e - span" using \<open>q = -1 \<or> q = 0 \<or> q = 1\<close> q by fastforce
    then show ?thesis
    proof cases
      case 1
      then have "\<not> \<bar>e + span\<bar> < \<bar>e\<bar>" "\<not> \<bar>e - span\<bar> < \<bar>e\<bar>" using t by linarith+
      then show ?thesis unfolding cands unfolding Let_def cand ds b using 1 ds by simp
    next
      case 2
      then have "\<bar>e + span\<bar> < \<bar>e\<bar>" "\<not> \<bar>e - span\<bar> < \<bar>e + span\<bar>" using t by linarith+
      then show ?thesis unfolding cands unfolding Let_def cand ds b using 2 ds by simp
    next
      case 3
      then have "\<not> \<bar>e + span\<bar> < \<bar>e\<bar>" "\<bar>e - span\<bar> < \<bar>e\<bar>" using t by linarith+
      then show ?thesis unfolding cands unfolding Let_def cand ds b using 3 ds by simp
    qed
  qed
  finally show ?thesis .
qed

end
