(* ===== verification/Fec_Encoder.thy ===== *)
theory Fec_Encoder
  imports Fec_Decoder Machine
begin

text \<open>Correctness of the FEC encoder of internal/fec/fec.go: fed with consecutively numbered packets, its
  state after \<open>i\<close> packets and the FEC packets it emits for packet \<open>i\<close> are given in closed form.\<close>

unbundle bit_operations_syntax

section \<open>Groups in closed form\<close>

definition group_of :: "nat \<Rightarrow> u32 \<Rightarrow> storedMedia list \<Rightarrow> fecGroup" where
  "group_of n base ms =
     \<lparr>gr_base = base, gr_collected = length ms, gr_lengthClip = xsum (map len_of ms),
      gr_ptClip = xsum (map pt_of ms), gr_tsClip = xsum (map sm_ts ms),
      gr_payloadClip = map (\<lambda>j. xsum (map (byte_of j) ms)) [0..<n]\<rparr>"

lemma xsum_snoc: "xsum (map f ms @ [x]) = xsum (map f ms) XOR x"
  by simp

lemma group_of_clip:
  "(group_clip (len_of m) (sm_pt m) (sm_ts m) (sm_payload m) (group_of n b ms))\<lparr>gr_collected := length ms + 1\<rparr> =
     group_of n b (ms @ [m])"
proof -
  have "xor_into (map (\<lambda>j. xsum (map (byte_of j) ms)) [0..<n]) (sm_payload m) =
      map (\<lambda>j. xsum (map (byte_of j) (ms @ [m]))) [0..<n]"
    by (rule nth_equalityI) (simp_all add: nth_xor_into byte_of_def)
  then show ?thesis by (simp add: group_of_def group_clip_def pt_of_def)
qed

lemma group_of_sel [simp]:
  "gr_base (group_of n b ms) = b" "gr_collected (group_of n b ms) = length ms"
  by (simp_all add: group_of_def)

lemma map_zero_upt: "map (\<lambda>j. 0) [0..<n] = replicate n 0"
  by (simp add: map_replicate_const)

lemma group_of_reset [simp]: "group_reset b' (group_of n b ms) = group_of n b' []"
  by (simp add: group_of_def group_reset_def map_zero_upt)

lemma newGroup_of: "newGroup b n = group_of n b []"
  by (simp add: group_of_def newGroup_def map_zero_upt)

section \<open>Sequence arithmetic\<close>

lemma seqAdd_nat [simp]: "seqAdd (isn + of_nat a) (int k) = isn + of_nat (a + k)"
  by (simp add: seqAdd_def Add32_def)

lemma seqDiff_nat:
  assumes "a \<le> b" "b - a \<le> 2 ^ 31"
  shows "seqDiff (isn + of_nat a) (isn + of_nat b) = int (b - a)"
proof -
  have "isn + of_nat b = (isn + of_nat a) + word_of_int (int (b - a))" using assms(1) by simp
  moreover have "- (2 ^ 31) < int (b - a)" "int (b - a) \<le> 2 ^ 31"
    using assms(2) by simp_all
  ultimately show ?thesis using distance_add by metis
qed

section \<open>The encoder in closed form\<close>

text \<open>Packets of column \<open>c\<close> among the first \<open>i\<close>.\<close>

definition col_count :: "nat \<Rightarrow> nat \<Rightarrow> nat \<Rightarrow> nat" where
  "col_count l c i = i div l + (if c < i mod l then 1 else 0)"

definition row_group :: "FecConfig \<Rightarrow> nat \<Rightarrow> u32 \<Rightarrow> (nat \<Rightarrow> storedMedia) \<Rightarrow> nat \<Rightarrow> fecGroup" where
  "row_group cfg n isn pk i =
     (let l = mx_Cols cfg; b = i div l * l in group_of n (isn + of_nat b) (map pk [b..<i]))"

definition col_group :: "FecConfig \<Rightarrow> nat \<Rightarrow> u32 \<Rightarrow> (nat \<Rightarrow> storedMedia) \<Rightarrow> nat \<Rightarrow> nat \<Rightarrow> fecGroup" where
  "col_group cfg n isn pk c k =
     (let l = mx_Cols cfg; q = k div mx_Rows cfg * mx_Rows cfg
      in group_of n (isn + of_nat (c + q * l)) (map (\<lambda>r. pk (c + r * l)) [q..<k]))"

definition enc_at :: "FecConfig \<Rightarrow> nat \<Rightarrow> u32 \<Rightarrow> (nat \<Rightarrow> storedMedia) \<Rightarrow> nat \<Rightarrow> Encoder" where
  "enc_at cfg n isn pk i =
     \<lparr>en_cfg = cfg, en_payloadSize = n, en_row = row_group cfg n isn pk i,
      en_cols = (if mx_Rows cfg > 1
                 then map (\<lambda>c. col_group cfg n isn pk c (col_count (mx_Cols cfg) c i)) [0..<mx_Cols cfg] else []),
      en_rowBase = isn + of_nat (i div mx_Cols cfg * mx_Cols cfg)\<rparr>"

text \<open>The indices a FEC packet with base index \<open>b\<close> protects, and its wire form.\<close>

definition group_idx :: "FecConfig \<Rightarrow> Direction \<Rightarrow> nat \<Rightarrow> nat list" where
  "group_idx cfg dir b =
     (case dir of Column \<Rightarrow> map (\<lambda>k. b + k * mx_Cols cfg) [0..<mx_Rows cfg]
      | Row \<Rightarrow> map (\<lambda>k. b + k) [0..<mx_Cols cfg])"

definition fec_of :: "FecConfig \<Rightarrow> nat \<Rightarrow> u32 \<Rightarrow> (nat \<Rightarrow> storedMedia) \<Rightarrow> Direction \<Rightarrow> nat \<Rightarrow> fec_Packet" where
  "fec_of cfg n isn pk dir b =
     encoder_emit (NewEncoder cfg n isn) (group_of n (isn + of_nat b) (map pk (group_idx cfg dir b))) dir"

definition fec_out :: "FecConfig \<Rightarrow> nat \<Rightarrow> u32 \<Rightarrow> (nat \<Rightarrow> storedMedia) \<Rightarrow> nat \<Rightarrow> fec_Packet list" where
  "fec_out cfg n isn pk i =
     (let l = mx_Cols cfg; d = mx_Rows cfg; r = i div l; c = i mod l
      in (if 1 < d \<and> r mod d = d - 1 then [fec_of cfg n isn pk Column (c + (r + 1 - d) * l)] else []) @
         (if \<not> mx_ColumnOnly cfg \<and> c = l - 1 then [fec_of cfg n isn pk Row (r * l)] else []))"

definition matrix_ok :: "FecConfig \<Rightarrow> bool" where
  "matrix_ok cfg \<longleftrightarrow> 1 \<le> mx_Cols cfg \<and> 1 \<le> mx_Rows cfg \<and> matrixSize cfg \<le> 2 ^ 30"

lemma emit_cfg: "encoder_emit e g dir = encoder_emit e' g dir" if "en_cfg e = en_cfg e'"
  using that by (simp add: encoder_emit_def)

lemma enc_at_0: "NewEncoder cfg n isn = enc_at cfg n isn pk 0"
  by (simp add: NewEncoder_def enc_at_def row_group_def col_group_def col_count_def newGroup_of seqAdd_def Add32_def)

text \<open>How the counters move from one packet to the next.\<close>

lemma div_mod_Suc:
  assumes "1 \<le> l"
  shows "Suc i mod l = (if i mod l = l - 1 then 0 else i mod l + 1)"
    "Suc i div l = (if i mod l = l - 1 then i div l + 1 else i div l)"
  using assms by (auto simp: mod_Suc div_Suc)

lemma col_count_Suc:
  assumes "1 \<le> l" "c < l"
  shows "col_count l c (Suc i) = (if c = i mod l then i div l + 1 else col_count l c i)"
proof -
  have "i mod l < l" using assms by simp
  then show ?thesis using assms by (auto simp: col_count_def div_mod_Suc)
qed

lemma col_count_self: "col_count l (i mod l) i = i div l"
  by (simp add: col_count_def)

lemma col_group_Suc:
  assumes "1 < mx_Rows cfg"
  shows "col_group cfg n isn pk c (Suc k) =
    (if k mod mx_Rows cfg = mx_Rows cfg - 1 then group_of n (isn + of_nat (c + (k + 1) * mx_Cols cfg)) []
     else let q = k div mx_Rows cfg * mx_Rows cfg
          in group_of n (isn + of_nat (c + q * mx_Cols cfg))
               (map (\<lambda>r. pk (c + r * mx_Cols cfg)) [q..<k] @ [pk (c + k * mx_Cols cfg)]))"
proof (cases "k mod mx_Rows cfg = mx_Rows cfg - 1")
  case True
  then have e: "Suc k div mx_Rows cfg * mx_Rows cfg = k + 1"
    using assms div_mult_mod_eq [of k "mx_Rows cfg"] by (simp add: div_mod_Suc algebra_simps)
  show ?thesis using True by (simp only: col_group_def Let_def e if_True) simp
next
  case False
  then show ?thesis using assms by (simp add: col_group_def Let_def div_mod_Suc)
qed

lemma row_group_Suc:
  assumes "1 \<le> mx_Cols cfg"
  shows "row_group cfg n isn pk (Suc i) =
    (if i mod mx_Cols cfg = mx_Cols cfg - 1 then group_of n (isn + of_nat (i + 1)) []
     else let b = i div mx_Cols cfg * mx_Cols cfg in group_of n (isn + of_nat b) (map pk [b..<i] @ [pk i]))"
proof (cases "i mod mx_Cols cfg = mx_Cols cfg - 1")
  case True
  then have e: "Suc i div mx_Cols cfg * mx_Cols cfg = i + 1"
    using assms div_mult_mod_eq [of i "mx_Cols cfg"] by (simp add: div_mod_Suc algebra_simps)
  show ?thesis using True by (simp only: row_group_def Let_def e if_True) simp
next
  case False
  then show ?thesis using assms by (simp add: row_group_def Let_def div_mod_Suc)
qed

lemma upt_shift: "map f [a..<a + k] = map (\<lambda>j. f (a + j)) [0..<k]"
  by (rule nth_equalityI) simp_all

section \<open>One push\<close>

text \<open>The state between the row clip and the row flush.\<close>

definition enc_mid :: "FecConfig \<Rightarrow> nat \<Rightarrow> u32 \<Rightarrow> (nat \<Rightarrow> storedMedia) \<Rightarrow> nat \<Rightarrow> Encoder" where
  "enc_mid cfg n isn pk i =
     (let b = i div mx_Cols cfg * mx_Cols cfg
      in (enc_at cfg n isn pk i)\<lparr>en_row := group_of n (isn + of_nat b) (map pk [b..<i] @ [pk i])\<rparr>)"

lemma index_split: "1 \<le> l \<Longrightarrow> i = i div l * l + i mod l \<and> i mod l < l" for i l :: nat
  by simp

lemma fec_of_emit:
  assumes "en_cfg e = cfg" "gr_base g = isn + of_nat b" "g = group_of n (isn + of_nat b) (map pk (group_idx cfg dir b))"
  shows "encoder_emit e g dir = fec_of cfg n isn pk dir b"
  using assms by (simp add: fec_of_def encoder_emit_def NewEncoder_def)

lemma row_full:
  assumes "1 \<le> l" "i mod l = l - 1"
  shows "map f [i div l * l..<i] @ [f i] = map f (map (\<lambda>k. i div l * l + k) [0..<l])" "Suc i div l * l = i div l * l + l"
    "i + 1 = i div l * l + l"
proof -
  have sum: "i div l * l + l = Suc i" using assms div_mult_mod_eq [of i l] by linarith
  have "map f [i div l * l..<i] @ [f i] = map f [i div l * l..<i div l * l + l]" unfolding sum by simp
  then show "map f [i div l * l..<i] @ [f i] = map f (map (\<lambda>k. i div l * l + k) [0..<l])"
    by (simp only: upt_shift map_map o_def)
  show "Suc i div l * l = i div l * l + l" using assms by (simp add: div_mod_Suc)
  show "i + 1 = i div l * l + l" using sum by simp
qed

lemma push_row_at:
  assumes ok: "matrix_ok cfg" and e: "en_cfg e = cfg" "en_rowBase e = isn + of_nat (i div mx_Cols cfg * mx_Cols cfg)"
    "en_row e = group_of n (isn + of_nat (i div mx_Cols cfg * mx_Cols cfg)) (map pk [i div mx_Cols cfg * mx_Cols cfg..<i] @ [pk i])"
  shows "push_row e =
    (e\<lparr>en_row := row_group cfg n isn pk (Suc i),
       en_rowBase := isn + of_nat (Suc i div mx_Cols cfg * mx_Cols cfg)\<rparr>,
     if \<not> mx_ColumnOnly cfg \<and> i mod mx_Cols cfg = mx_Cols cfg - 1
     then [fec_of cfg n isn pk Row (i div mx_Cols cfg * mx_Cols cfg)] else [])"
proof -
  let ?l = "mx_Cols cfg"
  have l: "1 \<le> ?l" using ok by (simp add: matrix_ok_def)
  have len: "gr_collected (en_row e) = i mod ?l + 1" by (simp add: e minus_div_mult_eq_mod)
  have ml: "i mod ?l < ?l" using l by simp
  show ?thesis
  proof (cases "i mod ?l = ?l - 1")
    case True
    note full = row_full [OF l True]
    have em: "encoder_emit e (en_row e) Row = fec_of cfg n isn pk Row (i div ?l * ?l)"
      by (rule fec_of_emit) (simp_all only: e group_of_sel full(1) group_idx_def Direction.case)
    have rg: "row_group cfg n isn pk (Suc i) = group_of n (isn + of_nat (i div ?l * ?l + ?l)) []"
      unfolding row_group_Suc [OF l] full(3) using True by simp
    have ge: "mx_Cols (en_cfg e) \<le> gr_collected (en_row e)" using len True e(1) by simp
    have rb: "seqAdd (en_rowBase e) (int (mx_Cols (en_cfg e))) = isn + of_nat (i div ?l * ?l + ?l)"
      unfolding e by (rule seqAdd_nat)
    have rs: "group_reset b (en_row e) = group_of n b []" for b unfolding e by simp
    show ?thesis
      unfolding push_row_def rb Let_def em rg full(2) rs using ge True e(1) by simp
  next
    case False
    then have lt: "\<not> mx_Cols (en_cfg e) \<le> gr_collected (en_row e)" using len ml e(1) by simp
    have "row_group cfg n isn pk (Suc i) = en_row e" "isn + of_nat (Suc i div ?l * ?l) = en_rowBase e"
      using False l by (simp_all add: row_group_Suc div_mod_Suc Let_def e)
    then show ?thesis unfolding push_row_def using lt False by simp
  qed
qed

text \<open>The column step.\<close>

lemma col_full:
  assumes "1 < d" "k mod d = d - 1"
  shows "map f [k div d * d..<k] @ [f k] = map (\<lambda>j. f (k div d * d + j)) [0..<d]" "k + 1 = k div d * d + d"
  using row_full(1) [of d k f] row_full(3) [of d k] assms by (simp_all only: map_map o_def)

lemma push_col_at:
  assumes ok: "matrix_ok cfg" "1 < mx_Rows cfg" and cfg: "en_cfg e = cfg"
    and cols: "en_cols e = map (\<lambda>c. col_group cfg n isn pk c (col_count (mx_Cols cfg) c i)) [0..<mx_Cols cfg]"
    and pk: "pk i = \<lparr>sm_ts = ts, sm_pt = pt, sm_ssrc = ssrc, sm_payload = p\<rparr>"
  shows "push_col (isn + of_nat i) ts pt p (int (i mod mx_Cols cfg)) e =
    (e\<lparr>en_cols := map (\<lambda>c. col_group cfg n isn pk c (col_count (mx_Cols cfg) c (Suc i))) [0..<mx_Cols cfg]\<rparr>,
     if i div mx_Cols cfg mod mx_Rows cfg = mx_Rows cfg - 1
     then [fec_of cfg n isn pk Column (i mod mx_Cols cfg + (i div mx_Cols cfg + 1 - mx_Rows cfg) * mx_Cols cfg)] else [])"
proof -
  let ?l = "mx_Cols cfg" and ?d = "mx_Rows cfg"
  let ?c = "i mod ?l" and ?k = "i div ?l"
  let ?q = "?k div ?d * ?d"
  define g where "g = col_group cfg n isn pk ?c ?k"
  have l: "1 \<le> ?l" and cl: "?c < ?l" using ok by (auto simp: matrix_ok_def)
  have i: "i = ?c + ?k * ?l" by simp
  have g: "g = group_of n (isn + of_nat (?c + ?q * ?l)) (map (\<lambda>r. pk (?c + r * ?l)) [?q..<?k])"
    by (simp add: g_def col_group_def Let_def)
  have nth: "en_cols e ! ?c = g" using cl by (simp add: cols g_def col_count_self)
  have upd: "(en_cols e)[?c := x] =
      map (\<lambda>c. col_group cfg n isn pk c (col_count ?l c (Suc i))) [0..<?l]" if "x = col_group cfg n isn pk ?c (Suc ?k)" for x
    using cl l that by (intro nth_equalityI) (auto simp: cols nth_list_update col_count_Suc)
  have qk: "?q \<le> ?k" "?k - ?q < ?d" using ok by (simp_all add: minus_div_mult_eq_mod)
  have fresh: "seqDiff (gr_base g) (isn + of_nat i) < int (matrixSize cfg)"
  proof -
    have "i - (?c + ?q * ?l) = (?k - ?q) * ?l" using i by (metis add_diff_cancel_left diff_mult_distrib)
    moreover have "(?k - ?q) * ?l < ?d * ?l" using qk(2) l by simp
    moreover have "?c + ?q * ?l \<le> i" using qk(1) i by (metis add_le_cancel_left mult_le_mono1)
    ultimately have b: "?c + ?q * ?l \<le> i" "i - (?c + ?q * ?l) < matrixSize cfg"
      by (simp_all only: matrixSize_def mult.commute)
    have "i - (?c + ?q * ?l) \<le> 2 ^ 31" using b(2) ok(1) by (simp add: matrix_ok_def)
    from seqDiff_nat [OF b(1) this] show ?thesis unfolding g group_of_sel using b(2) by simp
  qed
  define g2 where "g2 = group_of n (isn + of_nat (?c + ?q * ?l)) (map (\<lambda>r. pk (?c + r * ?l)) [?q..<?k] @ [pk (?c + ?k * ?l)])"
  have clip: "(group_clip (of_nat (length p)) pt ts p g)\<lparr>gr_collected := gr_collected (group_clip (of_nat (length p)) pt ts p g) + 1\<rparr> = g2"
    using group_of_clip [where m = "pk i" and n = n and b = "isn + of_nat (?c + ?q * ?l)" and ms = "map (\<lambda>r. pk (?c + r * ?l)) [?q..<?k]"] i
    by (simp add: g g2_def pk len_of_def group_clip_def)
  have col: "gr_collected g2 = ?k mod ?d + 1" by (simp add: g2_def minus_div_mult_eq_mod)
  have pos: "nat (int ?c) = ?c" "0 \<le> int ?c" "int ?c < int (length (en_cols e))" using cl by (simp_all add: cols)
  show ?thesis
  proof (cases "?k mod ?d = ?d - 1")
    case True
    note full = col_full [OF ok(2) True]
    have em: "encoder_emit e g2 Column = fec_of cfg n isn pk Column (?c + ?q * ?l)"
    proof (rule fec_of_emit [OF cfg])
      show "gr_base g2 = isn + of_nat (?c + ?q * ?l)" by (simp only: g2_def group_of_sel)
      have "(?c + ?q * ?l) + j * ?l = ?c + (?q + j) * ?l" for j by (simp only: add_mult_distrib add.assoc)
      then show "g2 = group_of n (isn + of_nat (?c + ?q * ?l)) (map pk (group_idx cfg Column (?c + ?q * ?l)))"
        unfolding g2_def full(1) [of "\<lambda>r. pk (?c + r * ?l)"] group_idx_def by (simp only: Direction.case map_map o_def)
    qed
    have q: "?q = ?k + 1 - ?d" using full(2) by simp
    have "seqAdd (gr_base g2) (int (matrixSize cfg)) = isn + of_nat (?c + ?q * ?l + matrixSize cfg)"
      unfolding g2_def group_of_sel by (rule seqAdd_nat)
    also have "?c + ?q * ?l + matrixSize cfg = ?c + (?k + 1) * ?l" unfolding full(2) by (simp add: matrixSize_def algebra_simps)
    finally have rs: "group_reset (seqAdd (gr_base g2) (int (matrixSize cfg))) g2 = col_group cfg n isn pk ?c (Suc ?k)"
      using True by (simp only: col_group_Suc [OF ok(2)] if_True) (simp add: g2_def)
    show ?thesis
      unfolding push_col_def cfg pos(1) nth Let_def
      using fresh clip col rs em upd [OF rs] pos ok(2) True q by (simp add: Let_def)
  next
    case False
    then have "?k mod ?d + 1 < ?d" using ok(2) by (metis Suc_eq_plus1 Suc_lessI diff_Suc_1 mod_less_divisor zero_less_one less_trans)
    moreover have "g2 = col_group cfg n isn pk ?c (Suc ?k)" using False by (simp add: col_group_Suc [OF ok(2)] g2_def Let_def)
    ultimately show ?thesis
      unfolding push_col_def cfg pos(1) nth Let_def
      using fresh clip col upd pos ok(2) False by (simp add: Let_def)
  qed
qed

lemma enc_at_sel [simp]:
  "en_cfg (enc_at cfg n isn pk i) = cfg" "en_payloadSize (enc_at cfg n isn pk i) = n"
  "en_rowBase (enc_at cfg n isn pk i) = isn + of_nat (i div mx_Cols cfg * mx_Cols cfg)"
  by (simp_all add: enc_at_def)

lemma Encoder_Push_at:
  assumes ok: "matrix_ok cfg"
  shows "Encoder_Push (isn + of_nat i) (sm_ts (pk i)) (sm_pt (pk i)) (sm_payload (pk i)) (enc_at cfg n isn pk i) =
    (enc_at cfg n isn pk (Suc i), fec_out cfg n isn pk i)"
proof -
  let ?l = "mx_Cols cfg" and ?s = "isn + of_nat i" and ?e = "enc_at cfg n isn pk i"
  let ?b = "i div ?l * ?l"
  have l: "1 \<le> ?l" "?l \<le> 2 ^ 30"
  proof -
    show "1 \<le> ?l" using ok by (simp add: matrix_ok_def)
    have "?l * 1 \<le> ?l * mx_Rows cfg" using ok by (intro mult_le_mono2) (simp add: matrix_ok_def)
    also have "\<dots> \<le> 2 ^ 30" using ok by (simp add: matrix_ok_def matrixSize_def)
    finally show "?l \<le> 2 ^ 30" by simp
  qed
  have ml: "i mod ?l < ?l" using l by simp
  have pos: "seqDiff (isn + of_nat ?b) ?s = int (i mod ?l)"
    using seqDiff_nat [of ?b i isn] ml l(2) by (simp only: minus_div_mult_eq_mod) simp
  have adv: "push_advance ?s ?e = ?e" using ml by (simp add: push_advance_def enc_at_sel(3) pos del: of_nat_mult)
  define e1 where "e1 = ?e\<lparr>en_row := group_of n (isn + of_nat ?b) (map pk [?b..<i] @ [pk i])\<rparr>"
  have e1: "en_cfg e1 = cfg" "en_rowBase e1 = isn + of_nat ?b"
    "en_row e1 = group_of n (isn + of_nat ?b) (map pk [?b..<i] @ [pk i])" "en_cols e1 = en_cols ?e"
    by (simp_all add: e1_def enc_at_def)
  have row: "en_row ?e = group_of n (isn + of_nat ?b) (map pk [?b..<i])"
    by (simp only: enc_at_def row_group_def Let_def Encoder.simps)
  have clip: "(let r = group_clip (of_nat (length (sm_payload (pk i)))) (sm_pt (pk i)) (sm_ts (pk i)) (sm_payload (pk i)) (en_row ?e)
      in ?e\<lparr>en_row := r\<lparr>gr_collected := gr_collected r + 1\<rparr>\<rparr>) = e1"
    using group_of_clip [where m = "pk i" and n = n and b = "isn + of_nat ?b" and ms = "map pk [?b..<i]"]
    unfolding row e1_def Let_def by (simp add: len_of_def group_clip_def)
  define ncols where "ncols = en_cols (enc_at cfg n isn pk (Suc i))"
  define out1 where "out1 = (if 1 < mx_Rows cfg \<and> i div ?l mod mx_Rows cfg = mx_Rows cfg - 1
     then [fec_of cfg n isn pk Column (i mod ?l + (i div ?l + 1 - mx_Rows cfg) * ?l)] else [])"
  have col: "push_col ?s (sm_ts (pk i)) (sm_pt (pk i)) (sm_payload (pk i)) (int (i mod ?l)) e1 =
      (e1\<lparr>en_cols := ncols\<rparr>, out1)"
  proof (cases "1 < mx_Rows cfg")
    case True
    have "en_cols e1 = map (\<lambda>c. col_group cfg n isn pk c (col_count ?l c i)) [0..<?l]"
      using True e1(4) by (simp add: enc_at_def)
    from push_col_at [OF ok True e1(1) this, where ssrc = "sm_ssrc (pk i)"] show ?thesis
      using True by (simp add: ncols_def out1_def enc_at_def)
  next
    case False
    then show ?thesis using e1 by (simp add: push_col_def ncols_def out1_def enc_at_def)
  qed
  have row: "push_row (e1\<lparr>en_cols := ncols\<rparr>) =
    (enc_at cfg n isn pk (Suc i),
     if \<not> mx_ColumnOnly cfg \<and> i mod ?l = ?l - 1 then [fec_of cfg n isn pk Row ?b] else [])"
    using push_row_at [OF ok, of "e1\<lparr>en_cols := ncols\<rparr>" isn i n pk] e1 unfolding ncols_def
    by (simp add: e1_def enc_at_def)
  show ?thesis
    unfolding Encoder_Push_def Let_def adv enc_at_sel(3) pos clip [unfolded Let_def] col prod.case row
    by (simp only: fec_out_def out1_def Let_def)
qed

section \<open>A whole stream\<close>

definition push_stream :: "u32 \<Rightarrow> Encoder \<Rightarrow> nat \<times> storedMedia \<Rightarrow> Encoder \<times> fec_Packet list" where
  "push_stream isn e im = (case im of (i, m) \<Rightarrow> Encoder_Push (isn + of_nat i) (sm_ts m) (sm_pt m) (sm_payload m) e)"

lemma push_stream_run:
  assumes ok: "matrix_ok cfg"
  shows "accum (push_stream isn) (NewEncoder cfg n isn) (map (\<lambda>i. (i, pk i)) [0..<k]) =
    (enc_at cfg n isn pk k, map (fec_out cfg n isn pk) [0..<k])"
proof (induction k)
  case 0
  show ?case by (simp add: enc_at_0 [of cfg n isn pk])
next
  case (Suc k)
  then show ?case by (simp add: accum_append push_stream_def Encoder_Push_at [OF ok])
qed

text \<open>C10: The encoder protects exactly the matrix.  Fed with the consecutively numbered packets of a stream,
  for packet \<open>i\<close> it emits the column packet of \<open>i\<close>'s column when \<open>i\<close> lies in the last row of its matrix and the
  row packet of \<open>i\<close>'s row when \<open>i\<close> ends its row (unless rows are off), and nothing else; each packet carries the
  XOR of the lengths, payload types, timestamps and zero-padded payloads of exactly the packets of its
  column or row, also across the wrap of the sequence number.\<close>

theorem encoder_protects_matrix:
  assumes "matrix_ok cfg"
  shows "snd (accum (push_stream isn) (NewEncoder cfg n isn) (enumerate 0 ms)) =
    map (fec_out cfg n isn (\<lambda>i. ms ! i)) [0..<length ms]"
proof -
  have "enumerate 0 ms = map (\<lambda>i. (i, ms ! i)) [0..<length ms]"
    by (rule nth_equalityI) (simp_all add: nth_enumerate_eq)
  then show ?thesis using push_stream_run [OF assms] by simp
qed

theorem encoder_protects_matrix_witness:
  "let ms = map (\<lambda>j. \<lparr>sm_ts = of_nat j, sm_pt = 127, sm_ssrc = 7, sm_payload = [of_nat j]\<rparr>) [0..<4];
       cfg = \<lparr>mx_Cols = 2, mx_Rows = 2, mx_ColumnOnly = False, mx_Variant = Variant20221\<rparr>
   in snd (accum (push_stream 0xFFFFFFFF) (NewEncoder cfg 2 0xFFFFFFFF) (enumerate 0 ms)) =
        map (fec_out cfg 2 0xFFFFFFFF (\<lambda>i. ms ! i)) [0..<length ms]"
  unfolding Let_def by (rule encoder_protects_matrix) (simp add: matrix_ok_def matrixSize_def)

end
