(* ===== verification/Session_Codec.thy ===== *)
theory Session_Codec
  imports Rtp Rtcp_Compound Rtcp_Nack Clock Wire Machine
begin

text \<open>The Simple-profile codec of internal/session/codec.go: normalized media packets and feedback to RTP and
  compound RTCP and back.  The wire carries 16-bit sequence numbers and 32-bit timestamps; the decoder widens
  them against references it keeps.\<close>

unbundle bit_operations_syntax

section \<open>Media\<close>

text \<open>Go's \<open>int64\<close> arithmetic.\<close>

definition wrap64 :: "int \<Rightarrow> int" where "wrap64 x = i64 (word_of_int x)"

lemma wrap64_id: "- (2 ^ 63) \<le> x \<Longrightarrow> x < 2 ^ 63 \<Longrightarrow> wrap64 x = x"
  by (simp add: wrap64_def i64_def signed_of_int signed_take_bit_int_eq_self)

definition rtp_Version :: u8 where "rtp_Version = 2"
definition PayloadTypeMPEGTS :: u8 where "PayloadTypeMPEGTS = 33"

definition rtpTicksFromMicros :: "int \<Rightarrow> int" where
  "rtpTicksFromMicros us = quot (wrap64 (us * 9)) 100"

definition microsFromRTPTicks :: "int \<Rightarrow> int" where
  "microsFromRTPTicks ticks = quot (wrap64 (ticks * 100)) 9"

definition rtpTSFromSource :: "u64 \<Rightarrow> u32" where
  "rtpTSFromSource src = word_of_int (rtpTicksFromMicros (NTPTime_Timestamp src))"

definition encodeMedia :: "bytes \<Rightarrow> bytes \<Rightarrow> MediaPacket \<Rightarrow> rtp_err option \<times> bytes" where
  "encodeMedia spare dst pkt =
     (let ssrc = (if pkt_Retransmit pkt then MarkRetransmit (pkt_SSRC pkt) else pkt_SSRC pkt);
          p = \<lparr>rp_Header = \<lparr>rh_Version = rtp_Version, rh_Padding = False, rh_Extension = False, rh_CSRCCount = 0,
                 rh_Marker = False, rh_PayloadType = PayloadTypeMPEGTS, rh_SequenceNumber = ucast (pkt_Seq pkt),
                 rh_Timestamp = rtpTSFromSource (pkt_SourceTime pkt), rh_SSRC = ssrc, rh_CSRC = [],
                 rh_ExtensionProfile = 0, rh_ExtensionPayload = []\<rparr>,
               rp_Payload = pkt_Payload pkt, rp_PaddingSize = 0\<rparr>
      in rtp_Packet_AppendTo spare p dst)"

record mediaDecoder =
  md_started :: bool
  md_refSeq :: u32
  md_tsStarted :: bool
  md_tsBaseSeq :: u32
  md_tsBaseTicks :: int
  md_tsRefSeq :: u32
  md_tsRefTicks :: int
  md_lastWireTS :: u32

definition mediaDecoder_zero :: mediaDecoder where
  "mediaDecoder_zero = \<lparr>md_started = False, md_refSeq = 0, md_tsStarted = False, md_tsBaseSeq = 0, md_tsBaseTicks = 0,
     md_tsRefSeq = 0, md_tsRefTicks = 0, md_lastWireTS = 0\<rparr>"

definition widenSeq :: "u16 \<Rightarrow> u32 \<Rightarrow> u32" where
  "widenSeq wire16 ref =
     (let cand = (ref AND 0xFFFF0000) OR ucast wire16;
          diff = uint cand - uint ref
      in if diff > 2 ^ 15 then cand - 0x10000 else if diff < - (2 ^ 15) then cand + 0x10000 else cand)"

definition widenTicks :: "u32 \<Rightarrow> int \<Rightarrow> int" where
  "widenTicks wire32 ref =
     (let cand = (ref AND NOT 0xFFFFFFFF) OR uint wire32;
          diff = wrap64 (cand - ref)
      in if diff > 2 ^ 31 then wrap64 (cand - 2 ^ 32) else if diff < - (2 ^ 31) then wrap64 (cand + 2 ^ 32) else cand)"

text \<open>\<open>int32\<close> of an unsigned difference.\<close>

definition i32 :: "u32 \<Rightarrow> int" where "i32 w = sint w"

definition sourceTicks :: "mediaDecoder \<Rightarrow> u32 \<Rightarrow> u32 \<Rightarrow> mediaDecoder \<times> int" where
  "sourceTicks d seq32 wireTS =
     (if \<not> md_tsStarted d
      then (d\<lparr>md_tsStarted := True, md_tsBaseSeq := seq32, md_tsBaseTicks := uint wireTS,
              md_tsRefSeq := seq32, md_tsRefTicks := uint wireTS\<rparr>, uint wireTS)
      else let span = i32 (md_tsRefSeq d - md_tsBaseSeq d);
               ref = (if span > 0
                      then let ticksPerSeq = quot (wrap64 (md_tsRefTicks d - md_tsBaseTicks d)) span
                           in wrap64 (md_tsRefTicks d + wrap64 (i32 (seq32 - md_tsRefSeq d) * ticksPerSeq))
                      else md_tsRefTicks d);
               ticks = widenTicks wireTS ref;
               d = (if i32 (seq32 - md_tsRefSeq d) > 0 then d\<lparr>md_tsRefSeq := seq32, md_tsRefTicks := ticks\<rparr> else d)
           in (d, if ticks < 0 then 0 else ticks))"

definition sourceTime :: "mediaDecoder \<Rightarrow> u32 \<Rightarrow> u32 \<Rightarrow> mediaDecoder \<times> u64" where
  "sourceTime d seq32 wireTS =
     (let (d, ticks) = sourceTicks d seq32 wireTS in (d, NTPTimeFromTimestamp (microsFromRTPTicks ticks)))"

datatype codec_err = RtpError rtp_err | RtpVersion u8

definition mediaDecoder_decode :: "mediaDecoder \<Rightarrow> bytes \<Rightarrow> mediaDecoder \<times> (codec_err + MediaPacket)" where
  "mediaDecoder_decode d b =
     (case rtp_Packet_Unmarshal b of
        Inl e \<Rightarrow> (d, Inl (RtpError e))
      | Inr p \<Rightarrow>
          let h = rp_Header p in
          if rh_Version h \<noteq> rtp_Version then (d, Inl (RtpVersion (rh_Version h)))
          else let (d, seq32) = (if \<not> md_started d then (d\<lparr>md_started := True\<rparr>, ucast (rh_SequenceNumber h))
                                 else (d, widenSeq (rh_SequenceNumber h) (md_refSeq d)));
                   d = d\<lparr>md_refSeq := seq32, md_lastWireTS := rh_Timestamp h\<rparr>;
                   (d, st) = sourceTime d seq32 (rh_Timestamp h)
               in (d, Inr \<lparr>pkt_Seq = seq32, pkt_SourceTime = st, pkt_SSRC = NormalizeSSRC (rh_SSRC h),
                           pkt_Payload = rp_Payload p, pkt_Retransmit = IsRetransmit (rh_SSRC h), pkt_PathID = 0,
                           pkt_Frag = FragStandalone, pkt_VirtSrcPort = 0, pkt_VirtDstPort = 0,
                           pkt_ShortSeq = True\<rparr>))"

section \<open>Feedback\<close>

definition widenSeqAtMost :: "u16 \<Rightarrow> u32 \<Rightarrow> u32" where
  "widenSeqAtMost wire16 ref =
     (let cand = (ref AND 0xFFFF0000) OR ucast wire16 in if cand > ref then cand - 0x10000 else cand)"

definition nackToWire :: "u32 \<Rightarrow> u32 list \<Rightarrow> u32 \<Rightarrow> Feedback" where
  "nackToWire ssrc narrow nackRef = NackRequest ssrc (map (\<lambda>s. widenSeqAtMost (ucast s) nackRef) narrow)"

fun feedback_packets :: "u32 \<Rightarrow> bool \<Rightarrow> Feedback \<Rightarrow> rtcp_Packet list \<times> rtcp_Packet list" where
  "feedback_packets ssrc bitmask (NackRequest s missing) =
     (if bitmask then map P_Bitmask (EncodeBitmaskNACK 0 s missing) else map P_Range (EncodeRangeNACK ssrc s missing), [])"
| "feedback_packets ssrc bitmask (RttEchoRequest s ts) =
     ([], [P_EchoReq \<lparr>eq_SSRC = ssrc, eq_Timestamp = ts, eq_Padding = []\<rparr>])"
| "feedback_packets ssrc bitmask (RttEchoResponse s ts delay) =
     ([], [P_EchoResp \<lparr>ep_SSRC = s, ep_Timestamp = ts, ep_ProcessingDelay = delay, ep_Padding = []\<rparr>])"
| "feedback_packets ssrc bitmask _ = ([], [])"

definition encodeFeedback ::
  "bytes \<Rightarrow> rtcp_Packet \<Rightarrow> u32 \<Rightarrow> bytes \<Rightarrow> Feedback list \<Rightarrow> bool \<Rightarrow> rtcp_err option \<times> bytes" where
  "encodeFeedback dst lead ssrc cname fbs bitmask =
     (let nacks = concat (map (\<lambda>f. fst (feedback_packets ssrc bitmask f)) fbs);
          echoes = concat (map (\<lambda>f. snd (feedback_packets ssrc bitmask f)) fbs)
      in BuildCompound dst ([lead, P_SDES \<lparr>sd_SSRC = ssrc, sd_CNAME = cname\<rparr>] @ nacks @ echoes))"

fun packet_feedback :: "u32 \<Rightarrow> rtcp_Packet \<Rightarrow> Feedback list" where
  "packet_feedback nackRef (P_Range p) = [nackToWire (rn_MediaSSRC p) (RangeNACK_MissingSeqs p) nackRef]"
| "packet_feedback nackRef (P_Bitmask p) = [nackToWire (bn_MediaSSRC p) (BitmaskNACK_MissingSeqs p) nackRef]"
| "packet_feedback nackRef (P_EchoReq p) = [RttEchoRequest (eq_SSRC p) (eq_Timestamp p)]"
| "packet_feedback nackRef (P_EchoResp p) = [RttEchoResponse (ep_SSRC p) (ep_Timestamp p) (ep_ProcessingDelay p)]"
| "packet_feedback nackRef (P_LQR p) = [LinkQuality (LinkQualityReport.lq_LQM p)]"
| "packet_feedback nackRef _ = []"

definition decodeFeedback :: "bytes \<Rightarrow> u32 \<Rightarrow> rtcp_err + Feedback list" where
  "decodeFeedback b nackRef =
     (case ParseCompound b of Inl e \<Rightarrow> Inl e | Inr pkts \<Rightarrow> Inr (concat (map (packet_feedback nackRef) pkts)))"

section \<open>Widening sequence numbers\<close>

text \<open>Replacing the low sixteen bits of a reference.\<close>

lemma cand16: "uint ((ref AND 0xFFFF0000) OR ucast (w :: u16) :: u32) = uint ref div 65536 * 65536 + uint w"
proof -
  have m: "(0xFFFF0000 :: u32) = NOT (mask 16)" by (simp add: mask_eq_exp_minus_1)
  have low: "uint (ref AND mask 16) = uint ref mod 65536"
    by (simp only: take_bit_eq_mask [symmetric] unsigned_take_bit_eq take_bit_eq_mod [where 'a = int]) simp
  have le: "ref AND mask 16 \<le> ref" by (rule word_and_le2)
  have "ref AND NOT (mask 16) = ref - (ref AND mask 16)"
    using word_split_mask [of ref 16] by (metis add_diff_cancel_right')
  then have hi: "uint (ref AND NOT (mask 16)) = uint ref div 65536 * 65536"
    using le low by (simp add: uint_sub_if' word_le_def minus_mod_eq_div_mult)
  have dis: "(ref AND NOT (mask 16)) AND ucast w = (0 :: u32)"
    by (rule bit_word_eqI) (auto simp: bit_simps dest: bit_imp_le_length)
  have uw: "uint (ucast w :: u32) = uint w" by (simp add: uint_up_ucast is_up)
  have "uint w < 65536" using uint_bounded [of w] by simp
  moreover have "uint ref div 65536 * 65536 + 65536 \<le> 2 ^ 32" using uint_bounded [of ref] by simp
  ultimately have "uint (ref AND NOT (mask 16)) + uint (ucast w :: u32) < 2 ^ LENGTH(32)"
    using hi uw by simp
  then have "uint ((ref AND NOT (mask 16)) + ucast w) = uint ref div 65536 * 65536 + uint w"
    unfolding uint_add_lem using hi uw by simp
  then show ?thesis unfolding m using disjunctive_add_eq_or [OF dis] by simp
qed

lemma uint_ucast16: "uint (ucast (s :: u32) :: u16) = uint s mod 65536"
  by (simp only: unsigned_ucast_eq take_bit_eq_mod [where 'a = int]) simp

lemma uint_offset: "uint (ref + word_of_int e :: u32) = (uint ref + e) mod 2 ^ 32"
  by (simp add: uint_word_ariths uint_word_of_int mod_simps)

lemma low16_offset: "uint (ucast (ref + word_of_int e :: u32) :: u16) = (uint ref + e) mod 65536"
  unfolding uint_ucast16 uint_offset by (simp add: mod_mod_cancel)

lemma widen_cand:
  fixes ref :: u32 and e :: int
  defines "cand \<equiv> (ref AND 0xFFFF0000) OR ucast (ucast (ref + word_of_int e) :: u16)"
    and "q \<equiv> (uint ref + e) div 65536 - uint ref div 65536"
  shows "uint cand = uint ref + e - q * 65536" "cand + word_of_int (q * 65536) = ref + word_of_int e"
proof -
  show u: "uint cand = uint ref + e - q * 65536"
    unfolding cand_def cand16 low16_offset q_def
    by (simp add: minus_div_mult_eq_mod [symmetric] left_diff_distrib)
  have "cand = word_of_int (uint ref + e - q * 65536)" using u by (metis word_of_int_uint)
  then have "cand + word_of_int (q * 65536) = word_of_int (uint ref + e)" by (simp add: of_int_diff of_int_add)
  then show "cand + word_of_int (q * 65536) = ref + word_of_int e" by (simp add: of_int_add)
qed

lemma div_step:
  assumes "\<bar>e\<bar> < 65536"
  shows "(R + e) div 65536 - R div 65536 \<in> {-1, 0, 1 :: int}" "e \<le> 0 \<Longrightarrow> (R + e) div 65536 - R div 65536 \<in> {-1, 0}"
proof -
  have "(R - 65536) div 65536 \<le> (R + e) div 65536" "(R + e) div 65536 \<le> (R + 65536) div 65536"
    "e \<le> 0 \<Longrightarrow> (R + e) div 65536 \<le> R div 65536"
    using assms by (auto intro!: zdiv_mono1)
  moreover have "(R - 65536) div 65536 = R div 65536 - 1" using div_add_self2 [of 65536 "R - 65536"] by simp
  ultimately show "(R + e) div 65536 - R div 65536 \<in> {-1, 0, 1 :: int}"
    "e \<le> 0 \<Longrightarrow> (R + e) div 65536 - R div 65536 \<in> {-1, 0}"
    by auto
qed

lemma widenSeq_near:
  assumes "\<bar>e\<bar> < 2 ^ 15"
  shows "widenSeq (ucast (ref + word_of_int e)) ref = ref + word_of_int e"
proof -
  define q where "q = (uint ref + e) div 65536 - uint ref div 65536"
  note c = widen_cand [of ref e, folded q_def]
  have "q = 0 \<or> q = 1 \<or> q = -1" using div_step(1) [of e "uint ref"] assms unfolding q_def by auto
  moreover have "- 32768 < e" "e < 32768" using assms by auto
  ultimately show ?thesis
    using c unfolding widenSeq_def Let_def by (elim disjE) simp_all
qed

lemma widenSeqAtMost_behind:
  assumes "0 \<le> k" "k < 65536"
  shows "widenSeqAtMost (ucast (ref - word_of_int k)) ref = ref - word_of_int k"
proof -
  define e where "e = - k"
  define q where "q = (uint ref + e) div 65536 - uint ref div 65536"
  have r: "ref - word_of_int k = ref + word_of_int e" by (simp add: e_def)
  note c = widen_cand [of ref e, folded q_def]
  have "q = 0 \<or> q = -1" using div_step(2) [of e "uint ref"] assms unfolding q_def e_def by auto
  then show ?thesis
    using assms c unfolding widenSeqAtMost_def Let_def r word_less_def e_def by (elim disjE) simp_all
qed

section \<open>Feedback survives the wire\<close>

definition nack_asks :: "Feedback list \<Rightarrow> (u32 \<times> u32) list" where
  "nack_asks fbs = concat (map (\<lambda>f. case f of NackRequest s ms \<Rightarrow> map (Pair s) ms | _ \<Rightarrow> []) fbs)"

definition is_echo_fb :: "Feedback \<Rightarrow> bool" where
  "is_echo_fb f = (case f of RttEchoRequest _ _ \<Rightarrow> True | RttEchoResponse _ _ _ \<Rightarrow> True | _ \<Rightarrow> False)"

text \<open>An echo request goes out with the local SSRC, a response with the requester's.\<close>

definition stamp_echo :: "u32 \<Rightarrow> Feedback \<Rightarrow> Feedback" where
  "stamp_echo ssrc f = (case f of RttEchoRequest _ ts \<Rightarrow> RttEchoRequest ssrc ts | _ \<Rightarrow> f)"

lemma nack_asks_simps [simp]:
  "nack_asks [] = []" "nack_asks (NackRequest s ms # fbs) = map (Pair s) ms @ nack_asks fbs"
  "nack_asks (xs @ ys) = nack_asks xs @ nack_asks ys"
  by (simp_all add: nack_asks_def)

lemma widen_low16:
  assumes "nackRef - m < 0x10000"
  shows "widenSeqAtMost (ucast (low16 m)) nackRef = m"
proof -
  define k where "k = uint (nackRef - m)"
  have k: "0 \<le> k" "k < 65536" using assms by (simp_all add: k_def word_less_def)
  have m: "m = nackRef - word_of_int k" by (simp add: k_def)
  have "ucast (low16 m) = (ucast m :: u16)" by (rule bit_word_eqI) (simp add: low16_def bit_simps)
  then show ?thesis using widenSeqAtMost_behind [OF k, of nackRef] m by simp
qed

lemma asks_of_packets:
  "nack_asks (concat (map (packet_feedback r) (map P_Range ps))) =
     concat (map (\<lambda>p. map (\<lambda>s. (rn_MediaSSRC p, widenSeqAtMost (ucast s) r)) (RangeNACK_MissingSeqs p)) ps)"
  "nack_asks (concat (map (packet_feedback r) (map P_Bitmask bs))) =
     concat (map (\<lambda>p. map (\<lambda>s. (bn_MediaSSRC p, widenSeqAtMost (ucast s) r)) (BitmaskNACK_MissingSeqs p)) bs)"
  by (induction ps; simp add: nackToWire_def) (induction bs; simp add: nackToWire_def)

lemma nack_feedback:
  assumes len: "length ms \<le> 65536" and behind: "\<And>m. m \<in> set ms \<Longrightarrow> nackRef - m < 0x10000"
    and ps_def: "ps = fst (feedback_packets ssrc bitmask (NackRequest s ms))"
  shows "set (nack_asks (concat (map (packet_feedback nackRef) ps))) = Pair s ` set ms"
    "list_all is_nack ps" "list_all rtcp_wf ps"
proof -
  have w: "(\<lambda>x. widenSeqAtMost (ucast x) nackRef) ` low16 ` set ms = set ms"
    using widen_low16 behind by force
  note r = range_nack_exact [OF len, of ssrc s] and b = bitmask_nack_exact [of 0 s ms]
  show "set (nack_asks (concat (map (packet_feedback nackRef) ps))) = Pair s ` set ms"
  proof (cases bitmask)
    case True
    let ?bs = "EncodeBitmaskNACK 0 s ms"
    have "bn_MediaSSRC p = s" if "p \<in> set ?bs" for p using b that by (auto simp: list_all_iff)
    then have "set (nack_asks (concat (map (packet_feedback nackRef) ps))) =
        (\<lambda>x. (s, widenSeqAtMost (ucast x) nackRef)) ` set (concat (map BitmaskNACK_MissingSeqs ?bs))"
      using True by (auto simp: ps_def asks_of_packets simp flip: map_map)
    also have "\<dots> = Pair s ` (\<lambda>x. widenSeqAtMost (ucast x) nackRef) ` low16 ` set ms"
      using b by (simp only: image_image)
    finally show ?thesis by (simp only: w)
  next
    case False
    let ?rs = "EncodeRangeNACK ssrc s ms"
    have "rn_MediaSSRC p = s" if "p \<in> set ?rs" for p using r that by blast
    then have "set (nack_asks (concat (map (packet_feedback nackRef) ps))) =
        (\<lambda>x. (s, widenSeqAtMost (ucast x) nackRef)) ` set (concat (map RangeNACK_MissingSeqs ?rs))"
      using False by (auto simp: ps_def asks_of_packets simp flip: map_map)
    also have "\<dots> = Pair s ` (\<lambda>x. widenSeqAtMost (ucast x) nackRef) ` low16 ` set ms"
      using r by (simp only: image_image set_map)
    finally show ?thesis by (simp only: w)
  qed
  show "list_all is_nack ps" by (auto simp: ps_def list_all_iff)
  show "list_all rtcp_wf ps" using r b by (auto simp: ps_def list_all_iff)
qed

lemma feedback_of_nacks: "list_all is_nack ps \<Longrightarrow> feedback ps"
  by (induction ps) (auto intro: feedback.intros)

lemma nacks_no_echo: "list_all is_nack ps \<Longrightarrow> filter is_echo_fb (concat (map (packet_feedback r) ps)) = []"
proof (induction ps)
  case (Cons p ps)
  then show ?case by (cases p) (simp_all add: nackToWire_def is_echo_fb_def)
qed simp

text \<open>A request the sender can answer: not too long, and within the last 65536 sequence numbers.\<close>

definition answerable :: "u32 \<Rightarrow> Feedback \<Rightarrow> bool" where
  "answerable nackRef f =
     (case f of NackRequest s ms \<Rightarrow> length ms \<le> 65536 \<and> list_all (\<lambda>m. nackRef - m < 0x10000) ms | _ \<Rightarrow> True)"

lemma feedback_lists:
  assumes ans: "list_all (answerable nackRef) fbs"
    and nacks: "nacks = concat (map (\<lambda>f. fst (feedback_packets ssrc bitmask f)) fbs)"
    and echoes: "echoes = concat (map (\<lambda>f. snd (feedback_packets ssrc bitmask f)) fbs)"
  shows "list_all is_nack nacks \<and> list_all rtcp_wf nacks \<and> list_all is_echo echoes \<and> list_all rtcp_wf echoes \<and>
    set (nack_asks (concat (map (packet_feedback nackRef) nacks))) = set (nack_asks fbs) \<and>
    concat (map (packet_feedback nackRef) echoes) = map (stamp_echo ssrc) (filter is_echo_fb fbs)"
  unfolding nacks echoes using ans
proof (induction fbs)
  case (Cons f fbs)
  have split: "nack_asks (f # fbs) = nack_asks [f] @ nack_asks fbs" by (simp add: nack_asks_def)
  note IH = Cons.IH
  show ?case
  proof (cases f)
    case (NackRequest s ms)
    have behind: "nackRef - m < 0x10000" if "m \<in> set ms" for m
      using Cons.prems NackRequest that by (auto simp: answerable_def list_all_iff)
    have ms: "length ms \<le> 65536" using Cons.prems NackRequest by (simp add: answerable_def)
    show ?thesis
      using IH Cons.prems nack_feedback [OF ms behind refl, of ssrc bitmask s] NackRequest
      by (auto simp: split is_echo_fb_def)
  qed (use IH Cons.prems in \<open>auto simp: nack_asks_def is_echo_fb_def stamp_echo_def\<close>)
qed (simp add: nack_asks_def)

text \<open>C23: Feedback survives the wire.  Any batch of retransmission requests (at most 65536 sequence numbers each, in
  either NACK encoding) and RTT echoes, led by any report, is encoded without error; decoding the datagram
  at the sender asks for exactly the same sequence numbers of exactly the same flows, widened from 16 to
  32 bits, provided they lie within the last 65536 before the send position, and yields the same echoes in
  the same order, requests stamped with the local SSRC and responses with the requester's.\<close>

theorem feedback_roundtrip:
  assumes "is_report lead" "rtcp_wf lead" "length cname \<le> 255"
    and "list_all (answerable nackRef) fbs"
  shows "\<exists>bs out. encodeFeedback dst lead ssrc cname fbs bitmask = (None, dst @ bs) \<and>
    decodeFeedback bs nackRef = Inr out \<and>
    set (nack_asks out) = set (nack_asks fbs) \<and>
    filter is_echo_fb out = map (stamp_echo ssrc) (filter is_echo_fb fbs)"
proof -
  define nacks where "nacks = concat (map (\<lambda>f. fst (feedback_packets ssrc bitmask f)) fbs)"
  define echoes where "echoes = concat (map (\<lambda>f. snd (feedback_packets ssrc bitmask f)) fbs)"
  define pkts where "pkts = [lead, P_SDES \<lparr>sd_SSRC = ssrc, sd_CNAME = cname\<rparr>] @ nacks @ echoes"
  have fl: "list_all is_nack nacks \<and> list_all rtcp_wf nacks \<and> list_all is_echo echoes \<and> list_all rtcp_wf echoes \<and>
    set (nack_asks (concat (map (packet_feedback nackRef) nacks))) = set (nack_asks fbs) \<and>
    concat (map (packet_feedback nackRef) echoes) = map (stamp_echo ssrc) (filter is_echo_fb fbs)"
    by (rule feedback_lists [OF assms(4) nacks_def echoes_def])
  have "compound pkts" unfolding compound_def pkts_def using assms(1) fl feedback_of_nacks [of nacks] by auto
  then have ok: "checkCompoundOrder pkts = None" by (simp add: compound_check)
  have wf: "list_all rtcp_wf pkts" using assms(2,3) fl by (simp add: pkts_def maxCNAMELen_def)
  obtain buf where build: "BuildCompound dst pkts = (None, buf)" using ok by (simp add: BuildCompound_def)
  then obtain bs where bs: "buf = dst @ bs" "ParseCompound bs = Inr pkts"
    using compound_roundtrip [OF build wf] by blast
  define out where "out = concat (map (packet_feedback nackRef) pkts)"
  have l: "set (nack_asks (packet_feedback nackRef lead)) = {}" "filter is_echo_fb (packet_feedback nackRef lead) = []"
    using assms(1) by (cases lead; simp add: nack_asks_def is_echo_fb_def)+
  have e: "filter is_echo_fb (map (stamp_echo ssrc) (filter is_echo_fb fbs)) = map (stamp_echo ssrc) (filter is_echo_fb fbs)"
    "nack_asks (map (stamp_echo ssrc) (filter is_echo_fb fbs)) = []"
    by (auto simp: filter_id_conv nack_asks_def stamp_echo_def is_echo_fb_def split: Feedback.splits)
  have "set (nack_asks out) = set (nack_asks fbs)" "filter is_echo_fb out = map (stamp_echo ssrc) (filter is_echo_fb fbs)"
    using fl l e nacks_no_echo [of nacks nackRef] by (simp_all add: out_def pkts_def)
  moreover have "encodeFeedback dst lead ssrc cname fbs bitmask = (None, dst @ bs)"
    using build bs(1) by (simp add: encodeFeedback_def pkts_def nacks_def echoes_def)
  moreover have "decodeFeedback bs nackRef = Inr out" by (simp add: decodeFeedback_def bs(2) out_def)
  ultimately show ?thesis by blast
qed

theorem feedback_roundtrip_witness:
  "\<exists>bs out. encodeFeedback [] (P_EmptyRR \<lparr>er_SSRC = 8\<rparr>) 8 [65] [NackRequest 4 [0xFFFF, 0x10000], RttEchoRequest 0 7] False =
      (None, bs) \<and> decodeFeedback bs 0x10005 = Inr out \<and>
    set (nack_asks out) = {(4, 0xFFFF), (4, 0x10000)} \<and> filter is_echo_fb out = [RttEchoRequest 8 7]"
  using feedback_roundtrip [of "P_EmptyRR \<lparr>er_SSRC = 8\<rparr>" "[65]" "0x10005"
      "[NackRequest 4 [0xFFFF, 0x10000], RttEchoRequest 0 7]" "[]" 8 False]
  by (auto simp: nack_asks_def is_echo_fb_def stamp_echo_def answerable_def)

end
