(* ===== verification/Fec_Link.thy ===== *)
theory Fec_Link
  imports Fec_Encoder Session_Codec
begin

text \<open>The FEC configuration of fec.go and internal/session/fec.go, and the composition of the encoder, a
  lossy reordering network and the decoder: whatever the decoder rebuilds is a packet that was sent.\<close>

unbundle bit_operations_syntax

section \<open>Configuration\<close>

datatype FECCarriage = FECCarriageDefault | FECCarriageInBand | FECCarriageSeparatePorts

definition FECVariant2022_1 :: u8 where "FECVariant2022_1 = 0"
definition FECVariant2022_5 :: u8 where "FECVariant2022_5 = 1"

record FECConfig =
  fc_Columns :: int
  fc_Rows :: int
  fc_ColumnOnly :: bool
  fc_Carriage :: FECCarriage
  fc_Variant :: u8

definition FECConfig_carriage :: "FECConfig \<Rightarrow> bool \<Rightarrow> FECCarriage" where
  "FECConfig_carriage f advanced =
     (if fc_Carriage f \<noteq> FECCarriageDefault then fc_Carriage f
      else if advanced then FECCarriageInBand else FECCarriageSeparatePorts)"

datatype fec_config_err = UnknownVariant | BadColumns | BadRows | MatrixTooLarge

definition FECConfig_validate :: "FECConfig \<Rightarrow> fec_config_err option" where
  "FECConfig_validate f =
     (case (if fc_Variant f = FECVariant2022_1 then Some (20, 20, 100)
            else if fc_Variant f = FECVariant2022_5 then Some (1020, 255, 6000) else None) of
        None \<Rightarrow> Some UnknownVariant
      | Some (maxL, maxD, maxMatrix) \<Rightarrow>
          let minL = (if fc_ColumnOnly f then 1 else 4) in
          if fc_Columns f < minL \<or> fc_Columns f > maxL then Some BadColumns
          else if fc_Rows f < 4 \<or> fc_Rows f > maxD then Some BadRows
          else if fc_Columns f * fc_Rows f > maxMatrix then Some MatrixTooLarge
          else None)"

record FECParams =
  fq_Cols :: int
  fq_Rows :: int
  fq_ColumnOnly :: bool
  fq_SeparatePorts :: bool
  fq_Variant :: Variant

definition toSessionFEC :: "FECConfig option \<Rightarrow> bool \<Rightarrow> FECParams option" where
  "toSessionFEC fo advanced =
     (case fo of None \<Rightarrow> None
      | Some f \<Rightarrow> Some \<lparr>fq_Cols = fc_Columns f, fq_Rows = fc_Rows f, fq_ColumnOnly = fc_ColumnOnly f,
          fq_SeparatePorts = (FECConfig_carriage f advanced = FECCarriageSeparatePorts),
          fq_Variant = (if fc_Variant f = FECVariant2022_5 then Variant20225 else Variant20221)\<rparr>)"

definition fecConfig :: "FECParams \<Rightarrow> FecConfig" where
  "fecConfig p = \<lparr>mx_Cols = nat (fq_Cols p), mx_Rows = nat (fq_Rows p), mx_ColumnOnly = fq_ColumnOnly p,
     mx_Variant = fq_Variant p\<rparr>"

definition maxDatagram :: nat where "maxDatagram = 2048"
definition fecRTPPayloadSize :: nat where "fecRTPPayloadSize = 1500"
definition fecPayloadSize :: "bool \<Rightarrow> nat" where
  "fecPayloadSize adv = (if adv then maxDatagram else fecRTPPayloadSize)"

text \<open>Dimensions the header fields can carry.\<close>

definition dims_ok :: "FecConfig \<Rightarrow> bool" where
  "dims_ok cfg \<longleftrightarrow>
     matrix_ok cfg \<and> 2 \<le> mx_Rows cfg \<and> (mx_ColumnOnly cfg \<or> 2 \<le> mx_Cols cfg) \<and> matrixSize cfg \<le> 6000 \<and>
     (let lim = (if mx_Variant cfg = Variant20225 then 1023 else 255) in mx_Cols cfg \<le> lim \<and> mx_Rows cfg \<le> lim)"

lemma validate_dims:
  assumes "FECConfig_validate f = None" "toSessionFEC (Some f) advanced = Some p"
  shows "dims_ok (fecConfig p)"
proof -
  have "FECVariant2022_1 \<noteq> FECVariant2022_5" by (simp add: FECVariant2022_1_def FECVariant2022_5_def)
  moreover have "nat (c * r) \<le> 6000" if "c * r \<le> (6000 :: int)" for c r using that by simp
  ultimately show ?thesis
    using assms
    by (auto simp: FECConfig_validate_def toSessionFEC_def fecConfig_def dims_ok_def matrix_ok_def matrixSize_def
        Let_def nat_mult_distrib [symmetric] split: if_splits)
qed

section \<open>What the decoder reads from an emitted packet\<close>

definition span_bits :: "FecConfig \<Rightarrow> nat" where
  "span_bits cfg = (if mx_Variant cfg = Variant20225 then 16 else 24)"

definition stored_of :: "FecConfig \<Rightarrow> nat \<Rightarrow> u32 \<Rightarrow> (nat \<Rightarrow> storedMedia) \<Rightarrow> Direction \<Rightarrow> nat \<Rightarrow> storedFEC" where
  "stored_of cfg n isn pk dir b =
     (let g = group_of n (isn + of_nat b) (map pk (group_idx cfg dir b))
      in \<lparr>sf_base = isn + of_nat b, sf_stride = (if dir = Row then 1 else mx_Cols cfg),
          sf_count = (if dir = Row then mx_Cols cfg else mx_Rows cfg),
          sf_lengthRec = gr_lengthClip g, sf_ptRec = gr_ptClip g, sf_tsRec = gr_tsClip g,
          sf_payload = gr_payloadClip g, sf_done = False\<rparr>)"

lemma ucast_mask16: "ucast (ucast (x :: u32) :: u16) = x AND mask 16"
  by (rule bit_word_eqI) (auto simp: bit_simps)

lemma group_pt: "gr_ptClip (group_of n b ms) AND 0x7F = gr_ptClip (group_of n b ms)"
  by (simp add: group_of_def) (rule xsum_mask, auto simp: pt_of_def and.assoc)

lemma masked_le: "x AND m = x \<Longrightarrow> x \<le> (m :: 'a::len word)"
  by (metis word_and_le1)

lemma parse_fec_of:
  assumes d: "de_cfg d = cfg" and ok: "dims_ok cfg"
    and near: "fec_abs (seqDiff (de_lastSeq d) (isn + of_nat b)) < 2 ^ (span_bits cfg - 1)"
  shows "parse_fec d (fp_Data (fec_of cfg n isn pk dir b)) = Some (stored_of cfg n isn pk dir b)"
proof -
  define g where "g = group_of n (isn + of_nat b) (map pk (group_idx cfg dir b))"
  have gb: "gr_base g = isn + of_nat b" and pt: "gr_ptClip g AND 0x7F = gr_ptClip g"
    by (simp_all only: g_def group_of_sel group_pt)
  have w: "widen d (gr_base g AND mask (span_bits cfg)) = gr_base g"
    using near d by (intro widen_near) (auto simp: gb span_bits_def)
  define off na where "off = (if dir = Row then 1 else mx_Cols cfg)" and "na = (if dir = Row then mx_Cols cfg else mx_Rows cfg)"
  define e where "e = NewEncoder cfg n isn"
  have e: "en_cfg e = cfg" by (simp add: e_def NewEncoder_def)
  have lim: "off \<le> (if mx_Variant cfg = Variant20225 then 1023 else 255)" "na \<le> (if mx_Variant cfg = Variant20225 then 1023 else 255)"
    using ok by (auto simp: dims_ok_def matrix_ok_def off_def na_def Let_def split: if_splits)
  have target: "stored_of cfg n isn pk dir b =
      \<lparr>sf_base = gr_base g, sf_stride = off, sf_count = na, sf_lengthRec = gr_lengthClip g, sf_ptRec = gr_ptClip g,
       sf_tsRec = gr_tsClip g, sf_payload = gr_payloadClip g, sf_done = False\<rparr>"
    by (simp only: stored_of_def Let_def g_def off_def na_def group_of_sel)
  have pair: "(if dir = Row then (1, mx_Cols (en_cfg e)) else (mx_Cols (en_cfg e), mx_Rows (en_cfg e))) = (off, na)"
    by (simp add: e off_def na_def)
  show ?thesis
  proof (cases "mx_Variant cfg = Variant20225")
    case True
    define h where "h = \<lparr>f5_PRecovery = False, f5_XRecovery = False, f5_CCRecovery = 0, f5_MRecovery = False,
        f5_PTRecovery = gr_ptClip g, f5_SNBase = ucast (gr_base g), f5_TSRecovery = gr_tsClip g,
        f5_LengthRecovery = gr_lengthClip g, f5_Offset = of_nat off, f5_NA = of_nat na\<rparr>"
    have data: "fp_Data (fec_of cfg n isn pk dir b) = fec_Header5_AppendTo h [] @ gr_payloadClip g"
      unfolding fec_of_def encoder_emit_def g_def [symmetric] e_def [symmetric] pair using True by (simp add: e h_def)
    have u: "unat (of_nat off :: u16) = off" "unat (of_nat na :: u16) = na"
      using lim True by (simp_all add: unsigned_of_nat take_bit_nat_eq_self)
    have "fec5_wf h" using u lim True masked_le [OF pt] by (simp add: fec5_wf_def h_def word_le_nat_alt)
    from fec5.dec_enc [OF this] show ?thesis
      unfolding parse_fec_def data target using True d u pt w
      by (simp add: h_def ucast_mask16 span_bits_def)
  next
    case False
    define h where "h = setBase24 (gr_base g)
        \<lparr>fh_SNBase = 0, fh_LengthRecovery = gr_lengthClip g, fh_PTRecovery = gr_ptClip g, fh_TSRecovery = gr_tsClip g,
         fh_Direction = dir, fh_Offset = of_nat off, fh_NA = of_nat na, fh_SNBaseExt = 0\<rparr>"
    have data: "fp_Data (fec_of cfg n isn pk dir b) = fec_Header_AppendTo h [] @ gr_payloadClip g"
      unfolding fec_of_def encoder_emit_def g_def [symmetric] e_def [symmetric] pair using False by (simp add: e h_def)
    have u: "unat (of_nat off :: u8) = off" "unat (of_nat na :: u8) = na"
      using lim False by (simp_all add: unsigned_of_nat take_bit_nat_eq_self)
    have m: "(0xFFFFFF :: u32) = mask 24" by (simp add: mask_eq_exp_minus_1)
    have b24: "base24 h = gr_base g AND mask 24" unfolding h_def base24_set m ..
    have "fec_wf h" using masked_le [OF pt] by (simp add: fec_wf_def h_def setBase24_def)
    from fec1.dec_enc [OF this] show ?thesis
      unfolding parse_fec_def data target using False d u pt w b24
      by (simp add: span_bits_def) (simp add: h_def setBase24_def)
  qed
qed

section \<open>The session's side\<close>

definition fecPT :: u8 where "fecPT = 127"

text \<open>\<open>n\<close> is the matrix payload size, \<open>fecPayload\<close> the canonical form of a Main-profile payload under null-packet
  deletion (the identity on the Simple profile).\<close>

definition fecOnSend ::
  "FECParams \<Rightarrow> bool \<Rightarrow> nat \<Rightarrow> (bytes \<Rightarrow> bytes) \<Rightarrow> MediaPacket \<Rightarrow> bytes \<Rightarrow> Encoder option \<Rightarrow> Encoder option \<times> fec_Packet list" where
  "fecOnSend p adv n fecPayload pkt datagram enc =
     (if pkt_Retransmit pkt then (enc, [])
      else let e = (case enc of None \<Rightarrow> NewEncoder (fecConfig p) n (pkt_Seq pkt) | Some e \<Rightarrow> e);
               (e, fps) = (if adv then Encoder_Push (pkt_Seq pkt) 0 0 datagram e
                           else Encoder_Push (pkt_Seq pkt) (rtpTSFromSource (pkt_SourceTime pkt)) fecPT
                                  (fecPayload (pkt_Payload pkt)) e)
           in (Some e, fps))"

definition fecRecvRTP :: "FECParams \<Rightarrow> nat \<Rightarrow> u32 \<Rightarrow> MediaPacket \<Rightarrow> Decoder option \<Rightarrow> Decoder option \<times> Recovered list" where
  "fecRecvRTP p n wireTS pkt dec =
     (let d = (case dec of None \<Rightarrow> NewDecoder (fecConfig p) n (pkt_Seq pkt) | Some d \<Rightarrow> d);
          (d, rs) = PushMedia (pkt_Seq pkt) wireTS fecPT (pkt_SSRC pkt) (pkt_Payload pkt) d
      in (Some d, rs))"

definition fecRecvAdv :: "FECParams \<Rightarrow> nat \<Rightarrow> u32 \<Rightarrow> bytes \<Rightarrow> Decoder option \<Rightarrow> Decoder option \<times> Recovered list" where
  "fecRecvAdv p n s datagram dec =
     (let d = (case dec of None \<Rightarrow> NewDecoder (fecConfig p) n s | Some d \<Rightarrow> d);
          (d, rs) = PushMedia s 0 0 0 datagram d
      in (Some d, rs))"

definition fecOnRecvFEC :: "bytes \<Rightarrow> Decoder option \<Rightarrow> Decoder option \<times> Recovered list" where
  "fecOnRecvFEC body dec =
     (case dec of None \<Rightarrow> (None, []) | Some d \<Rightarrow> (let (d', rs) = PushFEC body d in (Some d', rs)))"

section \<open>Sender, network and receiver\<close>

text \<open>A protected stream: its configuration, its packets \<open>fs_pk 0\<close>, \<open>fs_pk 1\<close>, ... and, on the Advanced profile,
  their datagrams.  The unit the matrix protects is the datagram on the Advanced profile and the RTP fields
  and canonical payload otherwise.\<close>

record fec_stream =
  fs_params :: FECParams
  fs_adv :: bool
  fs_size :: nat
  fs_canon :: "bytes \<Rightarrow> bytes"
  fs_pk :: "nat \<Rightarrow> MediaPacket"
  fs_dg :: "nat \<Rightarrow> bytes"

definition protected_unit :: "fec_stream \<Rightarrow> nat \<Rightarrow> storedMedia" where
  "protected_unit F j =
     (if fs_adv F then \<lparr>sm_ts = 0, sm_pt = 0, sm_ssrc = 0, sm_payload = fs_dg F j\<rparr>
      else \<lparr>sm_ts = rtpTSFromSource (pkt_SourceTime (fs_pk F j)), sm_pt = fecPT, sm_ssrc = pkt_SSRC (fs_pk F j),
            sm_payload = fs_canon F (pkt_Payload (fs_pk F j))\<rparr>)"

text \<open>Media and FEC packets cross a network that may lose, repeat and reorder them.  Each FEC packet in flight
  is listed with the index of the packet that completed its group.\<close>

record fec_link =
  lk_sent :: nat
  lk_enc :: "Encoder option"
  lk_air :: "(nat \<times> fec_Packet) list"
  lk_dec :: "Decoder option"
  lk_out :: "Recovered list"

datatype link_event = LSend | LResend nat | LMedia nat | LFec nat

definition link_init :: fec_link where
  "link_init = \<lparr>lk_sent = 0, lk_enc = None, lk_air = [], lk_dec = None, lk_out = []\<rparr>"

text \<open>A FEC packet is prompt when the receiver's newest sequence number is within half the span of the
  truncated base field, less a matrix, of the packet that completed the group.\<close>

definition prompt :: "FecConfig \<Rightarrow> u32 \<Rightarrow> Decoder \<Rightarrow> bool" where
  "prompt cfg s d \<longleftrightarrow> fec_abs (seqDiff (de_lastSeq d) s) + int (matrixSize cfg) < 2 ^ (span_bits cfg - 1)"

definition link_fec_send :: "fec_stream \<Rightarrow> nat \<Rightarrow> bool \<Rightarrow> fec_link \<Rightarrow> fec_link" where
  "link_fec_send F j rtx st =
     (let (e, fps) = fecOnSend (fs_params F) (fs_adv F) (fs_size F) (fs_canon F)
                       ((fs_pk F j)\<lparr>pkt_Retransmit := rtx\<rparr>) (fs_dg F j) (lk_enc st)
      in st\<lparr>lk_enc := e, lk_air := lk_air st @ map (Pair j) fps\<rparr>)"

fun link_step :: "fec_stream \<Rightarrow> link_event \<Rightarrow> fec_link \<Rightarrow> fec_link" where
  "link_step F LSend st =
     (if int (lk_sent st) < 2 ^ 32 then (link_fec_send F (lk_sent st) False st)\<lparr>lk_sent := lk_sent st + 1\<rparr> else st)"
| "link_step F (LResend j) st = (if j < lk_sent st then link_fec_send F j True st else st)"
| "link_step F (LMedia j) st =
     (if j < lk_sent st
      then let pkt = (fs_pk F j)\<lparr>pkt_Payload := fs_canon F (pkt_Payload (fs_pk F j))\<rparr>;
               (d, rs) = (if fs_adv F then fecRecvAdv (fs_params F) (fs_size F) (pkt_Seq pkt) (fs_dg F j) (lk_dec st)
                          else fecRecvRTP (fs_params F) (fs_size F) (rtpTSFromSource (pkt_SourceTime pkt)) pkt (lk_dec st))
           in st\<lparr>lk_dec := d, lk_out := lk_out st @ rs\<rparr>
      else st)"
| "link_step F (LFec j) st =
     (if j < length (lk_air st) \<and>
         (case lk_dec st of None \<Rightarrow> True
          | Some d \<Rightarrow> prompt (fecConfig (fs_params F)) (pkt_Seq (fs_pk F (fst (lk_air st ! j)))) d)
      then let (d, rs) = fecOnRecvFEC (fp_Data (snd (lk_air st ! j))) (lk_dec st)
           in st\<lparr>lk_dec := d, lk_out := lk_out st @ rs\<rparr>
      else st)"

definition sent_at :: "u32 \<Rightarrow> (nat \<Rightarrow> storedMedia) \<Rightarrow> u32 \<Rightarrow> storedMedia" where
  "sent_at isn pk s = pk (unat (s - isn))"

definition sent_seqs :: "u32 \<Rightarrow> nat \<Rightarrow> u32 set" where
  "sent_seqs isn k = (\<lambda>j. isn + of_nat j) ` {..<k}"

lemma sent_at_idx: "j < 2 ^ 32 \<Longrightarrow> sent_at isn pk (isn + of_nat j) = pk j"
  by (simp add: sent_at_def unsigned_of_nat take_bit_nat_eq_self)

text \<open>Groups the encoder can emit while pushing packet \<open>i\<close>.\<close>

definition emitted :: "FecConfig \<Rightarrow> nat \<Rightarrow> Direction \<Rightarrow> nat \<Rightarrow> bool" where
  "emitted cfg i dir b \<longleftrightarrow>
     b \<le> i \<and> i < b + matrixSize cfg \<and> (\<forall>j\<in>set (group_idx cfg dir b). j \<le> i) \<and> (dir = Row \<longrightarrow> \<not> mx_ColumnOnly cfg)"

lemma fec_out_emitted:
  assumes ok: "dims_ok cfg" and fp: "fp \<in> set (fec_out cfg n isn pk i)"
  obtains dir b where "fp = fec_of cfg n isn pk dir b" "emitted cfg i dir b"
proof -
  let ?l = "mx_Cols cfg" and ?d = "mx_Rows cfg"
  have l: "1 \<le> ?l" "1 < ?d" using ok by (simp_all add: dims_ok_def matrix_ok_def)
  have i: "i = i mod ?l + i div ?l * ?l" by simp
  from fp consider "i div ?l mod ?d = ?d - 1" "fp = fec_of cfg n isn pk Column (i mod ?l + (i div ?l + 1 - ?d) * ?l)"
    | "\<not> mx_ColumnOnly cfg" "i mod ?l = ?l - 1" "fp = fec_of cfg n isn pk Row (i div ?l * ?l)"
    by (auto simp: fec_out_def Let_def split: if_splits)
  then show thesis
  proof cases
    case 1
    let ?q = "i div ?l + 1 - ?d"
    have k: "i div ?l = ?q + (?d - 1)" using col_full(2) [OF l(2) 1(1)] l(2) by linarith
    have le: "i mod ?l + ?q * ?l + k * ?l \<le> i" if "k < ?d" for k
    proof -
      have "(?q + k) * ?l \<le> i div ?l * ?l" using that k by (intro mult_le_mono1) linarith
      then show ?thesis using i by (metis add.assoc add_le_cancel_left add_mult_distrib)
    qed
    have "i = i mod ?l + ?q * ?l + (?d - 1) * ?l" using i k by (metis add.assoc add_mult_distrib)
    moreover have "(?d - 1) * ?l < ?l * ?d" using l by (simp add: mult.commute)
    ultimately have "i < i mod ?l + ?q * ?l + matrixSize cfg" unfolding matrixSize_def by linarith
    moreover have "i mod ?l + ?q * ?l \<le> i" using le [of 0] l by simp
    ultimately have "emitted cfg i Column (i mod ?l + ?q * ?l)"
      using le by (auto simp: emitted_def group_idx_def)
    then show thesis using that 1(2) by blast
  next
    case 2
    have s: "i + 1 = i div ?l * ?l + ?l" by (rule row_full(3) [OF l(1) 2(2)])
    moreover have "?l * 1 \<le> matrixSize cfg" unfolding matrixSize_def using l(2) by (intro mult_le_mono2) simp
    ultimately have "emitted cfg i Row (i div ?l * ?l)"
      using 2(1) l by (auto simp: emitted_def group_idx_def)
    then show thesis using that 2(3) by blast
  qed
qed

lemma prompt_near:
  assumes "prompt cfg (isn + of_nat i) d" "emitted cfg i dir b"
  shows "fec_abs (seqDiff (de_lastSeq d) (isn + of_nat b)) < 2 ^ (span_bits cfg - 1)"
proof -
  let ?l = "de_lastSeq d"
  define t where "t = seqDiff ?l (isn + of_nat i)"
  define u where "u = t - int (i - b)"
  have i: "isn + of_nat i = ?l + word_of_int t"
    using num32.add_dist [of ?l "isn + of_nat i"] by (simp add: t_def seqDiff_def Add32_def)
  have b: "b \<le> i" "int (i - b) < int (matrixSize cfg)" using assms(2) by (auto simp: emitted_def)
  have "isn + of_nat b = (isn + of_nat i) - word_of_int (int (i - b))" using b(1) by (simp add: of_nat_diff)
  then have base: "isn + of_nat b = ?l + word_of_int u" unfolding i u_def by (simp add: of_int_diff algebra_simps)
  have p: "fec_abs t + int (matrixSize cfg) < 2 ^ (span_bits cfg - 1)" using assms(1) by (simp add: prompt_def t_def)
  have half: "(2 :: int) ^ (span_bits cfg - 1) \<le> 2 ^ 23" by (simp add: span_bits_def)
  have u: "fec_abs u < 2 ^ (span_bits cfg - 1)"
    using p b(2) by (auto simp: fec_abs_def u_def split: if_splits)
  then have "- (2 ^ 31) < u" "u \<le> 2 ^ 31" using half by (auto simp: fec_abs_def split: if_splits)
  then have "seqDiff ?l (isn + of_nat b) = u" unfolding base by (rule distance_add)
  then show ?thesis using u by simp
qed

lemma stored_members:
  "fec_members (stored_of cfg n isn pk dir b) = map (\<lambda>j. isn + of_nat j) (group_idx cfg dir b)"
  by (cases dir) (simp_all add: fec_members_def stored_of_def group_idx_def Let_def seqAdd_def Add32_def)

lemma stored_true:
  assumes ok: "dims_ok cfg" and em: "emitted cfg i dir b" and i: "i < k" "k \<le> 2 ^ 32"
    and pk: "\<And>j. fits_matrix n (pk j) \<and> sm_ssrc (pk j) = S"
  shows "fec_true (sent_at isn pk) (sent_seqs isn k) S n (stored_of cfg n isn pk dir b)"
proof -
  let ?sf = "stored_of cfg n isn pk dir b"
  let ?ms = "map pk (group_idx cfg dir b)"
  have idx: "j < k" "j < 2 ^ 32" if "j \<in> set (group_idx cfg dir b)" for j
    using em that i by (force simp: emitted_def)+
  have ms: "map (sent_at isn pk) (fec_members ?sf) = ?ms"
    unfolding stored_members using idx by (simp add: sent_at_idx)
  have "2 \<le> sf_count ?sf"
    using ok em by (auto simp: stored_of_def Let_def dims_ok_def emitted_def)
  moreover have "xor_of n ?ms (sf_lengthRec ?sf) (sf_ptRec ?sf) (sf_tsRec ?sf) (sf_payload ?sf)"
    by (simp add: xor_of_def stored_of_def Let_def group_of_def byte_at_def)
  moreover have "\<forall>s\<in>set (fec_members ?sf). s \<in> sent_seqs isn k \<and> fits_matrix n (sent_at isn pk s) \<and> sm_ssrc (sent_at isn pk s) = S"
    unfolding stored_members using idx pk by (auto simp: sent_seqs_def sent_at_idx)
  ultimately show ?thesis unfolding fec_true_def ms by blast
qed

text \<open>Both pushes keep the configuration.\<close>

lemma tryRecover_cfg: "tryRecover d sf = (d', sf', r) \<Longrightarrow> de_cfg d' = de_cfg d"
  by (erule tryRecover_cases) simp_all

lemma scan_cfg: "scan_fecs d sfs = (d', sfs', r) \<Longrightarrow> de_cfg d' = de_cfg d"
  by (induction sfs arbitrary: d d' sfs' r) (auto simp: Let_def tryRecover_cfg split: prod.splits)

lemma recoverAll_cfg [simp]: "de_cfg (recoverAll d) = de_cfg d"
proof (induction d rule: recoverAll.induct)
  case (1 d)
  obtain d1 sfs r where s: "scan_fecs d (de_fecs d) = (d1, sfs, r)" by (cases "scan_fecs d (de_fecs d)")
  show ?case
    using "1.IH" [OF s [symmetric] refl refl] scan_cfg [OF s] s by (subst recoverAll.simps) (simp add: Let_def)
qed

lemma evict_cfg [simp]: "de_cfg (evict d) = de_cfg d" by (simp add: evict_def Let_def)

lemma PushMedia_cfg: "PushMedia s ts pt ssrc p d = (d', rs) \<Longrightarrow> de_cfg d' = de_cfg d"
  by (auto simp: PushMedia_def Let_def decoder_advance_def decoder_store_def split: if_splits)

lemma PushFEC_cfg: "PushFEC b d = (d', rs) \<Longrightarrow> de_cfg d' = de_cfg d"
  by (auto simp: PushFEC_def Let_def make_room_def split: if_splits option.splits)

lemma dec_true_mono: "dec_true truth V S n d \<Longrightarrow> V \<subseteq> W \<Longrightarrow> dec_true truth W S n d"
  by (auto simp: dec_true_def fec_true_def rec_true_def list_all_iff)

lemma sent_seqs_mono: "k \<le> k' \<Longrightarrow> sent_seqs isn k \<subseteq> sent_seqs isn k'"
  by (auto simp: sent_seqs_def)

section \<open>The invariant of the link\<close>

definition link_inv :: "FecConfig \<Rightarrow> nat \<Rightarrow> u32 \<Rightarrow> (nat \<Rightarrow> storedMedia) \<Rightarrow> u32 \<Rightarrow> fec_link \<Rightarrow> bool" where
  "link_inv cfg n isn pk S st \<longleftrightarrow>
     lk_sent st \<le> 2 ^ 32 \<and>
     lk_enc st = (if lk_sent st = 0 then None else Some (enc_at cfg n isn pk (lk_sent st))) \<and>
     (\<forall>(i, fp)\<in>set (lk_air st). i < lk_sent st \<and> (\<exists>dir b. fp = fec_of cfg n isn pk dir b \<and> emitted cfg i dir b)) \<and>
     (\<forall>d. lk_dec st = Some d \<longrightarrow> de_cfg d = cfg \<and> dec_true (sent_at isn pk) (sent_seqs isn (lk_sent st)) S n d) \<and>
     list_all (rec_true (sent_at isn pk) (sent_seqs isn (lk_sent st))) (lk_out st)"

text \<open>A stream that can be protected: consecutively numbered, with units the matrix can carry.\<close>

definition protectable :: "fec_stream \<Rightarrow> u32 \<Rightarrow> u32 \<Rightarrow> bool" where
  "protectable F isn S \<longleftrightarrow>
     dims_ok (fecConfig (fs_params F)) \<and>
     (\<forall>j. pkt_Seq (fs_pk F j) = isn + of_nat j \<and> fits_matrix (fs_size F) (protected_unit F j) \<and>
          sm_ssrc (protected_unit F j) = S)"

abbreviation stream_inv :: "fec_stream \<Rightarrow> u32 \<Rightarrow> u32 \<Rightarrow> fec_link \<Rightarrow> bool" where
  "stream_inv F isn S st \<equiv> link_inv (fecConfig (fs_params F)) (fs_size F) isn (protected_unit F) S st"

lemma fecOnSend_original:
  assumes P: "protectable F isn S" and enc: "enc = (if k = 0 then None else Some (enc_at (fecConfig (fs_params F)) (fs_size F) isn (protected_unit F) k))"
  shows "fecOnSend (fs_params F) (fs_adv F) (fs_size F) (fs_canon F) ((fs_pk F k)\<lparr>pkt_Retransmit := False\<rparr>) (fs_dg F k) enc =
    (Some (enc_at (fecConfig (fs_params F)) (fs_size F) isn (protected_unit F) (Suc k)),
     fec_out (fecConfig (fs_params F)) (fs_size F) isn (protected_unit F) k)"
proof -
  let ?cfg = "fecConfig (fs_params F)" and ?n = "fs_size F" and ?pk = "protected_unit F"
  have m: "matrix_ok ?cfg" and s: "pkt_Seq (fs_pk F k) = isn + of_nat k" using P by (simp_all add: protectable_def dims_ok_def)
  have e: "(case enc of None \<Rightarrow> NewEncoder ?cfg ?n (isn + of_nat k) | Some e \<Rightarrow> e) = enc_at ?cfg ?n isn ?pk k"
    using enc enc_at_0 [of ?cfg ?n isn ?pk] by simp
  have "Encoder_Push (isn + of_nat k) (sm_ts (?pk k)) (sm_pt (?pk k)) (sm_payload (?pk k)) (enc_at ?cfg ?n isn ?pk k) =
      (enc_at ?cfg ?n isn ?pk (Suc k), fec_out ?cfg ?n isn ?pk k)"
    by (rule Encoder_Push_at [OF m])
  then show ?thesis
    using s e by (simp add: fecOnSend_def Let_def protected_unit_def cong: option.case_cong split: if_splits)
qed

lemma link_send_inv:
  assumes P: "protectable F isn S" and I: "stream_inv F isn S st"
  shows "stream_inv F isn S (link_step F LSend st)"
proof (cases "int (lk_sent st) < 2 ^ 32")
  case True
  let ?k = "lk_sent st" and ?cfg = "fecConfig (fs_params F)" and ?n = "fs_size F" and ?pk = "protected_unit F"
  have ok: "dims_ok ?cfg" using P by (simp add: protectable_def)
  have push: "link_fec_send F ?k False st =
      st\<lparr>lk_enc := Some (enc_at ?cfg ?n isn ?pk (Suc ?k)), lk_air := lk_air st @ map (Pair ?k) (fec_out ?cfg ?n isn ?pk ?k)\<rparr>"
    unfolding link_fec_send_def using I by (subst fecOnSend_original [OF P]) (simp_all add: link_inv_def)
  have sub: "sent_seqs isn ?k \<subseteq> sent_seqs isn (Suc ?k)" by (rule sent_seqs_mono) simp
  then have "list_all (rec_true (sent_at isn ?pk) (sent_seqs isn (Suc ?k))) (lk_out st)"
    using I by (auto simp: link_inv_def list_all_iff rec_true_def)
  moreover have "i < Suc ?k \<and> (\<exists>dir b. fp = fec_of ?cfg ?n isn ?pk dir b \<and> emitted ?cfg i dir b)"
    if "(i, fp) \<in> set (lk_air st) \<or> i = ?k \<and> fp \<in> set (fec_out ?cfg ?n isn ?pk ?k)" for i fp
    using that
  proof
    assume "(i, fp) \<in> set (lk_air st)"
    then show ?thesis using I by (fastforce simp: link_inv_def)
  next
    assume "i = ?k \<and> fp \<in> set (fec_out ?cfg ?n isn ?pk ?k)"
    then show ?thesis using fec_out_emitted [OF ok] by (metis lessI)
  qed
  ultimately show ?thesis
    using I True push dec_true_mono [OF _ sub] by (auto simp: link_inv_def)
next
  case False
  then show ?thesis using I by simp
qed

lemma link_resend: "link_step F (LResend j) st = st"
  by (simp add: link_fec_send_def fecOnSend_def)

lemma link_media_inv:
  assumes P: "protectable F isn S" and I: "stream_inv F isn S st"
  shows "stream_inv F isn S (link_step F (LMedia j) st)"
proof (cases "j < lk_sent st")
  case True
  let ?cfg = "fecConfig (fs_params F)" and ?n = "fs_size F" and ?pk = "protected_unit F"
  let ?t = "sent_at isn ?pk" and ?V = "sent_seqs isn (lk_sent st)"
  have s: "pkt_Seq (fs_pk F j) = isn + of_nat j" using P by (simp add: protectable_def)
  define d where "d = (case lk_dec st of None \<Rightarrow> NewDecoder ?cfg ?n (isn + of_nat j) | Some d \<Rightarrow> d)"
  have d: "dec_true ?t ?V S ?n d" "de_cfg d = ?cfg"
    using I NewDecoder_true by (auto simp: d_def link_inv_def NewDecoder_def split: option.split)
  obtain d' rs where p: "PushMedia (isn + of_nat j) (sm_ts (?pk j)) (sm_pt (?pk j)) (sm_ssrc (?pk j)) (sm_payload (?pk j)) d = (d', rs)"
    by (meson surj_pair)
  have "j < 2 ^ 32" using True I by (simp add: link_inv_def)
  then have m: "?t (isn + of_nat j) = \<lparr>sm_ts = sm_ts (?pk j), sm_pt = sm_pt (?pk j), sm_ssrc = sm_ssrc (?pk j), sm_payload = sm_payload (?pk j)\<rparr>"
    by (simp add: sent_at_idx)
  have "link_step F (LMedia j) st = st\<lparr>lk_dec := Some d', lk_out := lk_out st @ rs\<rparr>"
    using True p s unfolding d_def
    by (simp add: fecRecvRTP_def fecRecvAdv_def protected_unit_def Let_def cong: option.case_cong split: if_splits)
  then show ?thesis
    using PushMedia_true [OF d(1) m p] PushMedia_cfg [OF p] I d(2) by (auto simp: link_inv_def)
next
  case False
  then show ?thesis using I by simp
qed

lemma link_fec_inv:
  assumes P: "protectable F isn S" and I: "stream_inv F isn S st"
  shows "stream_inv F isn S (link_step F (LFec j) st)"
proof (cases "lk_dec st")
  case None
  then show ?thesis using I by (auto simp: fecOnRecvFEC_def link_inv_def)
next
  case (Some d)
  let ?cfg = "fecConfig (fs_params F)" and ?n = "fs_size F" and ?pk = "protected_unit F"
  let ?t = "sent_at isn ?pk" and ?V = "sent_seqs isn (lk_sent st)"
  have ok: "dims_ok ?cfg" and s: "\<And>j. pkt_Seq (fs_pk F j) = isn + of_nat j"
    and pk: "\<And>j. fits_matrix ?n (?pk j) \<and> sm_ssrc (?pk j) = S" using P by (simp_all add: protectable_def)
  show ?thesis
  proof (cases "j < length (lk_air st) \<and> prompt ?cfg (isn + of_nat (fst (lk_air st ! j))) d")
    case True
    obtain i fp where a: "lk_air st ! j = (i, fp)" by (cases "lk_air st ! j")
    have "(i, fp) \<in> set (lk_air st)" using True a by (metis nth_mem)
    then obtain dir b where fp: "i < lk_sent st" "fp = fec_of ?cfg ?n isn ?pk dir b" "emitted ?cfg i dir b"
      using I by (auto simp: link_inv_def)
    have d: "de_cfg d = ?cfg" "dec_true ?t ?V S ?n d" and k: "lk_sent st \<le> 2 ^ 32"
      using I Some by (auto simp: link_inv_def)
    have near: "fec_abs (seqDiff (de_lastSeq d) (isn + of_nat b)) < 2 ^ (span_bits ?cfg - 1)"
      using prompt_near [OF _ fp(3)] True a by simp
    then have parse: "parse_fec (d\<lparr>de_out := []\<rparr>) (fp_Data fp) = Some (stored_of ?cfg ?n isn ?pk dir b)"
      unfolding fp(2) using d(1) ok by (intro parse_fec_of) simp_all
    have ft: "fec_true ?t ?V S ?n (stored_of ?cfg ?n isn ?pk dir b)" by (rule stored_true [OF ok fp(3,1) k pk])
    obtain d' rs where p: "PushFEC (fp_Data fp) d = (d', rs)" by (meson surj_pair)
    have T: "fec_true ?t ?V S ?n sf" if "parse_fec (d\<lparr>de_out := []\<rparr>) (fp_Data fp) = Some sf" for sf
      using parse ft that by simp
    from PushFEC_true [OF d(2) T p] show ?thesis
      using I True Some a p s PushFEC_cfg [OF p] d(1) by (auto simp: link_inv_def fecOnRecvFEC_def)
  next
    case False
    then show ?thesis using I Some s by auto
  qed
qed

lemma link_run_inv:
  assumes P: "protectable F isn S"
  shows "stream_inv F isn S (fold (link_step F) evs link_init)"
proof (induction evs rule: rev_induct)
  case Nil
  show ?case by (simp add: link_inv_def link_init_def)
next
  case (snoc ev evs)
  then show ?case
    by (cases ev) (simp_all only: fold_append fold_simps o_apply id_apply link_resend link_send_inv [OF P]
        link_media_inv [OF P] link_fec_inv [OF P])
qed


definition demo_fec :: FECConfig where
  "demo_fec = \<lparr>fc_Columns = 1, fc_Rows = 4, fc_ColumnOnly = True, fc_Carriage = FECCarriageDefault, fc_Variant = 0\<rparr>"

definition demo_params :: FECParams where
  "demo_params = \<lparr>fq_Cols = 1, fq_Rows = 4, fq_ColumnOnly = True, fq_SeparatePorts = True, fq_Variant = Variant20221\<rparr>"

definition demo_stream :: fec_stream where
  "demo_stream = \<lparr>fs_params = demo_params, fs_adv = False, fs_size = 2, fs_canon = id,
     fs_pk = (\<lambda>j. \<lparr>pkt_Seq = 0xFFFFFFFE + of_nat j, pkt_SourceTime = 0, pkt_SSRC = 8, pkt_Payload = [of_nat j],
       pkt_Retransmit = False, pkt_PathID = 0, pkt_Frag = FragStandalone, pkt_VirtSrcPort = 0, pkt_VirtDstPort = 0,
       pkt_ShortSeq = False\<rparr>), fs_dg = (\<lambda>j. [])\<rparr>"

definition demo_events :: "link_event list" where
  "demo_events = [LSend, LSend, LSend, LSend, LMedia 0, LMedia 3, LMedia 1, LFec 0]"

definition demo_recovered :: Recovered where
  "demo_recovered = \<lparr>rc_Seq = 0, rc_Timestamp = 0, rc_PayloadType = 127, rc_SSRC = 8, rc_Payload = [2]\<rparr>"

lemma demo_out: "lk_out (fold (link_step demo_stream) demo_events link_init) = [demo_recovered]"
  by code_simp


text \<open>A group of four with two losses, for the completeness of recovery.\<close>

definition demo_sf :: storedFEC where
  "demo_sf = \<lparr>sf_base = 0, sf_stride = 1, sf_count = 4, sf_lengthRec = 0, sf_ptRec = 0, sf_tsRec = 0,
     sf_payload = [4, 4], sf_done = False\<rparr>"

definition demo_decoder :: Decoder where
  "demo_decoder = (decoder_store 1 90 127 7 [1] (decoder_store 3 270 127 7 [3]
     (NewDecoder (fecConfig demo_params) 2 0)))\<lparr>de_lastSeq := 3, de_haveSeq := True, de_fecs := [demo_sf]\<rparr>"


end
