(* ===== verification/Session_Media.thy ===== *)
theory Session_Media
  imports Session_Codec
begin

text \<open>Reconstruction of sequence numbers and source times by the Simple-profile decoder of
  internal/session/codec.go: a packet, its retransmission and its duplicate come out with the same sequence
  number and the same source time, in whatever order they arrive and across the wraps of both fields.\<close>

unbundle bit_operations_syntax

section \<open>Widening timestamps\<close>

lemma int_split_mask: "(x AND NOT (mask k)) + (x AND mask k) = (x :: int)"
proof -
  have "(x AND NOT (mask k)) AND (x AND mask k) = 0" by (rule bit_eqI) (auto simp: bit_simps)
  then have "(x AND NOT (mask k)) + (x AND mask k) = (x AND NOT (mask k)) OR (x AND mask k)"
    by (rule disjunctive_add_eq_or)
  also have "\<dots> = x" by (rule bit_eqI) (auto simp: bit_simps)
  finally show ?thesis .
qed

lemma cand32: "(ref AND NOT 0xFFFFFFFF) OR uint (w :: u32) = ref div 2 ^ 32 * 2 ^ 32 + uint w"
proof -
  have m: "(0xFFFFFFFF :: int) = mask 32" by (simp add: mask_eq_exp_minus_1)
  have "(ref AND NOT (mask 32)) AND uint w = 0"
    by (rule bit_eqI) (auto simp: bit_simps dest: bit_imp_le_length)
  then have or: "(ref AND NOT (mask 32)) OR uint w = (ref AND NOT (mask 32)) + uint w"
    by (rule disjunctive_add_eq_or [symmetric])
  have low: "(ref AND mask 32) = ref mod 2 ^ 32" by (simp only: take_bit_eq_mask [symmetric] take_bit_eq_mod)
  have "ref AND NOT (mask 32) = ref - ref mod 2 ^ 32"
    using int_split_mask [of ref 32] unfolding low by linarith
  then have "ref AND NOT (mask 32) = ref div 2 ^ 32 * 2 ^ 32" by (simp only: minus_mod_eq_div_mult)
  then show ?thesis unfolding m or by (simp only:)
qed

lemma widenTicks_near:
  assumes near: "\<bar>t - ref\<bar> < 2 ^ 31" and small: "\<bar>ref\<bar> < 2 ^ 61"
  shows "widenTicks (word_of_int t) ref = t"
proof -
  define q where "q = t div 2 ^ 32 - ref div 2 ^ 32"
  define cand where "cand = ref div 2 ^ 32 * 2 ^ 32 + t mod 2 ^ 32"
  have c: "(ref AND NOT 0xFFFFFFFF) OR uint (word_of_int t :: u32) = cand"
    unfolding cand32 cand_def by (simp add: uint_word_of_int)
  have cq: "cand = t - q * 2 ^ 32"
    unfolding cand_def q_def left_diff_distrib using div_mult_mod_eq [of t "2 ^ 32"] by linarith
  have "(ref - 2 ^ 32) div 2 ^ 32 \<le> t div 2 ^ 32" "t div 2 ^ 32 \<le> (ref + 2 ^ 32) div 2 ^ 32"
    using near by (auto intro!: zdiv_mono1)
  moreover have "(ref - 2 ^ 32) div 2 ^ 32 = ref div 2 ^ 32 - 1" using div_add_self2 [of "2 ^ 32" "ref - 2 ^ 32"] by simp
  ultimately have "q = -1 \<or> q = 0 \<or> q = 1" unfolding q_def by auto
  moreover have d: "wrap64 (cand - ref) = cand - ref" "wrap64 (cand - 2 ^ 32) = cand - 2 ^ 32" "wrap64 (cand + 2 ^ 32) = cand + 2 ^ 32"
    using near small cq \<open>q = -1 \<or> q = 0 \<or> q = 1\<close> by (auto intro!: wrap64_id)
  ultimately show ?thesis
    unfolding widenTicks_def c Let_def d using near cq by auto
qed

section \<open>Pacing\<close>

text \<open>A stream keeps pace when its timestamps stay within 65536 ticks (0.73 s) of a constant rate of at most
  65536 ticks a packet.\<close>

definition paced :: "(nat \<Rightarrow> int) \<Rightarrow> bool" where
  "paced T \<longleftrightarrow> (\<exists>r :: rat. 0 \<le> r \<and> r \<le> 65536 \<and>
     (\<forall>i j. \<bar>of_int (T i - T j) - r * (of_nat i - of_nat j)\<bar> \<le> 65536))"

lemma quot_pos_bounds:
  assumes "0 < n"
  shows "\<bar>x - quot x n * n\<bar> < n"
proof -
  have m: "x div n * n + x mod n = x" "0 \<le> x mod n" "x mod n < n" using assms by simp_all
  have k: "(- x) div n * n + (- x) mod n = - x" "0 \<le> (- x) mod n" "(- x) mod n < n" using assms by simp_all
  show ?thesis
  proof (cases "0 \<le> x")
    case True
    then show ?thesis using m assms by (simp add: quot_nonneg minus_div_mult_eq_mod)
  next
    case False
    then have "quot x n = - ((- x) div n)" using assms by (simp add: quot_def)
    moreover have "(- x) div n * n = - x - (- x) mod n" using k(1) by linarith
    ultimately show ?thesis using k(2,3) by simp
  qed
qed

lemma extrapolation_error:
  fixes T :: "nat \<Rightarrow> int"
  assumes "paced T" "b < f" and m: "\<bar>int i - int f\<bar> < 2 ^ 14"
  defines "tps \<equiv> quot (T f - T b) (int f - int b)"
  shows "\<bar>T i - (T f + (int i - int f) * tps)\<bar> < 2 ^ 31" "\<bar>tps\<bar> < 2 ^ 18"
proof -
  obtain r :: rat where r: "0 \<le> r" "r \<le> 65536"
    and dev: "\<And>i j. \<bar>of_int (T i - T j) - r * (of_nat i - of_nat j)\<bar> \<le> 65536"
    using assms(1) unfolding paced_def by blast
  define n where "n = int f - int b"
  define x where "x = T f - T b"
  define k where "k = int i - int f"
  have n: "1 \<le> n" using assms(2) by (simp add: n_def)
  have q: "\<bar>x - tps * n\<bar> < n" using quot_pos_bounds [of n x] n by (simp add: tps_def x_def n_def)
  have q': "\<bar>(of_int x :: rat) - of_int tps * of_int n\<bar> \<le> of_int n"
    using q by (metis (mono_tags, lifting) less_imp_le of_int_abs of_int_diff of_int_le_iff of_int_mult)
  have d1: "\<bar>(of_int x :: rat) - r * of_int n\<bar> \<le> 65536"
    using dev [of f b] by (simp add: x_def n_def)
  have nr: "(1 :: rat) \<le> of_int n" using n by simp
  have "\<bar>(of_int tps - r) * of_int n\<bar> \<le> of_int n + 65536" using q' d1 by (simp add: algebra_simps abs_le_iff)
  also have "\<dots> \<le> 65537 * of_int n" using nr by simp
  finally have "\<bar>of_int tps - r\<bar> * of_int n \<le> 65537 * of_int n" using nr by (simp add: abs_mult)
  then have tr: "\<bar>of_int tps - r\<bar> \<le> 65537" using nr by simp
  then have "\<bar>of_int tps :: rat\<bar> \<le> of_int 131073" using r by (simp add: abs_le_iff)
  then have "\<bar>tps\<bar> \<le> 131073" by (metis of_int_abs of_int_le_iff)
  then show "\<bar>tps\<bar> < 2 ^ 18" by simp
  have k: "\<bar>of_int k :: rat\<bar> \<le> of_int 16384" using m by (simp flip: of_int_abs of_int_le_iff add: k_def)
  have "\<bar>of_int k * (r - of_int tps)\<bar> \<le> 16384 * (65537 :: rat)"
    unfolding abs_mult using k tr by (intro mult_mono) (simp_all add: abs_minus_commute)
  moreover have "\<bar>of_int (T i - T f) - r * of_int k\<bar> \<le> 65536" using dev [of i f] by (simp add: k_def)
  ultimately have "\<bar>of_int (T i - T f) - of_int k * (of_int tps :: rat)\<bar> \<le> of_int 1073823744"
    by (simp add: algebra_simps abs_le_iff)
  then have "\<bar>of_int (T i - T f - k * tps) :: rat\<bar> \<le> of_int 1073823744" by simp
  then have "\<bar>T i - T f - k * tps\<bar> \<le> 1073823744" by (metis of_int_abs of_int_le_iff)
  then show "\<bar>T i - (T f + (int i - int f) * tps)\<bar> < 2 ^ 31" unfolding k_def by (simp add: diff_diff_eq)
qed

lemma first_error:
  assumes "paced T" "\<bar>int i - int f\<bar> < 2 ^ 14"
  shows "\<bar>T i - T f\<bar> < 2 ^ 31"
proof -
  obtain r :: rat where r: "0 \<le> r" "r \<le> 65536"
    and dev: "\<bar>of_int (T i - T f) - r * (of_nat i - of_nat f)\<bar> \<le> 65536"
    using assms(1) unfolding paced_def by blast
  have k: "\<bar>of_int (int i - int f) :: rat\<bar> \<le> of_int 16384" using assms(2) by (simp flip: of_int_abs of_int_le_iff)
  have "\<bar>r * of_int (int i - int f)\<bar> \<le> 65536 * (16384 :: rat)"
    unfolding abs_mult using r k by (intro mult_mono) simp_all
  then have "\<bar>of_int (T i - T f) :: rat\<bar> \<le> of_int 1073807360" using dev by (simp add: abs_le_iff)
  then have "\<bar>T i - T f\<bar> \<le> 1073807360" by (metis of_int_abs of_int_le_iff)
  then show ?thesis by simp
qed

section \<open>The timestamp reference\<close>

lemma i32_diff:
  assumes "\<bar>int i - int j\<bar> < 2 ^ 31"
  shows "i32 ((c + of_nat i) - (c + of_nat j)) = int i - int j"
proof -
  have "(c + of_nat i) - (c + of_nat j) = (word_of_int (int i - int j) :: u32)" by (simp add: of_int_diff)
  moreover have "sint (word_of_int k :: u32) = k" if "- (2 ^ 31) \<le> k" "k < 2 ^ 31" for k
    using that by (simp add: signed_of_int signed_take_bit_int_eq_self)
  ultimately show ?thesis using assms unfolding i32_def by (metis abs_less_iff less_imp_le minus_less_iff)
qed

text \<open>The decoder has seen packet \<open>b\<close> first and \<open>f\<close> is the newest; \<open>K\<close> is the multiple of the timestamp wrap by
  which its tick counts are offset.\<close>

definition tick_inv :: "(nat \<Rightarrow> int) \<Rightarrow> int \<Rightarrow> u32 \<Rightarrow> nat \<Rightarrow> nat \<Rightarrow> mediaDecoder \<Rightarrow> bool" where
  "tick_inv T K c b f d \<longleftrightarrow>
     md_tsStarted d \<and> md_tsBaseSeq d = c + of_nat b \<and> md_tsBaseTicks d = T b - K \<and>
     md_tsRefSeq d = c + of_nat f \<and> md_tsRefTicks d = T f - K \<and> b \<le> f"

lemma sourceTicks_at:
  assumes I: "tick_inv T K c b f d" and p: "paced T" and T: "\<And>i. 0 \<le> T i \<and> T i < 2 ^ 52"
    and K: "K mod 2 ^ 32 = 0" "0 \<le> K" "K < 2 ^ 52"
    and i: "\<bar>int i - int f\<bar> < 2 ^ 14" and f: "f < 2 ^ 31"
  shows "snd (sourceTicks d (c + of_nat i) (word_of_int (T i))) = max 0 (T i - K)"
    "tick_inv T K c b (max f i) (fst (sourceTicks d (c + of_nat i) (word_of_int (T i))))"
    "md_started (fst (sourceTicks d (c + of_nat i) (word_of_int (T i)))) = md_started d"
    "md_refSeq (fst (sourceTicks d (c + of_nat i) (word_of_int (T i)))) = md_refSeq d"
proof -
  note inv = I [unfolded tick_inv_def]
  have span: "i32 (md_tsRefSeq d - md_tsBaseSeq d) = int f - int b"
    using inv f i32_diff [of f b c] by auto
  have di: "i32 ((c + of_nat i) - md_tsRefSeq d) = int i - int f" using inv i i32_diff [of i f c] by auto
  define tps where "tps = quot (T f - T b) (int f - int b)"
  define ref where "ref = (if b < f then T f - K + (int i - int f) * tps else T f - K)"
  have Tf: "\<bar>T f - K\<bar> < 2 ^ 52" "\<bar>T f - T b\<bar> < 2 ^ 52" using T [of f] T [of b] K by auto
  have near: "\<bar>(T i - K) - ref\<bar> < 2 ^ 31"
  proof (cases "b < f")
    case True
    then show ?thesis using extrapolation_error(1) [OF p True i] by (simp add: ref_def tps_def)
  next
    case False
    then show ?thesis using first_error [OF p i] by (simp add: ref_def)
  qed
  have small: "\<bar>ref\<bar> < 2 ^ 61" using near T [of i] K by auto
  have refv: "(if i32 (md_tsRefSeq d - md_tsBaseSeq d) > 0
      then let ticksPerSeq = quot (wrap64 (md_tsRefTicks d - md_tsBaseTicks d)) (i32 (md_tsRefSeq d - md_tsBaseSeq d))
           in wrap64 (md_tsRefTicks d + wrap64 (i32 ((c + of_nat i) - md_tsRefSeq d) * ticksPerSeq))
      else md_tsRefTicks d) = ref"
  proof (cases "b < f")
    case True
    have t: "\<bar>tps\<bar> < 2 ^ 18" using extrapolation_error(2) [OF p True i] by (simp add: tps_def)
    have "\<bar>(int i - int f) * tps\<bar> \<le> 2 ^ 14 * 2 ^ 18"
      unfolding abs_mult using i t by (intro mult_mono) simp_all
    then have w: "wrap64 ((int i - int f) * tps) = (int i - int f) * tps" by (intro wrap64_id) auto
    have "wrap64 (md_tsRefTicks d - md_tsBaseTicks d) = T f - T b"
      using inv Tf(2) by (simp add: wrap64_id)
    moreover have "wrap64 (T f - K + (int i - int f) * tps) = ref"
      using small True unfolding ref_def by (intro wrap64_id [THEN trans]) (auto simp: ref_def)
    ultimately show ?thesis
      unfolding span di Let_def using inv True w by (simp add: tps_def ref_def)
  next
    case False
    then show ?thesis using inv span by (simp add: ref_def)
  qed
  obtain q where q: "K = q * 2 ^ 32" using K(1) by (metis div_mult_mod_eq add.right_neutral)
  have "(word_of_int (T i) :: u32) = word_of_int (T i - K)"
    by (rule word_of_int_eq_iff [THEN iffD2]) (simp add: q take_bit_eq_mod mod_eq_dvd_iff)
  then have wid: "widenTicks (word_of_int (T i)) ref = T i - K"
    using widenTicks_near [OF near small] by simp
  show "snd (sourceTicks d (c + of_nat i) (word_of_int (T i))) = max 0 (T i - K)"
    "tick_inv T K c b (max f i) (fst (sourceTicks d (c + of_nat i) (word_of_int (T i))))"
    "md_started (fst (sourceTicks d (c + of_nat i) (word_of_int (T i)))) = md_started d"
    "md_refSeq (fst (sourceTicks d (c + of_nat i) (word_of_int (T i)))) = md_refSeq d"
    unfolding sourceTicks_def Let_def [of "i32 (md_tsRefSeq d - md_tsBaseSeq d)"]
    unfolding refv unfolding di Let_def wid using inv
    by (auto simp: tick_inv_def max_def)
qed

section \<open>Decoding an encoded stream\<close>

definition media_ticks :: "MediaPacket \<Rightarrow> int" where
  "media_ticks pkt = rtpTicksFromMicros (NTPTime_Timestamp (pkt_SourceTime pkt))"

lemma media_ticks_bounds: "0 \<le> media_ticks pkt \<and> media_ticks pkt < 2 ^ 52"
proof -
  define n where "n = pkt_SourceTime pkt"
  define u where "u = unat n div 2 ^ 32 * 1000000 + (unat n mod 2 ^ 32 * 1000000 + 2 ^ 31) div 2 ^ 32"
  have "unat n div 2 ^ 32 < 2 ^ 32" by (rule less_mult_imp_div_less) simp
  moreover have "(unat n mod 2 ^ 32 * 1000000 + 2 ^ 31) div 2 ^ 32 \<le> 1000000"
  proof -
    have "unat n mod 2 ^ 32 * 1000000 + 2 ^ 31 < 2 ^ 32 * 1000001"
    proof -
      have "unat n mod 2 ^ 32 * 1000000 \<le> 2 ^ 32 * 1000000" by (intro mult_le_mono1 less_imp_le) simp
      then show ?thesis by simp
    qed
    then show ?thesis by (simp add: div_less_iff_less_mult flip: less_Suc_eq_le)
  qed
  ultimately have u: "u < 2 ^ 32 * 1000000 + 1000001" unfolding u_def by simp
  have ts: "NTPTime_Timestamp n = int u" unfolding u_def by (rule NTPTime_Timestamp_nat)
  have "wrap64 (int u * 9) = int u * 9" using u by (intro wrap64_id) auto
  then have "media_ticks pkt = int (u * 9 div 100)"
    unfolding media_ticks_def rtpTicksFromMicros_def n_def [symmetric] ts by (simp add: quot_nonneg zdiv_int)
  moreover have "u * 9 div 100 < 2 ^ 52" using u by (simp add: div_less_iff_less_mult)
  ultimately show ?thesis by simp
qed

definition media_rtp :: "MediaPacket \<Rightarrow> rtp_Packet" where
  "media_rtp pkt =
     \<lparr>rp_Header = \<lparr>rh_Version = 2, rh_Padding = False, rh_Extension = False, rh_CSRCCount = 0, rh_Marker = False,
        rh_PayloadType = 33, rh_SequenceNumber = ucast (pkt_Seq pkt), rh_Timestamp = word_of_int (media_ticks pkt),
        rh_SSRC = (if pkt_Retransmit pkt then MarkRetransmit (pkt_SSRC pkt) else pkt_SSRC pkt), rh_CSRC = [],
        rh_ExtensionProfile = 0, rh_ExtensionPayload = []\<rparr>,
      rp_Payload = pkt_Payload pkt, rp_PaddingSize = 0\<rparr>"

lemma media_rtp_wf: "rtp_packet_wf (media_rtp pkt)"
  by (simp add: rtp_packet_wf_def rtp_wf_def media_rtp_def MaxCSRC_def)

lemma encodeMedia_bytes: "encodeMedia spare dst pkt = (None, dst @ rtp_packet_bytes (media_rtp pkt))"
  using rtp_Packet_AppendTo_wf [OF media_rtp_wf, of spare pkt dst]
  by (simp add: encodeMedia_def media_rtp_def media_ticks_def rtpTSFromSource_def rtp_Version_def PayloadTypeMPEGTS_def)

text \<open>What the receiver should make of packet \<open>i\<close> of a stream when it saw packet \<open>b\<close> first: the sequence number
  without the high half of the first one, the source time from the tick count anchored at the first
  timestamp.\<close>

definition seq_offset :: "(nat \<Rightarrow> MediaPacket) \<Rightarrow> nat \<Rightarrow> u32" where
  "seq_offset pk b = pkt_Seq (pk b) AND 0xFFFF0000"

definition tick_offset :: "(nat \<Rightarrow> MediaPacket) \<Rightarrow> nat \<Rightarrow> int" where
  "tick_offset pk b = media_ticks (pk b) - media_ticks (pk b) mod 2 ^ 32"

definition received :: "(nat \<Rightarrow> MediaPacket) \<Rightarrow> nat \<Rightarrow> nat \<times> bool \<Rightarrow> MediaPacket" where
  "received pk b arr =
     (case arr of (i, rtx) \<Rightarrow>
       \<lparr>pkt_Seq = pkt_Seq (pk i) - seq_offset pk b,
        pkt_SourceTime = NTPTimeFromTimestamp (microsFromRTPTicks (max 0 (media_ticks (pk i) - tick_offset pk b))),
        pkt_SSRC = pkt_SSRC (pk i), pkt_Payload = pkt_Payload (pk i), pkt_Retransmit = rtx, pkt_PathID = 0,
        pkt_Frag = FragStandalone, pkt_VirtSrcPort = 0, pkt_VirtDstPort = 0, pkt_ShortSeq = True\<rparr>)"

definition sent_bytes :: "bytes \<Rightarrow> (nat \<Rightarrow> MediaPacket) \<Rightarrow> nat \<times> bool \<Rightarrow> bytes" where
  "sent_bytes spare pk arr = (case arr of (i, rtx) \<Rightarrow> snd (encodeMedia spare [] ((pk i)\<lparr>pkt_Retransmit := rtx\<rparr>)))"

lemma sent_bytes_rtp: "sent_bytes spare pk (i, rtx) = rtp_packet_bytes (media_rtp ((pk i)\<lparr>pkt_Retransmit := rtx\<rparr>))"
  by (simp add: sent_bytes_def encodeMedia_bytes)

lemma media_ticks_rtx [simp]: "media_ticks (p\<lparr>pkt_Retransmit := r\<rparr>) = media_ticks p"
  by (simp add: media_ticks_def)

lemma low_half: "s - (s AND 0xFFFF0000) = (ucast (ucast s :: u16) :: u32)"
proof -
  have m: "(0xFFFF0000 :: u32) = NOT (mask 16)" by (simp add: mask_eq_exp_minus_1)
  have "s - (s AND NOT (mask 16)) = s AND mask 16" using word_split_mask [of s 16] by (metis add_diff_cancel_left')
  also have "\<dots> = ucast (ucast s :: u16)" by (rule bit_word_eqI) (auto simp: bit_simps dest: bit_imp_le_length)
  finally show ?thesis unfolding m .
qed

lemma ucast_low_half: "ucast (s - (t AND 0xFFFF0000) :: u32) = (ucast s :: u16)"
proof -
  have m: "(0xFFFF0000 :: u32) = NOT (mask 16)" by (simp add: mask_eq_exp_minus_1)
  have t: "ucast (t AND NOT (mask 16) :: u32) = (0 :: u16)" by (rule bit_word_eqI) (auto simp: bit_simps)
  define h :: u32 where "h = t AND NOT (mask 16)"
  have h: "uint h mod 65536 = 0" using uint_ucast16 [of h] t by (simp add: h_def)
  have "uint (ucast (s - h) :: u16) = (uint s - uint h) mod 65536"
    unfolding uint_ucast16 by (simp add: uint_word_ariths mod_mod_cancel)
  also have "\<dots> = uint s mod 65536" using h by (metis diff_zero mod_diff_right_eq)
  finally show ?thesis unfolding m h_def by (simp only: word_uint_eq_iff uint_ucast16)
qed

section \<open>The whole stream\<close>

text \<open>Arrivals (with repetitions, in any order) that stay within 16384 packets of the newest so far.\<close>

fun near_front :: "nat \<Rightarrow> nat list \<Rightarrow> bool" where
  "near_front f [] = True"
| "near_front f (i # is) = (\<bar>int i - int f\<bar> < 2 ^ 14 \<and> near_front (max f i) is)"

definition media_inv :: "(nat \<Rightarrow> MediaPacket) \<Rightarrow> nat \<Rightarrow> nat \<Rightarrow> nat \<Rightarrow> mediaDecoder \<Rightarrow> bool" where
  "media_inv pk b f l d \<longleftrightarrow>
     md_started d \<and> md_refSeq d = pkt_Seq (pk l) - seq_offset pk b \<and> \<bar>int l - int f\<bar> < 2 ^ 14 \<and>
     tick_inv (\<lambda>i. media_ticks (pk i)) (tick_offset pk b) (pkt_Seq (pk 0) - seq_offset pk b) b f d"

lemma tick_offset_props: "tick_offset pk b mod 2 ^ 32 = 0" "0 \<le> tick_offset pk b" "tick_offset pk b < 2 ^ 52"
proof -
  have e: "tick_offset pk b = media_ticks (pk b) div 2 ^ 32 * 2 ^ 32"
    unfolding tick_offset_def by (rule minus_mod_eq_div_mult)
  show "tick_offset pk b mod 2 ^ 32 = 0" unfolding e by simp
  show "0 \<le> tick_offset pk b" unfolding e using media_ticks_bounds [of "pk b"] by (simp add: pos_imp_zdiv_nonneg_iff)
  show "tick_offset pk b < 2 ^ 52"
    unfolding tick_offset_def using media_ticks_bounds [of "pk b"] by (smt (verit) pos_mod_sign zero_less_power)
qed

lemma decode_step:
  assumes num: "\<And>i. pkt_Seq (pk i) = isn + of_nat i" and even: "\<And>i. \<not> IsRetransmit (pkt_SSRC (pk i))"
    and p: "paced (\<lambda>i. media_ticks (pk i))" and I: "media_inv pk b f l d"
    and i: "\<bar>int i - int f\<bar> < 2 ^ 14" "f < 2 ^ 31"
  shows "snd (mediaDecoder_decode d (sent_bytes spare pk (i, rtx))) = Inr (received pk b (i, rtx))"
    "media_inv pk b (max f i) i (fst (mediaDecoder_decode d (sent_bytes spare pk (i, rtx))))"
proof -
  let ?c = "pkt_Seq (pk 0) - seq_offset pk b" and ?K = "tick_offset pk b" and ?T = "\<lambda>i. media_ticks (pk i)"
  define m where "m = media_rtp ((pk i)\<lparr>pkt_Retransmit := rtx\<rparr>)"
  have um: "rtp_Packet_Unmarshal (sent_bytes spare pk (i, rtx)) = Inr m"
    unfolding sent_bytes_rtp m_def by (rule rtp_Packet_Unmarshal_bytes [OF media_rtp_wf])
  have q: "?c + of_nat i = pkt_Seq (pk i) - seq_offset pk b" by (simp add: num)
  have "\<bar>int i - int l\<bar> < 2 ^ 15" using I i(1) by (auto simp: media_inv_def)
  moreover have "pkt_Seq (pk i) - seq_offset pk b = md_refSeq d + word_of_int (int i - int l)"
    using I by (simp add: media_inv_def num of_int_diff)
  ultimately have "widenSeq (ucast (pkt_Seq (pk i) - seq_offset pk b)) (md_refSeq d) = pkt_Seq (pk i) - seq_offset pk b"
    using widenSeq_near by metis
  then have w: "widenSeq (rh_SequenceNumber (rp_Header m)) (md_refSeq d) = ?c + of_nat i"
    unfolding q m_def media_rtp_def seq_offset_def ucast_low_half by (simp add: num)
  define d1 where "d1 = d\<lparr>md_refSeq := ?c + of_nat i, md_lastWireTS := word_of_int (?T i)\<rparr>"
  have ti: "tick_inv ?T ?K ?c b f d1" using I by (simp add: media_inv_def tick_inv_def d1_def)
  note st = sourceTicks_at [OF ti p media_ticks_bounds tick_offset_props i]
  have ssrc: "NormalizeSSRC (rh_SSRC (rp_Header m)) = pkt_SSRC (pk i)" "IsRetransmit (rh_SSRC (rp_Header m)) = rtx"
    using even [of i] ssrc_laws [of "pkt_SSRC (pk i)"] by (auto simp: m_def media_rtp_def)
  have hdr: "rh_Version (rp_Header m) = rtp_Version" "rh_Timestamp (rp_Header m) = word_of_int (?T i)"
    "rp_Payload m = pkt_Payload (pk i)"
    by (simp_all add: m_def media_rtp_def rtp_Version_def)
  obtain d2 t where s2: "sourceTicks d1 (?c + of_nat i) (word_of_int (?T i)) = (d2, t)"
    by (cases "sourceTicks d1 (?c + of_nat i) (word_of_int (?T i))")
  have started: "md_started d" using I by (simp add: media_inv_def)
  have "mediaDecoder_decode d (sent_bytes spare pk (i, rtx)) = (d2, Inr (received pk b (i, rtx)))"
    using started st(1) s2 unfolding mediaDecoder_decode_def um received_def prod.case q [symmetric]
    by (simp add: Let_def hdr ssrc w d1_def [symmetric] sourceTime_def)
  moreover have "media_inv pk b (max f i) i d2"
    using st(2-4) s2 I i(1) by (auto simp: media_inv_def d1_def q)
  ultimately show "snd (mediaDecoder_decode d (sent_bytes spare pk (i, rtx))) = Inr (received pk b (i, rtx))"
    "media_inv pk b (max f i) i (fst (mediaDecoder_decode d (sent_bytes spare pk (i, rtx))))" by simp_all
qed

lemma decode_first:
  assumes num: "\<And>i. pkt_Seq (pk i) = isn + of_nat i" and even: "\<And>i. \<not> IsRetransmit (pkt_SSRC (pk i))"
  shows "snd (mediaDecoder_decode mediaDecoder_zero (sent_bytes spare pk (b, rtx))) = Inr (received pk b (b, rtx))"
    "media_inv pk b b b (fst (mediaDecoder_decode mediaDecoder_zero (sent_bytes spare pk (b, rtx))))"
proof -
  define m where "m = media_rtp ((pk b)\<lparr>pkt_Retransmit := rtx\<rparr>)"
  have um: "rtp_Packet_Unmarshal (sent_bytes spare pk (b, rtx)) = Inr m"
    unfolding sent_bytes_rtp m_def by (rule rtp_Packet_Unmarshal_bytes [OF media_rtp_wf])
  have lo: "ucast (ucast (pkt_Seq (pk b)) :: u16) = pkt_Seq (pk b) - seq_offset pk b"
    unfolding seq_offset_def low_half ..
  have ssrc: "NormalizeSSRC (rh_SSRC (rp_Header m)) = pkt_SSRC (pk b)" "IsRetransmit (rh_SSRC (rp_Header m)) = rtx"
    using even [of b] ssrc_laws [of "pkt_SSRC (pk b)"] by (auto simp: m_def media_rtp_def)
  have hdr: "rh_Version (rp_Header m) = rtp_Version" "rh_Timestamp (rp_Header m) = word_of_int (media_ticks (pk b))"
    "rp_Payload m = pkt_Payload (pk b)" "ucast (rh_SequenceNumber (rp_Header m)) = pkt_Seq (pk b) - seq_offset pk b"
    by (simp_all add: m_def media_rtp_def rtp_Version_def lo)
  have t: "media_ticks (pk b) - tick_offset pk b = media_ticks (pk b) mod 2 ^ 32" by (simp add: tick_offset_def)
  have u: "uint (word_of_int (media_ticks (pk b)) :: u32) = media_ticks (pk b) mod 2 ^ 32" by (simp add: uint_word_of_int)
  show "snd (mediaDecoder_decode mediaDecoder_zero (sent_bytes spare pk (b, rtx))) = Inr (received pk b (b, rtx))"
    "media_inv pk b b b (fst (mediaDecoder_decode mediaDecoder_zero (sent_bytes spare pk (b, rtx))))"
    unfolding mediaDecoder_decode_def um received_def
    by (simp_all add: Let_def hdr ssrc sourceTime_def sourceTicks_def mediaDecoder_zero_def media_inv_def tick_inv_def t u num)
qed

lemma decode_run:
  assumes "\<And>i. pkt_Seq (pk i) = isn + of_nat i" "\<And>i. \<not> IsRetransmit (pkt_SSRC (pk i))"
    and "paced (\<lambda>i. media_ticks (pk i))" and "media_inv pk b f l d" "f < 2 ^ 31"
    and "near_front f (map fst arrs)" "list_all (\<lambda>a. fst a < 2 ^ 31) arrs"
  shows "snd (accum mediaDecoder_decode d (map (sent_bytes spare pk) arrs)) = map (\<lambda>a. Inr (received pk b a)) arrs"
  using assms(4-7)
proof (induction arrs arbitrary: d f l)
  case (Cons a arrs)
  obtain i rtx where a: "a = (i, rtx)" by (cases a)
  have i: "\<bar>int i - int f\<bar> < 2 ^ 14" using Cons.prems a by simp
  note st = decode_step [OF assms(1,2,3) Cons.prems(1) i Cons.prems(2), where spare = spare and rtx = rtx]
  have f: "max f i < 2 ^ 31" using Cons.prems a by simp
  show ?case
    using st(1) Cons.IH [OF st(2) f] Cons.prems a by (simp add: Let_def split_beta)
qed simp


definition demo_media :: "nat \<Rightarrow> MediaPacket" where
  "demo_media i = \<lparr>pkt_Seq = 0x1FFFE + of_nat i, pkt_SourceTime = 0xBA6A00000000, pkt_SSRC = 8,
     pkt_Payload = [of_nat i], pkt_Retransmit = False, pkt_PathID = 0, pkt_Frag = FragStandalone,
     pkt_VirtSrcPort = 0, pkt_VirtDstPort = 0, pkt_ShortSeq = False\<rparr>"


end
