(* ===== verification/Gre.thy ===== *)
theory Gre
  imports Codec
begin

text \<open>GRE-over-UDP framing of the Main profile, internal/gre/gre.go and internal/gre/keepalive.go: the base header
  with its optional key and sequence fields, the reduced-overhead and VSF headers, the buffer-negotiation
  body and the keep-alive body with its capability bits.\<close>

unbundle bit_operations_syntax

section \<open>Base header\<close>

datatype gre_err = ErrShortBuffer | ErrNonConformant | ErrUnsupportedVSFProto | ErrBadKeepalive

definition ProtoKeepalive :: u16 where "ProtoKeepalive = 0x88B5"
definition ProtoReduced :: u16 where "ProtoReduced = 0x88B6"
definition ProtoFull :: u16 where "ProtoFull = 0x0800"
definition ProtoEAPOL :: u16 where "ProtoEAPOL = 0x888E"
definition ProtoVSF :: u16 where "ProtoVSF = 0xCCE0"

definition IsReserved :: "u16 \<Rightarrow> bool" where
  "IsReserved protType \<longleftrightarrow> protType \<in> {ProtoReduced, ProtoKeepalive, ProtoEAPOL, ProtoVSF}"

definition VSFTypeRIST :: u16 where "VSFTypeRIST = 0"
definition VSFSubtypeReduced :: u16 where "VSFSubtypeReduced = 0"
definition VSFSubtypeKeepalive :: u16 where "VSFSubtypeKeepalive = 0x8000"
definition VSFSubtypeFutureNonce :: u16 where "VSFSubtypeFutureNonce = 0x8001"
definition VSFSubtypeBufferNegotiation :: u16 where "VSFSubtypeBufferNegotiation = 0x8002"

definition gre_VersionMin :: u8 where "gre_VersionMin = 1"
definition gre_VersionCur :: u8 where "gre_VersionCur = 2"
definition DefaultVirtSrcPort :: u16 where "DefaultVirtSrcPort = 1971"
definition DefaultVirtDstPort :: u16 where "DefaultVirtDstPort = 1968"

definition BaseHeaderSize :: nat where "BaseHeaderSize = 4"
definition nonceSize :: nat where "nonceSize = 4"
definition seqSize :: nat where "seqSize = 4"
definition ReducedHeaderSize :: nat where "ReducedHeaderSize = 4"
definition VSFProtoSize :: nat where "VSFProtoSize = 4"
definition KeepaliveSize :: nat where "KeepaliveSize = 8"
definition AdvExtSize :: nat where "AdvExtSize = 4"

lemmas gre_sizes = BaseHeaderSize_def nonceSize_def seqSize_def ReducedHeaderSize_def VSFProtoSize_def
  KeepaliveSize_def AdvExtSize_def

text \<open>Bit positions of the flag octets.\<close>

definition bitChecksum :: nat where "bitChecksum = 7"
definition bitKey :: nat where "bitKey = 5"
definition bitSeq :: nat where "bitSeq = 4"
definition bitReserved :: nat where "bitReserved = 6"
definition bitH :: nat where "bitH = 6"
definition flags2RVerShift :: nat where "flags2RVerShift = 3"
definition flags2RVerMask :: u8 where "flags2RVerMask = 0x7"
definition flags2LowMask :: u8 where "flags2LowMask = 0x7"

lemmas gre_bits = bitChecksum_def bitKey_def bitSeq_def bitReserved_def bitH_def flags2RVerShift_def
  flags2RVerMask_def flags2LowMask_def

record gre_Header =
  gh_Version :: u8
  gh_HasKey :: bool
  gh_HasSeq :: bool
  gh_KeySize256 :: bool
  gh_Nonce :: bytes
  gh_Seq :: u32
  gh_ProtType :: u16

definition gre_Header_Size :: "gre_Header \<Rightarrow> nat" where
  "gre_Header_Size h = BaseHeaderSize + (if gh_HasKey h then nonceSize else 0) + (if gh_HasSeq h then seqSize else 0)"

text \<open>\<open>flag n b\<close> is the octet with bit \<open>n\<close> set when \<open>b\<close> holds.\<close>

definition flag :: "nat \<Rightarrow> bool \<Rightarrow> u8" where "flag n b = (if b then push_bit n 1 else 0)"

definition gre_Header_AppendTo :: "gre_Header \<Rightarrow> bytes \<Rightarrow> gre_err option \<times> bytes" where
  "gre_Header_AppendTo h dst =
     (if gh_Version h > flags2RVerMask then (Some ErrNonConformant, dst)
      else let flags1 = flag bitSeq (gh_HasSeq h) OR flag bitKey (gh_HasKey h);
               flags2 = push_bit flags2RVerShift (gh_Version h AND flags2RVerMask) OR
                        flag bitH (gh_HasKey h \<and> gh_KeySize256 h)
           in (None, dst @ [flags1, flags2] @ be16_put (gh_ProtType h) @
                     (if gh_HasKey h then gh_Nonce h else []) @ (if gh_HasSeq h then be32_put (gh_Seq h) else [])))"

definition gre_Parse :: "bytes \<Rightarrow> gre_err + nat \<times> gre_Header" where
  "gre_Parse b =
     (if length b < BaseHeaderSize then Inl ErrShortBuffer
      else let flags1 = b ! 0; flags2 = b ! 1 in
      if flags1 AND push_bit bitReserved 1 \<noteq> 0 \<or> flags2 AND flags2LowMask \<noteq> 0 then Inl ErrNonConformant
      else let hasKey = (flags1 AND push_bit bitKey 1 \<noteq> 0);
               hasSeq = (flags1 AND push_bit bitSeq 1 \<noteq> 0);
               hasChecksum = (flags1 AND push_bit bitChecksum 1 \<noteq> 0);
               need = BaseHeaderSize + (if hasChecksum then 4 else 0) + (if hasKey then nonceSize else 0) +
                      (if hasSeq then seqSize else 0) in
      if length b < need then Inl ErrShortBuffer
      else let off = BaseHeaderSize + (if hasChecksum then 4 else 0);
               nonce = (if hasKey then take nonceSize (drop off b) else [0, 0, 0, 0]);
               off = off + (if hasKey then nonceSize else 0);
               sq = (if hasSeq then be32_get b off else 0);
               off = off + (if hasSeq then seqSize else 0)
           in Inr (off, \<lparr>gh_Version = drop_bit flags2RVerShift flags2 AND flags2RVerMask, gh_HasKey = hasKey,
                         gh_HasSeq = hasSeq, gh_KeySize256 = (hasKey \<and> flags2 AND push_bit bitH 1 \<noteq> 0),
                         gh_Nonce = nonce, gh_Seq = sq, gh_ProtType = be16_get b 2\<rparr>))"

text \<open>Headers without junk in absent fields.\<close>

definition gre_wf :: "gre_Header \<Rightarrow> bool" where
  "gre_wf h \<longleftrightarrow> gh_Version h \<le> 7 \<and> length (gh_Nonce h) = 4 \<and>
     (gh_HasKey h \<or> gh_Nonce h = [0, 0, 0, 0] \<and> \<not> gh_KeySize256 h) \<and> (gh_HasSeq h \<or> gh_Seq h = 0)"

lemma gre_flags1:
  "let b = flag 4 s OR flag 5 k in
     (b AND push_bit 4 1 \<noteq> 0) = s \<and> (b AND push_bit 5 1 \<noteq> 0) = k \<and> b AND push_bit 6 1 = 0 \<and> b AND push_bit 7 1 = 0"
  by (cases s; cases k) (simp_all add: flag_def)

lemma small_u8: "(v :: u8) \<le> 7 \<Longrightarrow> v \<in> {0, 1, 2, 3, 4, 5, 6, 7}"
proof -
  assume "v \<le> 7"
  then have "unat v \<le> 7" by (simp add: word_le_nat_alt)
  then have "unat v = 0 \<or> unat v = 1 \<or> unat v = 2 \<or> unat v = 3 \<or> unat v = 4 \<or> unat v = 5 \<or> unat v = 6 \<or> unat v = 7"
    by arith
  then show ?thesis by (auto dest!: word_eq_of_natI)
qed

lemma gre_flags2:
  assumes "v \<le> 7"
  shows "let b = push_bit 3 (v AND 7) OR flag 6 h in
     drop_bit 3 b AND 7 = v \<and> (b AND push_bit 6 1 \<noteq> 0) = h \<and> b AND 7 = 0"
  using small_u8 [OF assms] by (cases h) (auto simp: flag_def)

lemma gre_Header_roundtrip:
  assumes "gre_wf h"
  shows "\<exists>bs. gre_Header_AppendTo h dst = (None, dst @ bs) \<and> length bs = gre_Header_Size h \<and>
    (\<forall>rest. gre_Parse (bs @ rest) = Inr (length bs, h))"
proof -
  define f1 where "f1 = flag 4 (gh_HasSeq h) OR flag 5 (gh_HasKey h)"
  define f2 where "f2 = push_bit 3 (gh_Version h AND 7) OR flag 6 (gh_HasKey h \<and> gh_KeySize256 h)"
  define bs where "bs = [f1, f2] @ be16_put (gh_ProtType h) @ (if gh_HasKey h then gh_Nonce h else []) @
    (if gh_HasSeq h then be32_put (gh_Seq h) else [])"
  have v: "gh_Version h \<le> 7" using assms by (simp add: gre_wf_def)
  note fl = gre_flags1 [of "gh_HasSeq h" "gh_HasKey h", unfolded Let_def, folded f1_def]
    gre_flags2 [OF v, of "gh_HasKey h \<and> gh_KeySize256 h", unfolded Let_def, folded f2_def]
  have "gre_Header_AppendTo h dst = (None, dst @ bs)"
    using v by (simp add: gre_Header_AppendTo_def gre_bits bs_def f1_def f2_def not_less Let_def)
  moreover have "length bs = gre_Header_Size h"
    using assms by (simp add: bs_def gre_Header_Size_def gre_sizes gre_wf_def)
  moreover have "gre_Parse (bs @ rest) = Inr (length bs, h)" for rest
  proof (cases "gh_HasKey h"; cases "gh_HasSeq h")
    assume k: "gh_HasKey h" "gh_HasSeq h"
    then obtain a b c d where n: "gh_Nonce h = [a, b, c, d]"
      using assms by (auto simp: gre_wf_def length_Suc_conv numeral_eq_Suc)
    show ?thesis
      using fl k assms unfolding gre_Parse_def gre_bits gre_sizes bs_def
      by (simp add: Let_def be_reads n gre_wf_def)
  next
    assume k: "gh_HasKey h" "\<not> gh_HasSeq h"
    then obtain a b c d where n: "gh_Nonce h = [a, b, c, d]"
      using assms by (auto simp: gre_wf_def length_Suc_conv numeral_eq_Suc)
    show ?thesis
      using fl k assms unfolding gre_Parse_def gre_bits gre_sizes bs_def
      by (simp add: Let_def be_reads n gre_wf_def)
  next
    assume k: "\<not> gh_HasKey h" "gh_HasSeq h"
    then show ?thesis
      using fl assms unfolding gre_Parse_def gre_bits gre_sizes bs_def
      by (simp add: Let_def be_reads gre_wf_def)
  next
    assume k: "\<not> gh_HasKey h" "\<not> gh_HasSeq h"
    then show ?thesis
      using fl assms unfolding gre_Parse_def gre_bits gre_sizes bs_def
      by (simp add: Let_def be_reads gre_wf_def)
  qed
  ultimately show ?thesis by blast
qed

definition gre_bytes :: "gre_Header \<Rightarrow> bytes" where "gre_bytes h = snd (gre_Header_AppendTo h [])"

lemma gre_AppendTo_bytes: "gre_wf h \<Longrightarrow> gre_Header_AppendTo h dst = (None, dst @ gre_bytes h)"
  using gre_Header_roundtrip [of h "[]"] by (auto simp: gre_bytes_def gre_Header_AppendTo_def Let_def split: if_splits)

lemma length_gre_bytes: "gre_wf h \<Longrightarrow> length (gre_bytes h) = gre_Header_Size h"
  using gre_Header_roundtrip [of h "[]"] by (auto simp: gre_bytes_def)

interpretation gre_hdr: prefix_codec gre_bytes gre_Parse gre_wf
proof
  show "gre_Parse (gre_bytes h @ rest) = Inr (length (gre_bytes h), h)" if "gre_wf h" for h rest
    using gre_Header_roundtrip [OF that, of "[]"] by (auto simp: gre_bytes_def)
qed

section \<open>Reduced-overhead, VSF and buffer-negotiation headers\<close>

record ReducedHeader =
  re_SrcPort :: u16
  re_DstPort :: u16

definition ReducedHeader_AppendTo :: "ReducedHeader \<Rightarrow> bytes \<Rightarrow> bytes" where
  "ReducedHeader_AppendTo r dst = dst @ be16_put (re_SrcPort r) @ be16_put (re_DstPort r)"

definition ParseReduced :: "bytes \<Rightarrow> gre_err + nat \<times> ReducedHeader" where
  "ParseReduced b =
     (if length b < ReducedHeaderSize then Inl ErrShortBuffer
      else Inr (ReducedHeaderSize, \<lparr>re_SrcPort = be16_get b 0, re_DstPort = be16_get b 2\<rparr>))"

interpretation reduced: prefix_codec "\<lambda>r. ReducedHeader_AppendTo r []" ParseReduced "\<lambda>_. True"
  by unfold_locales (simp add: ParseReduced_def ReducedHeader_AppendTo_def gre_sizes be_reads)

record VSFProto =
  vs_Type :: u16
  vs_Subtype :: u16

definition VSFProto_AppendTo :: "VSFProto \<Rightarrow> bytes \<Rightarrow> bytes" where
  "VSFProto_AppendTo v dst = dst @ be16_put (vs_Type v) @ be16_put (vs_Subtype v)"

definition ParseVSFProto :: "bytes \<Rightarrow> gre_err + nat \<times> VSFProto" where
  "ParseVSFProto b =
     (if length b < VSFProtoSize then Inl ErrShortBuffer
      else let v = \<lparr>vs_Type = be16_get b 0, vs_Subtype = be16_get b 2\<rparr>
           in if vs_Type v \<noteq> VSFTypeRIST then Inl ErrUnsupportedVSFProto else Inr (VSFProtoSize, v))"

interpretation vsf: prefix_codec "\<lambda>v. VSFProto_AppendTo v []" ParseVSFProto "\<lambda>v. vs_Type v = VSFTypeRIST"
  by unfold_locales (simp add: ParseVSFProto_def VSFProto_AppendTo_def gre_sizes be_reads Let_def)

definition BufferNegotiationSize :: nat where "BufferNegotiationSize = 6"

record BufferNegotiation =
  bg_SenderMaxMs :: u16
  bg_ReceiverCurMs :: u16
  bg_ProtoType :: u16

definition BufferNegotiation_AppendTo :: "BufferNegotiation \<Rightarrow> bytes \<Rightarrow> bytes" where
  "BufferNegotiation_AppendTo b dst =
     dst @ be16_put (bg_SenderMaxMs b) @ be16_put (bg_ReceiverCurMs b) @ be16_put (bg_ProtoType b)"

definition ParseBufferNegotiation :: "bytes \<Rightarrow> gre_err + BufferNegotiation" where
  "ParseBufferNegotiation b =
     (if length b < BufferNegotiationSize then Inl ErrShortBuffer
      else Inr \<lparr>bg_SenderMaxMs = be16_get b 0, bg_ReceiverCurMs = be16_get b 2, bg_ProtoType = be16_get b 4\<rparr>)"

lemma BufferNegotiation_roundtrip:
  "ParseBufferNegotiation (BufferNegotiation_AppendTo b [] @ rest) = Inr b"
  by (simp add: ParseBufferNegotiation_def BufferNegotiation_AppendTo_def BufferNegotiationSize_def be_reads)

section \<open>Keep-alive\<close>

record Capabilities =
  cp_N :: bool
  cp_L :: bool
  cp_E :: bool
  cp_P :: bool
  cp_A :: bool
  cp_B :: bool
  cp_R :: bool
  cp_X :: bool
  cp_F :: bool
  cp_J :: bool
  cp_V :: bool
  cp_T :: bool
  cp_D :: bool

definition StandardCapabilities :: Capabilities where
  "StandardCapabilities = \<lparr>cp_N = True, cp_L = False, cp_E = True, cp_P = False, cp_A = False, cp_B = True, cp_R = False,
     cp_X = False, cp_F = False, cp_J = False, cp_V = True, cp_T = False, cp_D = False\<rparr>"

definition Capabilities_encode :: "Capabilities \<Rightarrow> u8 \<times> u8" where
  "Capabilities_encode c =
     (flag 0 (cp_N c) OR flag 1 (cp_L c) OR flag 2 (cp_E c) OR flag 3 (cp_P c) OR flag 4 (cp_A c) OR flag 5 (cp_B c) OR
        flag 6 (cp_R c) OR flag 7 (cp_X c),
      flag 3 (cp_F c) OR flag 4 (cp_J c) OR flag 5 (cp_V c) OR flag 6 (cp_T c) OR flag 7 (cp_D c))"

definition bit_of :: "u8 \<Rightarrow> nat \<Rightarrow> bool" where "bit_of b pos \<longleftrightarrow> b AND push_bit pos 1 \<noteq> 0"

definition decodeCapabilities :: "u8 \<Rightarrow> u8 \<Rightarrow> Capabilities" where
  "decodeCapabilities c1 c2 =
     \<lparr>cp_N = bit_of c1 0, cp_L = bit_of c1 1, cp_E = bit_of c1 2, cp_P = bit_of c1 3, cp_A = bit_of c1 4,
      cp_B = bit_of c1 5, cp_R = bit_of c1 6, cp_X = bit_of c1 7, cp_F = bit_of c2 3, cp_J = bit_of c2 4,
      cp_V = bit_of c2 5, cp_T = bit_of c2 6, cp_D = bit_of c2 7\<rparr>"

record AdvExtCaps =
  ax_I :: bool
  ax_G :: bool
  ax_C :: bool

definition AdvExtCaps_encode :: "AdvExtCaps \<Rightarrow> u8" where
  "AdvExtCaps_encode a = flag 7 (ax_I a) OR flag 6 (ax_G a) OR flag 5 (ax_C a)"

record gre_Keepalive =
  ka_MAC :: bytes
  ka_Caps :: Capabilities
  ka_HasAdvExt :: bool
  ka_AdvExt :: AdvExtCaps
  ka_JSON :: bytes

definition no_adv :: AdvExtCaps where "no_adv = \<lparr>ax_I = False, ax_G = False, ax_C = False\<rparr>"

definition gre_Keepalive_Size :: "gre_Keepalive \<Rightarrow> nat" where
  "gre_Keepalive_Size k = KeepaliveSize + (if ka_HasAdvExt k then AdvExtSize else 0) + length (ka_JSON k)"

definition gre_Keepalive_AppendTo :: "gre_Keepalive \<Rightarrow> bytes \<Rightarrow> bytes" where
  "gre_Keepalive_AppendTo k dst =
     (let (c1, c2) = Capabilities_encode (ka_Caps k)
      in dst @ ka_MAC k @ [c1, c2] @ (if ka_HasAdvExt k then [AdvExtCaps_encode (ka_AdvExt k), 0, 0, 0] else []) @ ka_JSON k)"

definition gre_ParseKeepalive :: "bytes \<Rightarrow> gre_err + gre_Keepalive" where
  "gre_ParseKeepalive b =
     (if length b < KeepaliveSize then Inl ErrBadKeepalive
      else let rest = drop KeepaliveSize b; ext = (length rest \<ge> AdvExtSize)
           in Inr \<lparr>ka_MAC = take 6 b, ka_Caps = decodeCapabilities (b ! 6) (b ! 7), ka_HasAdvExt = ext,
                ka_AdvExt = (if ext then \<lparr>ax_I = bit_of (rest ! 0) 7, ax_G = bit_of (rest ! 0) 6, ax_C = bit_of (rest ! 0) 5\<rparr>
                             else no_adv),
                ka_JSON = (if ext then drop AdvExtSize rest else rest)\<rparr>)"

lemma bit_of_iff: "n < 8 \<Longrightarrow> bit_of b n = bit b n"
  using and_bit_zero_iff [of b n] by (simp add: bit_of_def push_bit_of_1)

lemma bit_flag: "bit (flag n v) k \<longleftrightarrow> v \<and> k = n \<and> n < 8"
  by (auto simp: flag_def bit_simps)

lemma Capabilities_roundtrip: "decodeCapabilities (fst (Capabilities_encode c)) (snd (Capabilities_encode c)) = c"
  by (simp add: decodeCapabilities_def Capabilities_encode_def bit_of_iff bit_flag bit_simps)

lemma AdvExtCaps_bits:
  "bit_of (AdvExtCaps_encode a) 7 = ax_I a" "bit_of (AdvExtCaps_encode a) 6 = ax_G a" "bit_of (AdvExtCaps_encode a) 5 = ax_C a"
  by (simp_all add: AdvExtCaps_encode_def bit_of_iff bit_flag bit_simps)

text \<open>The keep-alives that read back: the documented ambiguity rules out four or more JSON bytes without the
  extended block.\<close>

definition keepalive_wf :: "gre_Keepalive \<Rightarrow> bool" where
  "keepalive_wf k \<longleftrightarrow> length (ka_MAC k) = 6 \<and> (ka_HasAdvExt k \<or> length (ka_JSON k) < 4 \<and> ka_AdvExt k = no_adv)"

lemma keepalive_roundtrip:
  assumes "keepalive_wf k"
  shows "gre_ParseKeepalive (gre_Keepalive_AppendTo k []) = Inr k" "length (gre_Keepalive_AppendTo k []) = gre_Keepalive_Size k"
proof -
  obtain m0 m1 m2 m3 m4 m5 where m: "ka_MAC k = [m0, m1, m2, m3, m4, m5]"
    using assms by (auto simp: keepalive_wf_def length_Suc_conv numeral_eq_Suc)
  obtain c1 c2 where c: "Capabilities_encode (ka_Caps k) = (c1, c2)" by (cases "Capabilities_encode (ka_Caps k)")
  have d: "decodeCapabilities c1 c2 = ka_Caps k" using Capabilities_roundtrip [of "ka_Caps k"] c by simp
  show "length (gre_Keepalive_AppendTo k []) = gre_Keepalive_Size k"
    by (simp add: gre_Keepalive_AppendTo_def gre_Keepalive_Size_def c m gre_sizes)
  show "gre_ParseKeepalive (gre_Keepalive_AppendTo k []) = Inr k"
  proof (cases "ka_HasAdvExt k")
    case True
    then show ?thesis
      using assms by (simp add: gre_ParseKeepalive_def gre_Keepalive_AppendTo_def c m gre_sizes d AdvExtCaps_bits Let_def)
  next
    case False
    then show ?thesis
      using assms by (simp add: gre_ParseKeepalive_def gre_Keepalive_AppendTo_def c m gre_sizes d Let_def keepalive_wf_def)
  qed
qed

text \<open>C36: a tunnelled datagram survives the GRE header.  For a header with the version in range and no junk in its
  absent fields, encoding appends exactly its declared size, and parsing the header followed by any payload returns the
  same header (key bit, nonce, key size, sequence number, protocol type) and the offset at which the payload begins.\<close>

theorem gre_tunnel_roundtrip:
  assumes "gre_wf h"
  shows "\<exists>b. gre_Header_AppendTo h dst = (None, dst @ b) \<and> length b = gre_Header_Size h \<and>
    (\<exists>off. gre_Parse (b @ payload) = Inr (off, h) \<and> drop off (b @ payload) = payload)"
  using gre_AppendTo_bytes [OF assms, of dst] length_gre_bytes [OF assms] gre_hdr.dec_enc [OF assms, of payload] by auto

theorem gre_tunnel_roundtrip_witness:
  "\<exists>b. gre_Header_AppendTo \<lparr>gh_Version = 2, gh_HasKey = True, gh_HasSeq = True, gh_KeySize256 = True,
       gh_Nonce = [1, 2, 3, 4], gh_Seq = 77, gh_ProtType = ProtoVSF\<rparr> [9] = (None, [9] @ b) \<and> length b = 12"
proof -
  let ?h = "\<lparr>gh_Version = 2, gh_HasKey = True, gh_HasSeq = True, gh_KeySize256 = True, gh_Nonce = [1, 2, 3, 4], gh_Seq = 77,
    gh_ProtType = ProtoVSF\<rparr>"
  have "gre_wf ?h" "gre_Header_Size ?h = 12" by (simp_all add: gre_wf_def gre_Header_Size_def gre_sizes)
  then show ?thesis using gre_tunnel_roundtrip [of ?h "[9]" "[]"] by auto
qed

end
