(* ===== verification/Npd.thy ===== *)
theory Npd
  imports Codec
begin

text \<open>Null-packet deletion, internal/npd/npd.go: the RTP header extension that signals it, the removal of MPEG-TS
  null packets at the sender and their reinsertion at the receiver.\<close>

unbundle bit_operations_syntax

section \<open>The header extension\<close>

datatype npd_err = ErrShortExt | ErrBadIdentifier | ErrBadLength | ErrPayloadSize | ErrTooManyPackets | ErrSyncByte | ErrTruncated

definition npd_Identifier :: u16 where "npd_Identifier = 0x5249"
definition npd_Length :: u16 where "npd_Length = 1"
definition npd_ExtSize :: nat where "npd_ExtSize = 8"
definition FlagNPD :: u8 where "FlagNPD = push_bit 7 1"
definition NPDSize204 :: u8 where "NPDSize204 = push_bit 7 1"
definition NullBitmapMask :: u8 where "NullBitmapMask = 0x7F"
definition MaxPackets :: nat where "MaxPackets = 7"
definition SizeTS188 :: nat where "SizeTS188 = 188"
definition SizeTS204 :: nat where "SizeTS204 = 204"
definition npd_SyncByte :: u8 where "npd_SyncByte = 0x47"
definition NullPID :: u16 where "NullPID = 0x1FFF"
definition tsHeaderSize :: nat where "tsHeaderSize = 4"
definition flags2Bit4 :: u8 where "flags2Bit4 = push_bit 4 1"

record npd_Ext =
  ne_NPD :: bool
  ne_Size204 :: bool
  ne_NullBitmap :: u8
  ne_SeqExt :: u16

definition npd_Ext_AppendTo :: "npd_Ext \<Rightarrow> bytes \<Rightarrow> bytes" where
  "npd_Ext_AppendTo e dst =
     (let flags = (if ne_NPD e then FlagNPD else 0);
          npdBits = (ne_NullBitmap e AND NullBitmapMask) OR (if ne_Size204 e then NPDSize204 else 0)
      in dst @ be16_put npd_Identifier @ be16_put npd_Length @ [flags, npdBits] @ be16_put (ne_SeqExt e))"

definition npd_ParseExt :: "bytes \<Rightarrow> npd_err + nat \<times> npd_Ext" where
  "npd_ParseExt b =
     (if length b < npd_ExtSize then Inl ErrShortExt
      else if be16_get b 0 \<noteq> npd_Identifier then Inl ErrBadIdentifier
      else if be16_get b 2 \<noteq> npd_Length then Inl ErrBadLength
      else let flags = b ! 4; npdBits = b ! 5
           in Inr (npd_ExtSize, \<lparr>ne_NPD = (flags AND FlagNPD \<noteq> 0), ne_Size204 = (npdBits AND NPDSize204 \<noteq> 0),
                ne_NullBitmap = npdBits AND NullBitmapMask, ne_SeqExt = be16_get b 6\<rparr>))"

definition NPDBits :: "bool \<Rightarrow> u8 \<Rightarrow> u8" where
  "NPDBits size204 bitmap = (bitmap AND NullBitmapMask) OR (if size204 then NPDSize204 else 0)"

definition npd_ext_wf :: "npd_Ext \<Rightarrow> bool" where "npd_ext_wf e \<longleftrightarrow> ne_NullBitmap e \<le> 0x7F"

lemma bit7_test: "(x AND push_bit 7 1 \<noteq> 0) = bit (x :: u8) 7"
  using and_bit_zero_iff [of x 7] by (simp add: push_bit_of_1)

lemma npd_bits_fields:
  assumes "fits 7 m"
  shows "((m AND mask 7) OR (if s then push_bit 7 1 else 0)) AND mask 7 = (m :: u8)"
    "bit ((m AND mask 7) OR (if s then push_bit 7 1 else 0)) 7 = s"
  by (rule u8_eqI; use fits_bit [OF assms] in \<open>auto simp: bit_simps\<close>) (auto simp: bit_simps)

interpretation npd_ext: prefix_codec "\<lambda>e. npd_Ext_AppendTo e []" npd_ParseExt npd_ext_wf
proof
  fix e rest assume "npd_ext_wf e"
  then have f: "fits 7 (ne_NullBitmap e)" by (simp add: npd_ext_wf_def fits_def word_le_nat_alt)
  define b where "b = (ne_NullBitmap e AND NullBitmapMask) OR (if ne_Size204 e then NPDSize204 else 0)"
  have b: "b AND NullBitmapMask = ne_NullBitmap e" "(b AND NPDSize204 \<noteq> 0) = ne_Size204 e"
    using npd_bits_fields [OF f, of "ne_Size204 e"] unfolding b_def NullBitmapMask_def NPDSize204_def bit7_test u8_masks
    by simp_all
  have n: "((if ne_NPD e then FlagNPD else 0) AND FlagNPD \<noteq> 0) = ne_NPD e" by (simp add: FlagNPD_def)
  have "npd_Ext_AppendTo e [] = be16_put npd_Identifier @ be16_put npd_Length @ [if ne_NPD e then FlagNPD else 0, b] @
      be16_put (ne_SeqExt e)"
    by (simp add: npd_Ext_AppendTo_def b_def Let_def)
  then show "npd_ParseExt (npd_Ext_AppendTo e [] @ rest) = Inr (length (npd_Ext_AppendTo e []), e)"
    using b n by (simp add: npd_ParseExt_def npd_ExtSize_def be_reads byte_get_drop Let_def)
qed

section \<open>Suppression\<close>

definition packetSize :: "u8 \<Rightarrow> nat" where
  "packetSize npdBits = (if npdBits AND NPDSize204 \<noteq> 0 then SizeTS204 else SizeTS188)"

text \<open>The first pass: sync bytes and the bitmap of null packets.\<close>

fun npd_scan :: "nat \<Rightarrow> bytes \<Rightarrow> nat list \<Rightarrow> u8 \<times> nat \<Rightarrow> npd_err + u8 \<times> nat" where
  "npd_scan sz b [] acc = Inr acc"
| "npd_scan sz b (i # is) (npdBits, suppressed) =
     (let off = i * sz in
      if b ! off \<noteq> npd_SyncByte then Inl ErrSyncByte
      else if be16_get b (off + 1) = NullPID
           then npd_scan sz b is (npdBits OR push_bit (6 - i) 1, suppressed + 1)
           else npd_scan sz b is (npdBits, suppressed))"

definition ts_packet :: "nat \<Rightarrow> bytes \<Rightarrow> nat \<Rightarrow> bytes" where
  "ts_packet sz b i = take sz (drop (i * sz) b)"

definition Suppress :: "bytes \<Rightarrow> bytes \<Rightarrow> npd_err + bytes \<times> u8 \<times> nat" where
  "Suppress dst b =
     (let sel = (if length b mod SizeTS188 = 0 then Some (SizeTS188, 0)
                 else if length b mod SizeTS204 = 0 then Some (SizeTS204, NPDSize204) else None)
      in case sel of None \<Rightarrow> Inl ErrPayloadSize
         | Some (sz, npdBits) \<Rightarrow>
             let count = length b div sz in
             if count > MaxPackets then Inl ErrTooManyPackets
             else case npd_scan sz b [0..<count] (npdBits, 0) of
                    Inl e \<Rightarrow> Inl e
                  | Inr (npdBits, suppressed) \<Rightarrow>
                      if suppressed = 0 then Inr (dst @ b, npdBits, 0)
                      else Inr (dst @ concat (map (ts_packet sz b) (filter (\<lambda>i. npdBits AND push_bit (6 - i) 1 = 0) [0..<count])),
                                npdBits, suppressed * sz))"

section \<open>Expansion\<close>

function bits_loop :: "u8 \<Rightarrow> nat \<Rightarrow> nat" where
  "bits_loop b n = (if b \<noteq> 0 then bits_loop (b AND (b - 1)) (n + 1) else n)"
  by pat_completeness auto

termination
proof (relation "measure (\<lambda>(b, n). unat b)")
  show "((b AND (b - 1), n + 1), (b, n)) \<in> measure (\<lambda>(b, n). unat b)" if "b \<noteq> 0" for b :: u8 and n :: nat
  proof -
    have "b AND (b - 1) \<le> b - 1" by (rule word_and_le1)
    also have "b - 1 < b" using that by (simp add: word_less_nat_alt unat_minus_one unat_gt_0)
    finally show ?thesis by (simp add: word_less_nat_alt)
  qed
qed simp

declare bits_loop.simps [simp del]

definition bitsSet :: "u8 \<Rightarrow> nat" where "bitsSet b = bits_loop (b AND NullBitmapMask) 0"

definition nullPacket :: "nat \<Rightarrow> bytes" where
  "nullPacket sz = [npd_SyncByte, 0x1F, 0xFF, flags2Bit4] @ replicate (sz - tsHeaderSize) 0xFF"

definition appendNullPacket :: "bytes \<Rightarrow> nat \<Rightarrow> bytes" where
  "appendNullPacket dst sz = dst @ nullPacket sz"

fun expand_loop :: "nat \<Rightarrow> u8 \<Rightarrow> bytes \<Rightarrow> nat list \<Rightarrow> nat \<Rightarrow> bytes \<Rightarrow> npd_err + bytes" where
  "expand_loop sz bitmap b [] inOff out = Inr out"
| "expand_loop sz bitmap b (i # is) inOff out =
     (if bitmap AND push_bit (6 - i) 1 = 0
      then if inOff + sz > length b then Inl ErrTruncated
           else expand_loop sz bitmap b is (inOff + sz) (out @ take sz (drop inOff b))
      else expand_loop sz bitmap b is inOff (appendNullPacket out sz))"

definition Expand :: "bytes \<Rightarrow> bytes \<Rightarrow> u8 \<Rightarrow> npd_err + bytes" where
  "Expand dst b npdBits =
     (let sz = packetSize npdBits; tsCount = length b div sz; bitmap = npdBits AND NullBitmapMask;
          nullCount = bitsSet bitmap
      in if nullCount = 0 then Inr (dst @ b)
         else let total = tsCount + nullCount
              in if total > MaxPackets then Inl ErrTooManyPackets else expand_loop sz bitmap b [0..<total] 0 dst)"

section \<open>Round trip\<close>

definition is_null :: "nat \<Rightarrow> bytes \<Rightarrow> nat \<Rightarrow> bool" where
  "is_null sz b i \<longleftrightarrow> be16_get b (i * sz + 1) = NullPID"

text \<open>The payload with every null packet in the receiver's canonical form.\<close>

definition canonical :: "nat \<Rightarrow> bytes \<Rightarrow> bytes" where
  "canonical sz b =
     concat (map (\<lambda>i. if is_null sz b i then nullPacket sz else ts_packet sz b i) [0..<length b div sz])"

lemma bit_204: "bit NPDSize204 k \<longleftrightarrow> k = 7"
  by (simp only: NPDSize204_def bit_push_bit_iff bit_1_iff possible_bit_word) auto

lemma bit_test: "n < 8 \<Longrightarrow> (x AND push_bit n 1 = 0) = (\<not> bit (x :: u8) n)"
  using and_bit_zero_iff [of x n] by (simp add: push_bit_of_1)

lemma npd_scan_bits:
  assumes "npd_scan sz b is (bits, n) = Inr (bits', n')" "\<forall>i\<in>set is. i < 7"
  shows "n' = n + length (filter (is_null sz b) is)"
    "k < 8 \<Longrightarrow> bit bits' k \<longleftrightarrow> bit bits k \<or> (\<exists>i\<in>set is. is_null sz b i \<and> k = 6 - i)"
proof -
  have "n' = n + length (filter (is_null sz b) is) \<and>
    (\<forall>k<8. bit bits' k \<longleftrightarrow> bit bits k \<or> (\<exists>i\<in>set is. is_null sz b i \<and> k = 6 - i))"
    using assms
  proof (induction "is" arbitrary: bits n)
    case (Cons i "is")
    show ?case
    proof (cases "is_null sz b i")
      case True
      then have "npd_scan sz b is (bits OR push_bit (6 - i) 1, n + 1) = Inr (bits', n')"
        using Cons.prems by (auto simp: Let_def is_null_def split: if_splits)
      note IH = Cons.IH [OF this] 
      then show ?thesis using True Cons.prems(2) by (auto simp: bit_simps)
    next
      case False
      then have "npd_scan sz b is (bits, n) = Inr (bits', n')"
        using Cons.prems by (auto simp: Let_def is_null_def split: if_splits)
      note IH = Cons.IH [OF this]
      then show ?thesis using False Cons.prems(2) by auto
    qed
  qed simp
  then show "n' = n + length (filter (is_null sz b) is)"
    "k < 8 \<Longrightarrow> bit bits' k \<longleftrightarrow> bit bits k \<or> (\<exists>i\<in>set is. is_null sz b i \<and> k = 6 - i)" by auto
qed

lemma bitsSet_count: "bitsSet b = length (filter (bit b) [0..<7])"
proof -
  have "list_all (\<lambda>n. bitsSet (of_nat n) = length (filter (bit (of_nat n :: u8)) [0..<7])) [0..<256]"
    by code_simp
  moreover have "unat b \<in> set [0..<256]" using unat_lt_u8 [of b] by simp
  ultimately have "bitsSet (of_nat (unat b)) = length (filter (bit (of_nat (unat b) :: u8)) [0..<7])"
    by (simp only: list_all_iff)
  then show ?thesis by simp
qed

lemma bitsSet_null:
  assumes "count \<le> 7" and "\<And>k. k < 7 \<Longrightarrow> bit b k \<longleftrightarrow> 6 - k < count \<and> P (6 - k)"
  shows "bitsSet b = length (filter P [0..<count])"
proof -
  have "filter (bit b) [0..<7] = filter (\<lambda>k. 6 - k < count \<and> P (6 - k)) [0..<7]"
    using assms(2) by (intro filter_cong) auto
  also have "\<dots> = rev (map (\<lambda>i. 6 - i) (filter (\<lambda>i. i < count \<and> P i) [0..<7]))"
    by (simp add: upt_rec numeral_eq_Suc)
  finally have "bitsSet b = length (filter (\<lambda>i. i < count \<and> P i) [0..<7])" by (simp add: bitsSet_count)
  moreover have "[0..<7] = [0..<count] @ [count..<7]" using assms(1) upt_add_eq_append [of 0 count "7 - count"] by simp
  moreover have "filter (\<lambda>i. i < count \<and> P i) [count..<7] = []" by (simp add: filter_empty_conv)
  moreover have "filter (\<lambda>i. i < count \<and> P i) [0..<count] = filter P [0..<count]" by (intro filter_cong) auto
  ultimately show ?thesis by simp
qed

lemma length_ts_packet: "(i + 1) * sz \<le> length b \<Longrightarrow> length (ts_packet sz b i) = sz"
  by (simp add: ts_packet_def)

text \<open>Expansion walks over the kept packets.\<close>

lemma expand_loop_kept:
  assumes "\<And>i. i \<in> set is \<Longrightarrow> i < 7" "\<And>i. i \<in> set is \<Longrightarrow> bit bitmap (6 - i) = P i"
    and "\<And>i. i \<in> set is \<Longrightarrow> length (f i) = sz"
    and "drop off b = concat (map f (filter (\<lambda>i. \<not> P i) is))" "off \<le> length b"
  shows "expand_loop sz bitmap b is off out =
    Inr (out @ concat (map (\<lambda>i. if P i then nullPacket sz else f i) is))"
  using assms
proof (induction "is" arbitrary: off out)
  case (Cons i "is")
  have t: "(bitmap AND push_bit (6 - i) 1 = 0) = (\<not> P i)"
    using Cons.prems(1,2) bit_test [of "6 - i" bitmap] by simp
  show ?case
  proof (cases "P i")
    case True
    then show ?thesis using t Cons.IH [of off] Cons.prems by (simp add: appendNullPacket_def)
  next
    case False
    have d: "drop off b = f i @ concat (map f (filter (\<lambda>i. \<not> P i) is))" using Cons.prems(4) False by simp
    have l: "length (f i) = sz" using Cons.prems(3) by simp
    have "length (drop off b) \<ge> sz" unfolding d using l by simp
    then have len: "off + sz \<le> length b" using Cons.prems(5) by simp
    have "drop (off + sz) b = concat (map f (filter (\<lambda>i. \<not> P i) is))"
      using d l by (metis add.commute append_eq_conv_conj drop_drop)
    moreover have "take sz (drop off b) = f i" using d l by simp
    ultimately show ?thesis using t False len Cons.IH [of "off + sz"] Cons.prems by simp
  qed
qed simp

lemma concat_packets:
  assumes "k * sz \<le> length b"
  shows "concat (map (ts_packet sz b) [0..<k]) = take (k * sz) b"
  using assms
proof (induction k)
  case (Suc k)
  have "Suc k * sz = k * sz + sz" by simp
  then show ?case using Suc by (simp only: upt_Suc_append le0 map_append concat_append list.map concat.simps append_Nil2
        take_add ts_packet_def)
qed simp

definition npd_size :: "bytes \<Rightarrow> nat" where
  "npd_size b = (if length b mod SizeTS188 = 0 then SizeTS188 else SizeTS204)"

text \<open>C35: Null-packet deletion is transparent.  Whenever the sender's suppression accepts a payload, the receiver's
  expansion of the kept packets with the transmitted bitmap succeeds and rebuilds the payload packet by
  packet, every media packet unchanged and every null packet in its canonical form; the deleted bytes are
  exactly the null packets.\<close>

theorem npd_transparent:
  assumes "Suppress dst b = Inr (out, npdBits, suppressed)"
  shows "\<exists>kept. out = dst @ kept \<and> length kept + suppressed = length b \<and>
    Expand dst2 kept npdBits = Inr (dst2 @ canonical (npd_size b) b) \<and>
    suppressed = npd_size b * length (filter (is_null (npd_size b) b) [0..<length b div npd_size b])"
proof -
  define sz where "sz = npd_size b"
  define count where "count = length b div sz"
  define bits0 where "bits0 = (if sz = SizeTS188 then 0 else NPDSize204)"
  have sel: "(if length b mod SizeTS188 = 0 then Some (SizeTS188, 0)
      else if length b mod SizeTS204 = 0 then Some (SizeTS204, NPDSize204) else None) = Some (sz, bits0)"
    and whole: "length b mod sz = 0"
    using assms by (auto simp: Suppress_def sz_def bits0_def npd_size_def SizeTS188_def SizeTS204_def split: if_splits)
  have pos: "0 < sz" by (simp add: sz_def npd_size_def SizeTS188_def SizeTS204_def)
  have c7: "count \<le> 7" using assms sel by (auto simp: Suppress_def count_def MaxPackets_def Let_def split: if_splits)
  obtain n where scan: "npd_scan sz b [0..<count] (bits0, 0) = Inr (npdBits, n)"
    using assms sel by (auto simp: Suppress_def count_def Let_def split: if_splits sum.splits)
  have res: "out = (if n = 0 then dst @ b
      else dst @ concat (map (ts_packet sz b) (filter (\<lambda>i. npdBits AND push_bit (6 - i) 1 = 0) [0..<count])))"
    "suppressed = n * sz"
    using assms sel scan unfolding count_def by (auto simp: Suppress_def Let_def split: if_splits)
  note sb = npd_scan_bits [OF scan]
  let ?P = "is_null sz b"
  have n: "n = length (filter ?P [0..<count])" using sb(1) c7 by simp
  have b0: "\<not> bit bits0 k" if "k < 7" for k using that by (auto simp: bits0_def bit_204)
  have bits: "bit npdBits k \<longleftrightarrow> 6 - k < count \<and> ?P (6 - k)" if "k < 7" for k
  proof -
    have "bit npdBits k \<longleftrightarrow> (\<exists>i<count. ?P i \<and> k = 6 - i)" using sb(2) [of k] c7 that b0 by auto
    moreover have "k = 6 - i \<longleftrightarrow> i = 6 - k" if "i < count" for i using c7 that \<open>k < 7\<close> by auto
    ultimately show ?thesis by auto
  qed
  have b7: "bit npdBits 7 \<longleftrightarrow> sz = SizeTS204"
  proof -
    have "bit npdBits 7 = bit bits0 7" using sb(2) [of 7] c7 by auto
    then show ?thesis by (auto simp: bits0_def bit_204 sz_def npd_size_def SizeTS188_def SizeTS204_def)
  qed
  have size: "packetSize npdBits = sz"
    using b7 bit7_test [of npdBits]
    by (auto simp: packetSize_def NPDSize204_def sz_def npd_size_def SizeTS188_def SizeTS204_def)
  define bitmap where "bitmap = npdBits AND NullBitmapMask"
  have bm: "bit bitmap k \<longleftrightarrow> 6 - k < count \<and> ?P (6 - k)" if "k < 7" for k
    using bits [OF that] that by (simp add: bitmap_def NullBitmapMask_def u8_masks bit_simps)
  have nulls: "bitsSet bitmap = n" using bitsSet_null [OF c7 bm] n by simp
  define kept where "kept = concat (map (ts_packet sz b) (filter (\<lambda>i. \<not> ?P i) [0..<count]))"
  have len: "length b = count * sz" unfolding count_def using whole div_mult_mod_eq [of "length b" sz] by simp
  have lp: "length (ts_packet sz b i) = sz" if "i < count" for i
    using that len by (intro length_ts_packet) (metis Suc_eq_plus1 Suc_leI mult_le_mono1)
  have keptlen: "length kept = length (filter (\<lambda>i. \<not> ?P i) [0..<count]) * sz"
    using lp by (simp add: kept_def length_concat o_def) (subst map_cong [OF refl, of _ _ "\<lambda>_. sz"]; simp add: sum_list_triv)
  have split: "length (filter (\<lambda>i. \<not> ?P i) [0..<count]) + n = count"
    using sum_length_filter_compl [of ?P "[0..<count]"] n by simp
  have kb: "kept = b" if "n = 0"
  proof -
    have "filter ?P [0..<count] = []" using n that by simp
    then have "filter (\<lambda>i. \<not> ?P i) [0..<count] = [0..<count]" by (auto simp: filter_empty_conv filter_id_conv)
    then show ?thesis using concat_packets [of count sz b] len by (simp add: kept_def)
  qed
  have "filter (\<lambda>i. npdBits AND push_bit (6 - i) 1 = 0) [0..<count] = filter (\<lambda>i. \<not> ?P i) [0..<count]"
    using bits bit_test c7 by (intro filter_cong) auto
  then have out: "out = dst @ kept" using res(1) kb by (auto simp: kept_def)
  moreover have "length kept + suppressed = length b"
    unfolding keptlen res(2) len using split by (metis add_mult_distrib)
  moreover have "Expand dst2 kept npdBits = Inr (dst2 @ canonical sz b)"
  proof (cases "n = 0")
    case True
    then have none: "\<not> ?P i" if "i < count" for i using n that by (auto simp: filter_empty_conv)
    have "canonical sz b = concat (map (ts_packet sz b) [0..<count])"
      unfolding canonical_def count_def [symmetric] using none by (intro arg_cong [where f = concat] map_cong) auto
    then have "canonical sz b = b" using concat_packets [of count sz b] len by simp
    then show ?thesis using True nulls kb by (simp add: Expand_def Let_def bitmap_def)
  next
    case False
    have "length kept div sz + n = count" using split pos by (simp add: keptlen)
    moreover have "expand_loop sz bitmap kept [0..<count] 0 dst2 =
        Inr (dst2 @ concat (map (\<lambda>i. if ?P i then nullPacket sz else ts_packet sz b i) [0..<count]))"
      using bm lp c7 by (intro expand_loop_kept) (auto simp: kept_def)
    ultimately show ?thesis
      using False nulls c7 by (simp add: Expand_def Let_def size bitmap_def [symmetric] MaxPackets_def canonical_def count_def [symmetric])
  qed
  ultimately show ?thesis using res(2) n unfolding sz_def count_def by auto
qed

definition demo_ts :: "u8 \<Rightarrow> bytes" where
  "demo_ts pid = [0x47, 0x1F, pid, 0x10] @ replicate 184 0xAA"

theorem npd_transparent_witness:
  "Expand [] (demo_ts 1) 0x20 = Inr (demo_ts 1 @ nullPacket 188)"
proof -
  have "Suppress [] (demo_ts 1 @ demo_ts 0xFF) = Inr (demo_ts 1, 0x20, 188)" by code_simp
  moreover have "npd_size (demo_ts 1 @ demo_ts 0xFF) = 188" by code_simp
  moreover have "canonical 188 (demo_ts 1 @ demo_ts 0xFF) = demo_ts 1 @ nullPacket 188" by code_simp
  ultimately show ?thesis using npd_transparent [of "[]" "demo_ts 1 @ demo_ts 0xFF" "demo_ts 1" "0x20" 188 "[]"] by auto
qed

end
