(* ===== verification/Adv.thy ===== *)
theory Adv
  imports Codec
begin

text \<open>The Advanced-profile packet of internal/adv/adv.go: an RTP header, the profile-defined extension and the
  optional flow id, key, compression, format and extension fields.  A slice that may be nil is an \<open>option\<close>, and
  so is a field of Parsed that its Has flag guards.  Parse reads at an offset into the buffer; the model reads at the
  front of what is left.\<close>

unbundle bit_operations_syntax

section \<open>Constants\<close>

datatype adv_err = AdvShortBuffer | AdvInvalidVersion | AdvInvalidPayloadType | AdvFieldRange

definition adv_PayloadType :: u8 where "adv_PayloadType = 127"
definition rtpFlags :: u8 where "rtpFlags = 0x80"
definition dynamicPTMin :: u8 where "dynamicPTMin = 96"

definition FlagF :: u8 where "FlagF = 0x80"
definition FlagL :: u8 where "FlagL = 0x40"
definition FlagE :: u8 where "FlagE = 0x20"
definition FlagR :: u8 where "FlagR = 0x10"
definition FlagI :: u8 where "FlagI = 0x08"
definition FlagP :: u8 where "FlagP = 0x04"
definition FlagH :: u8 where "FlagH = 0x02"
definition flagPSK2 :: u8 where "flagPSK2 = 0x01"

definition psk10Shift :: nat where "psk10Shift = 6"
definition psk10Mask :: u8 where "psk10Mask = 0xC0"
definition lpcShift :: nat where "lpcShift = 4"
definition lpcMask :: u8 where "lpcMask = 0x30"
definition typeMask :: u8 where "typeMask = 0x0F"

definition TypeReserved :: u8 where "TypeReserved = 0"
definition TypeIPv4 :: u8 where "TypeIPv4 = 1"
definition TypeIPv6 :: u8 where "TypeIPv6 = 2"
definition TypeReducedUDP :: u8 where "TypeReducedUDP = 3"
definition TypeControl :: u8 where "TypeControl = 4"
definition TypeDirect :: u8 where "TypeDirect = 5"
definition TypeLayer2 :: u8 where "TypeLayer2 = 6"
definition TypeGRERFC2784 :: u8 where "TypeGRERFC2784 = 7"
definition TypeGREMain :: u8 where "TypeGREMain = 8"

definition PSKNone :: u8 where "PSKNone = 0"
definition PSKAESCTR :: u8 where "PSKAESCTR = 1"
definition PSKHMACSHA256 :: u8 where "PSKHMACSHA256 = 2"
definition PSKAESCTRHMAC :: u8 where "PSKAESCTRHMAC = 3"
definition PSKAESGCM :: u8 where "PSKAESGCM = 4"
definition PSKChaCha20Poly :: u8 where "PSKChaCha20Poly = 5"
definition PSKUserNoHash :: u8 where "PSKUserNoHash = 6"
definition PSKUserHash :: u8 where "PSKUserHash = 7"
definition pskMaxIncl :: u8 where "pskMaxIncl = 7"

definition PSKHashSize :: nat where "PSKHashSize = 16"
definition PSKNonceSize :: nat where "PSKNonceSize = 4"
definition PSKIVSize :: nat where "PSKIVSize = 4"

definition LPCNone :: u8 where "LPCNone = 0"
definition LPCLZ4 :: u8 where "LPCLZ4 = 1"
definition LPCReserved :: u8 where "LPCReserved = 2"
definition LPCFieldPresent :: u8 where "LPCFieldPresent = 3"
definition lpcMaxIncl :: u8 where "lpcMaxIncl = 3"

definition RTPSize :: nat where "RTPSize = 12"
definition adv_ExtSize :: nat where "adv_ExtSize = 4"
definition HeaderMin :: nat where "HeaderMin = RTPSize + adv_ExtSize"
definition FlowIDSize :: nat where "FlowIDSize = 4"
definition CompressionSize :: nat where "CompressionSize = 4"
definition PFDSize :: nat where "PFDSize = 4"
definition CtrlHdrSize :: nat where "CtrlHdrSize = 4"
definition rtpExtHdrSize :: nat where "rtpExtHdrSize = 4"

lemmas adv_sizes = PSKHashSize_def PSKNonceSize_def PSKIVSize_def RTPSize_def adv_ExtSize_def HeaderMin_def FlowIDSize_def
  CompressionSize_def PFDSize_def CtrlHdrSize_def rtpExtHdrSize_def
lemmas adv_psk = PSKNone_def PSKAESCTR_def PSKHMACSHA256_def PSKAESCTRHMAC_def PSKAESGCM_def PSKChaCha20Poly_def
  PSKUserNoHash_def PSKUserHash_def pskMaxIncl_def

section \<open>Key fields, SSRCs and sequence numbers\<close>

definition PSKHasHash :: "u8 \<Rightarrow> bool" where
  "PSKHasHash psk \<longleftrightarrow> psk = PSKHMACSHA256 \<or> psk = PSKAESCTRHMAC \<or> psk = PSKAESGCM \<or> psk = PSKChaCha20Poly \<or> psk = PSKUserHash"

definition PSKHasNonce :: "u8 \<Rightarrow> bool" where "PSKHasNonce psk \<longleftrightarrow> psk \<ge> PSKAESCTR"
definition PSKHasIV :: "u8 \<Rightarrow> bool" where "PSKHasIV psk \<longleftrightarrow> psk = PSKAESCTR \<or> psk \<ge> PSKAESCTRHMAC"

definition PSKHdrSize :: "u8 \<Rightarrow> nat" where
  "PSKHdrSize psk = (if PSKHasHash psk then PSKHashSize else 0) + (if PSKHasNonce psk then PSKNonceSize else 0) +
     (if PSKHasIV psk then PSKIVSize else 0)"

definition SSRCIsProtected :: "u32 \<Rightarrow> bool" where "SSRCIsProtected ssrc \<longleftrightarrow> ssrc AND 1 = 0"
definition SSRCProtected :: "u32 \<Rightarrow> u32" where "SSRCProtected ssrc = ssrc AND NOT 1"
definition SSRCUnprotected :: "u32 \<Rightarrow> u32" where "SSRCUnprotected ssrc = ssrc OR 1"

definition SplitSeq :: "u32 \<Rightarrow> u16 \<times> u16" where
  "SplitSeq s = (ucast (s AND 0xFFFF), ucast (drop_bit 16 s))"

definition JoinSeq :: "u16 \<Rightarrow> u16 \<Rightarrow> u32" where
  "JoinSeq high low = push_bit 16 (ucast high) OR ucast low"

section \<open>Flow id and payload format descriptor\<close>

record FlowID =
  fl_Outer :: u16
  fl_Inner :: u16
  fl_Sub :: u8

definition FlowID_appendTo :: "FlowID \<Rightarrow> bytes \<Rightarrow> bytes" where
  "FlowID_appendTo f dst =
     dst @ be16_put (fl_Outer f) @ [ucast (drop_bit 4 (fl_Inner f) AND 0xFF)] @
     [ucast (push_bit 4 (fl_Inner f AND 0x0F)) OR (fl_Sub f AND 0x0F)]"

definition parseFlowID :: "bytes \<Rightarrow> FlowID" where
  "parseFlowID b = \<lparr>fl_Outer = be16_get b 0, fl_Inner = push_bit 4 (ucast (b ! 2)) OR ucast (drop_bit 4 (b ! 3)),
     fl_Sub = b ! 3 AND 0x0F\<rparr>"

record PFD =
  pf_IDType :: u8
  pf_IDValue :: u32

definition PFD_appendTo :: "PFD \<Rightarrow> bytes \<Rightarrow> bytes" where
  "PFD_appendTo p dst = dst @ be32_put (push_bit 28 (ucast (pf_IDType p AND 0x0F)) OR (pf_IDValue p AND 0x0FFFFFFF))"

definition parsePFD :: "bytes \<Rightarrow> PFD" where
  "parsePFD b = (let v = be32_get b 0 in \<lparr>pf_IDType = ucast (drop_bit 28 v), pf_IDValue = v AND 0x0FFFFFFF\<rparr>)"

definition IsUnfragmented :: "u8 \<Rightarrow> bool" where
  "IsUnfragmented flags \<longleftrightarrow> flags AND (FlagF OR FlagL) = (FlagF OR FlagL)"
definition IsFragmented :: "u8 \<Rightarrow> bool" where "IsFragmented flags \<longleftrightarrow> \<not> IsUnfragmented flags"
definition IsFirstFragment :: "u8 \<Rightarrow> bool" where
  "IsFirstFragment flags \<longleftrightarrow> flags AND FlagF \<noteq> 0 \<and> flags AND FlagL = 0"
definition IsLastFragment :: "u8 \<Rightarrow> bool" where
  "IsLastFragment flags \<longleftrightarrow> flags AND FlagF = 0 \<and> flags AND FlagL \<noteq> 0"

section \<open>Building\<close>

record adv_Params =
  pm_Seq :: u32
  pm_Timestamp :: u32
  pm_SSRC :: u32
  pm_EncType :: u8
  pm_PSKMode :: u8
  pm_LPCMode :: u8
  pm_FirstFrag :: bool
  pm_LastFrag :: bool
  pm_Expedite :: bool
  pm_Retransmit :: bool
  pm_FlowID :: "FlowID option"
  pm_PSKHash :: "bytes option"
  pm_PSKNonce :: "bytes option"
  pm_PSKIV :: "bytes option"
  pm_Compression :: "bytes option"
  pm_PFD :: "PFD option"
  pm_HdrExt :: bytes

definition adv_HeaderSize :: "adv_Params \<Rightarrow> nat" where
  "adv_HeaderSize p = HeaderMin + (if pm_FlowID p \<noteq> None then FlowIDSize else 0) + PSKHdrSize (pm_PSKMode p) +
     (if pm_LPCMode p = LPCFieldPresent then CompressionSize else 0) + (if pm_PFD p \<noteq> None then PFDSize else 0) +
     (if length (pm_HdrExt p) > 0 then length (pm_HdrExt p) else 0)"

definition checkPSKSlice :: "bytes option \<Rightarrow> nat \<Rightarrow> adv_err option" where
  "checkPSKSlice b n = (case b of None \<Rightarrow> None | Some x \<Rightarrow> if length x \<noteq> n then Some AdvFieldRange else None)"

definition appendOrZero :: "bytes option \<Rightarrow> nat \<Rightarrow> bytes" where
  "appendOrZero b n = (case b of None \<Rightarrow> replicate n 0 | Some x \<Rightarrow> x)"

definition adv_flags :: "adv_Params \<Rightarrow> u8" where
  "adv_flags p =
     (if pm_FirstFrag p then FlagF else 0) OR (if pm_LastFrag p then FlagL else 0) OR (if pm_Expedite p then FlagE else 0) OR
     (if pm_Retransmit p then FlagR else 0) OR (if pm_FlowID p \<noteq> None then FlagI else 0) OR
     (if pm_PFD p \<noteq> None then FlagP else 0) OR (if length (pm_HdrExt p) > 0 then FlagH else 0) OR
     (drop_bit 2 (pm_PSKMode p) AND flagPSK2)"

definition adv_params_byte :: "adv_Params \<Rightarrow> u8" where
  "adv_params_byte p =
     push_bit psk10Shift (pm_PSKMode p AND 0x03) OR push_bit lpcShift (pm_LPCMode p AND 0x03) OR (pm_EncType p AND typeMask)"

definition adv_Build :: "bytes \<Rightarrow> adv_Params \<Rightarrow> bytes \<Rightarrow> adv_err option \<times> bytes" where
  "adv_Build dst p payload =
     (if pm_EncType p > typeMask \<or> pm_PSKMode p > pskMaxIncl \<or> pm_LPCMode p > lpcMaxIncl then (Some AdvFieldRange, dst)
      else if checkPSKSlice (pm_PSKHash p) PSKHashSize \<noteq> None then (Some AdvFieldRange, dst)
      else if checkPSKSlice (pm_PSKNonce p) PSKNonceSize \<noteq> None then (Some AdvFieldRange, dst)
      else if checkPSKSlice (pm_PSKIV p) PSKIVSize \<noteq> None then (Some AdvFieldRange, dst)
      else if (case pm_Compression p of None \<Rightarrow> False | Some c \<Rightarrow> length c \<noteq> CompressionSize) then (Some AdvFieldRange, dst)
      else let (low, high) = SplitSeq (pm_Seq p)
           in (None, dst @ [rtpFlags, adv_PayloadType] @ be16_put low @ be32_put (pm_Timestamp p) @ be32_put (pm_SSRC p) @
                be16_put high @ [adv_flags p, adv_params_byte p] @
                (case pm_FlowID p of None \<Rightarrow> [] | Some f \<Rightarrow> FlowID_appendTo f []) @
                (if PSKHasHash (pm_PSKMode p) then appendOrZero (pm_PSKHash p) PSKHashSize else []) @
                (if PSKHasNonce (pm_PSKMode p) then appendOrZero (pm_PSKNonce p) PSKNonceSize else []) @
                (if PSKHasIV (pm_PSKMode p) then appendOrZero (pm_PSKIV p) PSKIVSize else []) @
                (if pm_LPCMode p = LPCFieldPresent then appendOrZero (pm_Compression p) CompressionSize else []) @
                (case pm_PFD p of None \<Rightarrow> [] | Some f \<Rightarrow> PFD_appendTo f []) @
                pm_HdrExt p @ payload))"

section \<open>Parsing\<close>

record adv_Parsed =
  pr_Seq :: u32
  pr_Timestamp :: u32
  pr_SSRC :: u32
  pr_RTPExtPresent :: bool
  pr_RTPPadding :: bool
  pr_FirstFrag :: bool
  pr_LastFrag :: bool
  pr_Expedite :: bool
  pr_Retransmit :: bool
  pr_PSKMode :: u8
  pr_LPCMode :: u8
  pr_EncType :: u8
  pr_HasPSK :: bool
  pr_FlowID :: "FlowID option"
  pr_PSKHash :: "bytes option"
  pr_PSKNonce :: "bytes option"
  pr_PSKIV :: "bytes option"
  pr_Compression :: "bytes option"
  pr_PFD :: "PFD option"
  pr_HdrExt :: "bytes option"
  pr_Payload :: bytes

text \<open>A field that may be present at the front of what is left of the buffer.\<close>

definition adv_field :: "bool \<Rightarrow> nat \<Rightarrow> bytes \<Rightarrow> adv_err + bytes option \<times> bytes" where
  "adv_field present n b =
     (if \<not> present then Inr (None, b)
      else if length b < n then Inl AdvShortBuffer else Inr (Some (take n b), drop n b))"

definition adv_bind :: "'e + 'a \<Rightarrow> ('a \<Rightarrow> 'e + 'b) \<Rightarrow> 'e + 'b" where
  "adv_bind r k = (case r of Inl e \<Rightarrow> Inl e | Inr x \<Rightarrow> k x)"

text \<open>The RFC 3550 style extension: a header whose length word counts the words that follow.\<close>

definition ext_size :: "bool \<Rightarrow> bytes \<Rightarrow> adv_err + nat" where
  "ext_size present b =
     (if \<not> present then Inr 0
      else if length b < rtpExtHdrSize then Inl AdvShortBuffer
      else Inr (rtpExtHdrSize + unat (be16_get b 2) * 4))"

text \<open>The optional fields after the profile-defined extension, in the order of the specification.\<close>

definition adv_optional ::
  "u8 \<Rightarrow> u8 \<Rightarrow> u8 \<Rightarrow> bytes \<Rightarrow> adv_err + bytes option \<times> bytes option \<times> bytes option \<times> bytes option \<times> bytes option \<times>
     bytes option \<times> bytes option \<times> bytes" where
  "adv_optional extFlags psk lpc b =
     adv_bind (adv_field (extFlags AND FlagI \<noteq> 0) FlowIDSize b) (\<lambda>(flow, b).
     adv_bind (adv_field (PSKHasHash psk) PSKHashSize b) (\<lambda>(hash, b).
     adv_bind (adv_field (PSKHasNonce psk) PSKNonceSize b) (\<lambda>(nonce, b).
     adv_bind (adv_field (PSKHasIV psk) PSKIVSize b) (\<lambda>(iv, b).
     adv_bind (adv_field (lpc = LPCFieldPresent) CompressionSize b) (\<lambda>(comp, b).
     adv_bind (adv_field (extFlags AND FlagP \<noteq> 0) PFDSize b) (\<lambda>(pfd, b).
     adv_bind (ext_size (extFlags AND FlagH \<noteq> 0) b) (\<lambda>total.
     adv_bind (adv_field (extFlags AND FlagH \<noteq> 0) total b) (\<lambda>(hext, b).
     Inr (flow, hash, nonce, iv, comp, pfd, hext, b)))))))))"

definition adv_Parse :: "bytes \<Rightarrow> adv_err + adv_Parsed" where
  "adv_Parse buf =
     (if length buf < HeaderMin then Inl AdvShortBuffer
      else let flags0 = buf ! 0 in
      if flags0 AND 0xC0 \<noteq> 0x80 then Inl AdvInvalidVersion
      else let pt = buf ! 1 AND 0x7F in
      if pt \<noteq> adv_PayloadType \<and> pt < dynamicPTMin then Inl AdvInvalidPayloadType
      else let padding = (flags0 AND 0x20 \<noteq> 0); ext = (flags0 AND 0x10 \<noteq> 0); cc = unat (flags0 AND 0x0F) in
      adv_bind (adv_field True (cc * 4) (drop RTPSize buf)) (\<lambda>(_, b).
      adv_bind (ext_size ext b) (\<lambda>skip.
      adv_bind (adv_field True skip b) (\<lambda>(_, b).
      adv_bind (adv_field True adv_ExtSize b) (\<lambda>(hdr, b).
      let seqExt = be16_get (the hdr) 0; extFlags = the hdr ! 2; extParams = the hdr ! 3;
          psk = push_bit 2 (extFlags AND flagPSK2) OR drop_bit psk10Shift (extParams AND psk10Mask);
          lpc = drop_bit lpcShift (extParams AND lpcMask) in
      adv_bind (adv_optional extFlags psk lpc b) (\<lambda>(flow, hash, nonce, iv, comp, pfd, hext, b).
      Inr \<lparr>pr_Seq = JoinSeq seqExt (be16_get buf 2), pr_Timestamp = be32_get buf 4, pr_SSRC = be32_get buf 8,
           pr_RTPExtPresent = ext, pr_RTPPadding = padding, pr_FirstFrag = (extFlags AND FlagF \<noteq> 0),
           pr_LastFrag = (extFlags AND FlagL \<noteq> 0), pr_Expedite = (extFlags AND FlagE \<noteq> 0),
           pr_Retransmit = (extFlags AND FlagR \<noteq> 0), pr_PSKMode = psk, pr_LPCMode = lpc, pr_EncType = extParams AND typeMask,
           pr_HasPSK = (psk > 0), pr_FlowID = map_option parseFlowID flow, pr_PSKHash = hash, pr_PSKNonce = nonce,
           pr_PSKIV = iv, pr_Compression = comp, pr_PFD = map_option parsePFD pfd, pr_HdrExt = hext, pr_Payload = b\<rparr>))))))"

section \<open>Round trip\<close>

lemma adv_bind_Inr [simp]: "adv_bind (Inr x) k = k x"
  by (simp add: adv_bind_def)

lemma adv_field_front:
  "length x = (if P then n else 0) \<Longrightarrow> adv_field P n (x @ rest) = Inr (if P then Some x else None, rest)"
  by (auto simp: adv_field_def)

lemma ext_size_front:
  assumes "P \<longrightarrow> 4 \<le> length x \<and> length x = 4 + unat (be16_get x 2) * 4" and "\<not> P \<longrightarrow> x = []"
  shows "ext_size P (x @ rest) = Inr (length x)"
proof (cases P)
  case True
  then have l: "4 \<le> length x" "length x = 4 + unat (be16_get x 2) * 4" using assms(1) by auto
  then have "be16_get (x @ rest) 2 = be16_get x 2" by (simp add: be16_get_def nth_append)
  then show ?thesis using True l by (simp add: ext_size_def adv_sizes)
qed (use assms(2) in \<open>simp add: ext_size_def\<close>)

lemma JoinSeq_SplitSeq: "JoinSeq (snd (SplitSeq s)) (fst (SplitSeq s)) = s"
proof (rule bit_word_eqI)
  fix n assume "n < LENGTH(32)"
  have "bit (0xFFFF :: u32) n \<longleftrightarrow> n < 16"
    using bit_mask_iff [where 'a = u32, of 16 n] \<open>n < LENGTH(32)\<close> by (simp add: mask_eq_exp_minus_1)
  then show "bit (JoinSeq (snd (SplitSeq s)) (fst (SplitSeq s))) n = bit s n"
    using \<open>n < LENGTH(32)\<close> by (auto simp: SplitSeq_def JoinSeq_def bit_simps)
qed

lemma bit_if: "bit (if c then x else y) n = (if c then bit x n else bit y n)"
  by simp

lemmas adv_flag_defs = FlagF_def FlagL_def FlagE_def FlagR_def FlagI_def FlagP_def FlagH_def flagPSK2_def

lemma adv_flag_iff:
  "x AND FlagF = 0 \<longleftrightarrow> \<not> bit x 7" "x AND FlagL = 0 \<longleftrightarrow> \<not> bit x 6" "x AND FlagE = 0 \<longleftrightarrow> \<not> bit x 5"
  "x AND FlagR = 0 \<longleftrightarrow> \<not> bit x 4" "x AND FlagI = 0 \<longleftrightarrow> \<not> bit x 3" "x AND FlagP = 0 \<longleftrightarrow> \<not> bit x 2"
  "x AND FlagH = 0 \<longleftrightarrow> \<not> bit x 1"
  using and_bit_zero_iff [of x 7] and_bit_zero_iff [of x 6] and_bit_zero_iff [of x 5] and_bit_zero_iff [of x 4]
    and_bit_zero_iff [of x 3] and_bit_zero_iff [of x 2] and_bit_zero_iff [of x 1]
  by (simp_all add: adv_flag_defs)

lemma adv_flags_bits:
  "bit (adv_flags p) 7 = pm_FirstFrag p" "bit (adv_flags p) 6 = pm_LastFrag p" "bit (adv_flags p) 5 = pm_Expedite p"
  "bit (adv_flags p) 4 = pm_Retransmit p" "bit (adv_flags p) 3 = (pm_FlowID p \<noteq> None)"
  "bit (adv_flags p) 2 = (pm_PFD p \<noteq> None)" "bit (adv_flags p) (Suc 0) = (pm_HdrExt p \<noteq> [])"
  "bit (adv_flags p) 0 = bit (pm_PSKMode p) 2"
  by (simp_all add: adv_flags_def adv_flag_defs bit_or_iff bit_and_iff bit_if bit_drop_bit_eq)

lemma adv_psk_field:
  assumes "fits 3 (pm_PSKMode p)"
  shows "push_bit 2 (adv_flags p AND flagPSK2) OR drop_bit psk10Shift (adv_params_byte p AND psk10Mask) = pm_PSKMode p"
  using fits_bit [OF assms]
  by (intro u8_eqI)
    (simp_all add: adv_params_byte_def bit_simps adv_flags_bits flagPSK2_def psk10Shift_def psk10Mask_def lpcShift_def typeMask_def)

lemma adv_lpc_field: "fits 2 (pm_LPCMode p) \<Longrightarrow> drop_bit lpcShift (adv_params_byte p AND lpcMask) = pm_LPCMode p"
  using fits_bit [of 2 "pm_LPCMode p"]
  by (intro u8_eqI)
    (simp_all add: adv_params_byte_def bit_simps lpcMask_def psk10Shift_def lpcShift_def typeMask_def)

lemma adv_type_field: "fits 4 (pm_EncType p) \<Longrightarrow> adv_params_byte p AND typeMask = pm_EncType p"
  using fits_bit [of 4 "pm_EncType p"]
  by (intro u8_eqI) (simp_all add: adv_params_byte_def bit_simps psk10Shift_def lpcShift_def typeMask_def)

lemma u16_eqI:
  assumes "\<forall>n \<in> {0, 1, 2, 3, 4, 5, 6, 7, 8, 9, 10, 11, 12, 13, 14, 15}. bit x n = bit y n"
  shows "x = (y :: u16)"
proof (rule bit_word_eqI)
  fix n assume "n < LENGTH(16)"
  then have "n \<in> {0, 1, 2, 3, 4, 5, 6, 7, 8, 9, 10, 11, 12, 13, 14, 15}"
    by (simp add: less_Suc_eq numeral_eq_Suc)
  then show "bit x n = bit y n" using assms by blast
qed

lemma FlowID_roundtrip:
  assumes "fits 12 (fl_Inner f)" "fits 4 (fl_Sub f)"
  shows "parseFlowID (FlowID_appendTo f []) = f"
proof -
  define lo :: u8 where "lo = ucast (push_bit 4 (fl_Inner f AND 0x0F)) OR (fl_Sub f AND 0x0F)"
  define hi :: u8 where "hi = ucast (drop_bit 4 (fl_Inner f) AND 0xFF)"
  have s: "lo AND 0x0F = fl_Sub f"
    using fits_bit [OF assms(2)] by (intro u8_eqI) (simp_all add: lo_def bit_simps)
  have i: "push_bit 4 (ucast hi) OR ucast (drop_bit 4 lo) = fl_Inner f"
    using fits_bit [OF assms(1)] fits_bit [OF assms(2)] by (intro u16_eqI) (simp add: lo_def hi_def bit_simps)
  have "FlowID_appendTo f [] = be16_put (fl_Outer f) @ [hi, lo]"
    by (simp add: FlowID_appendTo_def lo_def hi_def)
  then show ?thesis using s i by (simp add: parseFlowID_def nth_append)
qed

lemma PFD_roundtrip:
  assumes "fits 4 (pf_IDType f)" "fits 28 (pf_IDValue f)"
  shows "parsePFD (PFD_appendTo f []) = f"
proof -
  have t: "pf_IDType f AND 0x0F = pf_IDType f"
    using mask_fits [OF assms(1)] by (simp add: mask_eq_exp_minus_1)
  have k: "0x0FFFFFFF = (mask 28 :: u32)" by (simp add: mask_eq_exp_minus_1)
  let ?v = "push_bit 28 (ucast (pf_IDType f)) OR pf_IDValue f :: u32"
  have "ucast (drop_bit 28 ?v) = pf_IDType f"
    using fits_bit [OF assms(1)] fits_bit [OF assms(2)] by (intro u8_eqI) (simp_all add: bit_simps)
  moreover have "?v AND mask 28 = pf_IDValue f"
    using fits_bit [OF assms(2)] by (intro bit_word_eqI) (auto simp: bit_simps not_less [symmetric])
  ultimately show ?thesis
    using mask_fits [OF assms(2)] by (simp add: parsePFD_def PFD_appendTo_def Let_def t k)
qed

text \<open>Parameters whose every field fits its place in the packet.\<close>

definition adv_wf :: "adv_Params \<Rightarrow> bool" where
  "adv_wf p \<longleftrightarrow> fits 4 (pm_EncType p) \<and> fits 3 (pm_PSKMode p) \<and> fits 2 (pm_LPCMode p) \<and>
     pred_option (\<lambda>b. length b = PSKHashSize) (pm_PSKHash p) \<and> pred_option (\<lambda>b. length b = PSKNonceSize) (pm_PSKNonce p) \<and>
     pred_option (\<lambda>b. length b = PSKIVSize) (pm_PSKIV p) \<and>
     pred_option (\<lambda>b. length b = CompressionSize) (pm_Compression p) \<and>
     pred_option (\<lambda>f. fits 12 (fl_Inner f) \<and> fits 4 (fl_Sub f)) (pm_FlowID p) \<and>
     pred_option (\<lambda>f. fits 4 (pf_IDType f) \<and> fits 28 (pf_IDValue f)) (pm_PFD p) \<and>
     (pm_HdrExt p = [] \<or> 4 \<le> length (pm_HdrExt p) \<and> length (pm_HdrExt p) = 4 + unat (be16_get (pm_HdrExt p) 2) * 4)"

text \<open>What a receiver should read: the fields as given, zeros for a required field that was not given, nothing for
  a field the modes do not announce.\<close>

definition adv_read :: "adv_Params \<Rightarrow> bytes \<Rightarrow> adv_Parsed" where
  "adv_read p payload =
     \<lparr>pr_Seq = pm_Seq p, pr_Timestamp = pm_Timestamp p, pr_SSRC = pm_SSRC p, pr_RTPExtPresent = False,
      pr_RTPPadding = False, pr_FirstFrag = pm_FirstFrag p, pr_LastFrag = pm_LastFrag p, pr_Expedite = pm_Expedite p,
      pr_Retransmit = pm_Retransmit p, pr_PSKMode = pm_PSKMode p, pr_LPCMode = pm_LPCMode p, pr_EncType = pm_EncType p,
      pr_HasPSK = (pm_PSKMode p > 0), pr_FlowID = pm_FlowID p,
      pr_PSKHash = (if PSKHasHash (pm_PSKMode p) then Some (appendOrZero (pm_PSKHash p) PSKHashSize) else None),
      pr_PSKNonce = (if PSKHasNonce (pm_PSKMode p) then Some (appendOrZero (pm_PSKNonce p) PSKNonceSize) else None),
      pr_PSKIV = (if PSKHasIV (pm_PSKMode p) then Some (appendOrZero (pm_PSKIV p) PSKIVSize) else None),
      pr_Compression =
        (if pm_LPCMode p = LPCFieldPresent then Some (appendOrZero (pm_Compression p) CompressionSize) else None),
      pr_PFD = pm_PFD p, pr_HdrExt = (if pm_HdrExt p = [] then None else Some (pm_HdrExt p)), pr_Payload = payload\<rparr>"

lemma length_appendOrZero [simp]: "pred_option (\<lambda>b. length b = n) x \<Longrightarrow> length (appendOrZero x n) = n"
  by (cases x) (simp_all add: appendOrZero_def)

lemma checkPSKSlice_ok [simp]: "pred_option (\<lambda>b. length b = n) x \<Longrightarrow> checkPSKSlice x n = None"
  by (cases x) (simp_all add: checkPSKSlice_def)

text \<open>The optional fields as Build lays them out, with the presence flags Parse reads.\<close>

definition adv_opt :: "bool \<Rightarrow> bytes \<Rightarrow> bytes" where
  "adv_opt P x = (if P then x else [])"

definition adv_packet :: "adv_Params \<Rightarrow> bytes \<Rightarrow> bytes" where
  "adv_packet p payload =
     ([rtpFlags, adv_PayloadType] @ be16_put (fst (SplitSeq (pm_Seq p))) @ be32_put (pm_Timestamp p) @ be32_put (pm_SSRC p)) @
     (be16_put (snd (SplitSeq (pm_Seq p))) @ [adv_flags p, adv_params_byte p]) @
     adv_opt (pm_FlowID p \<noteq> None) (FlowID_appendTo (the (pm_FlowID p)) []) @
     adv_opt (PSKHasHash (pm_PSKMode p)) (appendOrZero (pm_PSKHash p) PSKHashSize) @
     adv_opt (PSKHasNonce (pm_PSKMode p)) (appendOrZero (pm_PSKNonce p) PSKNonceSize) @
     adv_opt (PSKHasIV (pm_PSKMode p)) (appendOrZero (pm_PSKIV p) PSKIVSize) @
     adv_opt (pm_LPCMode p = LPCFieldPresent) (appendOrZero (pm_Compression p) CompressionSize) @
     adv_opt (pm_PFD p \<noteq> None) (PFD_appendTo (the (pm_PFD p)) []) @ pm_HdrExt p @ payload"

lemma fits_le: "fits 4 x \<Longrightarrow> (x :: u8) \<le> 15" "fits 3 x \<Longrightarrow> x \<le> 7" "fits 2 x \<Longrightarrow> x \<le> 3"
  by (simp_all add: fits_def word_le_nat_alt)

lemma adv_Build_packet: "adv_wf p \<Longrightarrow> adv_Build dst p payload = (None, dst @ adv_packet p payload)"
  using fits_le [of "pm_EncType p"] fits_le [of "pm_PSKMode p"] fits_le [of "pm_LPCMode p"]
  by (cases "pm_Compression p")
    (auto simp: adv_Build_def adv_wf_def adv_packet_def adv_opt_def typeMask_def pskMaxIncl_def lpcMaxIncl_def
      split_beta split: option.splits)

lemma adv_field_opt:
  "(P \<Longrightarrow> length x = n) \<Longrightarrow> adv_field P n (adv_opt P x @ rest) = Inr (if P then Some x else None, rest)"
  by (simp add: adv_field_def adv_opt_def)

definition adv_tail :: "adv_Params \<Rightarrow> bytes \<Rightarrow> bytes" where
  "adv_tail p payload = drop HeaderMin (adv_packet p payload)"

lemma adv_tail_eq:
  "adv_tail p payload =
     adv_opt (pm_FlowID p \<noteq> None) (FlowID_appendTo (the (pm_FlowID p)) []) @
     adv_opt (PSKHasHash (pm_PSKMode p)) (appendOrZero (pm_PSKHash p) PSKHashSize) @
     adv_opt (PSKHasNonce (pm_PSKMode p)) (appendOrZero (pm_PSKNonce p) PSKNonceSize) @
     adv_opt (PSKHasIV (pm_PSKMode p)) (appendOrZero (pm_PSKIV p) PSKIVSize) @
     adv_opt (pm_LPCMode p = LPCFieldPresent) (appendOrZero (pm_Compression p) CompressionSize) @
     adv_opt (pm_PFD p \<noteq> None) (PFD_appendTo (the (pm_PFD p)) []) @ pm_HdrExt p @ payload"
  by (simp add: adv_tail_def adv_packet_def adv_sizes)

lemma adv_optional_packet:
  assumes "adv_wf p"
  shows "adv_optional (adv_flags p) (pm_PSKMode p) (pm_LPCMode p) (adv_tail p payload) =
    Inr (map_option (\<lambda>f. FlowID_appendTo f []) (pm_FlowID p), pr_PSKHash (adv_read p payload), pr_PSKNonce (adv_read p payload),
      pr_PSKIV (adv_read p payload), pr_Compression (adv_read p payload), map_option (\<lambda>d. PFD_appendTo d []) (pm_PFD p),
      pr_HdrExt (adv_read p payload), payload)"
proof -
  note wf = assms [unfolded adv_wf_def]
  have opt: "adv_field P n (adv_opt P x @ r) = Inr (if P then Some x else None, r)" if "length x = n" for P n x r
    using adv_field_opt that by blast
  have h: "ext_size (pm_HdrExt p \<noteq> []) (pm_HdrExt p @ payload) = Inr (length (pm_HdrExt p))"
    using wf by (intro ext_size_front) auto
  have h2: "adv_field (pm_HdrExt p \<noteq> []) (length (pm_HdrExt p)) (pm_HdrExt p @ payload) =
       Inr (if pm_HdrExt p \<noteq> [] then Some (pm_HdrExt p) else None, payload)"
    by (intro adv_field_front) simp
  have lens: "length (FlowID_appendTo f []) = FlowIDSize" "length (PFD_appendTo d []) = PFDSize" for f :: FlowID and d :: PFD
    by (simp_all add: FlowID_appendTo_def PFD_appendTo_def adv_sizes)
  have fl: "(adv_flags p AND FlagI \<noteq> 0) = (pm_FlowID p \<noteq> None)" "(adv_flags p AND FlagP \<noteq> 0) = (pm_PFD p \<noteq> None)"
    "(adv_flags p AND FlagH \<noteq> 0) = (pm_HdrExt p \<noteq> [])"
    using adv_flags_bits [of p] by (simp_all add: adv_flag_iff)
  show ?thesis
    using wf unfolding adv_optional_def adv_tail_eq fl
    by (simp only: opt lens length_appendOrZero h h2 adv_bind_Inr prod.case)
      (cases "pm_FlowID p"; cases "pm_PFD p"; simp add: adv_read_def)
qed

lemma adv_Parse_packet:
  assumes "adv_wf p"
  shows "adv_Parse (adv_packet p payload) = Inr (adv_read p payload)"
proof -
  note wf = assms [unfolded adv_wf_def]
  define rtp where "rtp = [rtpFlags, adv_PayloadType] @ be16_put (fst (SplitSeq (pm_Seq p))) @ be32_put (pm_Timestamp p) @
    be32_put (pm_SSRC p)"
  define ext where "ext = be16_put (snd (SplitSeq (pm_Seq p))) @ [adv_flags p, adv_params_byte p]"
  define buf where "buf = adv_packet p payload"
  have b: "buf = rtp @ ext @ adv_tail p payload"
    by (simp add: buf_def adv_packet_def adv_tail_eq rtp_def ext_def)
  have l: "length rtp = 12" "length ext = 4" by (simp_all add: rtp_def ext_def)
  have reads: "be16_get buf 2 = fst (SplitSeq (pm_Seq p))" "be32_get buf 4 = pm_Timestamp p" "be32_get buf 8 = pm_SSRC p"
    "buf ! 0 = 0x80" "buf ! 1 = 127"
    by (simp_all add: b rtp_def be_reads rtpFlags_def adv_PayloadType_def)
  have ext: "be16_get ext 0 = snd (SplitSeq (pm_Seq p))" "ext ! 2 = adv_flags p" "ext ! 3 = adv_params_byte p"
    by (simp_all add: ext_def nth_append)
  have fields: "adv_field True 0 b = Inr (Some [], b)" "ext_size False b = Inr 0"
    "adv_field True 4 (ext @ b) = Inr (Some ext, b)" for b
    using l by (simp_all add: adv_field_def ext_size_def)
  have bufs: "drop 12 buf = ext @ adv_tail p payload" "\<not> length buf < 16" using l by (simp_all add: b)
  have fl: "map_option parseFlowID (map_option (\<lambda>f. FlowID_appendTo f []) (pm_FlowID p)) = pm_FlowID p"
    using wf by (cases "pm_FlowID p") (simp_all add: FlowID_roundtrip)
  have pf: "map_option parsePFD (map_option (\<lambda>d. PFD_appendTo d []) (pm_PFD p)) = pm_PFD p"
    using wf by (cases "pm_PFD p") (simp_all add: PFD_roundtrip)
  have modes: "push_bit 2 (adv_flags p AND flagPSK2) OR drop_bit psk10Shift (adv_params_byte p AND psk10Mask) = pm_PSKMode p"
    "drop_bit lpcShift (adv_params_byte p AND lpcMask) = pm_LPCMode p" "adv_params_byte p AND typeMask = pm_EncType p"
    using wf by (blast intro: adv_psk_field adv_lpc_field adv_type_field)+
  have bytes0: "(0x80 :: u8) AND 0xC0 = 0x80" "(0x80 :: u8) AND 0x20 = 0" "(0x80 :: u8) AND 0x10 = 0" "unat ((0x80 :: u8) AND 0x0F) * 4 = 0"
    "(127 :: u8) AND 0x7F = adv_PayloadType" by (simp_all add: adv_PayloadType_def)
  have "adv_Parse buf = Inr (adv_read p payload)"
    unfolding adv_Parse_def Let_def HeaderMin_def RTPSize_def adv_ExtSize_def reads bytes0
    by (simp only: bufs fields ext modes adv_optional_packet [OF assms] adv_bind_Inr prod.case option.sel if_False if_True
        not_True_eq_False not_False_eq_True simp_thms JoinSeq_SplitSeq fl pf adv_flag_iff adv_flags_bits numeral_plus_numeral
        add_num_simps) (simp add: adv_read_def)
  then show ?thesis by (simp add: buf_def)
qed

lemma length_adv_packet: "adv_wf p \<Longrightarrow> length (adv_packet p payload) = adv_HeaderSize p + length payload"
  by (auto simp: adv_packet_def adv_wf_def adv_HeaderSize_def PSKHdrSize_def adv_opt_def FlowID_appendTo_def
      PFD_appendTo_def adv_sizes)

text \<open>C26: an Advanced-profile packet survives the wire.  For parameters whose fields fit their places, Build
  succeeds, appends HeaderSize bytes of header and the payload, and Parse of those bytes gives back the 32-bit sequence
  number, the timestamp and SSRC, every flag and mode, every optional field the modes announce (zeros where a required
  key or compression field was not given), and the payload.\<close>

theorem adv_roundtrip:
  assumes "adv_wf p"
  shows "\<exists>b. adv_Build dst p payload = (None, dst @ b) \<and> length b = adv_HeaderSize p + length payload \<and>
    adv_Parse b = Inr (adv_read p payload)"
  using adv_Build_packet [OF assms] length_adv_packet [OF assms] adv_Parse_packet [OF assms] by blast

definition adv_sample :: adv_Params where
  "adv_sample = \<lparr>pm_Seq = 0x12345678, pm_Timestamp = 9, pm_SSRC = 6, pm_EncType = TypeDirect, pm_PSKMode = PSKAESCTRHMAC,
     pm_LPCMode = LPCFieldPresent, pm_FirstFrag = True, pm_LastFrag = False, pm_Expedite = False, pm_Retransmit = True,
     pm_FlowID = Some \<lparr>fl_Outer = 500, fl_Inner = 0xABC, fl_Sub = 7\<rparr>, pm_PSKHash = None, pm_PSKNonce = Some [1, 2, 3, 4],
     pm_PSKIV = Some [0, 0, 0, 1], pm_Compression = None, pm_PFD = Some \<lparr>pf_IDType = 3, pf_IDValue = 0x123\<rparr>,
     pm_HdrExt = [0, 1, 0, 1, 9, 9, 9, 9]\<rparr>"

theorem adv_roundtrip_witness:
  "\<exists>b. adv_Build [7] adv_sample [42] = (None, [7] @ b) \<and> length b = 61 \<and> adv_Parse b = Inr (adv_read adv_sample [42])"
proof -
  have "adv_wf adv_sample" by (simp add: adv_wf_def adv_sample_def fits_def adv_sizes be16_get_def TypeDirect_def
    PSKAESCTRHMAC_def LPCFieldPresent_def)
  moreover have "adv_HeaderSize adv_sample + length [42 :: u8] = 61" by code_simp
  ultimately show ?thesis using adv_roundtrip [of adv_sample "[7]" "[42]"] by simp
qed

end
