(* ===== verification/Adv_Ctrl.thy ===== *)
theory Adv_Ctrl
  imports Adv
begin

text \<open>The control messages of internal/adv/adv_ctrl.go: the control sub-header, the two NACK bodies with their
  packing and expansion, and the echo, keepalive, nonce and unsupported bodies.\<close>

unbundle bit_operations_syntax

section \<open>Constants\<close>

datatype ctrl_err = ErrShortControl

definition CINackBitmask :: u16 where "CINackBitmask = 0x0000"
definition CINackRange :: u16 where "CINackRange = 0x0001"
definition CILQMGlobal :: u16 where "CILQMGlobal = 0x0002"
definition CILQMLinkSpecific :: u16 where "CILQMLinkSpecific = 0x0003"
definition CIRTTEchoReq :: u16 where "CIRTTEchoReq = 0x0010"
definition CIRTTEchoResp :: u16 where "CIRTTEchoResp = 0x0011"
definition CIFEC20225Row :: u16 where "CIFEC20225Row = 0x0020"
definition CIFEC20225Col :: u16 where "CIFEC20225Col = 0x0021"
definition CIFEC20221Row :: u16 where "CIFEC20221Row = 0x0022"
definition CIFEC20221Col :: u16 where "CIFEC20221Col = 0x0023"
definition CIKeepalive :: u16 where "CIKeepalive = 0x8000"
definition CIFlowAttr :: u16 where "CIFlowAttr = 0x8001"
definition CISRPAuth :: u16 where "CISRPAuth = 0x8010"
definition CIPSKNonce :: u16 where "CIPSKNonce = 0x8011"
definition CIUnsupported :: u16 where "CIUnsupported = 0x8020"

definition KeepaliveCapI :: u32 where "KeepaliveCapI = push_bit 31 1"
definition KeepaliveCapG :: u32 where "KeepaliveCapG = push_bit 30 1"
definition KeepaliveCapC :: u32 where "KeepaliveCapC = push_bit 29 1"

definition nackBodySize :: nat where "nackBodySize = 12"
definition rttEchoBodySize :: nat where "rttEchoBodySize = 16"
definition keepaliveBodySize :: nat where "keepaliveBodySize = 10"
definition pskNonceBodySize :: nat where "pskNonceBodySize = 8"
definition unsupportedHeadLen :: nat where "unsupportedHeadLen = 6"
definition maxNACKDecodeRange :: u32 where "maxNACKDecodeRange = 10000"

lemmas ctrl_sizes = nackBodySize_def rttEchoBodySize_def keepaliveBodySize_def pskNonceBodySize_def unsupportedHeadLen_def
  CtrlHdrSize_def

section \<open>The control sub-header\<close>

definition BuildControl :: "bytes \<Rightarrow> u16 \<Rightarrow> bytes \<Rightarrow> bytes" where
  "BuildControl dst ci body = dst @ be16_put ci @ be16_put (of_nat (length body)) @ body"

definition ParseControl :: "bytes \<Rightarrow> ctrl_err + u16 \<times> bytes" where
  "ParseControl payload =
     (if length payload < CtrlHdrSize then Inl ErrShortControl
      else let ci = be16_get payload 0; bodyLen = unat (be16_get payload 2)
           in if CtrlHdrSize + bodyLen > length payload then Inl ErrShortControl
              else Inr (ci, take bodyLen (drop CtrlHdrSize payload)))"

lemma control_roundtrip:
  assumes "length body < 2 ^ 16"
  shows "ParseControl (BuildControl [] ci body @ trailing) = Inr (ci, body)"
proof -
  have "unat (of_nat (length body) :: u16) = length body" using assms by (simp add: unsigned_of_nat take_bit_nat_eq_self)
  then show ?thesis by (simp add: ParseControl_def BuildControl_def CtrlHdrSize_def be_reads Let_def)
qed

text \<open>The length field is 16 bits wide and BuildControl does not check it: a longer body is cut on arrival.\<close>

lemma control_oversize:
  assumes "length body = 2 ^ 16 + k" "k < 2 ^ 16"
  shows "ParseControl (BuildControl [] ci body) = Inr (ci, take k body)"
proof -
  have "(of_nat (length body) :: u16) = of_nat k" unfolding assms(1) by (simp add: word_of_nat_eq_iff take_bit_eq_mod)
  moreover have "unat (of_nat k :: u16) = k" using assms(2) by (simp add: unsigned_of_nat take_bit_nat_eq_self)
  moreover have "k \<le> length body" using assms(1) by simp
  ultimately show ?thesis by (simp add: ParseControl_def BuildControl_def CtrlHdrSize_def be_reads Let_def)
qed

section \<open>NACK bodies\<close>

record adv_NackBitmask =
  nb_MediaSSRC :: u32
  nb_PSS :: u32
  nb_BLP :: u32

definition NackBitmask_appendBody :: "adv_NackBitmask \<Rightarrow> bytes \<Rightarrow> bytes" where
  "NackBitmask_appendBody n dst = dst @ be32_put (nb_MediaSSRC n) @ be32_put (nb_PSS n) @ be32_put (nb_BLP n)"

definition NackBitmask_Missing :: "adv_NackBitmask \<Rightarrow> u32 list" where
  "NackBitmask_Missing n =
     nb_PSS n # map (\<lambda>i. nb_PSS n + 1 + of_nat i) (filter (\<lambda>i. nb_BLP n AND push_bit i 1 \<noteq> 0) [0..<32])"

definition ParseNackBitmask :: "bytes \<Rightarrow> ctrl_err + adv_NackBitmask" where
  "ParseNackBitmask body =
     (if length body < nackBodySize then Inl ErrShortControl
      else Inr \<lparr>nb_MediaSSRC = be32_get body 0, nb_PSS = be32_get body 4, nb_BLP = be32_get body 8\<rparr>)"

record adv_NackRange =
  nr_MediaSSRC :: u32
  nr_PSS :: u32
  nr_NALP :: u32

definition NackRange_appendBody :: "adv_NackRange \<Rightarrow> bytes \<Rightarrow> bytes" where
  "NackRange_appendBody n dst = dst @ be32_put (nr_MediaSSRC n) @ be32_put (nr_PSS n) @ be32_put (nr_NALP n)"

definition NackRange_Missing :: "adv_NackRange \<Rightarrow> u32 list" where
  "NackRange_Missing n =
     (let count = (if nr_NALP n > maxNACKDecodeRange then maxNACKDecodeRange else nr_NALP n)
      in map (\<lambda>i. nr_PSS n + of_nat i) [0..<Suc (unat count)])"

definition ParseNackRange :: "bytes \<Rightarrow> ctrl_err + adv_NackRange" where
  "ParseNackRange body =
     (if length body < nackBodySize then Inl ErrShortControl
      else Inr \<lparr>nr_MediaSSRC = be32_get body 0, nr_PSS = be32_get body 4, nr_NALP = be32_get body 8\<rparr>)"

section \<open>Packing a list of missing sequence numbers\<close>

text \<open>The comparison of sort.Slice orders distinct sequence numbers strictly, so the sorted list is unique and the
  stability of the sort does not matter.\<close>

definition sortSeqsWrap :: "u32 list \<Rightarrow> u32 list" where
  "sortSeqsWrap s = (case s of [] \<Rightarrow> [] | pivot # _ \<Rightarrow> sort_key (\<lambda>x. sint (x - pivot)) s)"

text \<open>The inner loops: what one entry takes from the front of the list, and the rest.\<close>

fun bitmask_run :: "u32 \<Rightarrow> u32 \<Rightarrow> u32 list \<Rightarrow> u32 \<times> u32 list" where
  "bitmask_run pss blp [] = (blp, [])"
| "bitmask_run pss blp (x # xs) =
     (let delta = x - pss
      in if delta = 0 then bitmask_run pss blp xs
         else if delta > 32 then (blp, x # xs)
         else bitmask_run pss (blp OR push_bit (unat (delta - 1)) 1) xs)"

fun range_run :: "u32 \<Rightarrow> u32 \<Rightarrow> u32 list \<Rightarrow> u32 \<times> u32 list" where
  "range_run pss cur [] = (cur, [])"
| "range_run pss cur (next # xs) =
     (if next = cur then range_run pss next xs
      else if next \<noteq> cur + 1 then (cur, next # xs)
      else if next - pss \<ge> maxNACKDecodeRange then (cur, next # xs)
      else range_run pss next xs)"

lemma length_bitmask_run: "length (snd (bitmask_run pss blp xs)) \<le> length xs"
  by (induction pss blp xs rule: bitmask_run.induct) (auto simp: Let_def)

lemma length_range_run: "length (snd (range_run pss cur xs)) \<le> length xs"
  by (induction pss cur xs rule: range_run.induct) auto

function bitmask_loop :: "u32 \<Rightarrow> u32 list \<Rightarrow> adv_NackBitmask list" where
  "bitmask_loop ssrc [] = []"
| "bitmask_loop ssrc (pss # xs) =
     (let (blp, rest) = bitmask_run pss 0 xs
      in \<lparr>nb_MediaSSRC = ssrc, nb_PSS = pss, nb_BLP = blp\<rparr> # bitmask_loop ssrc rest)"
  by pat_completeness auto
termination
proof (relation "measure (length \<circ> snd)")
  fix pss :: u32 and xs rest blp b and ssrc :: u32
  assume "b = bitmask_run pss 0 xs" "(blp, rest) = b"
  then show "((ssrc, rest), ssrc, pss # xs) \<in> measure (length \<circ> snd)"
    using length_bitmask_run [of pss 0 xs] by (metis comp_apply in_measure le_imp_less_Suc length_Cons snd_conv)
qed simp

function range_loop :: "u32 \<Rightarrow> u32 list \<Rightarrow> adv_NackRange list" where
  "range_loop ssrc [] = []"
| "range_loop ssrc (pss # xs) =
     (let (cur, rest) = range_run pss pss xs
      in \<lparr>nr_MediaSSRC = ssrc, nr_PSS = pss, nr_NALP = cur - pss\<rparr> # range_loop ssrc rest)"
  by pat_completeness auto
termination
proof (relation "measure (length \<circ> snd)")
  fix pss :: u32 and xs rest cur b and ssrc :: u32
  assume "b = range_run pss pss xs" "(cur, rest) = b"
  then show "((ssrc, rest), ssrc, pss # xs) \<in> measure (length \<circ> snd)"
    using length_range_run [of pss pss xs] by (metis comp_apply in_measure le_imp_less_Suc length_Cons snd_conv)
qed simp

definition adv_EncodeBitmaskNACK :: "u32 \<Rightarrow> u32 list \<Rightarrow> adv_NackBitmask list" where
  "adv_EncodeBitmaskNACK mediaSSRC missing = bitmask_loop mediaSSRC (sortSeqsWrap missing)"

definition adv_EncodeRangeNACK :: "u32 \<Rightarrow> u32 list \<Rightarrow> adv_NackRange list" where
  "adv_EncodeRangeNACK mediaSSRC missing = range_loop mediaSSRC (sortSeqsWrap missing)"

section \<open>The other bodies\<close>

record RTTEcho =
  ec_RequesterSSRC :: u32
  ec_TimestampMSW :: u32
  ec_TimestampLSW :: u32
  ec_ProcessingDelay :: u32

definition RTTEcho_Timestamp :: "RTTEcho \<Rightarrow> u64" where
  "RTTEcho_Timestamp e = push_bit 32 (ucast (ec_TimestampMSW e)) OR ucast (ec_TimestampLSW e)"

definition RTTEcho_appendBody :: "RTTEcho \<Rightarrow> bytes \<Rightarrow> bytes" where
  "RTTEcho_appendBody e dst = dst @ be32_put (ec_RequesterSSRC e) @ be32_put (ec_TimestampMSW e) @
     be32_put (ec_TimestampLSW e) @ be32_put (ec_ProcessingDelay e)"

definition RTTEchoFromTimestamp :: "u32 \<Rightarrow> u64 \<Rightarrow> u32 \<Rightarrow> RTTEcho" where
  "RTTEchoFromTimestamp requesterSSRC ts processingDelay =
     \<lparr>ec_RequesterSSRC = requesterSSRC, ec_TimestampMSW = ucast (drop_bit 32 ts), ec_TimestampLSW = ucast ts,
      ec_ProcessingDelay = processingDelay\<rparr>"

definition ParseRTTEcho :: "bytes \<Rightarrow> ctrl_err + RTTEcho" where
  "ParseRTTEcho body =
     (if length body < rttEchoBodySize then Inl ErrShortControl
      else Inr \<lparr>ec_RequesterSSRC = be32_get body 0, ec_TimestampMSW = be32_get body 4, ec_TimestampLSW = be32_get body 8,
                ec_ProcessingDelay = be32_get body 12\<rparr>)"

record adv_Keepalive =
  ak_MAC :: bytes
  ak_Caps :: u32

definition adv_Keepalive_appendBody :: "adv_Keepalive \<Rightarrow> bytes \<Rightarrow> bytes" where
  "adv_Keepalive_appendBody k dst = dst @ ak_MAC k @ be32_put (ak_Caps k)"

definition adv_ParseKeepalive :: "bytes \<Rightarrow> ctrl_err + adv_Keepalive" where
  "adv_ParseKeepalive body =
     (if length body < keepaliveBodySize then Inl ErrShortControl
      else Inr \<lparr>ak_MAC = take 6 body, ak_Caps = be32_get body 6\<rparr>)"

record PSKNonce =
  pn_Nonce :: bytes
  pn_KeyBits :: u16

definition PSKNonce_appendBody :: "PSKNonce \<Rightarrow> bytes \<Rightarrow> bytes" where
  "PSKNonce_appendBody p dst = dst @ pn_Nonce p @ be16_put (pn_KeyBits p) @ [0, 0]"

definition ParsePSKNonce :: "bytes \<Rightarrow> ctrl_err + PSKNonce" where
  "ParsePSKNonce body =
     (if length body < pskNonceBodySize then Inl ErrShortControl
      else Inr \<lparr>pn_Nonce = take 4 body, pn_KeyBits = be16_get body 4\<rparr>)"

record Unsupported =
  un_ResponderSSRC :: u32
  un_IncomingCI :: u16
  un_Head :: bytes

definition Unsupported_appendBody :: "Unsupported \<Rightarrow> bytes \<Rightarrow> bytes" where
  "Unsupported_appendBody u dst =
     dst @ be32_put (un_ResponderSSRC u) @ be16_put (un_IncomingCI u) @ [0, 0] @ un_Head u @ [0, 0]"

definition BuildNackBitmask :: "bytes \<Rightarrow> adv_NackBitmask \<Rightarrow> bytes" where
  "BuildNackBitmask dst n = BuildControl dst CINackBitmask (NackBitmask_appendBody n [])"

definition BuildNackRange :: "bytes \<Rightarrow> adv_NackRange \<Rightarrow> bytes" where
  "BuildNackRange dst n = BuildControl dst CINackRange (NackRange_appendBody n [])"

definition BuildRTTEchoRequest :: "bytes \<Rightarrow> RTTEcho \<Rightarrow> bytes" where
  "BuildRTTEchoRequest dst e = BuildControl dst CIRTTEchoReq (RTTEcho_appendBody e [])"

definition BuildRTTEchoResponse :: "bytes \<Rightarrow> RTTEcho \<Rightarrow> bytes" where
  "BuildRTTEchoResponse dst e = BuildControl dst CIRTTEchoResp (RTTEcho_appendBody e [])"

definition adv_BuildKeepalive :: "bytes \<Rightarrow> adv_Keepalive \<Rightarrow> bytes" where
  "adv_BuildKeepalive dst k = BuildControl dst CIKeepalive (adv_Keepalive_appendBody k [])"

definition BuildPSKNonce :: "bytes \<Rightarrow> PSKNonce \<Rightarrow> bytes" where
  "BuildPSKNonce dst p = BuildControl dst CIPSKNonce (PSKNonce_appendBody p [])"

definition BuildUnsupported :: "bytes \<Rightarrow> Unsupported \<Rightarrow> bytes" where
  "BuildUnsupported dst u = BuildControl dst CIUnsupported (Unsupported_appendBody u [])"

definition BuildFlowAttr :: "bytes \<Rightarrow> bytes \<Rightarrow> bytes" where
  "BuildFlowAttr dst json = BuildControl dst CIFlowAttr json"

lemma nack_bodies:
  "ParseNackRange (NackRange_appendBody r [] @ rest) = Inr r" "ParseNackBitmask (NackBitmask_appendBody b [] @ rest) = Inr b"
  by (simp_all add: ParseNackRange_def NackRange_appendBody_def ParseNackBitmask_def NackBitmask_appendBody_def ctrl_sizes be_reads)

lemma echo_body: "ParseRTTEcho (RTTEcho_appendBody e [] @ rest) = Inr e"
  by (simp add: ParseRTTEcho_def RTTEcho_appendBody_def ctrl_sizes be_reads)

lemma echo_timestamp: "RTTEcho_Timestamp (RTTEchoFromTimestamp s ts d) = ts"
  by (rule bit_word_eqI) (auto simp: RTTEcho_Timestamp_def RTTEchoFromTimestamp_def bit_simps)

lemma adv_keepalive_body:
  "length (ak_MAC k) = 6 \<Longrightarrow> adv_ParseKeepalive (adv_Keepalive_appendBody k [] @ rest) = Inr k"
  by (simp add: adv_ParseKeepalive_def adv_Keepalive_appendBody_def ctrl_sizes be_reads)

lemma psk_nonce_body: "length (pn_Nonce p) = 4 \<Longrightarrow> ParsePSKNonce (PSKNonce_appendBody p [] @ rest) = Inr p"
  by (simp add: ParsePSKNonce_def PSKNonce_appendBody_def ctrl_sizes be_reads)

section \<open>Exactness of the packing\<close>

lemma maxNACK_nat: "unat maxNACKDecodeRange = 10000"
  by (simp add: maxNACKDecodeRange_def)

lemma unat_step:
  fixes x pss :: u32
  assumes "unat (x - pss) < 10000"
  shows "unat (x + 1 - pss) = Suc (unat (x - pss))"
proof -
  define d where "d = x - pss"
  have "unat (d + 1) = Suc (unat d)" using assms by (simp add: d_def [symmetric] unat_word_ariths)
  moreover have "x + 1 - pss = d + 1" by (simp add: d_def)
  ultimately show ?thesis by (simp only: d_def)
qed

text \<open>One range entry takes a maximal run: it covers the same sequence numbers as the part of the list it consumed.\<close>

lemma range_run_covers:
  assumes "unat (cur - pss) < 10000" "range_run pss cur xs = (l, ys)"
  shows "remdups_adj (cur # xs) = map (\<lambda>i. pss + of_nat i) [unat (cur - pss)..<Suc (unat (l - pss))] @ remdups_adj ys \<and>
    unat (cur - pss) \<le> unat (l - pss) \<and> unat (l - pss) < 10000"
  using assms
proof (induction pss cur xs rule: range_run.induct)
  case (1 pss cur)
  then show ?case by simp
next
  case (2 pss cur nxt xs)
  show ?case
  proof (cases "nxt \<noteq> cur \<and> nxt = cur + 1 \<and> \<not> nxt - pss \<ge> maxNACKDecodeRange")
    case True
    then have run: "range_run pss nxt xs = (l, ys)" and lt: "unat (nxt - pss) < 10000"
      using "2.prems"(2) maxNACK_nat by (auto simp: word_le_nat_alt)
    have step: "unat (nxt - pss) = Suc (unat (cur - pss))" using True unat_step [OF "2.prems"(1)] by simp
    have ih: "remdups_adj (nxt # xs) = map (\<lambda>i. pss + of_nat i) [unat (nxt - pss)..<Suc (unat (l - pss))] @ remdups_adj ys \<and>
      unat (nxt - pss) \<le> unat (l - pss) \<and> unat (l - pss) < 10000"
      using True "2.IH"(2) [OF _ _ _ lt run] by blast
    have "remdups_adj (cur # nxt # xs) = cur # remdups_adj (nxt # xs)" using True by simp
    moreover have "[unat (cur - pss)..<Suc (unat (l - pss))] = unat (cur - pss) # [unat (nxt - pss)..<Suc (unat (l - pss))]"
      using ih step by (simp add: upt_rec [of "unat (cur - pss)"])
    ultimately show ?thesis using ih step by simp
  next
    case False
    show ?thesis
    proof (cases "nxt = cur")
      case True
      then show ?thesis using 2 by simp
    next
      case ne: False
      then have "range_run pss cur (nxt # xs) = (cur, nxt # xs)" using False by auto
      then have "l = cur" "ys = nxt # xs" using "2.prems"(2) by simp_all
      then show ?thesis using ne "2.prems"(1) by simp
    qed
  qed
qed

lemma range_loop_covers: "concat (map NackRange_Missing (range_loop ssrc xs)) = remdups_adj xs"
proof (induction ssrc xs rule: range_loop.induct)
  case (2 ssrc pss xs)
  obtain l ys where run: "range_run pss pss xs = (l, ys)" by force
  have cov: "remdups_adj (pss # xs) = map (\<lambda>i. pss + of_nat i) [0..<Suc (unat (l - pss))] @ remdups_adj ys"
    and lt: "unat (l - pss) < 10000"
    using range_run_covers [OF _ run] by simp_all
  have "NackRange_Missing \<lparr>nr_MediaSSRC = ssrc, nr_PSS = pss, nr_NALP = l - pss\<rparr> =
      map (\<lambda>i. pss + of_nat i) [0..<Suc (unat (l - pss))]"
    using lt maxNACK_nat by (simp add: NackRange_Missing_def word_less_nat_alt)
  then show ?case using 2 run cov by simp
qed simp

lemma range_loop_bound: "n \<in> set (range_loop ssrc xs) \<Longrightarrow> nr_NALP n < maxNACKDecodeRange"
proof (induction ssrc xs rule: range_loop.induct)
  case (2 ssrc pss xs)
  obtain l ys where run: "range_run pss pss xs = (l, ys)" by force
  then have "unat (l - pss) < 10000" using range_run_covers [OF _ run] by simp
  then show ?case using 2 run maxNACK_nat by (auto simp: word_less_nat_alt)
qed simp

text \<open>Sorting by signed distance from a pivot makes the unsigned distances from any element ascend after it.\<close>

lemma unat_diff_sint:
  fixes x y p :: u32
  assumes "sint (x - p) \<le> sint (y - p)"
  shows "unat (y - x) = nat (sint (y - p) - sint (x - p))"
proof -
  let ?k = "sint (y - p) - sint (x - p)"
  have "- (2 ^ 31) \<le> sint (x - p)" "sint (y - p) < 2 ^ 31"
    using sint_ge [of "x - p"] sint_lt [of "y - p"] by simp_all
  then have k: "0 \<le> ?k" "?k < 2 ^ 32" using assms by simp_all
  have "y - x = word_of_int ?k" by simp
  then have "uint (y - x) = ?k" using k by (simp add: uint_word_of_int_eq take_bit_int_eq_self del: wi_homs of_int_diff)
  then show ?thesis by (simp only: nat_uint_eq [symmetric])
qed

definition ascending :: "u32 \<Rightarrow> u32 list \<Rightarrow> bool" where
  "ascending p xs \<longleftrightarrow> sorted (map (\<lambda>x. sint (x - p)) xs)"

lemma ascending_from_head: "ascending p (pss # xs) \<Longrightarrow> sorted (map (\<lambda>x. unat (x - pss)) (pss # xs))"
proof -
  assume a: "ascending p (pss # xs)"
  have "unat (x - pss) = nat (sint (x - p) - sint (pss - p))" if "x \<in> set (pss # xs)" for x
    using a that by (intro unat_diff_sint) (auto simp: ascending_def)
  then have "map (\<lambda>x. unat (x - pss)) (pss # xs) = map (\<lambda>x. nat (sint (x - p) - sint (pss - p))) (pss # xs)"
    by (intro map_cong) auto
  moreover have "sorted (map (\<lambda>x. nat (sint (x - p) - sint (pss - p))) (pss # xs))"
    using a unfolding ascending_def sorted_map by (rule sorted_wrt_mono_rel [rotated]) simp
  ultimately show ?thesis by (simp only:)
qed

lemma ascending_sort: "s \<noteq> [] \<Longrightarrow> ascending (hd s) (sortSeqsWrap s)"
  by (cases s) (simp_all only: ascending_def sortSeqsWrap_def list.case list.sel sorted_sort_key simp_thms list.distinct)

lemma set_sortSeqsWrap [simp]: "set (sortSeqsWrap s) = set s"
  unfolding sortSeqsWrap_def by (cases s) (simp_all only: list.case set_sort)

lemma bitmask_run_suffix: "\<exists>zs. xs = zs @ snd (bitmask_run pss blp xs)"
proof (induction pss blp xs rule: bitmask_run.induct)
  case (2 pss blp x xs)
  show ?case
  proof (cases "x - pss \<noteq> 0 \<and> x - pss > 32")
    case False
    then show ?thesis using 2 by (cases "x = pss") (simp_all add: Let_def, (metis append_Cons)+)
  qed (auto simp: Let_def)
qed simp

lemma bitmask_run_covers:
  assumes "sorted (map (\<lambda>x. unat (x - pss)) (cur # xs))" "unat (cur - pss) \<le> 32"
    "\<forall>i \<ge> unat (cur - pss). \<not> bit blp i" "0 < unat (cur - pss) \<longrightarrow> bit blp (unat (cur - pss) - 1)"
    "bitmask_run pss blp xs = (b, ys)"
  shows "remdups_adj (cur # xs) =
      cur # map (\<lambda>i. pss + 1 + of_nat i) (filter (bit b) [unat (cur - pss)..<32]) @ remdups_adj ys \<and>
    (\<forall>i < unat (cur - pss). bit b i = bit blp i)"
  using assms
proof (induction xs arbitrary: cur blp)
  case Nil
  then have "filter (bit b) [unat (cur - pss)..<32] = []" by (auto simp: filter_empty_conv)
  then show ?case using Nil by simp
next
  case (Cons x xs)
  define m where "m = unat (cur - pss)"
  define d where "d = unat (x - pss)"
  have md: "m \<le> d" and srt: "sorted (map (\<lambda>x. unat (x - pss)) (x # xs))"
    using Cons.prems(1) by (simp_all add: m_def d_def)
  consider "d = 0" | "32 < d" | "0 < d" "d \<le> 32" by linarith
  then show ?case
  proof cases
    case 1
    then have "x = pss" "cur = pss" using md by (simp_all add: d_def m_def unat_eq_zero)
    then show ?thesis using Cons.IH [OF srt] Cons.prems by simp
  next
    case 2
    then have "\<not> x - pss = 0" "x - pss > 32" "cur \<noteq> x"
      using Cons.prems(2) by (auto simp: d_def word_less_nat_alt)
    then have "b = blp" "ys = x # xs" using Cons.prems(5) by (simp_all add: Let_def)
    then show ?thesis using Cons.prems(3) \<open>cur \<noteq> x\<close> by (simp add: filter_empty_conv)
  next
    case 3
    then have x: "x - pss \<noteq> 0" "\<not> x - pss > 32" by (auto simp: d_def word_less_nat_alt)
    have pre: "unat (x - pss - 1) = d - 1" using x(1) by (simp add: d_def unat_minus_one)
    define blp' where "blp' = blp OR push_bit (d - 1) 1"
    have bits: "bit blp' i \<longleftrightarrow> bit blp i \<or> i = d - 1" if "i < 32" for i
      using that by (auto simp: blp'_def bit_simps)
    have hi: "\<forall>i \<ge> d. \<not> bit blp' i"
    proof (intro allI impI)
      fix i assume "d \<le> i"
      then show "\<not> bit blp' i"
        using bits [of i] Cons.prems(3) md 3 bit_imp_le_length [of blp' i] by (cases "i < 32") (auto simp: m_def)
    qed
    have run: "bitmask_run pss blp' xs = (b, ys)" using Cons.prems(5) x pre by (simp add: Let_def blp'_def)
    have ih: "remdups_adj (x # xs) = x # map (\<lambda>i. pss + 1 + of_nat i) (filter (bit b) [d..<32]) @ remdups_adj ys"
      "\<forall>i < d. bit b i = bit blp' i"
      using Cons.IH [OF srt _ _ _ run] hi bits [of "d - 1"] 3 by (simp_all add: d_def)
    show ?thesis
    proof (cases "x = cur")
      case True
      then have "m = d" by (simp add: m_def d_def)
      moreover have "bit blp' i = bit blp i" if "i < d" for i
        using that bits [of i] Cons.prems(4) 3 \<open>m = d\<close> by (auto simp: m_def)
      ultimately show ?thesis using ih True by (simp add: m_def)
    next
      case False
      then have "m < d" using md by (metis d_def m_def le_neq_implies_less eq_diff_eq diff_add_cancel unsigned_word_eqI)
      have "filter (bit b) [m..<d] = filter (\<lambda>i. i = d - 1) [m..<d]"
        using ih(2) bits Cons.prems(3) 3 by (intro filter_cong) (auto simp: m_def)
      also have "\<dots> = [d - 1]"
      proof -
        have "[m..<d] = [m..<d - 1] @ [d - 1]" using \<open>m < d\<close> by (metis Suc_diff_1 less_Suc_eq_le not_less_zero upt_Suc_append gr0I)
        then show ?thesis by (simp add: filter_empty_conv)
      qed
      finally have "filter (bit b) [m..<32] = (d - 1) # filter (bit b) [d..<32]"
        using \<open>m < d\<close> 3 upt_add_eq_append [of m d "32 - d"] by simp
      moreover have "pss + 1 + of_nat (d - 1) = x"
        using 3 by (simp add: d_def of_nat_diff)
      moreover have "\<forall>i < m. bit b i = bit blp i" using ih(2) bits \<open>m < d\<close> 3 by auto
      ultimately show ?thesis using ih(1) False by (simp add: m_def)
    qed
  qed
qed

lemma bitmask_loop_covers: "ascending p xs \<Longrightarrow> concat (map NackBitmask_Missing (bitmask_loop ssrc xs)) = remdups_adj xs"
proof (induction ssrc xs rule: bitmask_loop.induct)
  case (2 ssrc pss xs)
  obtain b ys where run: "bitmask_run pss 0 xs = (b, ys)" by force
  have cov: "remdups_adj (pss # xs) = pss # map (\<lambda>i. pss + 1 + of_nat i) (filter (bit b) [0..<32]) @ remdups_adj ys"
    using bitmask_run_covers [OF ascending_from_head [OF "2.prems"] _ _ _ run] by simp
  have "filter (\<lambda>i. b AND push_bit i 1 \<noteq> 0) [0..<32] = filter (bit b) [0..<32]"
    using and_bit_zero_iff [of b] by (intro filter_cong) auto
  then have "NackBitmask_Missing \<lparr>nb_MediaSSRC = ssrc, nb_PSS = pss, nb_BLP = b\<rparr> =
      pss # map (\<lambda>i. pss + 1 + of_nat i) (filter (bit b) [0..<32])"
    unfolding NackBitmask_Missing_def by simp
  moreover have "ascending p ys"
    using bitmask_run_suffix [of xs pss 0] run "2.prems" by (auto simp: ascending_def sorted_append)
  ultimately show ?case using "2.IH" [OF run [symmetric] refl] run cov by simp
qed simp

lemma ascending_distinct: "ascending p xs \<Longrightarrow> distinct (remdups_adj xs)"
proof (induction xs rule: remdups_adj.induct)
  case (3 x y xs)
  show ?case
  proof (cases "x = y")
    case True
    then show ?thesis using 3 by (simp add: ascending_def)
  next
    case False
    have srt: "ascending p (y # xs)" using "3.prems" by (simp add: ascending_def)
    have "x \<notin> set (y # xs)"
    proof
      assume "x \<in> set (y # xs)"
      then have "sint (y - p) \<le> sint (x - p)" using srt by (auto simp: ascending_def)
      moreover have "sint (x - p) \<le> sint (y - p)" using "3.prems" by (simp add: ascending_def)
      ultimately have "sint (x - p) = sint (y - p)" by simp
      then show False using False signed_word_eqI [of "x - p" "y - p"] by simp
    qed
    then show ?thesis using False "3.IH"(2) [OF False srt] by simp
  qed
qed simp_all

text \<open>C27: the NACK packers of the Advanced profile are exact, with no bound on the window.  Expanding all the range
  entries, or all the bitmask entries, built from a list of missing sequence numbers (unsorted, with duplicates, across
  the 32-bit wrap) gives one and the same list: every missing number exactly once, none besides, in circular order.
  No range entry reaches the decoding cap, so no receiver cuts one short.\<close>

theorem adv_nack_exact:
  "concat (map NackRange_Missing (adv_EncodeRangeNACK ssrc missing)) = remdups_adj (sortSeqsWrap missing) \<and>
   concat (map NackBitmask_Missing (adv_EncodeBitmaskNACK ssrc missing)) = remdups_adj (sortSeqsWrap missing) \<and>
   set (remdups_adj (sortSeqsWrap missing)) = set missing \<and> distinct (remdups_adj (sortSeqsWrap missing)) \<and>
   list_all (\<lambda>n. nr_NALP n < maxNACKDecodeRange) (adv_EncodeRangeNACK ssrc missing)"
proof -
  have "ascending (hd missing) (sortSeqsWrap missing)"
    by (cases "missing = []") (simp_all add: ascending_sort, simp add: sortSeqsWrap_def ascending_def)
  then show ?thesis
    using range_loop_covers bitmask_loop_covers ascending_distinct range_loop_bound
    by (auto simp: adv_EncodeRangeNACK_def adv_EncodeBitmaskNACK_def list_all_iff)
qed

end
