(* ===== verification/Bonding.thy ===== *)
theory Bonding
  imports Rtt "HOL-Library.Product_Lexorder"
begin

text \<open>Link bonding, internal/bonding/bonding.go: the paths of a flow, their liveness, the choice of the path a NACK
  goes to and the weighted rotation of a load-sharing sender.  A \<open>*Path\<close> is a position in the group's list.\<close>

section \<open>Paths and groups\<close>

definition WeightDuplicate :: int where "WeightDuplicate = 0"

record Path =
  pa_Index :: u8
  pa_Weight :: int
  pa_Priority :: u32
  pa_wCount :: int
  pa_rtt :: Estimator
  pa_lastSeen :: Timestamp
  pa_seen :: bool
  pa_dead :: bool
  pa_recvPkts :: u64
  pa_recvBytes :: u64
  pa_sentPkts :: u64
  pa_sentBytes :: u64
  pa_retxPkts :: u64
  pa_retxBytes :: u64

record PathStats =
  ps_Index :: u8
  ps_RTT :: Microseconds
  ps_Alive :: bool
  ps_Weight :: int
  ps_Priority :: u32
  ps_RecvPkts :: u64
  ps_RecvBytes :: u64
  ps_SentPkts :: u64
  ps_SentBytes :: u64
  ps_RetransmittedPkts :: u64
  ps_RetransmittedBytes :: u64

record Group =
  gr_paths :: "Path list"
  gr_timeout :: Microseconds
  gr_dupGrace :: Microseconds
  gr_rttMin :: Microseconds
  gr_rttMax :: Microseconds

definition Path_RTT :: "Path \<Rightarrow> Group \<Rightarrow> Microseconds" where
  "Path_RTT p g = Clamped (pa_rtt p) (gr_rttMin g) (gr_rttMax g)"

definition nackRTT :: "Path \<Rightarrow> Group \<Rightarrow> Microseconds" where
  "nackRTT p g = LastClamped (pa_rtt p) (gr_rttMin g) (gr_rttMax g)"

definition NewGroup :: "Microseconds \<Rightarrow> Microseconds \<Rightarrow> Microseconds \<Rightarrow> Microseconds \<Rightarrow> Group" where
  "NewGroup sessionTimeout dupGrace rttMin rttMax =
     \<lparr>gr_paths = [], gr_timeout = sessionTimeout, gr_dupGrace = dupGrace, gr_rttMin = rttMin, gr_rttMax = rttMax\<rparr>"

text \<open>The first path with an index, and a write through its pointer.\<close>

definition group_path :: "Group \<Rightarrow> u8 \<Rightarrow> Path option" where
  "group_path g index = find (\<lambda>p. pa_Index p = index) (gr_paths g)"

fun set_first :: "u8 \<Rightarrow> (Path \<Rightarrow> Path) \<Rightarrow> Path list \<Rightarrow> Path list" where
  "set_first index f [] = []"
| "set_first index f (p # ps) = (if pa_Index p = index then f p # ps else p # set_first index f ps)"

definition set_path :: "u8 \<Rightarrow> (Path \<Rightarrow> Path) \<Rightarrow> Group \<Rightarrow> Group" where
  "set_path index f g = g\<lparr>gr_paths := set_first index f (gr_paths g)\<rparr>"

definition AddPath :: "Group \<Rightarrow> u8 \<Rightarrow> int \<Rightarrow> u32 \<Rightarrow> Group" where
  "AddPath g index weight priority =
     (if group_path g index \<noteq> None
      then set_path index (\<lambda>p. p\<lparr>pa_Weight := weight, pa_Priority := priority, pa_wCount := weight\<rparr>) g
      else g\<lparr>gr_paths := gr_paths g @
        [\<lparr>pa_Index = index, pa_Weight = weight, pa_Priority = priority, pa_wCount = weight,
          pa_rtt = Estimator_New (gr_rttMin g), pa_lastSeen = 0, pa_seen = False, pa_dead = False, pa_recvPkts = 0,
          pa_recvBytes = 0, pa_sentPkts = 0, pa_sentBytes = 0, pa_retxPkts = 0, pa_retxBytes = 0\<rparr>]\<rparr>)"

fun remove_first :: "u8 \<Rightarrow> Path list \<Rightarrow> Path list" where
  "remove_first index [] = []"
| "remove_first index (p # ps) = (if pa_Index p = index then ps else p # remove_first index ps)"

definition RemovePath :: "Group \<Rightarrow> u8 \<Rightarrow> Group \<times> bool" where
  "RemovePath g index = (g\<lparr>gr_paths := remove_first index (gr_paths g)\<rparr>, group_path g index \<noteq> None)"

definition HasPath :: "Group \<Rightarrow> u8 \<Rightarrow> bool" where
  "HasPath g index \<longleftrightarrow> group_path g index \<noteq> None"

section \<open>Observations and counters\<close>

definition Group_Observe :: "Group \<Rightarrow> u8 \<Rightarrow> Timestamp \<Rightarrow> Group" where
  "Group_Observe g index now = set_path index (\<lambda>p. p\<lparr>pa_seen := True, pa_lastSeen := now, pa_dead := False\<rparr>) g"

definition Group_ObserveRTT :: "Group \<Rightarrow> u8 \<Rightarrow> Microseconds \<Rightarrow> Group" where
  "Group_ObserveRTT g index sample = set_path index (\<lambda>p. p\<lparr>pa_rtt := Observe (pa_rtt p) sample\<rparr>) g"

definition CountRecv :: "Group \<Rightarrow> u8 \<Rightarrow> int \<Rightarrow> Group" where
  "CountRecv g index bytes =
     set_path index (\<lambda>p. p\<lparr>pa_recvPkts := pa_recvPkts p + 1, pa_recvBytes := pa_recvBytes p + word_of_int bytes\<rparr>) g"

definition CountSent :: "Group \<Rightarrow> u8 \<Rightarrow> int \<Rightarrow> bool \<Rightarrow> Group" where
  "CountSent g index bytes retransmit =
     set_path index (\<lambda>p.
       if retransmit then p\<lparr>pa_retxPkts := pa_retxPkts p + 1, pa_retxBytes := pa_retxBytes p + word_of_int bytes\<rparr>
       else p\<lparr>pa_sentPkts := pa_sentPkts p + 1, pa_sentBytes := pa_sentBytes p + word_of_int bytes\<rparr>) g"

definition PeerSnapshots :: "Group \<Rightarrow> Timestamp \<Rightarrow> PathStats list" where
  "PeerSnapshots g now =
     map (\<lambda>p. \<lparr>ps_Index = pa_Index p, ps_RTT = Clamped (pa_rtt p) (gr_rttMin g) (gr_rttMax g),
       ps_Alive = (pa_seen p \<and> Timestamp_Sub now (pa_lastSeen p) \<le> gr_timeout g), ps_Weight = pa_Weight p,
       ps_Priority = pa_Priority p, ps_RecvPkts = pa_recvPkts p, ps_RecvBytes = pa_recvBytes p,
       ps_SentPkts = pa_sentPkts p, ps_SentBytes = pa_sentBytes p, ps_RetransmittedPkts = pa_retxPkts p,
       ps_RetransmittedBytes = pa_retxBytes p\<rparr>) (gr_paths g)"

definition Alive :: "Group \<Rightarrow> u8 \<Rightarrow> Timestamp \<Rightarrow> bool" where
  "Alive g index now \<longleftrightarrow>
     (case group_path g index of None \<Rightarrow> False
      | Some p \<Rightarrow> pa_seen p \<and> Timestamp_Sub now (pa_lastSeen p) \<le> gr_timeout g)"

text \<open>A path whose death this tick reports.\<close>

definition dying :: "Group \<Rightarrow> Timestamp \<Rightarrow> Path \<Rightarrow> bool" where
  "dying g now p \<longleftrightarrow> \<not> (\<not> pa_seen p \<or> pa_dead p) \<and> Timestamp_Sub now (pa_lastSeen p) > gr_timeout g"

definition Group_Tick :: "Group \<Rightarrow> Timestamp \<Rightarrow> Group \<times> u8 list" where
  "Group_Tick g now =
     (g\<lparr>gr_paths := map (\<lambda>p. if dying g now p then p\<lparr>pa_dead := True\<rparr> else p) (gr_paths g)\<rparr>,
      map pa_Index (filter (dying g now) (gr_paths g)))"

section \<open>The path of a NACK\<close>

definition preferred :: "Path \<Rightarrow> Path \<Rightarrow> Group \<Rightarrow> bool" where
  "preferred cand best g =
     (if pa_Priority cand \<noteq> pa_Priority best then pa_Priority cand > pa_Priority best
      else nackRTT cand g < nackRTT best g)"

text \<open>The loops that keep the best path so far: a later path replaces it only when it is strictly better.\<close>

fun pick :: "('a \<Rightarrow> bool) \<Rightarrow> ('a \<Rightarrow> 'a \<Rightarrow> bool) \<Rightarrow> 'a option \<Rightarrow> 'a list \<Rightarrow> 'a option" where
  "pick ok better best [] = best"
| "pick ok better best (p # ps) =
     (if \<not> ok p then pick ok better best ps
      else pick ok better (case best of None \<Rightarrow> Some p | Some b \<Rightarrow> if better p b then Some p else Some b) ps)"

definition usable :: "(u8 \<Rightarrow> bool) option \<Rightarrow> Path \<Rightarrow> bool" where
  "usable addrKnown p = (case addrKnown of None \<Rightarrow> True | Some f \<Rightarrow> f (pa_Index p))"

definition SelectNackPath :: "Group \<Rightarrow> Timestamp \<Rightarrow> (u8 \<Rightarrow> bool) option \<Rightarrow> u8 option" where
  "SelectNackPath g now addrKnown =
     (case pick (\<lambda>p. Alive g (pa_Index p) now \<and> usable addrKnown p) (\<lambda>p b. preferred p b g) None (gr_paths g) of
        Some best \<Rightarrow> Some (pa_Index best)
      | None \<Rightarrow> map_option pa_Index
          (pick (\<lambda>p. pa_seen p \<and> usable addrKnown p) (\<lambda>p b. After (pa_lastSeen p) (pa_lastSeen b)) None (gr_paths g)))"

section \<open>Duplication and load sharing\<close>

definition liveWithin :: "Path \<Rightarrow> Timestamp \<Rightarrow> Microseconds \<Rightarrow> bool" where
  "liveWithin p now window \<longleftrightarrow> \<not> (pa_seen p \<and> Timestamp_Sub now (pa_lastSeen p) > window)"

definition sendable :: "Group \<Rightarrow> Path \<Rightarrow> Timestamp \<Rightarrow> bool" where
  "sendable g p now = liveWithin p now (gr_timeout g)"

definition duplicable :: "Group \<Rightarrow> Path \<Rightarrow> Timestamp \<Rightarrow> bool" where
  "duplicable g p now = liveWithin p now (gr_timeout g + gr_dupGrace g)"

definition ShouldDuplicate :: "Group \<Rightarrow> u8 \<Rightarrow> Timestamp \<Rightarrow> bool" where
  "ShouldDuplicate g index now =
     (case group_path g index of None \<Rightarrow> False | Some p \<Rightarrow> pa_Weight p = WeightDuplicate \<and> duplicable g p now)"

definition HasWeighted :: "Group \<Rightarrow> bool" where
  "HasWeighted g = list_ex (\<lambda>p. pa_Weight p > 0) (gr_paths g)"

definition weighted_live :: "Group \<Rightarrow> Timestamp \<Rightarrow> Path \<Rightarrow> bool" where
  "weighted_live g now p \<longleftrightarrow> \<not> (pa_Weight p \<le> 0 \<or> \<not> sendable g p now)"

definition bestWeighted :: "Group \<Rightarrow> Timestamp \<Rightarrow> nat option" where
  "bestWeighted g now =
     pick (\<lambda>i. weighted_live g now (gr_paths g ! i)) (\<lambda>i b. pa_wCount (gr_paths g ! i) > pa_wCount (gr_paths g ! b)) None
       [0..<length (gr_paths g)]"

definition refill :: "Group \<Rightarrow> Timestamp \<Rightarrow> Group" where
  "refill g now = g\<lparr>gr_paths :=
     map (\<lambda>p. if pa_Weight p > 0 \<and> sendable g p now then p\<lparr>pa_wCount := pa_Weight p\<rparr> else p) (gr_paths g)\<rparr>"

definition spend :: "Group \<Rightarrow> nat \<Rightarrow> Group" where
  "spend g i = g\<lparr>gr_paths := (gr_paths g)[i := (gr_paths g ! i)\<lparr>pa_wCount := pa_wCount (gr_paths g ! i) - 1\<rparr>]\<rparr>"

definition SelectWeighted :: "Group \<Rightarrow> Timestamp \<Rightarrow> Group \<times> u8 option" where
  "SelectWeighted g now =
     (if \<not> HasWeighted g then (g, None)
      else case bestWeighted g now of None \<Rightarrow> (g, None)
      | Some best \<Rightarrow>
          let g' = (if pa_wCount (gr_paths g ! best) \<le> 0 then refill g now else g);
              best' = (if pa_wCount (gr_paths g ! best) \<le> 0 then the (bestWeighted g' now) else best)
          in (spend g' best', Some (pa_Index (gr_paths g' ! best'))))"

definition SetWeight :: "Group \<Rightarrow> u8 \<Rightarrow> int \<Rightarrow> Group" where
  "SetWeight g index weight =
     (if group_path g index = None then g
      else let g' = set_path index (\<lambda>p. p\<lparr>pa_Weight := weight\<rparr>) g
           in g'\<lparr>gr_paths := map (\<lambda>q. q\<lparr>pa_wCount := pa_Weight q\<rparr>) (gr_paths g')\<rparr>)"

definition DuplicateTargets :: "Group \<Rightarrow> Timestamp \<Rightarrow> u8 list" where
  "DuplicateTargets g now =
     map pa_Index (filter (\<lambda>p. \<not> pa_Weight p \<noteq> WeightDuplicate \<and> duplicable g p now) (gr_paths g))"

section \<open>The best path by a key\<close>

lemma pick_best:
  fixes key :: "'a \<Rightarrow> 'k::linorder"
  assumes "\<And>p b. better p b \<longleftrightarrow> key b < key p" "pick ok better best ps = Some r"
  shows "(best = Some r \<or> r \<in> set ps \<and> ok r) \<and> (\<forall>b. best = Some b \<longrightarrow> key b \<le> key r) \<and>
    (\<forall>q \<in> set ps. ok q \<longrightarrow> key q \<le> key r)"
  using assms(2)
proof (induction ps arbitrary: best)
  case (Cons p ps)
  show ?case
  proof (cases "ok p")
    case True
    let ?b = "case best of None \<Rightarrow> Some p | Some b \<Rightarrow> if better p b then Some p else Some b"
    have ih: "(?b = Some r \<or> r \<in> set ps \<and> ok r) \<and> (\<forall>b. ?b = Some b \<longrightarrow> key b \<le> key r) \<and>
        (\<forall>q \<in> set ps. ok q \<longrightarrow> key q \<le> key r)"
      using Cons.IH [of ?b] Cons.prems True by simp
    show ?thesis
    proof (cases best)
      case None
      then show ?thesis using ih True by auto
    next
      case (Some b)
      then show ?thesis using ih True assms(1) [of p b] by (cases "better p b") auto
    qed
  next
    case False
    then show ?thesis using Cons by auto
  qed
qed simp

lemma pick_none: "pick ok better best ps = None \<longleftrightarrow> best = None \<and> (\<forall>q \<in> set ps. \<not> ok q)"
  by (induction ps arbitrary: best) (auto split: option.splits)

lemma preferred_key:
  "preferred p b g \<longleftrightarrow> (pa_Priority b, - nackRTT b g) < (pa_Priority p, - nackRTT p g)"
  by (auto simp: preferred_def less_prod_def)

section \<open>Groups with distinct indices\<close>

definition group_ok :: "Group \<Rightarrow> bool" where
  "group_ok g = distinct (map pa_Index (gr_paths g))"

lemma group_path_In: "group_ok g \<Longrightarrow> p \<in> set (gr_paths g) \<Longrightarrow> group_path g (pa_Index p) = Some p"
proof -
  have "distinct (map pa_Index ps) \<Longrightarrow> p \<in> set ps \<Longrightarrow> find (\<lambda>q. pa_Index q = pa_Index p) ps = Some p" for ps
    by (induction ps) (auto simp: image_iff)
  then show "group_ok g \<Longrightarrow> p \<in> set (gr_paths g) \<Longrightarrow> group_path g (pa_Index p) = Some p"
    by (simp add: group_ok_def group_path_def)
qed

lemma set_first_index: "(\<And>p. pa_Index (f p) = pa_Index p) \<Longrightarrow> map pa_Index (set_first i f ps) = map pa_Index ps"
  by (induction ps) auto

lemma remove_first_subset: "set (remove_first i ps) \<subseteq> set ps"
  by (induction ps) auto

lemma remove_first_distinct: "distinct (map pa_Index ps) \<Longrightarrow> distinct (map pa_Index (remove_first i ps))"
  by (induction ps) (use remove_first_subset in \<open>fastforce simp: image_iff\<close>)+

lemma group_ok_set_path: "(\<And>p. pa_Index (f p) = pa_Index p) \<Longrightarrow> group_ok (set_path i f g) = group_ok g"
  by (simp add: group_ok_def set_path_def set_first_index)

lemma group_path_None: "group_path g i = None \<longleftrightarrow> i \<notin> pa_Index ` set (gr_paths g)"
  by (auto simp: group_path_def find_None_iff)

lemma group_ok_ops:
  "group_ok (NewGroup a b c d)"
  "group_ok g \<Longrightarrow> group_ok (AddPath g i w pr)" "group_ok g \<Longrightarrow> group_ok (fst (RemovePath g i))"
  "group_ok g \<Longrightarrow> group_ok (Group_Observe g i t)" "group_ok g \<Longrightarrow> group_ok (Group_ObserveRTT g i s)"
  "group_ok g \<Longrightarrow> group_ok (CountRecv g i n)" "group_ok g \<Longrightarrow> group_ok (CountSent g i n rt)"
  "group_ok g \<Longrightarrow> group_ok (fst (Group_Tick g t))" "group_ok g \<Longrightarrow> group_ok (SetWeight g i w)"
  subgoal by (simp add: group_ok_def NewGroup_def)
  subgoal
  proof (cases "group_path g i")
    case None
    then show "group_ok g \<Longrightarrow> group_ok (AddPath g i w pr)"
      unfolding group_path_None by (auto simp: AddPath_def group_ok_def group_path_None)
  qed (simp add: AddPath_def group_ok_set_path)
  subgoal by (simp add: RemovePath_def group_ok_def remove_first_distinct)
  subgoal by (simp add: Group_Observe_def group_ok_set_path)
  subgoal by (simp add: Group_ObserveRTT_def group_ok_set_path)
  subgoal by (simp add: CountRecv_def group_ok_set_path)
  subgoal by (simp add: CountSent_def group_ok_set_path)
  subgoal by (simp add: Group_Tick_def group_ok_def comp_def if_distrib cong: if_cong)
  subgoal by (simp add: SetWeight_def Let_def group_ok_def comp_def set_path_def set_first_index)
  done

section \<open>The NACK path is the best one\<close>

definition path_alive :: "Group \<Rightarrow> Timestamp \<Rightarrow> Path \<Rightarrow> bool" where
  "path_alive g now p \<longleftrightarrow> pa_seen p \<and> now - pa_lastSeen p \<le> gr_timeout g"

lemma Alive_path: "group_ok g \<Longrightarrow> p \<in> set (gr_paths g) \<Longrightarrow> Alive g (pa_Index p) now = path_alive g now p"
  by (simp add: Alive_def group_path_In path_alive_def)


text \<open>A registered path that has not been heard is not enough.\<close>

lemma nack_path_unseen: "SelectNackPath (AddPath (NewGroup 100 50 3 500) 1 0 7) 10 None = None"
  by code_simp

section \<open>The weighted rotation\<close>

fun weighted_run :: "Group \<Rightarrow> Timestamp list \<Rightarrow> Group \<times> u8 option list" where
  "weighted_run g [] = (g, [])"
| "weighted_run g (t # ts) =
     (let (g1, r) = SelectWeighted g t; (g2, rs) = weighted_run g1 ts in (g2, r # rs))"

text \<open>Everything of a group but the credits.\<close>

definition shape :: "Group \<Rightarrow> Group" where
  "shape g = g\<lparr>gr_paths := map (\<lambda>p. p\<lparr>pa_wCount := 0\<rparr>) (gr_paths g)\<rparr>"

definition credit :: "Group \<Rightarrow> nat \<Rightarrow> int" where
  "credit g i = pa_wCount (gr_paths g ! i)"

definition live_pos :: "Group \<Rightarrow> Timestamp \<Rightarrow> nat set" where
  "live_pos g t = {i. i < length (gr_paths g) \<and> weighted_live g t (gr_paths g ! i)}"

lemma finite_live_pos [simp]: "finite (live_pos g t)"
  by (simp add: live_pos_def)

lemma shape_facts:
  assumes "shape g = shape h"
  shows "length (gr_paths g) = length (gr_paths h)" "live_pos g t = live_pos h t"
    "i < length (gr_paths h) \<Longrightarrow> pa_Index (gr_paths g ! i) = pa_Index (gr_paths h ! i) \<and>
       pa_Weight (gr_paths g ! i) = pa_Weight (gr_paths h ! i)"
proof -
  have m: "map (\<lambda>p. p\<lparr>pa_wCount := 0\<rparr>) (gr_paths g) = map (\<lambda>p. p\<lparr>pa_wCount := 0\<rparr>) (gr_paths h)"
    and t: "gr_timeout g = gr_timeout h"
    using arg_cong [OF assms, of gr_paths] arg_cong [OF assms, of gr_timeout] by (simp_all add: shape_def)
  show l: "length (gr_paths g) = length (gr_paths h)" using map_eq_imp_length_eq [OF m] .
  have e: "(gr_paths g ! i)\<lparr>pa_wCount := 0\<rparr> = (gr_paths h ! i)\<lparr>pa_wCount := 0\<rparr>" if "i < length (gr_paths h)" for i
    using m that l by (metis nth_map)
  have f: "pa_Index (gr_paths g ! i) = pa_Index (gr_paths h ! i) \<and> pa_Weight (gr_paths g ! i) = pa_Weight (gr_paths h ! i) \<and>
      pa_seen (gr_paths g ! i) = pa_seen (gr_paths h ! i) \<and> pa_lastSeen (gr_paths g ! i) = pa_lastSeen (gr_paths h ! i)"
    if "i < length (gr_paths h)" for i
    using arg_cong [OF e [OF that], of pa_Index] arg_cong [OF e [OF that], of pa_Weight]
      arg_cong [OF e [OF that], of pa_seen] arg_cong [OF e [OF that], of pa_lastSeen] by simp
  then show "i < length (gr_paths h) \<Longrightarrow> pa_Index (gr_paths g ! i) = pa_Index (gr_paths h ! i) \<and>
       pa_Weight (gr_paths g ! i) = pa_Weight (gr_paths h ! i)" by blast
  show "live_pos g t = live_pos h t"
    using f l t by (auto simp: live_pos_def weighted_live_def sendable_def liveWithin_def)
qed

lemma shape_spend [simp]: "shape (spend g i) = shape g"
proof -
  have "map (\<lambda>p. p\<lparr>pa_wCount := 0\<rparr>) (gr_paths (spend g i)) = map (\<lambda>p. p\<lparr>pa_wCount := 0\<rparr>) (gr_paths g)"
  proof (rule nth_equalityI)
    fix j assume "j < length (map (\<lambda>p. p\<lparr>pa_wCount := 0\<rparr>) (gr_paths (spend g i)))"
    then show "map (\<lambda>p. p\<lparr>pa_wCount := 0\<rparr>) (gr_paths (spend g i)) ! j = map (\<lambda>p. p\<lparr>pa_wCount := 0\<rparr>) (gr_paths g) ! j"
      by (cases "i = j") (simp_all add: spend_def)
  qed (simp add: spend_def)
  then show ?thesis by (simp add: shape_def spend_def)
qed

lemma shape_refill [simp]: "shape (refill g t) = shape g"
  by (simp add: shape_def refill_def)

lemma credit_spend: "i < length (gr_paths g) \<Longrightarrow> credit (spend g i) j = (if j = i then credit g i - 1 else credit g j)"
  by (auto simp: credit_def spend_def)

lemma credit_refill:
  "i < length (gr_paths g) \<Longrightarrow>
   credit (refill g t) i = (if i \<in> live_pos g t then pa_Weight (gr_paths g ! i) else credit g i)"
  by (auto simp: credit_def refill_def live_pos_def weighted_live_def not_le)

lemma bestWeighted_max:
  assumes "bestWeighted g t = Some b"
  shows "b \<in> live_pos g t \<and> (\<forall>i \<in> live_pos g t. credit g i \<le> credit g b)"
  using pick_best [where key = "credit g", OF _ assms [unfolded bestWeighted_def]]
  by (auto simp: credit_def live_pos_def)

lemma bestWeighted_None: "bestWeighted g t = None \<longleftrightarrow> live_pos g t = {}"
  by (auto simp: bestWeighted_def pick_none live_pos_def)

lemma HasWeighted_live: "live_pos g t \<noteq> {} \<Longrightarrow> HasWeighted g"
  by (auto simp: HasWeighted_def list_ex_iff live_pos_def weighted_live_def not_le)

text \<open>With credit left, an election spends one credit of a live weighted path and does not refill.\<close>

lemma SelectWeighted_spends:
  assumes "i \<in> live_pos g t" "0 < credit g i"
  shows "\<exists>b \<in> live_pos g t. 0 < credit g b \<and> SelectWeighted g t = (spend g b, Some (pa_Index (gr_paths g ! b)))"
proof -
  obtain b where b: "bestWeighted g t = Some b" using assms(1) bestWeighted_None [of g t] by fastforce
  have m: "b \<in> live_pos g t" "0 < credit g b" using bestWeighted_max [OF b] assms by force+
  have "HasWeighted g" using assms(1) HasWeighted_live by blast
  then show ?thesis using b m by (auto simp: SelectWeighted_def credit_def Let_def)
qed

text \<open>With none left, the election is that of the refilled group.\<close>

lemma SelectWeighted_refills:
  assumes "live_pos g t \<noteq> {}" "\<forall>i \<in> live_pos g t. credit g i \<le> 0"
  shows "SelectWeighted g t = SelectWeighted (refill g t) t"
proof -
  let ?r = "refill g t"
  have lp: "live_pos ?r t = live_pos g t" by (rule shape_facts) simp
  obtain b where b: "bestWeighted g t = Some b" using assms(1) bestWeighted_None [of g t] by auto
  obtain c where c: "bestWeighted ?r t = Some c" using assms(1) bestWeighted_None [of ?r t] lp by auto
  have "credit g b \<le> 0" using bestWeighted_max [OF b] assms(2) by blast
  moreover have "c \<in> live_pos g t" using bestWeighted_max [OF c] lp by blast
  then have "0 < credit ?r c" using credit_refill [of c g t] by (simp add: live_pos_def weighted_live_def)
  moreover have "HasWeighted g" "HasWeighted ?r"
    using assms(1) lp HasWeighted_live by blast+
  ultimately show ?thesis using b c by (simp add: SelectWeighted_def credit_def Let_def)
qed

text \<open>The credit of the live weighted paths, and instants at which the same paths are live.\<close>

definition total_credit :: "Group \<Rightarrow> Timestamp \<Rightarrow> int" where
  "total_credit g t = (\<Sum>i \<in> live_pos g t. credit g i)"

definition steady :: "Group \<Rightarrow> Timestamp \<Rightarrow> Timestamp list \<Rightarrow> bool" where
  "steady g now ts = list_all (\<lambda>t. list_all (\<lambda>p. sendable g p t = sendable g p now) (gr_paths g)) ts"

lemma steady_live: "steady g now ts \<Longrightarrow> t \<in> set ts \<Longrightarrow> live_pos g t = live_pos g now"
  by (auto simp: steady_def list_all_iff live_pos_def weighted_live_def)

lemma total_credit_spend:
  assumes "b \<in> live_pos g t"
  shows "total_credit (spend g b) t = total_credit g t - 1"
proof -
  have lp: "live_pos (spend g b) t = live_pos g t" by (rule shape_facts) simp
  have b: "b < length (gr_paths g)" using assms by (simp add: live_pos_def)
  have "total_credit (spend g b) t = (\<Sum>i \<in> live_pos g t. credit g i - (if i = b then 1 else 0))"
    unfolding total_credit_def lp by (rule sum.cong) (simp_all add: credit_spend [OF b])
  then show ?thesis using assms by (simp add: sum_subtractf total_credit_def)
qed

lemma weighted_run_counts:
  assumes "group_ok g" "\<forall>t \<in> set ts. live_pos g t = live_pos g now" "\<forall>i \<in> live_pos g now. 0 \<le> credit g i"
    "int (length ts) \<le> total_credit g now" "weighted_run g ts = (h, rs)"
  shows "shape h = shape g \<and> total_credit h now = total_credit g now - int (length ts) \<and>
    (\<forall>i \<in> live_pos g now. 0 \<le> credit h i) \<and>
    (\<forall>i < length (gr_paths g). int (count_list rs (Some (pa_Index (gr_paths g ! i)))) = credit g i - credit h i)"
  using assms
proof (induction ts arbitrary: g rs)
  case (Cons t ts)
  note live = Cons.prems(2) [rule_format, of t, simplified]
  have "0 < total_credit g now" using Cons.prems(4) by simp
  then obtain i where "i \<in> live_pos g now" "0 < credit g i"
    using sum_nonpos [of "live_pos g now" "credit g"] by (force simp: total_credit_def not_le [symmetric])
  then obtain b where b: "b \<in> live_pos g now" "0 < credit g b"
    and sel: "SelectWeighted g t = (spend g b, Some (pa_Index (gr_paths g ! b)))"
    using SelectWeighted_spends [of i g t] live by auto
  have len: "b < length (gr_paths g)" using b(1) by (simp add: live_pos_def)
  obtain rs' where run: "weighted_run (spend g b) ts = (h, rs')" and rs: "rs = Some (pa_Index (gr_paths g ! b)) # rs'"
    using Cons.prems(5) sel by (auto split: prod.splits)
  note sh = shape_facts [OF shape_spend [of g b]]
  have ok: "group_ok (spend g b)"
    using Cons.prems(1) len by (simp add: group_ok_def spend_def map_update) (metis list_update_id nth_map)
  have ih: "shape h = shape (spend g b) \<and> total_credit h now = total_credit (spend g b) now - int (length ts) \<and>
    (\<forall>i \<in> live_pos (spend g b) now. 0 \<le> credit h i) \<and>
    (\<forall>i < length (gr_paths (spend g b)). int (count_list rs' (Some (pa_Index (gr_paths (spend g b) ! i)))) =
       credit (spend g b) i - credit h i)"
  proof (rule Cons.IH [OF ok _ _ _ run])
    show "\<forall>t \<in> set ts. live_pos (spend g b) t = live_pos (spend g b) now" using Cons.prems(2) sh(2) by simp
    show "\<forall>i \<in> live_pos (spend g b) now. 0 \<le> credit (spend g b) i"
      using Cons.prems(3) sh(2) b(2) credit_spend [OF len] by auto
    show "int (length ts) \<le> total_credit (spend g b) now" using Cons.prems(4) total_credit_spend [OF b(1)] by simp
  qed
  have idx: "pa_Index (gr_paths g ! b) = pa_Index (gr_paths g ! i) \<longleftrightarrow> b = i" if "i < length (gr_paths g)" for i
    using Cons.prems(1) len that by (metis group_ok_def length_map nth_eq_iff_index_eq nth_map)
  have "int (count_list rs (Some (pa_Index (gr_paths g ! i)))) = credit g i - credit h i" if "i < length (gr_paths g)" for i
    using ih that idx [OF that] sh(1) sh(3) [of i] credit_spend [OF len, of i] by (auto simp: rs)
  then show ?case using ih sh(2) total_credit_spend [OF b(1)] by simp
qed simp

definition round_length :: "Group \<Rightarrow> Timestamp \<Rightarrow> int" where
  "round_length g now = sum_list (map pa_Weight (filter (weighted_live g now) (gr_paths g)))"

lemma sum_filter_nth:
  "(\<Sum>i \<in> {i. i < length xs \<and> P (xs ! i)}. f (xs ! i)) = sum_list (map f (filter P xs))" for f :: "'a \<Rightarrow> int"
proof (induction xs rule: rev_induct)
  case (snoc x xs)
  have "{i. i < length (xs @ [x]) \<and> P ((xs @ [x]) ! i)} =
      {i. i < length xs \<and> P (xs ! i)} \<union> (if P x then {length xs} else {})"
    by (auto simp: nth_append less_Suc_eq)
  moreover have "(\<Sum>i \<in> {i. i < length xs \<and> P (xs ! i)}. f ((xs @ [x]) ! i)) =
      (\<Sum>i \<in> {i. i < length xs \<and> P (xs ! i)}. f (xs ! i))"
    by (rule sum.cong) (auto simp: nth_append)
  ultimately show ?case using snoc by (auto simp: nth_append)
qed simp

text \<open>The credits at the start of a round: all full, or all spent.\<close>

definition round_start :: "Group \<Rightarrow> Timestamp \<Rightarrow> bool" where
  "round_start g now \<longleftrightarrow>
     list_all (\<lambda>p. weighted_live g now p \<longrightarrow> pa_wCount p = pa_Weight p) (gr_paths g) \<or>
     list_all (\<lambda>p. weighted_live g now p \<longrightarrow> pa_wCount p \<le> 0) (gr_paths g)"

lemma full_round:
  assumes "group_ok g" "\<forall>t \<in> set ts. live_pos g t = live_pos g now"
    "\<forall>i \<in> live_pos g now. credit g i = pa_Weight (gr_paths g ! i)"
    "int (length ts) = round_length g now" "weighted_run g ts = (h, rs)"
  shows "shape h = shape g \<and> (\<forall>i \<in> live_pos g now. credit h i = 0) \<and>
    (\<forall>i \<in> live_pos g now. int (count_list rs (Some (pa_Index (gr_paths g ! i)))) = pa_Weight (gr_paths g ! i))"
proof -
  have tot: "total_credit g now = round_length g now"
    using assms(3) sum_filter_nth [where xs = "gr_paths g" and P = "weighted_live g now" and f = pa_Weight]
    by (simp add: total_credit_def round_length_def live_pos_def)
  have pos: "\<forall>i \<in> live_pos g now. 0 \<le> credit g i"
    using assms(3) by (auto simp: live_pos_def weighted_live_def)
  have run: "shape h = shape g \<and> total_credit h now = total_credit g now - int (length ts) \<and>
    (\<forall>i \<in> live_pos g now. 0 \<le> credit h i) \<and>
    (\<forall>i < length (gr_paths g). int (count_list rs (Some (pa_Index (gr_paths g ! i)))) = credit g i - credit h i)"
    using weighted_run_counts [OF assms(1,2) pos _ assms(5)] tot assms(4) by simp
  then have "live_pos h now = live_pos g now" using shape_facts(2) by blast
  then have "(\<Sum>i \<in> live_pos g now. credit h i) = 0" using run tot assms(4) by (simp add: total_credit_def)
  then have "\<forall>i \<in> live_pos g now. credit h i = 0" using run by (simp add: sum_nonneg_eq_0_iff)
  then show ?thesis using run assms(3) by (auto simp: live_pos_def)
qed

lemma round_length_pos: "round_length g now = (\<Sum>i \<in> live_pos g now. pa_Weight (gr_paths g ! i))"
  using sum_filter_nth [where xs = "gr_paths g" and P = "weighted_live g now" and f = pa_Weight]
  by (simp add: round_length_def live_pos_def)

lemma round_length_shape: "shape g = shape h \<Longrightarrow> round_length g now = round_length h now"
  unfolding round_length_pos using shape_facts [of g h] by (auto simp: live_pos_def intro!: sum.cong)

text \<open>C29: the weighted rotation is exact.  From the start of a round, and while the set of live paths does not change,
  as many elections as the weights of the live weighted paths add up to elect each of those paths exactly its weight
  many times, and leave the group at the start of the next round.\<close>

theorem weighted_round_share:
  assumes "group_ok g" "steady g now ts" "round_start g now" "int (length ts) = round_length g now"
    "weighted_run g ts = (h, rs)"
  shows "round_start h now \<and>
    (\<forall>p \<in> set (gr_paths g). weighted_live g now p \<longrightarrow> int (count_list rs (Some (pa_Index p))) = pa_Weight p)"
proof -
  note live = steady_live [OF assms(2)]
  define full where "full \<longleftrightarrow> (\<forall>i \<in> live_pos g now. credit g i = pa_Weight (gr_paths g ! i))"
  define g0 where "g0 = (if full then g else refill g now)"
  have sh: "shape g0 = shape g" by (simp add: g0_def)
  note sf = shape_facts [OF sh]
  have spent: "\<forall>i \<in> live_pos g now. credit g i \<le> 0" if "\<not> full"
    using assms(3) that by (auto simp: round_start_def full_def list_all_iff live_pos_def credit_def)
  have run: "weighted_run g0 ts = (h, rs)"
  proof (cases full)
    case False
    then have ne: "live_pos g now \<noteq> {}" by (auto simp: full_def)
    then have "0 < round_length g now"
      unfolding round_length_pos by (intro sum_pos) (auto simp: live_pos_def weighted_live_def)
    then obtain t us where ts: "ts = t # us" using assms(4) by (cases ts) auto
    have "sendable g p t = sendable g p now" if "p \<in> set (gr_paths g)" for p
      using assms(2) that by (simp add: steady_def list_all_iff ts)
    then have "refill g t = refill g now" by (simp add: refill_def cong: map_cong)
    moreover have "SelectWeighted g t = SelectWeighted (refill g t) t"
      using ne spent [OF False] live [of t] by (intro SelectWeighted_refills) (simp_all add: ts)
    ultimately show ?thesis using assms(5) False by (simp add: g0_def ts)
  qed (use assms(5) in \<open>simp add: g0_def\<close>)
  have ok: "group_ok g0" using assms(1) by (simp add: g0_def group_ok_def refill_def comp_def if_distrib cong: if_cong)
  have cr: "\<forall>i \<in> live_pos g0 now. credit g0 i = pa_Weight (gr_paths g0 ! i)"
    using sf(2) [of now] sf(3) credit_refill [of _ g now] by (auto simp: g0_def full_def live_pos_def)
  have fr: "shape h = shape g0 \<and> (\<forall>i \<in> live_pos g0 now. credit h i = 0) \<and>
    (\<forall>i \<in> live_pos g0 now. int (count_list rs (Some (pa_Index (gr_paths g0 ! i)))) = pa_Weight (gr_paths g0 ! i))"
    using live sf(2) round_length_shape [OF sh] assms(4) by (intro full_round [OF ok _ cr _ run]) auto
  have "\<forall>i \<in> live_pos h now. credit h i = 0" using fr shape_facts(2) [of h g0 now] by simp
  then have "round_start h now"
    unfolding round_start_def by (intro disjI2) (auto simp: list_all_iff in_set_conv_nth live_pos_def credit_def)
  moreover have "int (count_list rs (Some (pa_Index p))) = pa_Weight p"
    if "p \<in> set (gr_paths g)" "weighted_live g now p" for p
    using that fr sf(2) [of now] sf(3) by (auto simp: in_set_conv_nth live_pos_def)
  ultimately show ?thesis by blast
qed

definition bond_sample :: Group where
  "bond_sample = Group_ObserveRTT (Group_Observe (Group_Observe (AddPath (AddPath (AddPath (NewGroup 100 50 3 500000)
     1 3 5) 2 1 9) 3 0 9) 1 10) 2 10) 2 40000"


theorem weighted_round_share_witness:
  "count_list (snd (weighted_run bond_sample [60, 60, 70, 80])) (Some 1) = 3 \<and>
   count_list (snd (weighted_run bond_sample [60, 60, 70, 80])) (Some 2) = 1"
proof -
  let ?p = "gr_paths bond_sample ! 0" and ?q = "gr_paths bond_sample ! 1"
  have pre: "group_ok bond_sample" "steady bond_sample 60 [60, 60, 70, 80]" "round_start bond_sample 60"
    "int (length [60, 60, 70, 80 :: int]) = round_length bond_sample 60"
    by code_simp+
  have ps: "pa_Index ?p = 1" "pa_Weight ?p = 3" "weighted_live bond_sample 60 ?p"
    "pa_Index ?q = 2" "pa_Weight ?q = 1" "weighted_live bond_sample 60 ?q" "length (gr_paths bond_sample) = 3"
    by code_simp+
  have "?p \<in> set (gr_paths bond_sample)" "?q \<in> set (gr_paths bond_sample)" using ps(7) by auto
  then show ?thesis using weighted_round_share [OF pre prod.collapse [symmetric]] ps by force
qed

end
