(* ===== verification/Adapt.thy ===== *)
theory Adapt
  imports Codec Float64 Machine
begin

text \<open>Source adaptation, internal/adapt: the Link Quality Message (lqm.go) and the rate controller (control.go).
  A float64 is a finite rational with every operation rounded, as in \<open>Float64\<close>; NaN and infinities are left out.\<close>

section \<open>Link Quality Messages\<close>

definition LQMSize :: nat where "LQMSize = 44"

datatype lqm_err = ErrShortLQM

record LQM =
  lq_SequenceNumber :: u32
  lq_ReportingPeriodMS :: u32
  lq_NACKWindowMS :: u32
  lq_SourceReceived :: u32
  lq_OriginalLost :: u32
  lq_RetransmittedReceived :: u32
  lq_Recovered :: u32
  lq_Unrecovered :: u32
  lq_Late :: u32
  lq_DataBandwidthKbps :: u32
  lq_RetransmissionBandwidthKbps :: u32

definition LQM_AppendTo :: "LQM \<Rightarrow> bytes \<Rightarrow> bytes" where
  "LQM_AppendTo m dst = dst @ be32_put (lq_SequenceNumber m) @ be32_put (lq_ReportingPeriodMS m) @
     be32_put (lq_NACKWindowMS m) @ be32_put (lq_SourceReceived m) @ be32_put (lq_OriginalLost m) @
     be32_put (lq_RetransmittedReceived m) @ be32_put (lq_Recovered m) @ be32_put (lq_Unrecovered m) @
     be32_put (lq_Late m) @ be32_put (lq_DataBandwidthKbps m) @ be32_put (lq_RetransmissionBandwidthKbps m)"

definition LQM_Marshal :: "LQM \<Rightarrow> bytes" where "LQM_Marshal m = LQM_AppendTo m []"

definition LQM_Parse :: "bytes \<Rightarrow> lqm_err + LQM" where
  "LQM_Parse b =
     (if length b < LQMSize then Inl ErrShortLQM
      else Inr \<lparr>lq_SequenceNumber = be32_get b 0, lq_ReportingPeriodMS = be32_get b 4, lq_NACKWindowMS = be32_get b 8,
                lq_SourceReceived = be32_get b 12, lq_OriginalLost = be32_get b 16, lq_RetransmittedReceived = be32_get b 20,
                lq_Recovered = be32_get b 24, lq_Unrecovered = be32_get b 28, lq_Late = be32_get b 32,
                lq_DataBandwidthKbps = be32_get b 36, lq_RetransmissionBandwidthKbps = be32_get b 40\<rparr>)"

lemma LQM_roundtrip: "LQM_Parse (LQM_Marshal m @ trailing) = Inr m" "length (LQM_Marshal m) = LQMSize"
  by (simp_all add: LQM_Parse_def LQM_Marshal_def LQM_AppendTo_def LQMSize_def be_reads)

text \<open>The denominator is a uint64, in which the sum of two uint32 cannot wrap.\<close>

definition loss_denom :: "LQM \<Rightarrow> int" where
  "loss_denom m = uint (lq_SourceReceived m) + uint (lq_OriginalLost m)"

definition LossFraction :: "LQM \<Rightarrow> float64" where
  "LossFraction m =
     (if loss_denom m = 0 then 0 else f_div (f_of_int (uint (lq_OriginalLost m))) (f_of_int (loss_denom m)))"

definition ResidualLossFraction :: "LQM \<Rightarrow> float64" where
  "ResidualLossFraction m =
     (if loss_denom m = 0 then 0 else f_div (f_of_int (uint (lq_Unrecovered m))) (f_of_int (loss_denom m)))"

section \<open>The rate controller\<close>

record ControllerConfig =
  cc_MinKbps :: int
  cc_MaxKbps :: int
  cc_InitialKbps :: int
  cc_TargetLoss :: float64
  cc_IncreaseKbps :: int
  cc_DecreaseGain :: float64

record Controller =
  ct_cfg :: ControllerConfig
  ct_current :: int

definition maxCut :: float64 where "maxCut = rnd64 (9 / 10)"

definition DefaultControllerConfig :: ControllerConfig where
  "DefaultControllerConfig = \<lparr>cc_MinKbps = 500, cc_MaxKbps = 100000, cc_InitialKbps = 100000,
     cc_TargetLoss = rnd64 (5 / 1000), cc_IncreaseKbps = 1000, cc_DecreaseGain = 8\<rparr>"

definition clampKbps :: "int \<Rightarrow> int \<Rightarrow> int \<Rightarrow> int" where
  "clampKbps v lo hi = (if v < lo then lo else if v > hi then hi else v)"

definition NewController :: "ControllerConfig \<Rightarrow> Controller" where
  "NewController c =
     (let c = (if cc_MinKbps c < 0 then c\<lparr>cc_MinKbps := 0\<rparr> else c);
          c = (if cc_MaxKbps c < cc_MinKbps c then c\<lparr>cc_MaxKbps := cc_MinKbps c\<rparr> else c);
          c = (if cc_IncreaseKbps c < 0 then c\<lparr>cc_IncreaseKbps := 0\<rparr> else c)
      in \<lparr>ct_cfg = c, ct_current = clampKbps (cc_InitialKbps c) (cc_MinKbps c) (cc_MaxKbps c)\<rparr>)"

definition Controller_Target :: "Controller \<Rightarrow> int" where "Controller_Target c = ct_current c"

definition set_target :: "Controller \<Rightarrow> int \<Rightarrow> Controller" where
  "set_target c v = c\<lparr>ct_current := clampKbps v (cc_MinKbps (ct_cfg c)) (cc_MaxKbps (ct_cfg c))\<rparr>"

definition cut_rate :: "int \<Rightarrow> float64 \<Rightarrow> int" where
  "cut_rate current ct = f_trunc (f_mul (f_of_int current) (f_sub 1 ct))"

text \<open>Each observation returns the new target, which is the current one of the controller it leaves.\<close>

definition Controller_Observe :: "float64 \<Rightarrow> Controller \<Rightarrow> Controller" where
  "Controller_Observe lossFraction c =
     (let loss = (if lossFraction < 0 then 0 else lossFraction)
      in if loss \<le> cc_TargetLoss (ct_cfg c) then set_target c (ct_current c + cc_IncreaseKbps (ct_cfg c))
         else let ct = f_mul (cc_DecreaseGain (ct_cfg c)) (f_sub loss (cc_TargetLoss (ct_cfg c)));
                  ct = (if ct > maxCut then maxCut else ct)
              in set_target c (cut_rate (ct_current c) ct))"

definition ObserveLQM :: "LQM \<Rightarrow> Controller \<Rightarrow> Controller" where
  "ObserveLQM m c =
     (if lq_SourceReceived m = 0 \<and> lq_OriginalLost m = 0 \<and> lq_Unrecovered m = 0 then c
      else let origLoss = LossFraction m
           in if lq_Unrecovered m = 0 \<and> origLoss \<le> cc_TargetLoss (ct_cfg c)
              then set_target c (ct_current c + cc_IncreaseKbps (ct_cfg c))
              else let severity = ResidualLossFraction m;
                       over = f_sub origLoss (cc_TargetLoss (ct_cfg c));
                       severity = (if over > severity then over else severity);
                       ct = f_mul (cc_DecreaseGain (ct_cfg c)) severity;
                       ct = (if ct > maxCut then maxCut else ct);
                       ct = (if ct < 0 then 0 else ct)
                   in set_target c (cut_rate (ct_current c) ct))"

section \<open>Rounding is monotone\<close>

lemma round_even_mono: "x \<le> y \<Longrightarrow> round_even x \<le> round_even y"
proof -
  assume xy: "x \<le> y"
  show ?thesis
  proof (cases "\<lfloor>x\<rfloor> = \<lfloor>y\<rfloor>")
    case True
    then show ?thesis using xy by (auto simp: round_even_def Let_def)
  next
    case False
    then have "\<lfloor>x\<rfloor> + 1 \<le> \<lfloor>y\<rfloor>" using floor_mono [OF xy] by linarith
    moreover have "round_even x \<le> \<lfloor>x\<rfloor> + 1" by (rule round_even_le) linarith
    moreover have "\<lfloor>y\<rfloor> \<le> round_even y" by (rule round_even_ge) simp
    ultimately show ?thesis by linarith
  qed
qed

lemma fexp_mono:
  assumes "0 < x" "x \<le> y"
  shows "fexp x \<le> fexp y"
proof (rule ccontr)
  assume "\<not> fexp x \<le> fexp y"
  then have "2 * 2 powi (fexp y) \<le> (2 :: rat) powi (fexp x)" by (intro powi_step) simp
  moreover have "2 ^ 52 * 2 powi (fexp x) \<le> x" "y < 2 ^ 53 * 2 powi (fexp y)"
    using fexp_bounds [of x] fexp_bounds [of y] assms by (simp_all add: field_simps)
  ultimately show False using assms(2) by (simp add: field_simps)
qed

lemma rnd_pos_mono:
  assumes "0 < x" "x \<le> y"
  shows "rnd_pos x \<le> rnd_pos y"
proof (cases "fexp x = fexp y")
  case True
  have "x / 2 powi (fexp y) \<le> y / 2 powi (fexp y)" using assms(2) by (intro divide_right_mono) simp_all
  then show ?thesis using round_even_mono True by (simp add: rnd_pos_def Let_def mult_right_mono)
next
  case False
  then have e: "2 * 2 powi (fexp x) \<le> (2 :: rat) powi (fexp y)" using fexp_mono [OF assms] by (intro powi_step) simp
  have "round_even (x / 2 powi (fexp x)) \<le> 2 ^ 53" using fexp_bounds(2) [OF assms(1)] by (intro round_even_le) simp
  then have "rat_of_int (round_even (x / 2 powi (fexp x))) \<le> of_int (2 ^ 53)" by (simp only: of_int_le_iff)
  then have "rnd_pos x \<le> 2 ^ 53 * 2 powi (fexp x)"
    unfolding rnd_pos_def Let_def by (intro mult_right_mono) simp_all
  also have "\<dots> = 2 ^ 52 * (2 * 2 powi (fexp x))" by simp
  also have "\<dots> \<le> 2 ^ 52 * 2 powi (fexp y)" using e by (intro mult_left_mono) simp_all
  also have "\<dots> \<le> rnd_pos y"
  proof -
    have "2 ^ 52 \<le> round_even (y / 2 powi (fexp y))" using fexp_bounds(1) [of y] assms by (intro round_even_ge) simp
    then have "rat_of_int (2 ^ 52) \<le> of_int (round_even (y / 2 powi (fexp y)))" by (simp only: of_int_le_iff)
    then show ?thesis unfolding rnd_pos_def Let_def by (intro mult_right_mono) simp_all
  qed
  finally show ?thesis .
qed

lemma rnd64_mono: "x \<le> y \<Longrightarrow> rnd64 x \<le> rnd64 y"
proof -
  assume xy: "x \<le> y"
  consider "0 < x" | "y < 0" | "x \<le> 0" "0 \<le> y" by linarith
  then show ?thesis
  proof cases
    case 1
    then show ?thesis using xy rnd_pos_mono [of x y] by (simp add: rnd64_def)
  next
    case 2
    then show ?thesis using xy rnd_pos_mono [of "- y" "- x"] by (simp add: rnd64_def)
  next
    case 3
    have "rnd64 x \<le> 0" using 3(1) rnd64_nonneg [of "- x"] by (auto simp: rnd64_def split: if_splits)
    then show ?thesis using rnd64_nonneg [OF 3(2)] by linarith
  qed
qed

lemma f_trunc_mono: "x \<le> y \<Longrightarrow> f_trunc x \<le> f_trunc y"
proof -
  assume xy: "x \<le> y"
  consider "0 \<le> x" | "y < 0" | "x < 0" "0 \<le> y" by linarith
  then show ?thesis
  proof cases
    case 1
    then show ?thesis using xy by (simp add: f_trunc_def floor_mono)
  next
    case 2
    then show ?thesis using xy floor_mono [of "- y" "- x"] by (simp add: f_trunc_def)
  next
    case 3
    have "0 \<le> \<lfloor>- x\<rfloor>" "0 \<le> \<lfloor>y\<rfloor>" using 3 by simp_all
    then have "- \<lfloor>- x\<rfloor> \<le> \<lfloor>y\<rfloor>" by linarith
    then show ?thesis using 3 by (simp add: f_trunc_def)
  qed
qed

lemma f_trunc_of_int [simp]: "f_trunc (of_int n) = n"
  by (simp add: f_trunc_def)

section \<open>The target stays within its bounds\<close>

datatype report = ReportLoss float64 | ReportLQM LQM

definition observe_step :: "Controller \<Rightarrow> report \<Rightarrow> Controller" where
  "observe_step c r = (case r of ReportLoss x \<Rightarrow> Controller_Observe x c | ReportLQM m \<Rightarrow> ObserveLQM m c)"

definition ctl_inv :: "Controller \<Rightarrow> bool" where
  "ctl_inv c \<longleftrightarrow> 0 \<le> cc_MinKbps (ct_cfg c) \<and> cc_MinKbps (ct_cfg c) \<le> cc_MaxKbps (ct_cfg c) \<and>
     0 \<le> cc_IncreaseKbps (ct_cfg c) \<and> cc_MinKbps (ct_cfg c) \<le> ct_current c \<and> ct_current c \<le> cc_MaxKbps (ct_cfg c)"

lemma clampKbps_bounds: "lo \<le> hi \<Longrightarrow> lo \<le> clampKbps v lo hi \<and> clampKbps v lo hi \<le> hi"
  by (simp add: clampKbps_def)

lemma clampKbps_mono: "lo \<le> hi \<Longrightarrow> v \<le> w \<Longrightarrow> clampKbps v lo hi \<le> clampKbps w lo hi"
  by (simp add: clampKbps_def)

lemma clampKbps_id: "lo \<le> v \<Longrightarrow> v \<le> hi \<Longrightarrow> clampKbps v lo hi = v"
  by (simp add: clampKbps_def)

lemma ctl_inv_New: "ctl_inv (NewController c)"
  by (auto simp: NewController_def Let_def ctl_inv_def clampKbps_def)

lemma set_target_cfg [simp]: "ct_cfg (set_target c v) = ct_cfg c"
  by (simp add: set_target_def)

lemma ctl_inv_set: "ctl_inv c \<Longrightarrow> ctl_inv (set_target c v)"
  using clampKbps_bounds by (simp add: ctl_inv_def set_target_def)

lemma observe_cfg [simp]:
  "ct_cfg (Controller_Observe x c) = ct_cfg c" "ct_cfg (ObserveLQM m c) = ct_cfg c" "ct_cfg (observe_step c r) = ct_cfg c"
  by (simp_all add: Controller_Observe_def ObserveLQM_def observe_step_def Let_def split: report.split)

lemma ctl_inv_step: "ctl_inv c \<Longrightarrow> ctl_inv (observe_step c r)"
  by (simp add: observe_step_def Controller_Observe_def ObserveLQM_def Let_def ctl_inv_set split: report.split)

lemma ctl_inv_run: "ctl_inv c \<Longrightarrow> ctl_inv (foldl observe_step c rs) \<and> ct_cfg (foldl observe_step c rs) = ct_cfg c"
  by (induction rs arbitrary: c) (simp_all add: ctl_inv_step)

section \<open>More loss never gives a higher target\<close>

lemma cut_rate_le: "0 \<le> ct \<Longrightarrow> 0 \<le> n \<Longrightarrow> n < 2 ^ 53 \<Longrightarrow> cut_rate n ct \<le> n"
proof -
  assume a: "0 \<le> ct" "0 \<le> n" "n < 2 ^ 53"
  have "f_sub 1 ct \<le> 1" unfolding f_sub_def using rnd64_mono [of "1 - ct" 1] rnd64_of_int [of 1] a by simp
  then have "of_int n * f_sub 1 ct \<le> of_int n * 1" using a by (intro mult_left_mono) simp_all
  then have "rnd64 (of_int n * f_sub 1 ct) \<le> rnd64 (of_int n)" by (intro rnd64_mono) simp
  then have "f_mul (f_of_int n) (f_sub 1 ct) \<le> of_int n" using a by (simp add: f_mul_def f_of_int_def)
  then show ?thesis unfolding cut_rate_def using f_trunc_mono by fastforce
qed

lemma cut_rate_mono: "a \<le> b \<Longrightarrow> 0 \<le> n \<Longrightarrow> cut_rate n b \<le> cut_rate n a"
  unfolding cut_rate_def f_mul_def f_sub_def
  by (intro f_trunc_mono rnd64_mono mult_left_mono) (simp_all add: f_of_int_def rnd64_nonneg)

lemma Observe_mono:
  assumes inv: "ctl_inv c" and mx: "cc_MaxKbps (ct_cfg c) < 2 ^ 53" and g: "0 \<le> cc_DecreaseGain (ct_cfg c)" and ab: "a \<le> b"
  shows "ct_current (Controller_Observe b c) \<le> ct_current (Controller_Observe a c)"
proof -
  define la where "la = (if a < 0 then 0 else a)"
  define lb where "lb = (if b < 0 then 0 else b)"
  define T where "T = cc_TargetLoss (ct_cfg c)"
  define k where "k = (\<lambda>l. let ct = f_mul (cc_DecreaseGain (ct_cfg c)) (f_sub l T) in if ct > maxCut then maxCut else ct)"
  have l: "la \<le> lb" using ab by (auto simp: la_def lb_def)
  have lo: "cc_MinKbps (ct_cfg c) \<le> cc_MaxKbps (ct_cfg c)" and cur: "0 \<le> ct_current c" "ct_current c < 2 ^ 53"
    using inv mx by (auto simp: ctl_inv_def)
  have obs: "ct_current (Controller_Observe x c) = (let l = if x < 0 then 0 else x in
      clampKbps (if l \<le> T then ct_current c + cc_IncreaseKbps (ct_cfg c) else cut_rate (ct_current c) (k l))
        (cc_MinKbps (ct_cfg c)) (cc_MaxKbps (ct_cfg c)))" for x
    by (simp add: Controller_Observe_def set_target_def Let_def k_def T_def)
  have kmono: "k l \<le> k l'" if "l \<le> l'" for l l'
    using rnd64_mono [OF mult_left_mono [OF rnd64_mono [of "l - T" "l' - T"] g]] that
    by (auto simp: k_def Let_def f_mul_def f_sub_def)
  have kpos: "0 \<le> k l" if "T < l" for l
    using that g by (auto simp: k_def Let_def f_mul_def f_sub_def maxCut_def intro!: rnd64_nonneg mult_nonneg_nonneg)
  consider "lb \<le> T" | "la \<le> T" "T < lb" | "T < la" using l by linarith
  then show ?thesis
  proof cases
    case 1
    then show ?thesis using l by (simp add: obs la_def [symmetric] lb_def [symmetric] Let_def)
  next
    case 2
    have "cut_rate (ct_current c) (k lb) \<le> ct_current c + cc_IncreaseKbps (ct_cfg c)"
      using cut_rate_le [OF kpos [OF 2(2)] cur] inv by (simp add: ctl_inv_def)
    then show ?thesis
      using 2 clampKbps_mono [OF lo] by (simp add: obs la_def [symmetric] lb_def [symmetric] Let_def)
  next
    case 3
    then show ?thesis
      using l clampKbps_mono [OF lo cut_rate_mono [OF kmono [OF l] cur(1)]]
      by (simp add: obs la_def [symmetric] lb_def [symmetric] Let_def)
  qed
qed

lemma ObserveLQM_up:
  assumes inv: "ctl_inv c" and mx: "cc_MaxKbps (ct_cfg c) < 2 ^ 53" and up: "ct_current c < ct_current (ObserveLQM m c)"
  shows "lq_Unrecovered m = 0 \<and> LossFraction m \<le> cc_TargetLoss (ct_cfg c)"
proof (rule ccontr)
  assume no: "\<not> (lq_Unrecovered m = 0 \<and> LossFraction m \<le> cc_TargetLoss (ct_cfg c))"
  have cur: "0 \<le> ct_current c" "ct_current c < 2 ^ 53" using inv mx by (auto simp: ctl_inv_def)
  have "\<exists>x. ObserveLQM m c = set_target c (cut_rate (ct_current c) (if x < 0 then 0 else x)) \<or> ObserveLQM m c = c"
    unfolding ObserveLQM_def Let_def if_not_P [OF no]
    by (cases "lq_SourceReceived m = 0 \<and> lq_OriginalLost m = 0 \<and> lq_Unrecovered m = 0")
      (simp_all only: if_True if_False simp_thms, blast)
  then obtain ct where "0 \<le> ct" and o: "ObserveLQM m c = set_target c (cut_rate (ct_current c) ct) \<or> ObserveLQM m c = c"
    by (metis linorder_not_less order_refl)
  have "clampKbps (cut_rate (ct_current c) ct) (cc_MinKbps (ct_cfg c)) (cc_MaxKbps (ct_cfg c)) \<le> ct_current c"
    using cut_rate_le [OF \<open>0 \<le> ct\<close> cur] inv by (auto simp: clampKbps_def ctl_inv_def)
  then show False using o up by (auto simp: set_target_def)
qed


definition adapt_sample :: Controller where
  "adapt_sample = foldl observe_step (NewController DefaultControllerConfig) [ReportLoss (1 / 16), ReportLoss 0]"


end
