(* ===== verification/Lpc.thy ===== *)
theory Lpc
  imports Codec
begin

text \<open>Payload compression, internal/lpc/lpc.go: the LZ4 block compressor with its match finder and the bounded
  decompressor.  Growing the destination is not modelled; the decompressor's read cursor is the rest of the block.\<close>

unbundle bit_operations_syntax

section \<open>Constants\<close>

datatype lpc_err = ErrCorrupt | ErrOutputTooLarge

definition minMatch :: nat where "minMatch = 4"
definition lastLiterals :: nat where "lastLiterals = 5"
definition mfLimit :: nat where "mfLimit = minMatch + lastLiterals"
definition minLength :: nat where "minLength = mfLimit + 1"
definition hashLog :: nat where "hashLog = 12"
definition hashTableSize :: nat where "hashTableSize = 2 ^ hashLog"
definition runMask :: nat where "runMask = 15"
definition maxOffset :: nat where "maxOffset = 65535"

lemmas lpc_consts = minMatch_def lastLiterals_def mfLimit_def minLength_def hashLog_def hashTableSize_def runMask_def maxOffset_def

definition CompressBound :: "int \<Rightarrow> int" where
  "CompressBound n = (if n < 0 then 0 else n + quot n 255 + 16)"

section \<open>Compression\<close>

definition lz_hash :: "u32 \<Rightarrow> u32" where
  "lz_hash v = drop_bit (32 - hashLog) (v * 2654435761)"

definition load32 :: "bytes \<Rightarrow> nat \<Rightarrow> u32" where
  "load32 b i = ucast (b ! i) OR push_bit 8 (ucast (b ! (i + 1))) OR push_bit 16 (ucast (b ! (i + 2))) OR
     push_bit 24 (ucast (b ! (i + 3)))"

function appendLength :: "nat \<Rightarrow> bytes" where
  "appendLength n = (if n \<ge> 255 then 255 # appendLength (n - 255) else [of_nat n])"
  by pat_completeness auto
termination
  by (relation "measure id") auto

declare appendLength.simps [simp del]

definition emitSequence :: "bytes \<Rightarrow> bytes \<Rightarrow> nat \<Rightarrow> nat \<Rightarrow> nat \<Rightarrow> bytes" where
  "emitSequence dst literals litLen offset matchLen =
     (let mtok = matchLen - minMatch;
          token = (if litLen \<ge> runMask then push_bit 4 (of_nat runMask) else push_bit 4 (of_nat litLen)) OR
                  (if mtok \<ge> runMask then of_nat runMask else of_nat mtok)
      in dst @ [token] @ (if litLen \<ge> runMask then appendLength (litLen - runMask) else []) @ literals @
         [of_nat offset, of_nat (offset div 256)] @ (if mtok \<ge> runMask then appendLength (mtok - runMask) else []))"

definition emitLastLiterals :: "bytes \<Rightarrow> bytes \<Rightarrow> bytes" where
  "emitLastLiterals dst literals =
     (let litLen = length literals
      in if litLen \<ge> runMask then dst @ [push_bit 4 (of_nat runMask)] @ appendLength (litLen - runMask) @ literals
         else dst @ [push_bit 4 (of_nat litLen)] @ literals)"

text \<open>Extending a match to \<open>matchLimit\<close>: where it ends.\<close>

function extend_match :: "bytes \<Rightarrow> nat \<Rightarrow> nat \<Rightarrow> nat \<Rightarrow> nat" where
  "extend_match src limit m r =
     (if m < limit \<and> src ! m = src ! r then extend_match src limit (m + 1) (r + 1) else m)"
  by pat_completeness auto
termination
  by (relation "measure (\<lambda>(src, limit, m, r). limit - m)") auto

declare extend_match.simps [simp del]

lemma extend_match_ge: "m \<le> extend_match src limit m r"
proof (induction src limit m r rule: extend_match.induct)
  case (1 src limit m r)
  then show ?case by (subst extend_match.simps) (cases "m < limit \<and> src ! m = src ! r"; auto)
qed

text \<open>The match-finder table holds int32 positions, \<open>-1\<close> for none.\<close>

definition set_hash :: "bytes \<Rightarrow> nat \<Rightarrow> int list \<Rightarrow> int list" where
  "set_hash src ip table = table[unat (lz_hash (load32 src ip)) := sint (of_nat ip :: u32)]"

function compress_loop :: "bytes \<Rightarrow> int list \<Rightarrow> nat \<Rightarrow> nat \<Rightarrow> bytes \<Rightarrow> bytes" where
  "compress_loop src table anchor ip dst =
     (if ip + mfLimit \<le> length src
      then let ref = table ! unat (lz_hash (load32 src ip)); table = set_hash src ip table
           in if ref < 0 \<or> int ip - ref > int maxOffset \<or> load32 src (nat ref) \<noteq> load32 src ip
              then compress_loop src table anchor (ip + 1) dst
              else let mEnd = extend_match src (length src - lastLiterals) (ip + minMatch) (nat ref + minMatch);
                       dst = emitSequence dst (take (ip - anchor) (drop anchor src)) (ip - anchor) (ip - nat ref) (mEnd - ip);
                       table = (if mEnd - 1 + mfLimit \<le> length src then set_hash src (mEnd - 1) table else table)
                   in compress_loop src table mEnd mEnd dst
      else emitLastLiterals dst (drop anchor src))"
  by pat_completeness auto
termination
proof (relation "measure (\<lambda>(src, table, anchor, ip, dst). length src - ip)", goal_cases)
  case (3 src table anchor ip dst ref table' mEnd)
  then have "ip + 4 \<le> mEnd" using extend_match_ge [of "ip + minMatch" src] by (simp add: minMatch_def)
  then show ?case using 3 by (simp add: lpc_consts)
qed (auto simp: lpc_consts)

declare compress_loop.simps [simp del]

definition Compress :: "bytes \<Rightarrow> bytes \<Rightarrow> bytes" where
  "Compress dst src =
     (if length src < minLength then emitLastLiterals dst src
      else compress_loop src (set_hash src 0 (replicate hashTableSize (- 1))) 0 1 dst)"

section \<open>Decompression\<close>

fun readLength :: "bytes \<Rightarrow> (nat \<times> bytes) option" where
  "readLength [] = None"
| "readLength (b # bs) =
     (if b \<noteq> 255 then Some (unat b, bs) else map_option (\<lambda>(total, rest). (255 + total, rest)) (readLength bs))"

lemma readLength_shorter: "readLength b = Some (n, r) \<Longrightarrow> length r < length b"
proof (induction b arbitrary: n r)
  case (Cons a b)
  then show ?case by (cases "a = 255") (auto simp: less_SucI)
qed simp

text \<open>A length nibble with its continuation bytes.\<close>

definition nibble_length :: "u8 \<Rightarrow> bytes \<Rightarrow> (nat \<times> bytes) option" where
  "nibble_length nib b =
     (if unat nib = runMask then map_option (\<lambda>(extra, rest). (runMask + extra, rest)) (readLength b)
      else Some (unat nib, b))"

lemma nibble_length_shorter: "nibble_length k b = Some (n, r) \<Longrightarrow> length r \<le> length b"
  by (auto simp: nibble_length_def split: if_splits dest!: readLength_shorter)

fun copy_match :: "nat \<Rightarrow> nat \<Rightarrow> bytes \<Rightarrow> bytes" where
  "copy_match matchPos 0 out = out"
| "copy_match matchPos (Suc n) out = copy_match (Suc matchPos) n (out @ [out ! matchPos])"

definition le16_get :: "bytes \<Rightarrow> u16" where
  "le16_get b = ucast (b ! 0) OR push_bit 8 (ucast (b ! 1))"

function lz_loop :: "nat \<Rightarrow> bytes \<Rightarrow> bytes \<Rightarrow> lpc_err + bytes" where
  "lz_loop maxOut [] out = Inr out"
| "lz_loop maxOut (token # b) out =
     (case nibble_length (drop_bit 4 token) b of
        None \<Rightarrow> Inl ErrCorrupt
      | Some (litLen, b1) \<Rightarrow>
          if litLen > length b1 then Inl ErrCorrupt
          else if length out + litLen > maxOut then Inl ErrOutputTooLarge
          else let out = out @ take litLen b1; b2 = drop litLen b1 in
          if b2 = [] then Inr out
          else if length b2 < 2 then Inl ErrCorrupt
          else let offset = unat (le16_get b2); b3 = drop 2 b2 in
          if offset = 0 then Inl ErrCorrupt
          else case nibble_length (token AND 15) b3 of
            None \<Rightarrow> Inl ErrCorrupt
          | Some (m, b4) \<Rightarrow>
              let matchLen = m + minMatch in
              if length out < offset then Inl ErrCorrupt
              else if length out + matchLen > maxOut then Inl ErrOutputTooLarge
              else let out = copy_match (length out - offset) matchLen out in
              if b4 = [] then Inl ErrCorrupt else lz_loop maxOut b4 out)"
  by pat_completeness auto
termination
  by (relation "measure (\<lambda>(maxOut, b, out). length b)") (auto dest!: nibble_length_shorter)

declare lz_loop.simps(2) [simp del]

text \<open>On an error the caller gets the destination unchanged.\<close>

definition Decompress :: "bytes \<Rightarrow> bytes \<Rightarrow> int \<Rightarrow> lpc_err option \<times> bytes" where
  "Decompress dst src maxOut =
     (case lz_loop (nat (if maxOut < 0 then 0 else maxOut)) src [] of
        Inl e \<Rightarrow> (Some e, dst) | Inr out \<Rightarrow> (None, dst @ out))"

section \<open>Lengths, tokens and offsets read back\<close>

lemma unat_255: "unat (255 :: u8) = 255"
  by simp

lemma readLength_append: "readLength (appendLength n @ rest) = Some (n, rest)"
proof (induction n rule: appendLength.induct)
  case (1 n)
  show ?case
  proof (cases "n \<ge> 255")
    case True
    then have "appendLength n = 255 # appendLength (n - 255)" by (subst appendLength.simps) simp
    then show ?thesis using 1 [OF True] True by simp
  next
    case False
    then have a: "appendLength n = [of_nat n]" by (subst appendLength.simps) simp
    have u: "unat (of_nat n :: u8) = n" using False by (simp add: unsigned_of_nat take_bit_nat_eq_self)
    then have "(of_nat n :: u8) \<noteq> 255" using False by (metis le_refl unat_255)
    then show ?thesis using a u by simp
  qed
qed

lemma length_appendLength: "length (appendLength n) = Suc (n div 255)"
proof (induction n rule: appendLength.induct)
  case (1 n)
  show ?case
  proof (cases "n \<ge> 255")
    case True
    then show ?thesis using 1 [OF True] by (subst appendLength.simps) (simp add: le_div_geq)
  qed (subst appendLength.simps, simp)
qed

text \<open>A token and its continuation bytes, as the two emitters write them.\<close>

definition nib :: "nat \<Rightarrow> u8" where
  "nib n = (if n \<ge> runMask then of_nat runMask else of_nat n)"

definition ext :: "nat \<Rightarrow> bytes" where
  "ext n = (if n \<ge> runMask then appendLength (n - runMask) else [])"

lemma unat_nib: "unat (nib n) = min n runMask"
  by (auto simp: nib_def runMask_def unsigned_of_nat take_bit_nat_eq_self)

lemma fits_nib: "fits 4 (nib n)"
  by (simp add: fits_def unat_nib runMask_def)

lemma nibble_length_ext: "nibble_length (nib n) (ext n @ rest) = Some (n, rest)"
  by (auto simp: nibble_length_def unat_nib ext_def readLength_append min_def)

lemma token_fields:
  assumes "fits 4 a" "fits 4 b"
  shows "drop_bit 4 (push_bit 4 a OR b) = a" "(push_bit 4 a OR b) AND 15 = (b :: u8)"
  using fits_bit [OF assms(1)] fits_bit [OF assms(2)] by (intro u8_eqI; simp add: bit_simps)+

lemma emitSequence_eq:
  "emitSequence dst lits (length lits) offset matchLen =
     dst @ (push_bit 4 (nib (length lits)) OR nib (matchLen - minMatch)) # ext (length lits) @ lits @
       [of_nat offset, of_nat (offset div 256)] @ ext (matchLen - minMatch)"
  by (simp add: emitSequence_def Let_def nib_def ext_def)

lemma emitLastLiterals_eq: "emitLastLiterals dst lits = dst @ push_bit 4 (nib (length lits)) # ext (length lits) @ lits"
  by (simp add: emitLastLiterals_def Let_def nib_def ext_def)

lemma le16_offset:
  assumes "offset \<le> maxOffset"
  shows "unat (le16_get (of_nat offset # of_nat (offset div 256) # rest)) = offset"
proof -
  let ?v = "of_nat offset :: u16"
  have v: "unat ?v = offset" using assms by (simp add: maxOffset_def unsigned_of_nat take_bit_nat_eq_self)
  have n: "of_nat (unat x) = (ucast x :: u8)" for x :: u16 by (simp add: unsigned_word_eqI unsigned_of_nat unsigned_ucast_eq)
  have lo: "(of_nat offset :: u8) = ucast ?v" using n [of ?v] v by simp
  have hi: "(of_nat (offset div 256) :: u8) = ucast (drop_bit 8 ?v)"
  proof -
    have "unat (drop_bit 8 ?v) = drop_bit 8 offset" by (simp only: unat_drop_bit_eq v)
    also have "\<dots> = offset div 256" by (simp add: drop_bit_eq_div)
    finally show ?thesis using n [of "drop_bit 8 ?v"] by simp
  qed
  have "le16_get (of_nat offset # of_nat (offset div 256) # rest) = ?v"
    unfolding le16_get_def lo hi using be16_join [of ?v] by (simp add: or.commute)
  then show ?thesis using v by simp
qed

section \<open>One sequence of a block\<close>

lemma lz_last:
  assumes "length out + length lits \<le> maxOut"
  shows "lz_loop maxOut (push_bit 4 (nib (length lits)) # ext (length lits) @ lits) out = Inr (out @ lits)"
proof -
  have "drop_bit 4 (push_bit 4 (nib (length lits))) = nib (length lits)"
    using token_fields(1) [OF fits_nib [of "length lits"], of 0] by (simp add: fits_def)
  then show ?thesis using assms by (simp add: lz_loop.simps(2) nibble_length_ext Let_def)
qed

lemma lz_sequence:
  assumes "minMatch \<le> matchLen" "0 < offset" "offset \<le> maxOffset" "offset \<le> length out + length lits"
    and "length out + length lits + matchLen \<le> maxOut" "rest \<noteq> []"
  shows "lz_loop maxOut (emitSequence [] lits (length lits) offset matchLen @ rest) out =
    lz_loop maxOut rest (copy_match (length out + length lits - offset) matchLen (out @ lits))"
  using assms token_fields [OF fits_nib [of "length lits"] fits_nib [of "matchLen - minMatch"]]
  unfolding emitSequence_eq
  by (simp add: lz_loop.simps(2) nibble_length_ext Let_def le16_offset [OF assms(3)])

lemma copy_match_take:
  assumes "\<forall>j < n. src ! (ip + j) = src ! (ref + j)" "ref < ip" "ip + n \<le> length src"
  shows "copy_match ref n (take ip src) = take (ip + n) src"
  using assms
proof (induction n arbitrary: ip ref)
  case (Suc n)
  have "take ip src @ [take ip src ! ref] = take (Suc ip) src"
    using Suc.prems(2,3) Suc.prems(1) [rule_format, of 0] by (simp add: take_Suc_conv_app_nth)
  moreover have "\<forall>j < n. src ! (Suc ip + j) = src ! (Suc ref + j)" using Suc.prems(1) by (metis Suc_less_eq add_Suc_shift)
  ultimately show ?case using Suc.IH [of "Suc ip" "Suc ref"] Suc.prems by simp
qed simp

section \<open>What the match finder finds\<close>

lemma load32_bytes:
  "b ! i = ucast (load32 b i)" "b ! (i + 1) = ucast (drop_bit 8 (load32 b i))"
  "b ! (i + 2) = ucast (drop_bit 16 (load32 b i))" "b ! (i + 3) = ucast (drop_bit 24 (load32 b i))"
  by (intro u8_eqI; simp add: load32_def bit_simps)+

lemma load32_inj:
  assumes "load32 b i = load32 b k" "j < 4"
  shows "b ! (i + j) = b ! (k + j)"
proof -
  consider "j = 0" | "j = 1" | "j = 2" | "j = 3" using assms(2) by linarith
  then show ?thesis using load32_bytes [of b i] load32_bytes [of b k] assms(1) by cases simp_all
qed

lemma extend_match_ok:
  assumes "m \<le> limit"
  shows "extend_match src limit m r \<le> limit \<and>
    (\<forall>j < extend_match src limit m r - m. src ! (m + j) = src ! (r + j))"
  using assms
proof (induction src limit m r rule: extend_match.induct)
  case (1 src limit m r)
  show ?case
  proof (cases "m < limit \<and> src ! m = src ! r")
    case True
    then have step: "extend_match src limit m r = extend_match src limit (m + 1) (r + 1)"
      by (subst extend_match.simps) simp
    have ih: "extend_match src limit (m + 1) (r + 1) \<le> limit"
      "\<forall>j < extend_match src limit (m + 1) (r + 1) - (m + 1). src ! (m + 1 + j) = src ! (r + 1 + j)"
      using 1 True by auto
    have "src ! (m + j) = src ! (r + j)" if "j < extend_match src limit (m + 1) (r + 1) - m" for j
      using that ih(2) True by (cases j) auto
    then show ?thesis using ih(1) step by simp
  next
    case False
    then show ?thesis using "1.prems" by (subst (1 2) extend_match.simps) auto
  qed
qed

section \<open>Every block decodes to what was compressed\<close>

definition table_ok :: "int list \<Rightarrow> nat \<Rightarrow> bool" where
  "table_ok table ip \<longleftrightarrow> length table = hashTableSize \<and> (\<forall>r \<in> set table. r < int ip)"

lemma hash_in_table: "unat (lz_hash v) < hashTableSize"
proof -
  have "lz_hash v = drop_bit 20 (v * 2654435761)" unfolding lz_hash_def hashLog_def by (rule arg_cong2 [where f = drop_bit]) simp_all
  then have "unat (lz_hash v) = drop_bit 20 (unat (v * 2654435761))" by (simp only: unat_drop_bit_eq)
  then have "unat (lz_hash v) = unat (v * 2654435761) div 2 ^ 20" by (simp add: drop_bit_eq_div)
  moreover have "unat (v * 2654435761) < 2 ^ 32" using unsigned_less [of "v * 2654435761"] by simp
  ultimately show ?thesis by (simp add: hashTableSize_def hashLog_def less_mult_imp_div_less)
qed

lemma sint_of_nat_le: "sint (of_nat n :: u32) \<le> int n"
proof -
  have "sint (of_nat n :: u32) \<le> uint (of_nat n :: u32)" 
    unfolding sint_uint by (subst signed_take_bit_int_less_eq_self_iff) (rule order_trans [of _ 0], simp_all)
  also have "\<dots> \<le> int n" by (simp add: unsigned_of_nat)
  finally show ?thesis .
qed

lemma table_ok_set: "table_ok table k \<Longrightarrow> k \<le> ip' \<Longrightarrow> ip < ip' \<Longrightarrow> table_ok (set_hash src ip table) ip'"
  using sint_of_nat_le [of ip] by (auto simp: table_ok_def set_hash_def dest!: set_update_subset_insert [THEN subsetD])

lemma length_ext: "length (ext n) = (if n \<ge> 15 then Suc ((n - 15) div 255) else 0)"
  by (simp add: ext_def runMask_def length_appendLength)

lemma length_ext_le: "length (ext n) \<le> Suc (n div 255)"
  by (simp add: length_ext div_le_mono)

lemma div_add_le: "a div 255 + b div 255 \<le> (a + b) div (255 :: nat)"
  by (metis div_add1_eq le_add1)

text \<open>One step of the match finder: the bytes it emits extend the decoded prefix from the anchor to the match end.\<close>

lemma match_found:
  assumes "ip + mfLimit \<le> length src" "0 \<le> ref" "ref < int ip" "load32 src (nat ref) = load32 src ip"
    and "mEnd = extend_match src (length src - lastLiterals) (ip + minMatch) (nat ref + minMatch)"
  shows "ip + 4 \<le> mEnd \<and> mEnd \<le> length src \<and> copy_match (nat ref) (mEnd - ip) (take ip src) = take mEnd src"
proof -
  define lim where "lim = length src - 5"
  have m: "mEnd = extend_match src lim (ip + 4) (nat ref + 4)" using assms(5) by (simp add: lim_def lpc_consts)
  have le: "ip + 4 \<le> lim" using assms(1) by (simp add: lim_def lpc_consts)
  have ge: "ip + 4 \<le> mEnd" using extend_match_ge [of "ip + 4" src] m by simp
  have ok: "mEnd \<le> lim" "\<forall>j < mEnd - (ip + 4). src ! (ip + 4 + j) = src ! (nat ref + 4 + j)"
    using extend_match_ok [OF le, of src "nat ref + 4"] m by auto
  have "src ! (ip + j) = src ! (nat ref + j)" if "j < mEnd - ip" for j
  proof (cases "j < 4")
    case True
    then show ?thesis using load32_inj [OF assms(4) True] by simp
  next
    case False
    then show ?thesis using ok(2) [rule_format, of "j - 4"] that by simp
  qed
  then have "copy_match (nat ref) (mEnd - ip) (take ip src) = take (ip + (mEnd - ip)) src"
    using assms(2,3) ok(1) ge by (intro copy_match_take) (auto simp: lim_def)
  then show ?thesis using ge ok(1) by (simp add: lim_def)
qed

lemma sequence_size:
  assumes "4 \<le> m"
  shows "length (emitSequence [] lits (length lits) offset m) \<le> length lits + m + length lits div 255"
proof -
  have "4 + length (ext (m - 4)) \<le> m" using assms by (auto simp: length_ext)
  then show ?thesis using length_ext_le [of "length lits"] by (simp add: emitSequence_eq minMatch_def)
qed

lemma emitSequence_append: "emitSequence dst lits n offset m = dst @ emitSequence [] lits n offset m"
  by (simp add: emitSequence_def Let_def)

lemma compress_loop_decodes:
  assumes "anchor \<le> ip" "anchor \<le> length src" "table_ok table ip" "length src \<le> maxOut"
  shows "\<exists>enc. compress_loop src table anchor ip dst = dst @ enc \<and> enc \<noteq> [] \<and>
    lz_loop maxOut enc (take anchor src) = Inr src \<and>
    length enc \<le> (length src - anchor) + (length src - anchor) div 255 + 2"
  using assms
proof (induction src table anchor ip dst rule: compress_loop.induct)
  case (1 src table anchor ip dst)
  let ?ref = "table ! unat (lz_hash (load32 src ip))"
  let ?table = "set_hash src ip table"
  show ?case
  proof (cases "ip + mfLimit \<le> length src")
    case False
    define lits where "lits = drop anchor src"
    have "compress_loop src table anchor ip dst = dst @ push_bit 4 (nib (length lits)) # ext (length lits) @ lits"
      using False by (subst compress_loop.simps) (simp add: emitLastLiterals_eq lits_def)
    moreover have "lz_loop maxOut (push_bit 4 (nib (length lits)) # ext (length lits) @ lits) (take anchor src) = Inr src"
      using lz_last [of "take anchor src" lits maxOut] "1.prems"(2,4) by (simp add: lits_def)
    ultimately show ?thesis using length_ext_le [of "length lits"] by (auto simp: lits_def)
  next
    case scan: True
    have ref: "?ref < int ip"
      using "1.prems"(3) hash_in_table [of "load32 src ip"] by (simp add: table_ok_def)
    show ?thesis
    proof (cases "?ref < 0 \<or> int ip - ?ref > int maxOffset \<or> load32 src (nat ?ref) \<noteq> load32 src ip")
      case miss: True
      have "compress_loop src table anchor ip dst = compress_loop src ?table anchor (ip + 1) dst"
        using scan miss by (subst compress_loop.simps) (simp add: Let_def)
      moreover have "table_ok ?table (ip + 1)" using "1.prems"(3) by (rule table_ok_set) simp_all
      ultimately show ?thesis using "1.IH"(1) [OF scan refl refl miss] "1.prems" by simp
    next
      case hit: False
      define mEnd where "mEnd = extend_match src (length src - lastLiterals) (ip + minMatch) (nat ?ref + minMatch)"
      define lits where "lits = take (ip - anchor) (drop anchor src)"
      define sq where "sq = emitSequence [] lits (length lits) (ip - nat ?ref) (mEnd - ip)"
      define table' where "table' = (if mEnd - 1 + mfLimit \<le> length src then set_hash src (mEnd - 1) ?table else ?table)"
      have found: "ip + 4 \<le> mEnd" "mEnd \<le> length src" "copy_match (nat ?ref) (mEnd - ip) (take ip src) = take mEnd src"
        using match_found [OF scan _ ref _ mEnd_def] hit by auto
      have ll: "length lits = ip - anchor" using scan by (simp add: lits_def)
      have out: "take anchor src @ lits = take ip src"
        using "1.prems"(1) by (simp add: lits_def flip: take_add)
      have dst': "dst @ sq = emitSequence dst (take (ip - anchor) (drop anchor src)) (ip - anchor) (ip - nat ?ref) (mEnd - ip)"
        using emitSequence_append [of dst] ll by (simp add: sq_def lits_def)
      have step: "compress_loop src table anchor ip dst = compress_loop src table' mEnd mEnd (dst @ sq)"
        unfolding dst' table'_def mEnd_def
        by (subst compress_loop.simps) (simp only: Let_def scan hit if_True if_False)
      have ok1: "table_ok ?table mEnd" using "1.prems"(3) by (rule table_ok_set) (use found in simp_all)
      then have "table_ok table' mEnd" unfolding table'_def using table_ok_set [OF ok1] found(1) by simp
      then obtain enc where enc: "compress_loop src table' mEnd mEnd (dst @ sq) = (dst @ sq) @ enc" "enc \<noteq> []"
          "lz_loop maxOut enc (take mEnd src) = Inr src" "length enc \<le> (length src - mEnd) + (length src - mEnd) div 255 + 2"
        using "1.IH"(2) [OF scan refl refl hit mEnd_def dst' table'_def le_refl found(2) _ "1.prems"(4)] by blast
      have "lz_loop maxOut (sq @ enc) (take anchor src) = lz_loop maxOut enc (take mEnd src)"
        using lz_sequence [of "mEnd - ip" "ip - nat ?ref" "take anchor src" lits maxOut enc] found enc(2) hit ref
          "1.prems"(1,2,4) ll out by (auto simp: sq_def minMatch_def maxOffset_def)
      moreover have "length (sq @ enc) \<le> (length src - anchor) + (length src - anchor) div 255 + 2"
      proof -
        have "length sq \<le> (ip - anchor) + (mEnd - ip) + (ip - anchor) div 255"
          using sequence_size [of "mEnd - ip" lits] found(1) ll by (simp add: sq_def)
        moreover have "(ip - anchor) + (mEnd - ip) + (length src - mEnd) = length src - anchor"
          using found(1,2) "1.prems"(1) by simp
        moreover have "(ip - anchor) div 255 + (length src - mEnd) div 255 \<le> (length src - anchor) div 255"
          using div_add_le [of "ip - anchor" "length src - mEnd"] calculation(2)
            div_le_mono [of "ip - anchor + (length src - mEnd)" "length src - anchor" 255] by linarith
        ultimately show ?thesis using enc(4) unfolding length_append by linarith
      qed
      ultimately show ?thesis using step enc by (intro exI [of _ "sq @ enc"]) simp
    qed
  qed
qed

lemma Compress_decodes:
  assumes "length src \<le> maxOut"
  shows "\<exists>enc. Compress dst src = dst @ enc \<and> lz_loop maxOut enc [] = Inr src \<and>
    length enc \<le> length src + length src div 255 + 2"
proof (cases "length src < minLength")
  case True
  then show ?thesis
    using lz_last [of "[]" src maxOut] assms length_ext_le [of "length src"] by (auto simp: Compress_def emitLastLiterals_eq)
next
  case False
  have "table_ok (set_hash src 0 (replicate hashTableSize (- 1))) 1"
    by (rule table_ok_set [of _ 0]) (simp_all add: table_ok_def)
  then show ?thesis
    using compress_loop_decodes [of 0 1 src _ maxOut dst] assms False by (auto simp: Compress_def)
qed

text \<open>The decompressor never produces more than its bound, whatever the block.\<close>

lemma length_copy_match [simp]: "length (copy_match p n out) = length out + n"
  by (induction p n out rule: copy_match.induct) simp_all

lemma lz_loop_bounded: "lz_loop maxOut b out = Inr r \<Longrightarrow> length out \<le> maxOut \<Longrightarrow> length r \<le> maxOut"
proof (induction maxOut b out arbitrary: r rule: lz_loop.induct)
  case (2 maxOut token b out)
  show ?case
    using "2.prems" "2.IH"
    by (subst (asm) lz_loop.simps(2)) (auto simp: Let_def not_less split: option.splits if_splits)
qed simp

text \<open>C33: compression is lossless and bounded.  For every payload, Compress appends a block of at most CompressBound
  bytes that Decompress turns back into exactly the payload whenever the bound admits its length, whatever the match
  finder chose.  Decompress of any bytes at all either fails, returning the destination unchanged, or appends at most
  the given bound.\<close>

theorem lz4_lossless:
  assumes "int (length src) \<le> maxOut"
  shows "(\<exists>enc. Compress dst src = dst @ enc \<and> Decompress dst' enc maxOut = (None, dst' @ src) \<and>
      int (length enc) \<le> CompressBound (int (length src))) \<and>
    (\<exists>out. snd (Decompress dst' anyblock maxOut) = dst' @ out \<and> int (length out) \<le> maxOut)"
proof -
  have m: "nat (if maxOut < 0 then 0 else maxOut) = nat maxOut" by simp
  have "length src \<le> nat maxOut" using assms by linarith
  then obtain enc where enc: "Compress dst src = dst @ enc" "lz_loop (nat maxOut) enc [] = Inr src"
      "length enc \<le> length src + length src div 255 + 2"
    using Compress_decodes by blast
  have "int (length src div 255) = quot (int (length src)) 255" by (simp add: quot_nonneg zdiv_int)
  then have "int (length enc) \<le> CompressBound (int (length src))" using enc(3) by (simp add: CompressBound_def)
  moreover have "\<exists>out. snd (Decompress dst' anyblock maxOut) = dst' @ out \<and> int (length out) \<le> maxOut"
    using assms lz_loop_bounded [of "nat maxOut" anyblock "[]"]
    by (cases "lz_loop (nat maxOut) anyblock []") (auto simp: Decompress_def m)
  ultimately show ?thesis using enc by (auto simp: Decompress_def m)
qed

theorem lz4_lossless_witness:
  "\<exists>enc. Compress [9] (replicate 40 7) = [9] @ enc \<and> Decompress [] enc 10000 = (None, replicate 40 7) \<and> int (length enc) \<le> 56"
  using lz4_lossless [of "replicate 40 7" 10000 "[9]" "[]"] by (simp add: CompressBound_def quot_nonneg)

end
