(* ===== verification/Peer.thy ===== *)
theory Peer
  imports Clock
begin

text \<open>One remote endpoint, internal/peer/peer.go: its return addresses and its liveness clock.  The part of net/netip
  the code uses is modelled first: an address is absent, IPv4, or IPv6 with a zone, and Unmap turns an IPv4-mapped IPv6
  address into the IPv4 address, dropping the zone.\<close>

datatype netip_Addr = AddrNone | Addr4 u32 | Addr6 u64 u64 string

type_synonym AddrPort = "netip_Addr \<times> u16"

definition AddrPort_IsValid :: "AddrPort \<Rightarrow> bool" where
  "AddrPort_IsValid a \<longleftrightarrow> fst a \<noteq> AddrNone"

fun Unmap :: "netip_Addr \<Rightarrow> netip_Addr" where
  "Unmap (Addr6 hi lo zone) = (if hi = 0 \<and> drop_bit 32 lo = 0xFFFF then Addr4 (ucast lo) else Addr6 hi lo zone)"
| "Unmap a = a"

record Peer =
  pe_Media :: AddrPort
  pe_RTCP :: AddrPort
  pe_timeout :: Microseconds
  pe_lastSeen :: Timestamp
  pe_seen :: bool

definition Peer_New :: "Microseconds \<Rightarrow> Peer" where
  "Peer_New timeout = \<lparr>pe_Media = (AddrNone, 0), pe_RTCP = (AddrNone, 0), pe_timeout = timeout, pe_lastSeen = 0, pe_seen = False\<rparr>"

definition LearnMedia :: "AddrPort \<Rightarrow> Peer \<Rightarrow> Peer" where
  "LearnMedia addr p = (if \<not> AddrPort_IsValid (pe_Media p) then p\<lparr>pe_Media := addr\<rparr> else p)"

definition LearnRTCP :: "AddrPort \<Rightarrow> Peer \<Rightarrow> Peer" where
  "LearnRTCP addr p =
     (if AddrPort_IsValid (pe_RTCP p) then p
      else if AddrPort_IsValid (pe_Media p) \<and> AddrPort_IsValid addr \<and> Unmap (fst (pe_Media p)) \<noteq> Unmap (fst addr) then p
      else p\<lparr>pe_RTCP := addr\<rparr>)"

definition Peer_Observe :: "Timestamp \<Rightarrow> Peer \<Rightarrow> Peer" where
  "Peer_Observe now p = p\<lparr>pe_lastSeen := now, pe_seen := True\<rparr>"

definition Rebind :: "AddrPort \<Rightarrow> Peer \<Rightarrow> Peer" where
  "Rebind addr p = p\<lparr>pe_Media := addr, pe_RTCP := addr\<rparr>"

definition SilentFor :: "Peer \<Rightarrow> Timestamp \<Rightarrow> Microseconds \<Rightarrow> bool" where
  "SilentFor p now d \<longleftrightarrow> pe_seen p \<and> Timestamp_Sub now (pe_lastSeen p) > d"

definition Peer_Seen :: "Peer \<Rightarrow> bool" where "Peer_Seen p = pe_seen p"

definition LastSeen :: "Peer \<Rightarrow> Timestamp" where "LastSeen p = pe_lastSeen p"

definition Peer_Expired :: "Peer \<Rightarrow> Timestamp \<Rightarrow> bool" where
  "Peer_Expired p now = SilentFor p now (pe_timeout p)"

section \<open>Feedback stays on the media host\<close>

text \<open>Everything the receive path does to a peer, spoofed datagrams included; a rebind is the deliberate override.\<close>

datatype peer_op = OpMedia AddrPort | OpRTCP AddrPort | OpObserve Timestamp | OpRebind AddrPort

definition peer_step :: "Peer \<Rightarrow> peer_op \<Rightarrow> Peer" where
  "peer_step p op = (case op of OpMedia a \<Rightarrow> LearnMedia a p | OpRTCP a \<Rightarrow> LearnRTCP a p
     | OpObserve t \<Rightarrow> Peer_Observe t p | OpRebind a \<Rightarrow> Rebind a p)"

definition same_host :: "Peer \<Rightarrow> bool" where
  "same_host p \<longleftrightarrow> (AddrPort_IsValid (pe_Media p) \<and> AddrPort_IsValid (pe_RTCP p) \<longrightarrow>
     Unmap (fst (pe_Media p)) = Unmap (fst (pe_RTCP p)))"

text \<open>Once media is known, an RTCP source on another host is never learned.\<close>

lemma LearnRTCP_same_host:
  assumes "AddrPort_IsValid (pe_Media p)" "same_host p"
  shows "same_host (LearnRTCP a p)"
  using assms by (auto simp: same_host_def LearnRTCP_def)

text \<open>If media is learned before RTCP, no sequence of datagrams and rebinds separates the two hosts.\<close>

lemma peer_run_same_host:
  assumes "AddrPort_IsValid (pe_Media p)" "same_host p" "\<forall>a. OpRebind a \<in> set ops \<longrightarrow> AddrPort_IsValid a"
  shows "same_host (foldl peer_step p ops) \<and> AddrPort_IsValid (pe_Media (foldl peer_step p ops))"
  using assms
proof (induction ops arbitrary: p)
  case (Cons op ops)
  have "same_host (peer_step p op) \<and> AddrPort_IsValid (pe_Media (peer_step p op))"
    using Cons.prems LearnRTCP_same_host
    by (cases op) (auto simp: peer_step_def LearnMedia_def LearnRTCP_def Peer_Observe_def Rebind_def same_host_def)
  then show ?case using Cons by simp
qed simp

text \<open>If RTCP is learned first, nothing ties it to the media host: the check has nothing to compare against, and
  learning media afterwards does not look back.\<close>

lemma rtcp_first_unchecked:
  "\<not> same_host (LearnMedia (Addr4 1, 5000) (LearnRTCP (Addr4 2, 5001) (Peer_New 100)))"
  by (simp add: same_host_def LearnMedia_def LearnRTCP_def Peer_New_def AddrPort_IsValid_def)

lemma learned_media_sticks: "AddrPort_IsValid (pe_Media p) \<Longrightarrow> LearnMedia a p = p"
  by (simp add: LearnMedia_def)

lemma never_seen_never_expires: "\<not> Peer_Expired (Peer_New t) now"
  by (simp add: Peer_Expired_def SilentFor_def Peer_New_def)

end
