(* ===== verification/Srp.thy ===== *)
theory Srp
  imports Codec
begin

text \<open>SRP-6a over SHA-256, internal/srp/srp.go: the group, the hashes of the protocol, and the client and server of a
  handshake.  A \<open>big.Int\<close> that is never negative is a natural number.  The digest is a parameter \<open>sha\<close> of everything
  that hashes, and the secret drawn from the random source is an argument (\<open>None\<close> where reading it fails).\<close>

section \<open>Big-endian numbers\<close>

text \<open>\<open>big.Int.SetBytes\<close>, \<open>big.Int.Bytes\<close> and \<open>big.Int.FillBytes\<close>, which panics when the value does not fit.\<close>

definition SetBytes :: "bytes \<Rightarrow> nat" where
  "SetBytes b = foldl (\<lambda>n x. n * 256 + unat x) 0 b"

fun big_Bytes :: "nat \<Rightarrow> bytes" where
  "big_Bytes n = (if n = 0 then [] else big_Bytes (n div 256) @ [of_nat n])"

declare big_Bytes.simps [simp del]

definition FillBytes :: "nat \<Rightarrow> nat \<Rightarrow> bytes option" where
  "FillBytes len n =
     (let b = big_Bytes n in if length b > len then None else Some (replicate (len - length b) 0 @ b))"

definition big_Exp :: "nat \<Rightarrow> nat \<Rightarrow> nat \<Rightarrow> nat" where
  "big_Exp x y m = x ^ y mod m"

lemma SetBytes_snoc: "SetBytes (b @ [x]) = SetBytes b * 256 + unat x"
  by (simp add: SetBytes_def)

lemma SetBytes_Bytes [simp]: "SetBytes (big_Bytes n) = n"
proof (induction n rule: big_Bytes.induct)
  case (1 n)
  show ?case
  proof (cases "n = 0")
    case False
    have "unat (of_nat n :: u8) = n mod 256" by (simp add: unsigned_of_nat take_bit_eq_mod)
    then show ?thesis using 1 [OF False] False by (subst big_Bytes.simps) (simp add: SetBytes_snoc)
  qed (simp add: big_Bytes.simps SetBytes_def)
qed

lemma SetBytes_zeros: "SetBytes (replicate k 0 @ b) = SetBytes b"
  by (induction k) (simp_all add: SetBytes_def)

lemma SetBytes_Fill: "FillBytes len n = Some b \<Longrightarrow> SetBytes b = n \<and> length b = len"
  by (auto simp: FillBytes_def Let_def SetBytes_zeros split: if_splits)

lemma length_Bytes: "n < 256 ^ k \<Longrightarrow> length (big_Bytes n) \<le> k"
proof (induction n arbitrary: k rule: big_Bytes.induct)
  case (1 n)
  show ?case
  proof (cases "n = 0")
    case False
    then obtain j where k: "k = Suc j" using "1.prems" by (cases k) auto
    then have "n div 256 < 256 ^ j" using "1.prems" by (simp add: less_mult_imp_div_less mult.commute)
    then show ?thesis using 1(1) [OF False] k False by (subst big_Bytes.simps) simp
  qed (simp add: big_Bytes.simps)
qed

lemma SetBytes_less: "SetBytes b < 256 ^ length b"
proof (induction b rule: rev_induct)
  case (snoc x b)
  have "unat x < 256" using unsigned_less [of x] by simp
  then have "SetBytes b * 256 + unat x < (SetBytes b + 1) * 256" by simp
  also have "\<dots> \<le> 256 ^ length b * 256" using snoc by (intro mult_right_mono) simp_all
  finally show ?case by (simp add: SetBytes_snoc)
qed (simp add: SetBytes_def)

section \<open>Groups and hashes\<close>

datatype srp_err = ErrInvalidGroup | ErrInvalidSalt | ErrSaltTooLong | ErrInvalidVerifier | ErrBadParameter | ErrCSPRNG
  | SrpPanic

definition hashLen :: nat where "hashLen = 32"
definition MaxSaltLen :: nat where "MaxSaltLen = 1024"

definition srp_Hash :: "(bytes \<Rightarrow> bytes) \<Rightarrow> bytes list \<Rightarrow> bytes" where
  "srp_Hash sha parts = sha (concat parts)"

record srp_Group =
  sg_N :: nat
  sg_G :: nat
  sg_length :: nat

text \<open>The cached length, \<open>(n.BitLen() + 7) / 8\<close>, is the number of bytes of the minimal encoding.\<close>

definition srp_newGroup :: "nat \<Rightarrow> nat \<Rightarrow> srp_Group" where
  "srp_newGroup n g = \<lparr>sg_N = n, sg_G = g, sg_length = length (big_Bytes n)\<rparr>"

definition defaultN :: nat where
  "defaultN = 0xAC6BDB41324A9A9BF166DE5E1389582FAF72B6651987EE07FC3192943DB56050A37329CBB4A099ED8193E0757767A13DD52312AB4B03310DCD7F48A9DA04FD50E8083969EDB767B0CF6095179A163AB3661A05FBD5FAAAE82918A9962F0B93B855F97993EC975EEAA80D740ADBF4FF747359D041D5C33EA71D281E446B14773BCA97B43A23FB801676BD207A436C6481F1D2B9078717461A5B9D32E688F87748544523B524B0D57D5EA77A2775D2ECFA032CFBDBF52FB3786160279004E57AE6AF874E7303CE53299CCC041C7BC308D82A5698F3A8D0C38271AE35F8E9DBFBB694B5C803D89F7AE435DE236D525F54759B65E372FCD68EF20FA7111F9E4AFF73"

definition DefaultGroup :: srp_Group where
  "DefaultGroup = srp_newGroup defaultN 2"

definition srp_valid :: "srp_Group \<Rightarrow> bool" where
  "srp_valid gr \<longleftrightarrow> sg_N gr > 0 \<and> sg_G gr > 0"

definition srp_pad :: "srp_Group \<Rightarrow> nat \<Rightarrow> bytes option" where
  "srp_pad gr x = FillBytes (sg_length gr) x"

definition minimalBytes :: "nat \<Rightarrow> bytes" where
  "minimalBytes x = big_Bytes x"

definition hashPadded :: "(bytes \<Rightarrow> bytes) \<Rightarrow> srp_Group \<Rightarrow> nat \<Rightarrow> nat \<Rightarrow> bytes option" where
  "hashPadded sha gr a b =
     (case (srp_pad gr a, srp_pad gr b) of (Some pa, Some pb) \<Rightarrow> Some (srp_Hash sha [pa, pb]) | _ \<Rightarrow> None)"

definition hashUnpadded :: "(bytes \<Rightarrow> bytes) \<Rightarrow> nat \<Rightarrow> nat \<Rightarrow> bytes" where
  "hashUnpadded sha a b = srp_Hash sha [minimalBytes a, minimalBytes b]"

definition validateSalt :: "bytes \<Rightarrow> srp_err option" where
  "validateSalt salt =
     (if length salt = 0 then Some ErrInvalidSalt
      else if length salt > MaxSaltLen then Some ErrSaltTooLong else None)"

definition canonSalt :: "bytes \<Rightarrow> bytes" where
  "canonSalt salt = big_Bytes (SetBytes salt)"

definition calcX :: "(bytes \<Rightarrow> bytes) \<Rightarrow> bytes \<Rightarrow> bytes \<Rightarrow> bytes \<Rightarrow> nat" where
  "calcX sha salt username password =
     (let inner = srp_Hash sha [username, [58], password];
          outer = srp_Hash sha [canonSalt salt, inner]
      in SetBytes outer)"

definition kValue :: "(bytes \<Rightarrow> bytes) \<Rightarrow> srp_Group \<Rightarrow> bool \<Rightarrow> nat option" where
  "kValue sha gr legacyPad =
     map_option SetBytes (if legacyPad then Some (hashUnpadded sha (sg_N gr) (sg_G gr)) else hashPadded sha gr (sg_N gr) (sg_G gr))"

definition uValue :: "(bytes \<Rightarrow> bytes) \<Rightarrow> srp_Group \<Rightarrow> nat \<Rightarrow> nat \<Rightarrow> bool \<Rightarrow> nat option" where
  "uValue sha gr a b legacyPad =
     map_option SetBytes (if legacyPad then Some (hashUnpadded sha a b) else hashPadded sha gr a b)"

definition sessionKey :: "(bytes \<Rightarrow> bytes) \<Rightarrow> nat \<Rightarrow> bytes" where
  "sessionKey sha s = srp_Hash sha [minimalBytes s]"

definition calcM1 :: "(bytes \<Rightarrow> bytes) \<Rightarrow> srp_Group \<Rightarrow> bytes \<Rightarrow> bytes \<Rightarrow> nat \<Rightarrow> nat \<Rightarrow> bytes \<Rightarrow> bytes" where
  "calcM1 sha gr username salt a b key =
     (let hN = srp_Hash sha [minimalBytes (sg_N gr)];
          hG = srp_Hash sha [minimalBytes (sg_G gr)];
          xored = map2 (\<lambda>x y. xor x y) hN hG;
          hI = srp_Hash sha [username]
      in srp_Hash sha [xored, hI, canonSalt salt, minimalBytes a, minimalBytes b, key])"

definition calcM2 :: "(bytes \<Rightarrow> bytes) \<Rightarrow> nat \<Rightarrow> bytes \<Rightarrow> bytes \<Rightarrow> bytes" where
  "calcM2 sha a m1 key = srp_Hash sha [minimalBytes a, m1, key]"

text \<open>Go's nil result is the empty verifier.\<close>

definition MakeVerifier :: "(bytes \<Rightarrow> bytes) \<Rightarrow> srp_Group \<Rightarrow> bytes \<Rightarrow> bytes \<Rightarrow> bytes \<Rightarrow> bytes" where
  "MakeVerifier sha g username password salt =
     (if \<not> srp_valid g \<or> validateSalt salt \<noteq> None then []
      else big_Bytes (big_Exp (sg_G g) (calcX sha salt username password) (sg_N g)))"

section \<open>The client\<close>

definition readSecret :: "nat option \<Rightarrow> srp_err + nat" where
  "readSecret src = (case src of None \<Rightarrow> Inl ErrCSPRNG | Some v \<Rightarrow> Inr v)"

record srp_Client =
  cl_group :: srp_Group
  cl_salt :: bytes
  cl_a :: nat
  cl_pubA :: nat
  cl_legacyPad :: bool
  cl_computed :: bool
  cl_key :: bytes
  cl_m1 :: bytes

definition newClient :: "srp_Group \<Rightarrow> bytes \<Rightarrow> bool \<Rightarrow> nat option \<Rightarrow> srp_err + srp_Client" where
  "newClient g salt legacyPad src =
     (if \<not> srp_valid g then Inl ErrInvalidGroup
      else case validateSalt salt of Some e \<Rightarrow> Inl e
      | None \<Rightarrow> (case readSecret src of Inl e \<Rightarrow> Inl e
        | Inr a \<Rightarrow> Inr \<lparr>cl_group = g, cl_salt = salt, cl_a = a, cl_pubA = big_Exp (sg_G g) a (sg_N g),
                       cl_legacyPad = legacyPad, cl_computed = False, cl_key = replicate hashLen 0,
                       cl_m1 = replicate hashLen 0\<rparr>))"

definition Client_A :: "srp_Client \<Rightarrow> bytes option" where
  "Client_A c = srp_pad (cl_group c) (cl_pubA c)"

definition ComputeKey :: "(bytes \<Rightarrow> bytes) \<Rightarrow> bytes \<Rightarrow> bytes \<Rightarrow> bytes \<Rightarrow> srp_Client \<Rightarrow> srp_err + srp_Client" where
  "ComputeKey sha serverB username password c =
     (let gr = cl_group c in
      if length serverB = 0 \<or> length serverB > sg_length gr then Inl ErrBadParameter
      else let bPub = SetBytes serverB in
      if bPub mod sg_N gr = 0 then Inl ErrBadParameter
      else case uValue sha gr (cl_pubA c) bPub (cl_legacyPad c) of None \<Rightarrow> Inl SrpPanic
      | Some u \<Rightarrow>
        if u mod sg_N gr = 0 then Inl ErrBadParameter
        else case kValue sha gr (cl_legacyPad c) of None \<Rightarrow> Inl SrpPanic
        | Some k \<Rightarrow>
          let x = calcX sha (cl_salt c) username password;
              gx = big_Exp (sg_G gr) x (sg_N gr);
              base = nat ((int bPub - int (k * gx)) mod int (sg_N gr));
              s = big_Exp base (cl_a c + u * x) (sg_N gr);
              key = sessionKey sha s
          in Inr (c\<lparr>cl_key := key, cl_m1 := calcM1 sha gr username (cl_salt c) (cl_pubA c) bPub key, cl_computed := True\<rparr>))"

definition Client_M1 :: "srp_Client \<Rightarrow> bytes option" where
  "Client_M1 c = (if \<not> cl_computed c then None else Some (cl_m1 c))"

definition VerifyM2 :: "(bytes \<Rightarrow> bytes) \<Rightarrow> bytes \<Rightarrow> srp_Client \<Rightarrow> bool" where
  "VerifyM2 sha m2 c =
     (if \<not> cl_computed c \<or> length m2 \<noteq> hashLen then False
      else calcM2 sha (cl_pubA c) (cl_m1 c) (cl_key c) = m2)"

definition Client_SessionKey :: "srp_Client \<Rightarrow> bytes option" where
  "Client_SessionKey c = (if \<not> cl_computed c then None else Some (cl_key c))"

section \<open>The server\<close>

record srp_Server =
  sv_group :: srp_Group
  sv_salt :: bytes
  sv_v :: nat
  sv_b :: nat
  sv_pubB :: nat
  sv_pubA :: "nat option"
  sv_legacyPad :: bool
  sv_verified :: bool
  sv_key :: bytes
  sv_m2 :: bytes

definition computeB :: "(bytes \<Rightarrow> bytes) \<Rightarrow> srp_Server \<Rightarrow> srp_err + srp_Server" where
  "computeB sha s =
     (let gr = sv_group s in
      case kValue sha gr (sv_legacyPad s) of None \<Rightarrow> Inl SrpPanic
      | Some k \<Rightarrow>
        let pubB = (k * sv_v s + big_Exp (sg_G gr) (sv_b s) (sg_N gr)) mod sg_N gr
        in if pubB = 0 then Inl ErrBadParameter else Inr (s\<lparr>sv_pubB := pubB\<rparr>))"

definition newServer ::
  "(bytes \<Rightarrow> bytes) \<Rightarrow> srp_Group \<Rightarrow> bytes \<Rightarrow> bytes \<Rightarrow> bool \<Rightarrow> nat option \<Rightarrow> srp_err + srp_Server" where
  "newServer sha g verifier salt legacyPad src =
     (if \<not> srp_valid g then Inl ErrInvalidGroup
      else case validateSalt salt of Some e \<Rightarrow> Inl e
      | None \<Rightarrow>
        if length verifier = 0 then Inl ErrInvalidVerifier
        else let v = SetBytes verifier in
        if v mod sg_N g = 0 then Inl ErrInvalidVerifier
        else case readSecret src of Inl e \<Rightarrow> Inl e
        | Inr b \<Rightarrow>
          computeB sha \<lparr>sv_group = g, sv_salt = salt, sv_v = v, sv_b = b, sv_pubB = 0, sv_pubA = None,
            sv_legacyPad = legacyPad, sv_verified = False, sv_key = replicate hashLen 0, sv_m2 = replicate hashLen 0\<rparr>)"

definition Server_B :: "srp_Server \<Rightarrow> bytes option" where
  "Server_B s = srp_pad (sv_group s) (sv_pubB s)"

definition HandleA :: "bytes \<Rightarrow> srp_Server \<Rightarrow> srp_err + srp_Server" where
  "HandleA clientA s =
     (let gr = sv_group s in
      if length clientA = 0 \<or> length clientA > sg_length gr then Inl ErrBadParameter
      else let a = SetBytes clientA in
      if a mod sg_N gr = 0 then Inl ErrBadParameter else Inr (s\<lparr>sv_pubA := Some a\<rparr>))"

text \<open>The state and the answer; a failed proof leaves the derived key in the state, unverified.\<close>

definition VerifyM1 :: "(bytes \<Rightarrow> bytes) \<Rightarrow> bytes \<Rightarrow> bytes \<Rightarrow> srp_Server \<Rightarrow> srp_err + srp_Server \<times> bool" where
  "VerifyM1 sha username m1 s =
     (let gr = sv_group s in
      case sv_pubA s of None \<Rightarrow> Inr (s, False)
      | Some pubA \<Rightarrow>
        if length m1 \<noteq> hashLen then Inr (s, False)
        else case uValue sha gr pubA (sv_pubB s) (sv_legacyPad s) of None \<Rightarrow> Inl SrpPanic
        | Some u \<Rightarrow>
          if u mod sg_N gr = 0 then Inr (s, False)
          else let vu = big_Exp (sv_v s) u (sg_N gr);
                   sShared = big_Exp (pubA * vu) (sv_b s) (sg_N gr);
                   key = sessionKey sha sShared;
                   s = s\<lparr>sv_key := key\<rparr>;
                   want = calcM1 sha gr username (sv_salt s) pubA (sv_pubB s) key
               in if want \<noteq> m1 then Inr (s, False)
                  else Inr (s\<lparr>sv_m2 := calcM2 sha pubA want key, sv_verified := True\<rparr>, True))"

definition Server_M2 :: "srp_Server \<Rightarrow> bytes option" where
  "Server_M2 s = (if \<not> sv_verified s then None else Some (sv_m2 s))"

definition Server_SessionKey :: "srp_Server \<Rightarrow> bytes option" where
  "Server_SessionKey s = (if \<not> sv_verified s then None else Some (sv_key s))"

section \<open>Both sides derive the same secret\<close>

text \<open>The algebra of SRP-6a, for any modulus.\<close>

lemma srp_secret:
  fixes N g x k u a b :: nat
  assumes "N > 0"
  defines "v \<equiv> g ^ x mod N"
  defines "B \<equiv> (k * v + g ^ b mod N) mod N"
  shows "nat ((int B - int (k * v)) mod int N) ^ (a + u * x) mod N = ((g ^ a mod N) * (v ^ u mod N)) ^ b mod N"
proof -
  have "(int B - int (k * v)) mod int N = int (g ^ b mod N)"
  proof -
    have "(int B - int (k * v)) mod int N = (int (k * v + g ^ b mod N) - int (k * v)) mod int N"
      unfolding B_def by (simp add: zmod_int mod_diff_left_eq del: of_nat_add of_nat_mult)
    also have "\<dots> = int (g ^ b mod N)" by (simp add: zmod_int)
    finally show ?thesis .
  qed
  then have "nat ((int B - int (k * v)) mod int N) ^ (a + u * x) mod N = (g ^ b) ^ (a + u * x) mod N"
    by (simp add: power_mod)
  also have "(g ^ b) ^ (a + u * x) = (g ^ a * (g ^ x) ^ u) ^ b"
    by (simp add: power_mult [symmetric] power_add [symmetric] power_mult_distrib algebra_simps)
  also have "\<dots> mod N = ((g ^ a mod N) * (v ^ u mod N)) ^ b mod N"
    unfolding v_def by (metis (no_types, lifting) mod_mult_eq power_mod)
  finally show ?thesis .
qed

lemma newServer_fields:
  assumes "newServer sha g verifier salt lg (Some b) = Inr s"
  shows "\<exists>k. kValue sha g lg = Some k \<and> sg_N g > 0 \<and> sv_group s = g \<and> sv_salt s = salt \<and> sv_v s = SetBytes verifier \<and> sv_b s = b \<and>
    sv_legacyPad s = lg \<and> sv_pubB s = (k * SetBytes verifier + sg_G g ^ b mod sg_N g) mod sg_N g"
  using assms
  by (auto simp: newServer_def readSecret_def computeB_def big_Exp_def srp_valid_def Let_def split: if_splits option.splits sum.splits)

lemma newClient_fields:
  assumes "newClient g salt lg (Some a) = Inr c"
  shows "cl_group c = g \<and> cl_salt c = salt \<and> cl_a c = a \<and> cl_legacyPad c = lg \<and> cl_pubA c = sg_G g ^ a mod sg_N g"
  using assms by (auto simp: newClient_def readSecret_def big_Exp_def split: if_splits option.splits sum.splits)

lemma MakeVerifier_value:
  assumes "newServer sha g (MakeVerifier sha g user pw salt) salt lg (Some b) = Inr s"
  shows "SetBytes (MakeVerifier sha g user pw salt) = sg_G g ^ calcX sha salt user pw mod sg_N g"
  using assms by (auto simp: newServer_def MakeVerifier_def big_Exp_def split: if_splits option.splits)

lemma ComputeKey_fields:
  assumes "ComputeKey sha wB user pw c = Inr c1"
  shows "\<exists>u k. uValue sha (cl_group c) (cl_pubA c) (SetBytes wB) (cl_legacyPad c) = Some u \<and>
    u mod sg_N (cl_group c) \<noteq> 0 \<and> kValue sha (cl_group c) (cl_legacyPad c) = Some k \<and> cl_computed c1 \<and> cl_pubA c1 = cl_pubA c \<and>
    cl_key c1 = sessionKey sha (nat ((int (SetBytes wB) -
      int (k * (sg_G (cl_group c) ^ calcX sha (cl_salt c) user pw mod sg_N (cl_group c)))) mod int (sg_N (cl_group c))) ^
      (cl_a c + u * calcX sha (cl_salt c) user pw) mod sg_N (cl_group c)) \<and>
    cl_m1 c1 = calcM1 sha (cl_group c) user (cl_salt c) (cl_pubA c) (SetBytes wB) (cl_key c1)"
  using assms by (auto simp: ComputeKey_def big_Exp_def Let_def split: if_splits option.splits)

lemma srp_agree:
  assumes hash: "\<forall>m. length (sha m) = 32"
    and client: "newClient g salt lg (Some a) = Inr c"
    and server: "newServer sha g (MakeVerifier sha g user pw salt) salt lg (Some b) = Inr s"
    and A: "Client_A c = Some wA" "HandleA wA s = Inr s1"
    and B: "Server_B s1 = Some wB" "ComputeKey sha wB user pw c = Inr c1"
  shows "\<exists>m1 s2 m2 key. Client_M1 c1 = Some m1 \<and> VerifyM1 sha user m1 s1 = Inr (s2, True) \<and> Server_M2 s2 = Some m2 \<and>
    VerifyM2 sha m2 c1 \<and> Client_SessionKey c1 = Some key \<and> Server_SessionKey s2 = Some key"
proof -
  let ?x = "calcX sha salt user pw"
  let ?v = "sg_G g ^ ?x mod sg_N g"
  note cf = newClient_fields [OF client]
  obtain k where k: "kValue sha g lg = Some k" "sg_N g > 0"
    and sf: "sv_group s = g" "sv_salt s = salt" "sv_b s = b" "sv_legacyPad s = lg" "sv_v s = ?v"
      "sv_pubB s = (k * ?v + sg_G g ^ b mod sg_N g) mod sg_N g"
    using newServer_fields [OF server] MakeVerifier_value [OF server] by auto
  have s1: "s1 = s\<lparr>sv_pubA := Some (cl_pubA c)\<rparr>"
    using A SetBytes_Fill [of "sg_length g" "cl_pubA c" wA] cf sf(1)
    by (auto simp: HandleA_def Client_A_def srp_pad_def Let_def split: if_splits)
  have wB: "SetBytes wB = sv_pubB s"
    using B(1) SetBytes_Fill [of "sg_length g" "sv_pubB s" wB] sf(1) s1 by (auto simp: Server_B_def srp_pad_def)
  obtain u where u: "uValue sha g (cl_pubA c) (sv_pubB s) lg = Some u" "u mod sg_N g \<noteq> 0"
    and ck: "cl_computed c1" "cl_pubA c1 = cl_pubA c" "cl_m1 c1 = calcM1 sha g user salt (cl_pubA c) (sv_pubB s) (cl_key c1)"
      "cl_key c1 = sessionKey sha (nat ((int (sv_pubB s) - int (k * ?v)) mod int (sg_N g)) ^ (a + u * ?x) mod sg_N g)"
    using ComputeKey_fields [OF B(2)] cf k(1) wB by auto
  have key: "cl_key c1 = sessionKey sha ((cl_pubA c * (?v ^ u mod sg_N g)) ^ b mod sg_N g)"
    using srp_secret [OF k(2), of k "sg_G g" ?x b a u] cf sf(6) ck(4) by simp
  have len: "length (calcM1 sha g user salt A' B' K) = hashLen" "length (calcM2 sha A' M K) = hashLen" for A' B' M K
    using hash by (simp_all add: calcM1_def calcM2_def srp_Hash_def hashLen_def Let_def)
  define s2 where "s2 = s1\<lparr>sv_key := cl_key c1, sv_m2 := calcM2 sha (cl_pubA c) (cl_m1 c1) (cl_key c1), sv_verified := True\<rparr>"
  have "VerifyM1 sha user (cl_m1 c1) s1 = Inr (s2, True)"
    using u ck(3) key sf s1 len by (simp add: VerifyM1_def Let_def big_Exp_def s2_def)
  moreover have "VerifyM2 sha (sv_m2 s2) c1" using ck len by (simp add: VerifyM2_def s2_def)
  ultimately show ?thesis
    using ck(1) by (auto simp: Client_M1_def Server_M2_def Client_SessionKey_def Server_SessionKey_def s2_def)
qed

text \<open>C15: SRP-6a authenticates a client that knows the password.  When a server holding the verifier of a user name and
  password, and a client given the same user name, password, salt and hashing mode, exchange their public values without
  either of them aborting, the server accepts the client's proof, the client accepts the server's, and both hold the same
  session key.  This holds for every group, every pair of secrets and every 32-byte hash.\<close>

theorem srp_agreement:
  assumes hash: "\<forall>m. length (sha m) = 32"
    and client: "newClient g salt lg (Some a) = Inr c"
    and server: "newServer sha g (MakeVerifier sha g user pw salt) salt lg (Some b) = Inr s"
    and A: "Client_A c = Some wA" "HandleA wA s = Inr s1"
    and B: "Server_B s1 = Some wB" "ComputeKey sha wB user pw c = Inr c1"
  shows "\<exists>m1 s2 m2 key. Client_M1 c1 = Some m1 \<and> VerifyM1 sha user m1 s1 = Inr (s2, True) \<and> Server_M2 s2 = Some m2 \<and>
    VerifyM2 sha m2 c1 \<and> Client_SessionKey c1 = Some key \<and> Server_SessionKey s2 = Some key"
  using assms by (rule srp_agree)

definition demo_sha :: "bytes \<Rightarrow> bytes" where "demo_sha m = replicate 31 0 @ [1]"

theorem srp_agreement_witness:
  "\<exists>c s s1 c1 s2 key. newClient (srp_newGroup 23 5) [7] False (Some 1) = Inr c \<and>
     newServer demo_sha (srp_newGroup 23 5) (MakeVerifier demo_sha (srp_newGroup 23 5) [1] [2] [7]) [7] False (Some 2) = Inr s \<and>
     HandleA [5] s = Inr s1 \<and> ComputeKey demo_sha [7] [1] [2] c = Inr c1 \<and>
     Client_SessionKey c1 = Some key \<and> Server_SessionKey s2 = Some key"
proof -
  define g where "g = srp_newGroup 23 5"
  define c where "c = projr (newClient g [7] False (Some 1))"
  define s where "s = projr (newServer demo_sha g (MakeVerifier demo_sha g [1] [2] [7]) [7] False (Some 2))"
  define s1 where "s1 = projr (HandleA [5] s)"
  define c1 where "c1 = projr (ComputeKey demo_sha [7] [1] [2] c)"
  note d = g_def c_def s_def s1_def c1_def
  have h: "\<forall>m. length (demo_sha m) = 32" by (simp add: demo_sha_def)
  have 1: "newClient g [7] False (Some 1) = Inr c" unfolding d by code_simp
  have 2: "newServer demo_sha g (MakeVerifier demo_sha g [1] [2] [7]) [7] False (Some 2) = Inr s" unfolding d by code_simp
  have 3: "Client_A c = Some [5]" unfolding d by code_simp
  have 4: "HandleA [5] s = Inr s1" unfolding d by code_simp
  have 5: "Server_B s1 = Some [7]" unfolding d by code_simp
  have 6: "ComputeKey demo_sha [7] [1] [2] c = Inr c1" unfolding d by code_simp
  show ?thesis using srp_agreement [OF h 1 2 3 4 5 6] 1 2 4 6 unfolding g_def by blast
qed

section \<open>Safety aborts\<close>

lemma HandleA_zero: "SetBytes wA mod sg_N (sv_group s) = 0 \<Longrightarrow> HandleA wA s = Inl ErrBadParameter"
  by (simp add: HandleA_def Let_def)

lemma ComputeKey_zero: "SetBytes wB mod sg_N (cl_group c) = 0 \<Longrightarrow> ComputeKey sha wB user pw c = Inl ErrBadParameter"
  by (simp add: ComputeKey_def Let_def)

lemma keys_withheld:
  "\<not> cl_computed c \<Longrightarrow> Client_SessionKey c = None \<and> Client_M1 c = None \<and> \<not> VerifyM2 sha m c"
  "\<not> sv_verified s \<Longrightarrow> Server_SessionKey s = None \<and> Server_M2 s = None"
  by (simp_all add: Client_SessionKey_def Client_M1_def VerifyM2_def Server_SessionKey_def Server_M2_def)

text \<open>No padding panics on a group whose generator is below its modulus: every value that is padded fits.\<close>

lemma pad_fits: "n \<le> sg_N g \<Longrightarrow> sg_length g = length (big_Bytes (sg_N g)) \<Longrightarrow> srp_pad g n \<noteq> None"
proof -
  assume n: "n \<le> sg_N g" and l: "sg_length g = length (big_Bytes (sg_N g))"
  have "sg_N g < 256 ^ length (big_Bytes (sg_N g))" using SetBytes_less [of "big_Bytes (sg_N g)"] by simp
  then have "length (big_Bytes n) \<le> sg_length g" using n l length_Bytes [of n "sg_length g"] by simp
  then show ?thesis by (simp add: srp_pad_def FillBytes_def Let_def)
qed

lemma pad_fits_wire: "length b \<le> sg_length g \<Longrightarrow> srp_pad g (SetBytes b) \<noteq> None"
proof -
  assume b: "length b \<le> sg_length g"
  have "SetBytes b < 256 ^ sg_length g" using SetBytes_less [of b] power_increasing [OF b, of "256 :: nat"] by linarith
  then show ?thesis using length_Bytes [of "SetBytes b" "sg_length g"] by (simp add: srp_pad_def FillBytes_def Let_def)
qed

lemma client_no_panic:
  assumes "newClient (srp_newGroup N g) salt lg (Some a) = Inr c" "g \<le> N"
  shows "ComputeKey sha wB user pw c \<noteq> Inl SrpPanic"
proof -
  note cf = newClient_fields [OF assms(1)]
  have N: "0 < N" using assms(1) by (auto simp: newClient_def srp_valid_def srp_newGroup_def split: if_splits)
  let ?g = "srp_newGroup N g"
  have p: "srp_pad ?g x \<noteq> None" if "x \<le> N" for x
    using pad_fits [of x ?g] that by (simp add: srp_newGroup_def)
  have "cl_pubA c \<le> N" using cf N by (simp add: srp_newGroup_def less_imp_le)
  then have "uValue sha ?g (cl_pubA c) (SetBytes wB) lg \<noteq> None" if "\<not> length wB > sg_length ?g"
    using p [of "cl_pubA c"] pad_fits_wire [of wB ?g] that by (auto simp: uValue_def hashPadded_def)
  moreover have "kValue sha ?g lg \<noteq> None"
    using p [of N] p [OF assms(2)] by (auto simp: kValue_def hashPadded_def srp_newGroup_def)
  ultimately show ?thesis using cf by (auto simp: ComputeKey_def Let_def split: option.splits)
qed

end
