(* ===== verification/Psk.thy ===== *)
theory Psk
  imports Srp
begin

text \<open>The pre-shared-key cipher of the Main profile, internal/crypto/psk.go: key derivation, AES counter mode, the rotating
  sender key and the receiver that re-derives its key when the nonce of a packet changes.  AES and PBKDF2 are parameters
  (fields of \<open>prims\<close>); a cipher block is represented by the AES key it was built from.  The random source is the list of
  results of its next reads.\<close>

unbundle bit_operations_syntax

section \<open>Primitives\<close>

record prims =
  p_pbkdf2 :: "bytes \<Rightarrow> bytes \<Rightarrow> nat \<Rightarrow> nat \<Rightarrow> bytes"
  p_aes :: "bytes \<Rightarrow> bytes \<Rightarrow> bytes"
  p_hmac :: "bytes \<Rightarrow> bytes \<Rightarrow> bytes"
  p_gcm_seal :: "bytes \<Rightarrow> bytes \<Rightarrow> bytes \<Rightarrow> bytes \<Rightarrow> bytes"
  p_gcm_open :: "bytes \<Rightarrow> bytes \<Rightarrow> bytes \<Rightarrow> bytes \<Rightarrow> bytes option"
  p_chacha_seal :: "bytes \<Rightarrow> bytes \<Rightarrow> bytes \<Rightarrow> bytes \<Rightarrow> bytes"
  p_chacha_open :: "bytes \<Rightarrow> bytes \<Rightarrow> bytes \<Rightarrow> bytes \<Rightarrow> bytes option"

text \<open>What the code relies on: a block is 16 bytes, a derived key has the length asked for, and opening what was sealed under
  the same key, nonce and additional data returns it, with a 16-byte tag at the end.\<close>

definition prim_laws :: "prims \<Rightarrow> bool" where
  "prim_laws P \<longleftrightarrow>
     (\<forall>k b. length (p_aes P k b) = 16) \<and> (\<forall>pw s n l. length (p_pbkdf2 P pw s n l) = l) \<and>
     (\<forall>k m. length (p_hmac P k m) = 32) \<and>
     (\<forall>k n m a. length (p_gcm_seal P k n m a) = length m + 16 \<and> p_gcm_open P k n (p_gcm_seal P k n m a) a = Some m) \<and>
     (\<forall>k n m a. length (p_chacha_seal P k n m a) = length m + 16 \<and>
        p_chacha_open P k n (p_chacha_seal P k n m a) a = Some m)"

datatype psk_err =
  ErrInvalidKeySize | ErrEmptyPassword | ErrNegativeRotation | ErrInvalidNonceLength | ErrZeroNonce |
  ErrKeyReuseExhausted | ErrCSPRNG | ErrAuthFailed | ErrUnknownPSKMode | ErrChaChaKeySize | ErrIVExhausted |
  AesKeySizeError

definition KeySize128 :: int where "KeySize128 = 128"
definition KeySize192 :: int where "KeySize192 = 192"
definition KeySize256 :: int where "KeySize256 = 256"
definition NonceSize :: nat where "NonceSize = 4"
definition ivSize :: nat where "ivSize = 16"
definition pbkdf2Iterations :: nat where "pbkdf2Iterations = 1024"
definition reuseLimit :: u32 where "reuseLimit = 0xFFFFFFFF"
definition nonceBBitByte :: nat where "nonceBBitByte = 0"
definition nonceBBitMask :: u8 where "nonceBBitMask = push_bit 7 1"
definition maxPasswordLen :: nat where "maxPasswordLen = 127"

definition valid_bits :: "int \<Rightarrow> bool" where
  "valid_bits keyBits \<longleftrightarrow> keyBits = KeySize128 \<or> keyBits = KeySize192 \<or> keyBits = KeySize256"

section \<open>Key derivation\<close>

definition boundPassword :: "bytes \<Rightarrow> bytes" where
  "boundPassword password = take maxPasswordLen (takeWhile (\<lambda>b. b \<noteq> 0) password)"

definition DeriveKey :: "prims \<Rightarrow> bytes \<Rightarrow> bytes \<Rightarrow> int \<Rightarrow> psk_err + bytes" where
  "DeriveKey P password nonce4 keyBits =
     (if \<not> valid_bits keyBits then Inl ErrInvalidKeySize
      else if length password = 0 then Inl ErrEmptyPassword
      else if length nonce4 \<noteq> NonceSize then Inl ErrInvalidNonceLength
      else Inr (p_pbkdf2 P (boundPassword password) nonce4 pbkdf2Iterations (nat (keyBits div 8))))"

definition DeriveKeyRaw :: "prims \<Rightarrow> bytes \<Rightarrow> bytes \<Rightarrow> int \<Rightarrow> psk_err + bytes" where
  "DeriveKeyRaw P password nonce4 keyBits =
     (if \<not> valid_bits keyBits then Inl ErrInvalidKeySize
      else if length password = 0 then Inl ErrEmptyPassword
      else if length nonce4 \<noteq> NonceSize then Inl ErrInvalidNonceLength
      else Inr (p_pbkdf2 P password nonce4 pbkdf2Iterations (nat (keyBits div 8))))"

text \<open>\<open>aes.NewCipher\<close> accepts keys of 16, 24 and 32 bytes.\<close>

definition aes_NewCipher :: "bytes \<Rightarrow> psk_err + bytes" where
  "aes_NewCipher key = (if length key \<in> {16, 24, 32} then Inr key else Inl AesKeySizeError)"

definition deriveBlock :: "prims \<Rightarrow> bytes \<Rightarrow> bytes \<Rightarrow> int \<Rightarrow> bool \<Rightarrow> psk_err + bytes" where
  "deriveBlock P password nonce4 keyBits raw =
     (case (if raw then DeriveKeyRaw P password nonce4 keyBits else DeriveKey P password nonce4 keyBits) of
        Inl e \<Rightarrow> Inl e | Inr derived \<Rightarrow> aes_NewCipher derived)"

section \<open>Counter mode\<close>

definition BuildIV :: "u32 \<Rightarrow> bytes" where
  "BuildIV sq = be32_put sq @ replicate (ivSize - 4) 0"

text \<open>The increment walks from the last byte while it wraps to zero.\<close>

fun incr_back :: "bytes \<Rightarrow> bytes" where
  "incr_back [] = []"
| "incr_back (b # bs) = (if b + 1 \<noteq> 0 then (b + 1) # bs else (b + 1) # incr_back bs)"

definition incrCounter :: "bytes \<Rightarrow> bytes" where
  "incrCounter ctr = rev (incr_back (rev ctr))"

function crypt_loop :: "(bytes \<Rightarrow> bytes) \<Rightarrow> bytes \<Rightarrow> bytes \<Rightarrow> bytes" where
  "crypt_loop enc ctr src =
     (if src = [] then []
      else map2 (\<lambda>x k. xor x k) (take ivSize src) (enc ctr) @ crypt_loop enc (incrCounter ctr) (drop ivSize src))"
  by pat_completeness auto
termination by (relation "measure (\<lambda>(_, _, src). length src)") (auto simp: ivSize_def)

declare crypt_loop.simps [simp del]

definition crypt :: "(bytes \<Rightarrow> bytes) \<Rightarrow> bytes \<Rightarrow> bytes \<Rightarrow> bytes \<Rightarrow> bytes" where
  "crypt enc iv dst src = dst @ crypt_loop enc iv src"

definition AESCTRRaw :: "prims \<Rightarrow> bytes \<Rightarrow> bytes \<Rightarrow> bytes \<Rightarrow> bytes \<Rightarrow> psk_err option \<times> bytes" where
  "AESCTRRaw P key iv dst src =
     (if int (length key) \<noteq> KeySize128 div 8 \<and> int (length key) \<noteq> KeySize192 div 8 \<and> int (length key) \<noteq> KeySize256 div 8
      then (Some ErrInvalidKeySize, dst)
      else case aes_NewCipher key of Inl e \<Rightarrow> (Some e, dst)
      | Inr block \<Rightarrow> (None, crypt (p_aes P block) iv dst src))"

section \<open>Nonces\<close>

definition isZeroNonce :: "bytes \<Rightarrow> bool" where
  "isZeroNonce nonce \<longleftrightarrow> be32_get nonce 0 = 0"

definition setBBit :: "bytes \<Rightarrow> bool \<Rightarrow> bytes" where
  "setBBit nonce isOdd =
     (let n = nonce[nonceBBitByte := nonce ! nonceBBitByte AND NOT nonceBBitMask]
      in if isOdd then n[nonceBBitByte := n ! nonceBBitByte OR nonceBBitMask] else n)"

fun nonce_attempts :: "nat \<Rightarrow> bool \<Rightarrow> bytes option list \<Rightarrow> (psk_err + bytes) \<times> bytes option list" where
  "nonce_attempts 0 isOdd draws = (Inl ErrCSPRNG, draws)"
| "nonce_attempts (Suc k) isOdd [] = (Inl ErrCSPRNG, [])"
| "nonce_attempts (Suc k) isOdd (None # draws) = (Inl ErrCSPRNG, draws)"
| "nonce_attempts (Suc k) isOdd (Some nonce # draws) =
     (if be32_get nonce 0 \<noteq> 0 then (Inr (setBBit nonce isOdd), draws) else nonce_attempts k isOdd draws)"

definition generateNonce :: "bool \<Rightarrow> bytes option list \<Rightarrow> (psk_err + bytes) \<times> bytes option list" where
  "generateNonce isOdd draws = nonce_attempts 8 isOdd draws"

section \<open>The sender key\<close>

record Key =
  k_password :: bytes
  k_keyBits :: int
  k_keyRotation :: u32
  k_odd :: bool
  k_raw :: bool
  k_nonce :: bytes
  k_block :: bytes
  k_usedTimes :: u32

definition rekey :: "prims \<Rightarrow> bytes option list \<Rightarrow> Key \<Rightarrow> (psk_err + Key) \<times> bytes option list" where
  "rekey P draws k =
     (case generateNonce (k_odd k) draws of
        (Inl e, draws) \<Rightarrow> (Inl e, draws)
      | (Inr nonce, draws) \<Rightarrow>
        (case deriveBlock P (k_password k) nonce (k_keyBits k) (k_raw k) of
           Inl e \<Rightarrow> (Inl e, draws)
         | Inr block \<Rightarrow> (Inr (k\<lparr>k_nonce := nonce, k_block := block, k_usedTimes := 0\<rparr>), draws)))"

definition newKey ::
  "prims \<Rightarrow> bytes option list \<Rightarrow> bytes \<Rightarrow> int \<Rightarrow> int \<Rightarrow> bool \<Rightarrow> bool \<Rightarrow> (psk_err + Key) \<times> bytes option list" where
  "newKey P draws password keyBits keyRotation isOdd raw =
     (if \<not> valid_bits keyBits then (Inl ErrInvalidKeySize, draws)
      else if length password = 0 then (Inl ErrEmptyPassword, draws)
      else if keyRotation < 0 then (Inl ErrNegativeRotation, draws)
      else rekey P draws \<lparr>k_password = password, k_keyBits = keyBits, k_keyRotation = word_of_int keyRotation,
             k_odd = isOdd, k_raw = raw, k_nonce = [0, 0, 0, 0], k_block = [], k_usedTimes = 0\<rparr>)"

definition rotateDue :: "Key \<Rightarrow> bool" where
  "rotateDue k \<longleftrightarrow>
     (ucast (k_usedTimes k) + 1 > (ucast reuseLimit :: u64)) \<or>
     k_keyRotation k > 0 \<and> k_usedTimes k \<ge> k_keyRotation k"

definition Encrypt ::
  "prims \<Rightarrow> bytes option list \<Rightarrow> u32 \<Rightarrow> bytes \<Rightarrow> bytes \<Rightarrow> Key \<Rightarrow> psk_err option \<times> bytes \<times> Key \<times> bytes option list" where
  "Encrypt P draws sq dst src k =
     (case (if rotateDue k then rekey P draws k else (Inr k, draws)) of
        (Inl e, draws) \<Rightarrow> (Some e, dst, k, draws)
      | (Inr k, draws) \<Rightarrow>
        (None, crypt (p_aes P (k_block k)) (BuildIV sq) dst src, k\<lparr>k_usedTimes := k_usedTimes k + 1\<rparr>, draws))"

section \<open>The receiver\<close>

record Decryptor =
  d_password :: bytes
  d_keyBits :: int
  d_raw :: bool
  d_nonce :: bytes
  d_block :: bytes
  d_hasNonce :: bool
  d_usedTimes :: u64
  d_nextNonce :: bytes
  d_nextBlock :: bytes
  d_nextBits :: int
  d_hasNext :: bool

definition newDecryptor :: "bytes \<Rightarrow> int \<Rightarrow> bool \<Rightarrow> psk_err + Decryptor" where
  "newDecryptor password keyBits raw =
     (if \<not> valid_bits keyBits then Inl ErrInvalidKeySize
      else if length password = 0 then Inl ErrEmptyPassword
      else Inr \<lparr>d_password = password, d_keyBits = keyBits, d_raw = raw, d_nonce = [0, 0, 0, 0], d_block = [],
             d_hasNonce = False, d_usedTimes = 0, d_nextNonce = [0, 0, 0, 0], d_nextBlock = [], d_nextBits = 0,
             d_hasNext = False\<rparr>)"

definition SetKeyBits :: "int \<Rightarrow> Decryptor \<Rightarrow> Decryptor" where
  "SetKeyBits keyBits d =
     (if keyBits = d_keyBits d then d else d\<lparr>d_keyBits := keyBits, d_hasNonce := False, d_hasNext := False\<rparr>)"

definition Precompute :: "prims \<Rightarrow> bytes \<Rightarrow> int \<Rightarrow> Decryptor \<Rightarrow> Decryptor" where
  "Precompute P nonce keyBits d =
     (if isZeroNonce nonce then d
      else if d_hasNonce d \<and> nonce = d_nonce d then d
      else let bits = (if valid_bits keyBits then keyBits else d_keyBits d) in
      if d_hasNext d \<and> nonce = d_nextNonce d \<and> bits = d_nextBits d then d
      else case deriveBlock P (d_password d) nonce bits (d_raw d) of Inl _ \<Rightarrow> d
      | Inr block \<Rightarrow> d\<lparr>d_nextNonce := nonce, d_nextBlock := block, d_nextBits := bits, d_hasNext := True\<rparr>)"

text \<open>The re-keying at the head of \<open>Decrypt\<close>, and the call.\<close>

definition dec_rekey :: "prims \<Rightarrow> bytes \<Rightarrow> Decryptor \<Rightarrow> psk_err option \<times> Decryptor" where
  "dec_rekey P nonce d =
     (if \<not> d_hasNonce d \<or> nonce \<noteq> d_nonce d then
        (if d_hasNext d \<and> nonce = d_nextNonce d
         then (None, d\<lparr>d_nonce := nonce, d_block := d_nextBlock d, d_keyBits := d_nextBits d, d_hasNonce := True,
                       d_usedTimes := 0, d_hasNext := False\<rparr>)
         else let d = d\<lparr>d_nonce := nonce\<rparr> in
           case deriveBlock P (d_password d) nonce (d_keyBits d) (d_raw d) of
             Inl e \<Rightarrow> (Some e, d\<lparr>d_hasNonce := False\<rparr>)
           | Inr block \<Rightarrow> (None, d\<lparr>d_block := block, d_hasNonce := True, d_usedTimes := 0\<rparr>))
      else (None, d))"

definition Decryptor_Decrypt ::
  "prims \<Rightarrow> bytes \<Rightarrow> u32 \<Rightarrow> bytes \<Rightarrow> bytes \<Rightarrow> Decryptor \<Rightarrow> psk_err option \<times> bytes \<times> Decryptor" where
  "Decryptor_Decrypt P nonce sq dst src d =
     (if isZeroNonce nonce then (Some ErrZeroNonce, dst, d)
      else case dec_rekey P nonce d of
        (Some e, d) \<Rightarrow> (Some e, dst, d)
      | (None, d) \<Rightarrow>
        if d_usedTimes d > ucast reuseLimit then (Some ErrKeyReuseExhausted, dst, d)
        else (None, crypt (p_aes P (d_block d)) (BuildIV sq) dst src, d\<lparr>d_usedTimes := d_usedTimes d + 1\<rparr>))"

definition Decrypt :: "prims \<Rightarrow> bytes \<Rightarrow> int \<Rightarrow> bytes \<Rightarrow> u32 \<Rightarrow> bytes \<Rightarrow> bytes \<Rightarrow> psk_err option \<times> bytes" where
  "Decrypt P password keyBits nonce sq dst src =
     (if isZeroNonce nonce then (Some ErrZeroNonce, dst)
      else case deriveBlock P password nonce keyBits False of Inl e \<Rightarrow> (Some e, dst)
      | Inr block \<Rightarrow> (None, crypt (p_aes P block) (BuildIV sq) dst src))"

section \<open>The counter is a 128-bit number\<close>

lemma length_incr_back [simp]: "length (incr_back b) = length b"
  by (induction b) simp_all

lemma length_incrCounter [simp]: "length (incrCounter c) = length c"
  by (simp add: incrCounter_def)

lemma incr_back_value: "SetBytes (rev (incr_back b)) = (SetBytes (rev b) + 1) mod 256 ^ length b"
proof (induction b)
  case (Cons x b)
  have less: "SetBytes (rev b) < 256 ^ length b" using SetBytes_less [of "rev b"] by simp
  show ?case
  proof (cases "x + 1 = 0")
    case True
    then have "(unat x + 1) mod 256 = 0" using unat_word_ariths(1) [of x 1] by simp
    then have x: "unat x = 255" using unat_lt_u8 [of x] by presburger
    have "SetBytes (rev (incr_back (x # b))) = ((SetBytes (rev b) + 1) mod 256 ^ length b) * 256"
      using True Cons.IH by (simp add: SetBytes_snoc)
    also have "\<dots> = ((SetBytes (rev b) + 1) * 256) mod (256 ^ length b * 256)" by (rule mult_mod_left)
    finally show ?thesis using x by (simp add: SetBytes_snoc algebra_simps)
  next
    case False
    then have "(unat x + 1) mod 256 \<noteq> 0" using unat_word_ariths(1) [of x 1] unat_eq_zero [of "x + 1"] by simp
    then have "unat (x + 1) = unat x + 1" using unat_word_ariths(1) [of x 1] unat_lt_u8 [of x] by (simp add: mod_Suc split: if_splits)
    moreover have "SetBytes (rev b) * 256 + unat x + 1 < 256 ^ Suc (length b)"
    proof -
      have "unat x + 1 < 256" using \<open>unat (x + 1) = unat x + 1\<close> unat_lt_u8 [of "x + 1"] by simp
      then have "SetBytes (rev b) * 256 + unat x + 1 < (SetBytes (rev b) + 1) * 256" by simp
      also have "\<dots> \<le> 256 ^ length b * 256" using less by (intro mult_right_mono) simp_all
      finally show ?thesis by (simp add: mult.commute)
    qed
    ultimately show ?thesis using False by (simp add: SetBytes_snoc add.assoc)
  qed
qed (simp add: SetBytes_def)

lemma incrCounter_value: "SetBytes (incrCounter c) = (SetBytes c + 1) mod 256 ^ length c"
  using incr_back_value [of "rev c"] by (simp add: incrCounter_def)

lemma length_counter [simp]: "length ((incrCounter ^^ i) c) = length c"
  by (induction i) simp_all

lemma counter_value: "SetBytes ((incrCounter ^^ i) c) = (SetBytes c + i) mod 256 ^ length c"
  by (induction i) (simp_all add: incrCounter_value SetBytes_less mod_Suc_eq)

lemma SetBytes_append_zeros: "SetBytes (b @ replicate k 0) = SetBytes b * 256 ^ k"
proof (induction k)
  case (Suc k)
  have "b @ replicate (Suc k) 0 = (b @ replicate k 0) @ [0]" by (simp add: replicate_append_same)
  then show ?case using Suc by (simp add: SetBytes_snoc del: append_assoc)
qed simp

lemma base256_digits:
  "(a :: nat) = q1 * 256 + r0 \<Longrightarrow> q1 = q2 * 256 + r1 \<Longrightarrow> q2 = q3 * 256 + r2 \<Longrightarrow>
   ((q3 * 256 + r2) * 256 + r1) * 256 + r0 = a"
  by simp

lemma SetBytes_be32: "SetBytes (be32_put x) = unat x"
proof -
  let ?a = "unat x"
  have "?a div 16777216 mod 256 = ?a div 16777216" using unat_lt_u32 [of x] by (simp add: less_mult_imp_div_less)
  then have "SetBytes (be32_put x) = ((?a div 16777216 * 256 + ?a div 65536 mod 256) * 256 + ?a div 256 mod 256) * 256 + ?a mod 256"
    by (simp add: SetBytes_def be32_put_def unat_ucast)
  also have "\<dots> = ?a"
  proof (rule base256_digits)
    show "?a = ?a div 256 * 256 + ?a mod 256" by simp
    show "?a div 256 = ?a div 65536 * 256 + ?a div 256 mod 256"
      using div_mult_mod_eq [of "?a div 256" 256] by (simp add: div_mult2_eq [symmetric])
    show "?a div 65536 = ?a div 16777216 * 256 + ?a div 65536 mod 256"
      using div_mult_mod_eq [of "?a div 65536" 256] by (simp add: div_mult2_eq [symmetric])
  qed
  finally show ?thesis .
qed

lemma BuildIV_value: "SetBytes (BuildIV sq) = unat sq * 2 ^ 96"
  by (simp add: BuildIV_def SetBytes_append_zeros SetBytes_be32 ivSize_def)

lemma length_BuildIV [simp]: "length (BuildIV sq) = 16"
  by (simp add: BuildIV_def ivSize_def)

text \<open>The counter blocks of a packet: block \<open>i\<close> of packet \<open>sq\<close>.\<close>

lemma window_value:
  assumes "i < 2 ^ 96"
  shows "SetBytes ((incrCounter ^^ i) (BuildIV sq)) = unat sq * 2 ^ 96 + i"
proof -
  have "unat sq * 2 ^ 96 + i < (unat sq + 1) * 2 ^ 96" using assms by simp
  also have "\<dots> \<le> 2 ^ 32 * 2 ^ 96" using unat_lt_u32 [of sq] by (intro mult_right_mono) (simp_all add: Suc_le_eq del: unat_lt_u32)
  also have "\<dots> = (256 :: nat) ^ 16" by simp
  finally show ?thesis by (simp add: counter_value BuildIV_value)
qed

lemma window_disjoint:
  assumes "i < 2 ^ 96" "j < 2 ^ 96" "(incrCounter ^^ i) (BuildIV s) = (incrCounter ^^ j) (BuildIV t)"
  shows "s = t \<and> i = j"
proof -
  have e: "unat s * 2 ^ 96 + i = unat t * 2 ^ 96 + j" using assms window_value by metis
  have "(unat s * 2 ^ 96 + i) div 2 ^ 96 = (unat t * 2 ^ 96 + j) div 2 ^ 96" using e by simp
  then have "unat s = unat t" using assms(1,2) by simp
  then show ?thesis using e by (simp add: word_unat_eq_iff)
qed

section \<open>Encryption is counter mode and its own inverse\<close>

lemma crypt_loop_simps:
  "crypt_loop enc ctr [] = []"
  "src \<noteq> [] \<Longrightarrow> crypt_loop enc ctr src =
     map2 (\<lambda>x k. xor x k) (take 16 src) (enc ctr) @ crypt_loop enc (incrCounter ctr) (drop 16 src)"
  by (subst crypt_loop.simps, simp add: ivSize_def)+

lemma length_crypt_loop: "\<forall>c. length (enc c) = 16 \<Longrightarrow> length (crypt_loop enc ctr src) = length src"
proof (induction enc ctr src rule: crypt_loop.induct)
  case (1 enc ctr src)
  then show ?case by (cases "src = []") (simp_all add: crypt_loop_simps ivSize_def)
qed

lemma crypt_loop_nth:
  "\<forall>c. length (enc c) = 16 \<Longrightarrow> j < length src \<Longrightarrow>
   crypt_loop enc ctr src ! j = xor (src ! j) (enc ((incrCounter ^^ (j div 16)) ctr) ! (j mod 16))"
proof (induction enc ctr src arbitrary: j rule: crypt_loop.induct)
  case (1 enc ctr src)
  have ne: "src \<noteq> []" using "1.prems" by auto
  show ?case
  proof (cases "j < 16")
    case True
    then show ?thesis using ne "1.prems" by (simp add: crypt_loop_simps nth_append)
  next
    case False
    have "j div 16 = Suc ((j - 16) div 16)" "j mod 16 = (j - 16) mod 16" using False by (simp_all add: le_div_geq le_mod_geq)
    moreover have "crypt_loop enc ctr src ! j = crypt_loop enc (incrCounter ctr) (drop 16 src) ! (j - 16)"
      using False "1.prems" by (subst crypt_loop_simps(2) [OF ne]) (simp add: nth_append)
    moreover have "crypt_loop enc (incrCounter ctr) (drop 16 src) ! (j - 16) =
        xor (drop 16 src ! (j - 16)) (enc ((incrCounter ^^ ((j - 16) div 16)) (incrCounter ctr)) ! ((j - 16) mod 16))"
      using 1(1) [OF ne, of "j - 16"] "1.prems" False by (simp add: ivSize_def)
    ultimately show ?thesis using "1.prems" False by (simp add: funpow_swap1)
  qed
qed

lemma crypt_loop_inverse:
  "\<forall>c. length (enc c) = 16 \<Longrightarrow> crypt_loop enc ctr (crypt_loop enc ctr src) = src"
  by (rule nth_equalityI) (simp_all add: length_crypt_loop crypt_loop_nth xor.assoc)

text \<open>Two byte strings of one length are the same number only when they are equal.\<close>

lemma SetBytes_inj: "length b = length c \<Longrightarrow> SetBytes b = SetBytes c \<Longrightarrow> b = c"
proof (induction b arbitrary: c rule: rev_induct)
  case (snoc x b)
  then obtain d y where c: "c = d @ [y]" by (cases c rule: rev_cases) auto
  have e: "SetBytes b * 256 + unat x = SetBytes d * 256 + unat y" using snoc.prems c by (simp add: SetBytes_snoc)
  have "(SetBytes b * 256 + unat x) mod 256 = (SetBytes d * 256 + unat y) mod 256" using e by simp
  then have "unat x = unat y" by simp
  then show ?case using e snoc c by (simp add: word_unat_eq_iff)
qed simp

lemma Fill_SetBytes: "FillBytes (length c) (SetBytes c) = Some c"
proof -
  have "length (big_Bytes (SetBytes c)) \<le> length c" by (rule length_Bytes [OF SetBytes_less])
  then obtain d where d: "FillBytes (length c) (SetBytes c) = Some d" by (simp add: FillBytes_def Let_def)
  then show ?thesis using SetBytes_Fill [OF d] SetBytes_inj [of d c] by simp
qed


text \<open>Primitives satisfying the laws: a keystream that depends on its inputs and a tag of zeros.\<close>

definition demo_prims :: prims where
  "demo_prims = \<lparr>p_pbkdf2 = (\<lambda>pw s n l. take l (pw @ s @ replicate l 7)), p_aes = (\<lambda>k b. take 16 (k @ b @ replicate 16 1)),
     p_hmac = (\<lambda>k m. replicate 32 9), p_gcm_seal = (\<lambda>k n m a. m @ replicate 16 0),
     p_gcm_open = (\<lambda>k n c a. Some (take (length c - 16) c)), p_chacha_seal = (\<lambda>k n m a. m @ replicate 16 0),
     p_chacha_open = (\<lambda>k n c a. Some (take (length c - 16) c))\<rparr>"

lemma demo_prims_laws: "prim_laws demo_prims"
  by (auto simp: prim_laws_def demo_prims_def min_def)


section \<open>The rotating key and the caching receiver agree\<close>

text \<open>The host stamps every packet with the nonce in force after \<open>Encrypt\<close>; sending stops at an error.\<close>

fun psk_send :: "prims \<Rightarrow> bytes option list \<Rightarrow> Key \<Rightarrow> (u32 \<times> bytes) list \<Rightarrow> (bytes \<times> u32 \<times> bytes) list" where
  "psk_send P draws k [] = []"
| "psk_send P draws k ((sq, m) # ms) =
     (case Encrypt P draws sq [] m k of
        (Some e, _) \<Rightarrow> []
      | (None, ct, k, draws) \<Rightarrow> (k_nonce k, sq, ct) # psk_send P draws k ms)"

text \<open>What reaches the receiver: packets, and announcements of nonces to come.\<close>

datatype dec_op = Announce bytes int | Packet bytes u32 bytes

fun dec_run :: "prims \<Rightarrow> Decryptor \<Rightarrow> dec_op list \<Rightarrow> (psk_err option \<times> bytes) list" where
  "dec_run P d [] = []"
| "dec_run P d (Announce nonce bits # ops) = dec_run P (Precompute P nonce bits d) ops"
| "dec_run P d (Packet nonce sq ct # ops) =
     (case Decryptor_Decrypt P nonce sq [] ct d of (e, out, d) \<Rightarrow> (e, out) # dec_run P d ops)"

definition key_ok :: "prims \<Rightarrow> bytes \<Rightarrow> int \<Rightarrow> bool \<Rightarrow> Key \<Rightarrow> bool" where
  "key_ok P pw bits raw k \<longleftrightarrow> k_password k = pw \<and> k_keyBits k = bits \<and> k_raw k = raw \<and>
     deriveBlock P pw (k_nonce k) bits raw = Inr (k_block k)"

lemma rekey_ok:
  assumes "rekey P draws k = (Inr k', ds)"
  shows "key_ok P (k_password k) (k_keyBits k) (k_raw k) k' \<and> fst (generateNonce (k_odd k) draws) = Inr (k_nonce k')"
proof -
  obtain r ds1 where g: "generateNonce (k_odd k) draws = (r, ds1)" by (cases "generateNonce (k_odd k) draws")
  then obtain n where n: "r = Inr n" using assms by (cases r) (simp_all add: rekey_def)
  then obtain block where "deriveBlock P (k_password k) n (k_keyBits k) (k_raw k) = Inr block"
    "k' = k\<lparr>k_nonce := n, k_block := block, k_usedTimes := 0\<rparr>"
    using assms g by (cases "deriveBlock P (k_password k) n (k_keyBits k) (k_raw k)") (simp_all add: rekey_def)
  then show ?thesis using g n by (simp add: key_ok_def)
qed

lemma newKey_ok:
  "newKey P draws pw bits rot isOdd raw = (Inr k, ds) \<Longrightarrow>
   key_ok P pw bits raw k \<and> fst (generateNonce isOdd draws) = Inr (k_nonce k)"
  using rekey_ok [where k' = k and ds = ds] by (fastforce simp: newKey_def split: if_splits)

lemma Encrypt_ok:
  assumes "Encrypt P draws sq [] m k = (None, ct, k', ds)" "key_ok P pw bits raw k"
  shows "key_ok P pw bits raw k' \<and> (\<exists>block. deriveBlock P pw (k_nonce k') bits raw = Inr block \<and>
    ct = crypt (p_aes P block) (BuildIV sq) [] m)"
proof -
  obtain r ds1 where r: "(if rotateDue k then rekey P draws k else (Inr k, draws)) = (r, ds1)"
    by (cases "if rotateDue k then rekey P draws k else (Inr k, draws)")
  obtain k1 where k1: "r = Inr k1" "k' = k1\<lparr>k_usedTimes := k_usedTimes k1 + 1\<rparr>"
      "ct = crypt (p_aes P (k_block k1)) (BuildIV sq) [] m"
    using assms(1) unfolding Encrypt_def r by (cases r) simp_all
  have "key_ok P pw bits raw k1"
    using r k1(1) assms(2) rekey_ok [of P draws k k1 ds1] by (auto simp: key_ok_def split: if_splits)
  then show ?thesis using k1 by (auto simp: key_ok_def)
qed

lemma psk_send_nth:
  "key_ok P pw bits raw k \<Longrightarrow> i < length (psk_send P draws k ms) \<Longrightarrow>
   \<exists>n block. deriveBlock P pw n bits raw = Inr block \<and> i < length ms \<and>
     psk_send P draws k ms ! i = (n, fst (ms ! i), crypt (p_aes P block) (BuildIV (fst (ms ! i))) [] (snd (ms ! i)))"
proof (induction P draws k ms arbitrary: i rule: psk_send.induct)
  case (2 P draws k sq m ms)
  then obtain ct k' ds where e: "Encrypt P draws sq [] m k = (None, ct, k', ds)"
    by (auto split: prod.splits option.splits)
  note ok = Encrypt_ok [OF e 2(2)]
  show ?case
  proof (cases i)
    case 0
    then show ?thesis using ok e by auto
  next
    case (Suc j)
    then show ?thesis using 2(1) [OF e [symmetric] refl refl refl, of j] 2(3) ok e by simp
  qed
qed simp

definition dec_ok :: "prims \<Rightarrow> bytes \<Rightarrow> int \<Rightarrow> bool \<Rightarrow> nat \<Rightarrow> Decryptor \<Rightarrow> bool" where
  "dec_ok P pw bits raw n d \<longleftrightarrow> d_password d = pw \<and> d_keyBits d = bits \<and> d_raw d = raw \<and>
     (d_hasNonce d \<longrightarrow> deriveBlock P pw (d_nonce d) bits raw = Inr (d_block d)) \<and>
     (d_hasNext d \<longrightarrow> d_nextBits d = bits \<and> deriveBlock P pw (d_nextNonce d) bits raw = Inr (d_nextBlock d)) \<and>
     unat (d_usedTimes d) \<le> n"

lemma Precompute_ok:
  "dec_ok P pw bits raw n d \<Longrightarrow> b = bits \<or> \<not> valid_bits b \<Longrightarrow> dec_ok P pw bits raw n (Precompute P nonce b d)"
  by (auto simp: Precompute_def dec_ok_def Let_def split: sum.splits)

lemma dec_rekey_ok:
  assumes "dec_ok P pw bits raw n d" "deriveBlock P pw nonce bits raw = Inr block"
  shows "fst (dec_rekey P nonce d) = None \<and> dec_ok P pw bits raw n (snd (dec_rekey P nonce d)) \<and>
    d_block (snd (dec_rekey P nonce d)) = block"
  using assms by (simp add: dec_rekey_def dec_ok_def Let_def) auto

lemma Decrypt_ok:
  assumes "dec_ok P pw bits raw n d" "\<not> isZeroNonce nonce" "deriveBlock P pw nonce bits raw = Inr block" "n < 2 ^ 32"
  shows "\<exists>d'. Decryptor_Decrypt P nonce sq [] ct d = (None, crypt (p_aes P block) (BuildIV sq) [] ct, d') \<and>
    dec_ok P pw bits raw (Suc n) d'"
proof -
  obtain d1 where d1: "dec_rekey P nonce d = (None, d1)" "dec_ok P pw bits raw n d1" "d_block d1 = block"
    using dec_rekey_ok [OF assms(1,3)] by (cases "dec_rekey P nonce d") auto
  have u: "unat (d_usedTimes d1) < 2 ^ 32" using d1(2) assms(4) by (simp add: dec_ok_def)
  then have "unat (d_usedTimes d1 + 1) = unat (d_usedTimes d1) + 1" by (subst unat_word_ariths) simp
  then have "dec_ok P pw bits raw (Suc n) (d1\<lparr>d_usedTimes := d_usedTimes d1 + 1\<rparr>)"
    using d1(2) by (simp add: dec_ok_def)
  moreover have "\<not> ucast reuseLimit < d_usedTimes d1"
    using u by (simp add: reuseLimit_def word_less_nat_alt)
  ultimately show ?thesis using d1(1,3) assms(2) by (simp add: Decryptor_Decrypt_def)
qed

text \<open>What the network delivers: \<open>Inl i\<close> is packet \<open>i\<close> of those sent, \<open>Inr nonce\<close> the announcement of a nonce.\<close>

fun psk_arrivals :: "(bytes \<times> u32 \<times> bytes) list \<Rightarrow> int \<Rightarrow> (nat + bytes) list \<Rightarrow> dec_op list" where
  "psk_arrivals pkts bits [] = []"
| "psk_arrivals pkts bits (Inl i # as) = (case pkts ! i of (n, sq, ct) \<Rightarrow> Packet n sq ct) # psk_arrivals pkts bits as"
| "psk_arrivals pkts bits (Inr n # as) = Announce n bits # psk_arrivals pkts bits as"

fun indices :: "(nat + bytes) list \<Rightarrow> nat list" where
  "indices [] = []"
| "indices (Inl i # as) = i # indices as"
| "indices (Inr n # as) = indices as"

text \<open>C16: Whatever the key rotation of the sender and however its packets are lost, repeated and reordered, with any nonces
  announced in between, the receiver decrypts each packet that arrives to exactly the payload it was sent with, up to
  the reuse limit of \<open>2^32\<close> arrivals, as long as no nonce in use is zero.\<close>

theorem psk_stream_recovers:
  assumes laws: "prim_laws P"
    and key: "newKey P draws pw bits rot isOdd raw = (Inr k, ds)" and dec: "newDecryptor pw bits raw = Inr d"
    and pkts: "pkts = psk_send P ds k msgs" and nz: "\<forall>p \<in> set pkts. \<not> isZeroNonce (fst p)"
    and idx: "\<forall>i \<in> set (indices arr). i < length pkts" and few: "length arr \<le> 2 ^ 32"
  shows "dec_run P d (psk_arrivals pkts bits arr) = map (\<lambda>i. (None, snd (msgs ! i))) (indices arr)"
proof -
  have aes: "\<forall>c. length (p_aes P b c) = 16" for b using laws by (simp add: prim_laws_def)
  have "dec_ok P pw bits raw n d \<Longrightarrow> n + length arr \<le> 2 ^ 32 \<Longrightarrow> \<forall>i \<in> set (indices arr). i < length pkts \<Longrightarrow>
      dec_run P d (psk_arrivals pkts bits arr) = map (\<lambda>i. (None, snd (msgs ! i))) (indices arr)" for n d arr
  proof (induction arr arbitrary: d n rule: indices.induct)
    case (2 i as)
    have i: "i < length (psk_send P ds k msgs)" using 2(4) pkts by simp
    obtain nc block where p: "deriveBlock P pw nc bits raw = Inr block"
        "pkts ! i = (nc, fst (msgs ! i), crypt (p_aes P block) (BuildIV (fst (msgs ! i))) [] (snd (msgs ! i)))"
      using psk_send_nth [OF conjunct1 [OF newKey_ok [OF key]] i] pkts by blast
    let ?ct = "crypt (p_aes P block) (BuildIV (fst (msgs ! i))) [] (snd (msgs ! i))"
    have "\<not> isZeroNonce nc" using nz p(2) i pkts nth_mem by force
    moreover have "n < 2 ^ 32" using 2(3) by simp
    ultimately obtain d' where d': "Decryptor_Decrypt P nc (fst (msgs ! i)) [] ?ct d =
          (None, crypt (p_aes P block) (BuildIV (fst (msgs ! i))) [] ?ct, d')" "dec_ok P pw bits raw (Suc n) d'"
      using Decrypt_ok [OF 2(2) _ p(1), of "fst (msgs ! i)" ?ct] by blast
    have "crypt (p_aes P block) (BuildIV (fst (msgs ! i))) [] ?ct = snd (msgs ! i)"
      using crypt_loop_inverse [OF aes] by (simp add: crypt_def)
    then show ?case using 2(1) [OF d'(2)] d'(1) 2(3,4) p(2) by simp
  next
    case (3 m as)
    then show ?case using Precompute_ok [OF 3(2), of bits m] by simp
  qed simp
  moreover have "dec_ok P pw bits raw 0 d" using dec by (auto simp: newDecryptor_def dec_ok_def split: if_splits)
  ultimately show ?thesis using few idx by simp
qed

theorem psk_stream_recovers_witness:
  "\<exists>k ds d. newKey demo_prims [Some [1, 0, 0, 0], Some [2, 0, 0, 0]] [5] 128 1 False False = (Inr k, ds) \<and> newDecryptor [5] 128 False = Inr d \<and>
     dec_run demo_prims d (psk_arrivals (psk_send demo_prims ds k [(0, [1, 2]), (1, [3])]) 128 [Inl 1, Inr [1, 0, 0, 0], Inl 0, Inl 1]) =
       [(None, [3]), (None, [1, 2]), (None, [3])]"
proof -
  let ?draws = "[Some [1, 0, 0, 0], Some [2, 0, 0, 0]] :: bytes option list"
  define k where "k = projr (fst (newKey demo_prims ?draws [5] 128 1 False False))"
  define ds where "ds = snd (newKey demo_prims ?draws [5] 128 1 False False)"
  define d where "d = projr (newDecryptor [5] 128 False)"
  have 1: "newKey demo_prims ?draws [5] 128 1 False False = (Inr k, ds)" unfolding k_def ds_def by code_simp
  have 2: "newDecryptor [5] 128 False = Inr d" unfolding d_def by code_simp
  have 3: "map fst (psk_send demo_prims ds k [(0, [1, 2]), (1, [3])]) = [[1, 0, 0, 0], [2, 0, 0, 0]]" unfolding k_def ds_def by code_simp
  have "list_all (\<lambda>n. \<not> isZeroNonce n) (map fst (psk_send demo_prims ds k [(0, [1, 2]), (1, [3])]))"
    unfolding 3 by code_simp
  then have 4: "\<forall>p \<in> set (psk_send demo_prims ds k [(0, [1, 2]), (1, [3])]). \<not> isZeroNonce (fst p)"
    by (simp only: list_all_iff set_map ball_simps)
  have "length (psk_send demo_prims ds k [(0, [1, 2]), (1, [3])]) = 2" using arg_cong [OF 3, of length] by simp
  then have "\<forall>i \<in> set (indices [Inl 1, Inr [1, 0, 0, 0], Inl 0, Inl 1]). i < length (psk_send demo_prims ds k [(0, [1, 2]), (1, [3])])"
    by (simp del: psk_send.simps)
  from psk_stream_recovers [OF demo_prims_laws 1 2 refl 4 this]
  have "dec_run demo_prims d (psk_arrivals (psk_send demo_prims ds k [(0, [1, 2]), (1, [3])]) 128 [Inl 1, Inr [1, 0, 0, 0], Inl 0, Inl 1]) =
       [(None, [3]), (None, [1, 2]), (None, [3])]"
    by (simp del: psk_send.simps psk_arrivals.simps dec_run.simps)
  with 1 2 show ?thesis by (intro exI conjI)
qed

text \<open>A draw whose only set bit is the marker passes the zero test and becomes the zero nonce of an even key: the sender
  starts encrypting under it and the receiver refuses every packet.\<close>

lemma even_nonce_can_be_zero:
  assumes "newKey P (Some [0x80, 0, 0, 0] # draws) pw bits rot False raw = (Inr k, ds)"
  shows "k_nonce k = [0, 0, 0, 0] \<and> Decryptor_Decrypt P (k_nonce k) sq dst ct d = (Some ErrZeroNonce, dst, d)"
proof -
  have "be32_get [0x80, 0, 0, 0] 0 \<noteq> 0" "setBBit [0x80, 0, 0, 0] False = [0, 0, 0, 0]" by code_simp+
  moreover have "(8 :: nat) = Suc 7" by simp
  ultimately have g: "generateNonce False (Some [0x80, 0, 0, 0] # draws) = (Inr [0, 0, 0, 0], draws)"
    by (simp only: generateNonce_def nonce_attempts.simps if_True not_False_eq_True)
  have "k_nonce k = [0, 0, 0, 0]"
    using newKey_ok [OF assms] by (simp add: g)
  then show ?thesis by (simp add: Decryptor_Decrypt_def isZeroNonce_def be32_get_def)
qed

end
