(* ===== verification/Aead.thy ===== *)
theory Aead
  imports Psk
begin

text \<open>The authenticated modes of the Advanced profile, internal/crypto/aead.go: AES-CTR with HMAC, AES-GCM and
  ChaCha20-Poly1305, each with its tag carried in the 16-byte hash field, and the sealer that owns the IV counter of
  one nonce epoch.  The ciphers and the MAC are the primitives of \<open>prims\<close>.\<close>

unbundle bit_operations_syntax

section \<open>Modes and nonces\<close>

definition PSKModeAESCTRHMAC :: u8 where "PSKModeAESCTRHMAC = 3"
definition PSKModeAESGCM :: u8 where "PSKModeAESGCM = 4"
definition PSKModeChaCha20Poly1305 :: u8 where "PSKModeChaCha20Poly1305 = 5"
definition HashSize :: nat where "HashSize = 16"
definition aeadNonceSize :: nat where "aeadNonceSize = 12"
definition gcmTagSize :: nat where "gcmTagSize = 16"
definition chacha_Overhead :: nat where "chacha_Overhead = 16"

lemmas aead_consts = PSKModeAESCTRHMAC_def PSKModeAESGCM_def PSKModeChaCha20Poly1305_def HashSize_def aeadNonceSize_def
  gcmTagSize_def chacha_Overhead_def

definition aeadNonce :: "bytes \<Rightarrow> u32 \<Rightarrow> bytes" where
  "aeadNonce nonce4 iv4 = take NonceSize nonce4 @ be32_put iv4 @ replicate (aeadNonceSize - NonceSize - 4) 0"

definition deriveAEADKey :: "prims \<Rightarrow> u8 \<Rightarrow> bytes \<Rightarrow> bytes \<Rightarrow> int \<Rightarrow> psk_err + bytes" where
  "deriveAEADKey P mode password nonce4 keyBits =
     (if mode = PSKModeChaCha20Poly1305 \<and> keyBits \<noteq> KeySize256 then Inl ErrChaChaKeySize
      else DeriveKey P password nonce4 keyBits)"

definition macKeyLabel :: bytes where
  "macKeyLabel = map of_char ''rist-adv-aes-ctr-hmac-auth-key''"

definition deriveMACKey :: "prims \<Rightarrow> bytes \<Rightarrow> bytes" where
  "deriveMACKey P encKey = p_hmac P encKey macKeyLabel"

definition hmacTag :: "prims \<Rightarrow> bytes \<Rightarrow> bytes \<Rightarrow> bytes \<Rightarrow> bytes" where
  "hmacTag P key aad ciphertext = take HashSize (p_hmac P key (aad @ ciphertext))"

section \<open>The three ciphers\<close>

definition ctrXOR :: "prims \<Rightarrow> bytes \<Rightarrow> bytes \<Rightarrow> bytes \<Rightarrow> psk_err + bytes" where
  "ctrXOR P key iv src =
     (case aes_NewCipher key of Inl _ \<Rightarrow> Inl ErrInvalidKeySize | Inr block \<Rightarrow> Inr (crypt (p_aes P block) iv [] src))"

definition newGCM :: "bytes \<Rightarrow> psk_err + bytes" where
  "newGCM key = (case aes_NewCipher key of Inl _ \<Rightarrow> Inl ErrInvalidKeySize | Inr block \<Rightarrow> Inr block)"

definition sealGCM :: "prims \<Rightarrow> bytes \<Rightarrow> bytes \<Rightarrow> bytes \<Rightarrow> bytes \<Rightarrow> psk_err + bytes \<times> bytes" where
  "sealGCM P key nonce aad plaintext =
     (case newGCM key of Inl e \<Rightarrow> Inl e
      | Inr aead \<Rightarrow>
        let sealed = p_gcm_seal P aead nonce plaintext aad; ctLen = length sealed - gcmTagSize
        in Inr (take ctLen sealed, drop ctLen sealed))"

definition openGCM :: "prims \<Rightarrow> bytes \<Rightarrow> bytes \<Rightarrow> bytes \<Rightarrow> bytes \<Rightarrow> bytes \<Rightarrow> psk_err + bytes" where
  "openGCM P key nonce aad ciphertext hash =
     (case newGCM key of Inl e \<Rightarrow> Inl e
      | Inr aead \<Rightarrow> (case p_gcm_open P aead nonce (ciphertext @ hash) aad of None \<Rightarrow> Inl ErrAuthFailed | Some pt \<Rightarrow> Inr pt))"

text \<open>\<open>chacha20poly1305.New\<close> accepts 32-byte keys only.\<close>

definition chacha_New :: "bytes \<Rightarrow> psk_err + bytes" where
  "chacha_New key = (if length key = 32 then Inr key else Inl ErrChaChaKeySize)"

definition sealChaCha :: "prims \<Rightarrow> bytes \<Rightarrow> bytes \<Rightarrow> bytes \<Rightarrow> bytes \<Rightarrow> psk_err + bytes \<times> bytes" where
  "sealChaCha P key nonce aad plaintext =
     (case chacha_New key of Inl e \<Rightarrow> Inl e
      | Inr aead \<Rightarrow>
        let sealed = p_chacha_seal P aead nonce plaintext aad; ctLen = length sealed - chacha_Overhead
        in Inr (take ctLen sealed, drop ctLen sealed))"

definition openChaCha :: "prims \<Rightarrow> bytes \<Rightarrow> bytes \<Rightarrow> bytes \<Rightarrow> bytes \<Rightarrow> bytes \<Rightarrow> psk_err + bytes" where
  "openChaCha P key nonce aad ciphertext hash =
     (case chacha_New key of Inl e \<Rightarrow> Inl e
      | Inr aead \<Rightarrow> (case p_chacha_open P aead nonce (ciphertext @ hash) aad of None \<Rightarrow> Inl ErrAuthFailed | Some pt \<Rightarrow> Inr pt))"

section \<open>Seal and open\<close>

definition SealAdvanced :: "prims \<Rightarrow> u8 \<Rightarrow> bytes \<Rightarrow> int \<Rightarrow> bytes \<Rightarrow> u32 \<Rightarrow> bytes \<Rightarrow> bytes \<Rightarrow> psk_err + bytes \<times> bytes" where
  "SealAdvanced P mode password keyBits nonce4 iv4 aad plaintext =
     (if isZeroNonce nonce4 then Inl ErrZeroNonce
      else case deriveAEADKey P mode password nonce4 keyBits of Inl e \<Rightarrow> Inl e
      | Inr key \<Rightarrow>
        if mode = PSKModeAESCTRHMAC then
          (let macKey = deriveMACKey P key in
           case ctrXOR P key (BuildIV iv4) plaintext of Inl e \<Rightarrow> Inl e | Inr ct \<Rightarrow> Inr (ct, hmacTag P macKey aad ct))
        else if mode = PSKModeAESGCM then sealGCM P key (aeadNonce nonce4 iv4) aad plaintext
        else if mode = PSKModeChaCha20Poly1305 then sealChaCha P key (aeadNonce nonce4 iv4) aad plaintext
        else Inl ErrUnknownPSKMode)"

definition OpenAdvanced :: "prims \<Rightarrow> u8 \<Rightarrow> bytes \<Rightarrow> int \<Rightarrow> bytes \<Rightarrow> u32 \<Rightarrow> bytes \<Rightarrow> bytes \<Rightarrow> bytes \<Rightarrow> psk_err + bytes" where
  "OpenAdvanced P mode password keyBits nonce4 iv4 aad ciphertext hash =
     (if isZeroNonce nonce4 then Inl ErrZeroNonce
      else case deriveAEADKey P mode password nonce4 keyBits of Inl e \<Rightarrow> Inl e
      | Inr key \<Rightarrow>
        if mode = PSKModeAESCTRHMAC then
          (let macKey = deriveMACKey P key; want = hmacTag P macKey aad ciphertext in
           if want \<noteq> hash then Inl ErrAuthFailed else ctrXOR P key (BuildIV iv4) ciphertext)
        else if mode = PSKModeAESGCM then openGCM P key (aeadNonce nonce4 iv4) aad ciphertext hash
        else if mode = PSKModeChaCha20Poly1305 then openChaCha P key (aeadNonce nonce4 iv4) aad ciphertext hash
        else Inl ErrUnknownPSKMode)"

record AdvancedSealer =
  as_mode :: u8
  as_password :: bytes
  as_keyBits :: int
  as_nonce4 :: bytes
  as_iv :: u32
  as_exhausted :: bool

definition NewAdvancedSealer :: "u8 \<Rightarrow> bytes \<Rightarrow> int \<Rightarrow> bytes \<Rightarrow> u32 \<Rightarrow> AdvancedSealer" where
  "NewAdvancedSealer mode password keyBits nonce4 startIV =
     \<lparr>as_mode = mode, as_password = password, as_keyBits = keyBits, as_nonce4 = nonce4, as_iv = startIV,
      as_exhausted = False\<rparr>"

lemma NewAdvancedSealer_fields [simp]:
  "as_mode (NewAdvancedSealer mode pw bits nonce start) = mode" "as_password (NewAdvancedSealer mode pw bits nonce start) = pw"
  "as_keyBits (NewAdvancedSealer mode pw bits nonce start) = bits" "as_nonce4 (NewAdvancedSealer mode pw bits nonce start) = nonce"
  "as_iv (NewAdvancedSealer mode pw bits nonce start) = start" "\<not> as_exhausted (NewAdvancedSealer mode pw bits nonce start)"
  by (simp_all add: NewAdvancedSealer_def)

definition Seal :: "prims \<Rightarrow> bytes \<Rightarrow> bytes \<Rightarrow> AdvancedSealer \<Rightarrow> (psk_err + bytes \<times> bytes \<times> u32) \<times> AdvancedSealer" where
  "Seal P aad plaintext s =
     (if as_exhausted s then (Inl ErrIVExhausted, s)
      else let iv4 = as_iv s in
      case SealAdvanced P (as_mode s) (as_password s) (as_keyBits s) (as_nonce4 s) iv4 aad plaintext of
        Inl e \<Rightarrow> (Inl e, s)
      | Inr (ct, h) \<Rightarrow>
        (Inr (ct, h, iv4), if as_iv s = NOT 0 then s\<lparr>as_exhausted := True\<rparr> else s\<lparr>as_iv := as_iv s + 1\<rparr>))"

section \<open>Opening what was sealed\<close>

lemma split_tag: "length s = n + 16 \<Longrightarrow> take (length s - 16) s @ drop (length s - 16) s = s \<and> length (drop (length s - 16) s) = 16"
  by simp

lemma seal_open:
  assumes laws: "prim_laws P" and s: "SealAdvanced P mode pw bits nonce iv aad pt = Inr (ct, h)"
  shows "OpenAdvanced P mode pw bits nonce iv aad ct h = Inr pt \<and> length ct = length pt \<and> length h = HashSize"
proof -
  have aes: "\<forall>c. length (p_aes P b c) = 16" for b using laws by (simp add: prim_laws_def)
  obtain key where key: "\<not> isZeroNonce nonce" "deriveAEADKey P mode pw nonce bits = Inr key"
    using s by (auto simp: SealAdvanced_def split: if_splits sum.splits)
  consider "mode = 3" | "mode = 4" | "mode = 5" using s key by (auto simp: SealAdvanced_def aead_consts split: if_splits)
  then show ?thesis
  proof cases
    case 1
    then show ?thesis using s key laws crypt_loop_inverse [OF aes] length_crypt_loop [OF aes]
      by (auto simp: SealAdvanced_def OpenAdvanced_def aead_consts ctrXOR_def Let_def crypt_def hmacTag_def prim_laws_def split: sum.splits)
  next
    case 2
    then show ?thesis using s key laws
      by (auto simp: SealAdvanced_def OpenAdvanced_def aead_consts sealGCM_def openGCM_def Let_def prim_laws_def split: sum.splits)
  next
    case 3
    then show ?thesis using s key laws
      by (auto simp: SealAdvanced_def OpenAdvanced_def aead_consts sealChaCha_def openChaCha_def Let_def prim_laws_def split: sum.splits)
  qed
qed

text \<open>The configurations that can seal.\<close>

definition sealable :: "u8 \<Rightarrow> bytes \<Rightarrow> int \<Rightarrow> bytes \<Rightarrow> bool" where
  "sealable mode pw bits nonce \<longleftrightarrow> mode \<in> {3, 4, 5} \<and> valid_bits bits \<and> (mode = 5 \<longrightarrow> bits = 256) \<and> pw \<noteq> [] \<and>
     length nonce = 4 \<and> \<not> isZeroNonce nonce"

lemma seal_succeeds:
  assumes "prim_laws P" "sealable mode pw bits nonce"
  shows "\<exists>ct h. SealAdvanced P mode pw bits nonce iv aad pt = Inr (ct, h)"
proof -
  obtain key where key: "deriveAEADKey P mode pw nonce bits = Inr key" "length key = nat (bits div 8)"
    using assms by (simp add: sealable_def deriveAEADKey_def DeriveKey_def aead_consts KeySize256_def NonceSize_def prim_laws_def)
  have z: "\<not> isZeroNonce nonce" and bits: "bits = 128 \<or> bits = 192 \<or> bits = 256" "mode = 5 \<longrightarrow> bits = 256"
    using assms(2) by (simp_all add: sealable_def valid_bits_def KeySize128_def KeySize192_def KeySize256_def)
  have cipher: "aes_NewCipher key = Inr key" using bits(1) key(2) by (elim disjE) (simp_all add: aes_NewCipher_def)
  consider "mode = 3" | "mode = 4" | "mode = 5" using assms(2) by (auto simp: sealable_def)
  then show ?thesis
  proof cases
    case 1
    then show ?thesis using key(1) z cipher by (simp add: SealAdvanced_def aead_consts ctrXOR_def)
  next
    case 2
    then show ?thesis using key(1) z cipher by (simp add: SealAdvanced_def aead_consts sealGCM_def newGCM_def Let_def)
  next
    case 3
    then show ?thesis using key z bits(2) by (simp add: SealAdvanced_def aead_consts sealChaCha_def chacha_New_def Let_def)
  qed
qed

text \<open>The nonce of a packet determines its epoch and its IV.\<close>

lemma be32_put_inj: "be32_put i = be32_put j \<Longrightarrow> i = j"
  using be32_get_put0 [of i "[]"] be32_get_put0 [of j "[]"] by (simp only: append_Nil2)

lemma aeadNonce_inj:
  assumes "length n = 4" "length m = 4" "aeadNonce n i = aeadNonce m j"
  shows "n = m \<and> i = j"
  using assms be32_put_inj [of i j] by (simp add: aeadNonce_def NonceSize_def)

section \<open>A sealer never repeats an IV\<close>

fun seal_run :: "prims \<Rightarrow> AdvancedSealer \<Rightarrow> (bytes \<times> bytes) list \<Rightarrow> (psk_err + bytes \<times> bytes \<times> u32) list" where
  "seal_run P s [] = []"
| "seal_run P s ((aad, pt) # ms) = (case Seal P aad pt s of (r, s) \<Rightarrow> r # seal_run P s ms)"

lemma seal_run_exhausted: "as_exhausted s \<Longrightarrow> i < length ms \<Longrightarrow> seal_run P s ms ! i = Inl ErrIVExhausted"
  by (induction P s ms arbitrary: i rule: seal_run.induct) (auto simp: Seal_def nth_Cons split: nat.splits)

lemma seal_run_nth:
  assumes "prim_laws P" "sealable (as_mode s) (as_password s) (as_keyBits s) (as_nonce4 s)" "\<not> as_exhausted s" "i < length ms"
  shows "if unat (as_iv s) + i < 2 ^ 32
     then \<exists>ct h. seal_run P s ms ! i = Inr (ct, h, of_nat (unat (as_iv s) + i)) \<and>
        SealAdvanced P (as_mode s) (as_password s) (as_keyBits s) (as_nonce4 s) (of_nat (unat (as_iv s) + i)) (fst (ms ! i)) (snd (ms ! i)) = Inr (ct, h)
     else seal_run P s ms ! i = Inl ErrIVExhausted"
  using assms
proof (induction P s ms arbitrary: i rule: seal_run.induct)
  case (2 P s aad pt ms)
  obtain ct h where ct: "SealAdvanced P (as_mode s) (as_password s) (as_keyBits s) (as_nonce4 s) (as_iv s) aad pt = Inr (ct, h)"
    using seal_succeeds [OF 2(2,3)] by blast
  define s' where "s' = (if as_iv s = NOT 0 then s\<lparr>as_exhausted := True\<rparr> else s\<lparr>as_iv := as_iv s + 1\<rparr>)"
  have S: "Seal P aad pt s = (Inr (ct, h, as_iv s), s')" using ct 2(4) by (simp add: Seal_def s'_def Let_def)
  show ?case
  proof (cases i)
    case 0
    then show ?thesis using S ct unat_lt_u32 [of "as_iv s"] by simp
  next
    case (Suc j)
    show ?thesis
    proof (cases "as_iv s = NOT 0")
      case True
      then have "(unat (as_iv s) + 1) mod 4294967296 = 0" using unat_word_ariths(1) [of "as_iv s" 1] by simp
      then have "unat (as_iv s) = 4294967295" using unat_lt_u32 [of "as_iv s"] by (simp add: mod_Suc split: if_splits)
      then show ?thesis using S True Suc 2(5) seal_run_exhausted [of s' j ms P] by (simp add: s'_def)
    next
      case False
      then have "1 + as_iv s \<noteq> 0" by (simp add: add_eq_0_iff)
      then have "unat (as_iv s + 1) = unat (as_iv s) + 1" using unatSuc [of "as_iv s"] by (simp add: add.commute)
      then have f: "unat (as_iv s') + j = unat (as_iv s) + i" "as_mode s' = as_mode s" "as_password s' = as_password s"
          "as_keyBits s' = as_keyBits s" "as_nonce4 s' = as_nonce4 s" "as_exhausted s' = as_exhausted s"
        using False Suc by (simp_all add: s'_def)
      have r: "seal_run P s ((aad, pt) # ms) ! i = seal_run P s' ms ! j" "((aad, pt) # ms) ! i = ms ! j"
        using S Suc by simp_all
      show ?thesis using 2(1) [OF S [symmetric], of j] 2(2-5) Suc unfolding f r by simp
    qed
  qed
qed simp

text \<open>C17: A sealer for one nonce epoch numbers its packets \<open>startIV\<close>, \<open>startIV + 1\<close>, and so on up to the largest 32-bit
  value and then refuses with \<open>ErrIVExhausted\<close>: the counter never wraps, so no two packets of an epoch share a cipher
  nonce.  Every packet it does seal opens, under the IV it reports and the same additional data, to its plaintext.\<close>

theorem sealer_never_reuses_iv:
  assumes "prim_laws P" "sealable mode pw bits nonce" "i < length msgs"
  shows "if unat start + i < 2 ^ 32
     then \<exists>ct h. seal_run P (NewAdvancedSealer mode pw bits nonce start) msgs ! i = Inr (ct, h, of_nat (unat start + i)) \<and>
        length ct = length (snd (msgs ! i)) \<and> length h = HashSize \<and>
        OpenAdvanced P mode pw bits nonce (of_nat (unat start + i)) (fst (msgs ! i)) ct h = Inr (snd (msgs ! i))
     else seal_run P (NewAdvancedSealer mode pw bits nonce start) msgs ! i = Inl ErrIVExhausted"
proof -
  have "if unat start + i < 2 ^ 32
     then \<exists>ct h. seal_run P (NewAdvancedSealer mode pw bits nonce start) msgs ! i = Inr (ct, h, of_nat (unat start + i)) \<and>
        SealAdvanced P mode pw bits nonce (of_nat (unat start + i)) (fst (msgs ! i)) (snd (msgs ! i)) = Inr (ct, h)
     else seal_run P (NewAdvancedSealer mode pw bits nonce start) msgs ! i = Inl ErrIVExhausted"
    using seal_run_nth [OF assms(1), of "NewAdvancedSealer mode pw bits nonce start" i msgs] assms(2,3)
    by (simp only: NewAdvancedSealer_fields) simp
  then show ?thesis using seal_open [OF assms(1)] by (auto split: if_splits)
qed

theorem sealer_never_reuses_iv_witness:
  "sealable 3 [5] 128 [1, 0, 0, 0] \<and>
   (\<exists>ct h. seal_run demo_prims (NewAdvancedSealer 3 [5] 128 [1, 0, 0, 0] 0xFFFFFFFF) [([1], [2, 3]), ([], [])] ! 0 = Inr (ct, h, 0xFFFFFFFF) \<and>
      OpenAdvanced demo_prims 3 [5] 128 [1, 0, 0, 0] 0xFFFFFFFF [1] ct h = Inr [2, 3]) \<and>
   seal_run demo_prims (NewAdvancedSealer 3 [5] 128 [1, 0, 0, 0] 0xFFFFFFFF) [([1], [2, 3]), ([], [])] ! 1 = Inl ErrIVExhausted"
proof -
  let ?m = "[([1], [2, 3]), ([], [])] :: (bytes \<times> bytes) list"
  have s: "sealable 3 [5] 128 [1, 0, 0, 0]" by code_simp
  show ?thesis
    using sealer_never_reuses_iv [OF demo_prims_laws s, of 0 ?m "0xFFFFFFFF"] sealer_never_reuses_iv [OF demo_prims_laws s, of 1 ?m "0xFFFFFFFF"] s
    by (auto simp del: seal_run.simps)
qed

end
