(* ===== verification/Eap.thy ===== *)
theory Eap
  imports Psk
begin

text \<open>EAP-SRP framing over EAPOL, internal/eap/eap.go: the frame type, its encoder and its parser.  Go strings are byte
  lists.\<close>

unbundle bit_operations_syntax

section \<open>Frames\<close>

text \<open>An SRP failure is wrapped in \<open>ErrSRP\<close>, a cipher failure in \<open>ErrCrypto\<close>; \<open>EapPanic\<close> stands for a run-time panic of a
  handler.\<close>

datatype eap_err =
  ErrShortBuffer | ErrBadLength | ErrUnsupportedType | ErrUnexpected | ErrNoVerifier | ErrSRP srp_err | ErrAuthFailed |
  ErrEmptyCredentials | ErrCredentialsTooLong | ErrNilLookup | ErrUnsupportedGroup | ErrCrypto psk_err | EapPanic

definition eapolTypeEAP :: u8 where "eapolTypeEAP = 0"
definition eapolTypeStart :: u8 where "eapolTypeStart = 1"
definition eapolTypeLogoff :: u8 where "eapolTypeLogoff = 2"
definition CodeRequest :: u8 where "CodeRequest = 1"
definition CodeResponse :: u8 where "CodeResponse = 2"
definition CodeSuccess :: u8 where "CodeSuccess = 3"
definition CodeFailure :: u8 where "CodeFailure = 4"
definition eapTypeIdentity :: u8 where "eapTypeIdentity = 1"
definition eapTypeSRPSHA1 :: u8 where "eapTypeSRPSHA1 = 19"
definition srpSubtypeChallenge :: u8 where "srpSubtypeChallenge = 1"
definition srpSubtypeServerKey :: u8 where "srpSubtypeServerKey = 2"
definition srpSubtypeServerVal :: u8 where "srpSubtypeServerVal = 3"
definition srpSubtypePassword :: u8 where "srpSubtypePassword = 0x10"
definition eapVersion3 :: u8 where "eapVersion3 = 3"
definition eapVersion2 :: u8 where "eapVersion2 = 2"
definition eapolHdrSize :: nat where "eapolHdrSize = 4"
definition eapHdrSize :: nat where "eapHdrSize = 4"
definition srpHdrSize :: nat where "srpHdrSize = 2"
definition hdrsOffset :: nat where "hdrsOffset = eapolHdrSize + eapHdrSize"
definition proofLen :: nat where "proofLen = 32"
definition validatorFlagsLen :: nat where "validatorFlagsLen = 4"
definition setPassphraseByte :: nat where "setPassphraseByte = 3"
definition setPassphraseBit :: nat where "setPassphraseBit = 0"
definition pwUseSessionKeyBit :: nat where "pwUseSessionKeyBit = 7"
definition pwExplicitBit :: nat where "pwExplicitBit = 6"

lemmas eap_codes = eapolTypeEAP_def eapolTypeStart_def eapolTypeLogoff_def CodeRequest_def CodeResponse_def CodeSuccess_def
  CodeFailure_def eapTypeIdentity_def eapTypeSRPSHA1_def srpSubtypeChallenge_def srpSubtypeServerKey_def
  srpSubtypeServerVal_def srpSubtypePassword_def eapVersion3_def eapVersion2_def

lemmas eap_sizes = eapolHdrSize_def eapHdrSize_def srpHdrSize_def hdrsOffset_def proofLen_def validatorFlagsLen_def
  setPassphraseByte_def setPassphraseBit_def pwUseSessionKeyBit_def pwExplicitBit_def

datatype Kind =
  KindUnknown | KindStart | KindLogoff | KindIdentityRequest | KindIdentityResponse | KindChallenge | KindClientKey |
  KindServerKey | KindClientValidator | KindServerValidator | KindSuccess | KindFailure | KindPasswordRequest |
  KindPasswordResponse

record Frame =
  fr_Version :: u8
  fr_Code :: u8
  fr_Identifier :: u8
  fr_Kind :: Kind
  fr_Username :: bytes
  fr_Salt :: bytes
  fr_GenG :: bytes
  fr_GenN :: bytes
  fr_Public :: bytes
  fr_Proof :: bytes
  fr_Flags :: bytes
  fr_PwFlags :: u8
  fr_PwPayload :: bytes

text \<open>A frame literal: the fields not named are zero.\<close>

definition frame :: "u8 \<Rightarrow> u8 \<Rightarrow> u8 \<Rightarrow> Kind \<Rightarrow> Frame" where
  "frame version code identifier kind =
     \<lparr>fr_Version = version, fr_Code = code, fr_Identifier = identifier, fr_Kind = kind, fr_Username = [], fr_Salt = [],
      fr_GenG = [], fr_GenN = [], fr_Public = [], fr_Proof = [], fr_Flags = [0, 0, 0, 0], fr_PwFlags = 0,
      fr_PwPayload = []\<rparr>"

definition SetPassphrase :: "Frame \<Rightarrow> bool" where
  "SetPassphrase f \<longleftrightarrow> fr_Flags f ! setPassphraseByte AND push_bit setPassphraseBit 1 \<noteq> 0"

definition setSetPassphrase :: "bool \<Rightarrow> Frame \<Rightarrow> Frame" where
  "setSetPassphrase v f =
     (let b = fr_Flags f ! setPassphraseByte
      in f\<lparr>fr_Flags := (fr_Flags f)[setPassphraseByte :=
             if v then b OR push_bit setPassphraseBit 1 else b AND NOT (push_bit setPassphraseBit 1)]\<rparr>)"

definition PwUseSessionKey :: "Frame \<Rightarrow> bool" where
  "PwUseSessionKey f \<longleftrightarrow> fr_PwFlags f AND push_bit pwUseSessionKeyBit 1 \<noteq> 0"

definition PwHasExplicit :: "Frame \<Rightarrow> bool" where
  "PwHasExplicit f \<longleftrightarrow> fr_PwFlags f AND push_bit pwExplicitBit 1 \<noteq> 0"

definition startFrame :: Frame where
  "startFrame = frame eapVersion3 0 0 KindStart"

section \<open>Encoding\<close>

definition encodeBody :: "Frame \<Rightarrow> bytes" where
  "encodeBody f =
     (case fr_Kind f of
        KindIdentityRequest \<Rightarrow> [eapTypeIdentity]
      | KindIdentityResponse \<Rightarrow> [eapTypeIdentity] @ fr_Username f
      | KindChallenge \<Rightarrow>
          [eapTypeSRPSHA1, srpSubtypeChallenge] @ be16_put 0 @ be16_put (of_nat (length (fr_Salt f))) @ fr_Salt f @
          (if length (fr_GenG f) = 0 then be16_put 0
           else be16_put (of_nat (length (fr_GenG f))) @ fr_GenG f @ fr_GenN f)
      | KindClientKey \<Rightarrow> [eapTypeSRPSHA1, srpSubtypeChallenge] @ fr_Public f
      | KindServerKey \<Rightarrow> [eapTypeSRPSHA1, srpSubtypeServerKey] @ fr_Public f
      | KindClientValidator \<Rightarrow> [eapTypeSRPSHA1, srpSubtypeServerKey] @ fr_Flags f @ fr_Proof f
      | KindServerValidator \<Rightarrow> [eapTypeSRPSHA1, srpSubtypeServerVal] @ fr_Flags f @ fr_Proof f
      | KindSuccess \<Rightarrow> [0, 0]
      | KindFailure \<Rightarrow> []
      | KindPasswordRequest \<Rightarrow> [eapTypeSRPSHA1, srpSubtypePassword]
      | KindPasswordResponse \<Rightarrow> [eapTypeSRPSHA1, srpSubtypePassword, fr_PwFlags f] @ fr_PwPayload f
      | _ \<Rightarrow> [])"

definition Frame_AppendTo :: "Frame \<Rightarrow> bytes \<Rightarrow> bytes" where
  "Frame_AppendTo f buf =
     (let version = (if fr_Version f = 0 then eapVersion3 else fr_Version f) in
      if fr_Kind f = KindStart \<or> fr_Kind f = KindLogoff
      then buf @ [version, if fr_Kind f = KindLogoff then eapolTypeLogoff else eapolTypeStart, 0, 0]
      else let body = encodeBody f; eapLen = eapHdrSize + length body
           in buf @ [version, eapolTypeEAP] @ be16_put (of_nat eapLen) @ [fr_Code f, fr_Identifier f] @
              be16_put (of_nat eapLen) @ body)"

definition Frame_MarshalSize :: "Frame \<Rightarrow> nat" where
  "Frame_MarshalSize f =
     (if fr_Kind f = KindStart \<or> fr_Kind f = KindLogoff then eapolHdrSize else hdrsOffset + length (encodeBody f))"

section \<open>Parsing\<close>

definition readU16 :: "bytes \<Rightarrow> nat \<Rightarrow> eap_err + nat \<times> nat" where
  "readU16 b off = (if off + 2 > length b then Inl ErrShortBuffer else Inr (unat (be16_get b off), off + 2))"

definition parseChallenge :: "Frame \<Rightarrow> bytes \<Rightarrow> eap_err + Frame" where
  "parseChallenge f p =
     (case readU16 p 0 of Inl e \<Rightarrow> Inl e
      | Inr (nameLen, off) \<Rightarrow>
        if nameLen > length p - off then Inl ErrBadLength
        else (case readU16 p (off + nameLen) of Inl e \<Rightarrow> Inl e
        | Inr (saltLen, off) \<Rightarrow>
          if saltLen > length p - off then Inl ErrBadLength
          else let salt = take saltLen (drop off p); off = off + saltLen in
          case readU16 p off of Inl e \<Rightarrow> Inl e
          | Inr (genLen, off) \<Rightarrow>
            let f = f\<lparr>fr_Kind := KindChallenge, fr_Salt := salt\<rparr> in
            if genLen \<noteq> 0 then
              (if genLen > length p - off then Inl ErrBadLength
               else Inr (f\<lparr>fr_GenG := take genLen (drop off p), fr_GenN := drop (off + genLen) p\<rparr>))
            else Inr f))"

definition parseValidator :: "Frame \<Rightarrow> Kind \<Rightarrow> bytes \<Rightarrow> eap_err + Frame" where
  "parseValidator f kind p =
     (if length p < validatorFlagsLen + proofLen then Inl ErrShortBuffer
      else Inr (f\<lparr>fr_Kind := kind, fr_Flags := take validatorFlagsLen p,
                  fr_Proof := take proofLen (drop validatorFlagsLen p)\<rparr>))"

definition parseSRP :: "Frame \<Rightarrow> u8 \<Rightarrow> u8 \<Rightarrow> bytes \<Rightarrow> eap_err + Frame" where
  "parseSRP f code subtype payload =
     (if subtype = srpSubtypeChallenge \<and> code = CodeRequest then parseChallenge f payload
      else if subtype = srpSubtypeChallenge \<and> code = CodeResponse then
        Inr (f\<lparr>fr_Kind := KindClientKey, fr_Public := payload\<rparr>)
      else if subtype = srpSubtypeServerKey \<and> code = CodeRequest then
        Inr (f\<lparr>fr_Kind := KindServerKey, fr_Public := payload\<rparr>)
      else if subtype = srpSubtypeServerKey \<and> code = CodeResponse then parseValidator f KindClientValidator payload
      else if subtype = srpSubtypeServerVal then
        (if code = CodeResponse \<and> length payload < validatorFlagsLen + proofLen
         then Inr (f\<lparr>fr_Kind := KindServerValidator\<rparr>)
         else parseValidator f KindServerValidator payload)
      else if subtype = srpSubtypePassword \<and> code = CodeRequest then Inr (f\<lparr>fr_Kind := KindPasswordRequest\<rparr>)
      else if subtype = srpSubtypePassword \<and> code = CodeResponse then
        (if length payload < 1 then Inl ErrShortBuffer
         else Inr (f\<lparr>fr_Kind := KindPasswordResponse, fr_PwFlags := payload ! 0, fr_PwPayload := drop 1 payload\<rparr>))
      else Inl ErrUnsupportedType)"

definition parseMethod :: "Frame \<Rightarrow> u8 \<Rightarrow> bytes \<Rightarrow> eap_err + Frame" where
  "parseMethod f code body =
     (if length body < 1 then Inl ErrShortBuffer
      else if body ! 0 = eapTypeIdentity then
        (if code = CodeRequest then Inr (f\<lparr>fr_Kind := KindIdentityRequest\<rparr>)
         else Inr (f\<lparr>fr_Kind := KindIdentityResponse, fr_Username := drop 1 body\<rparr>))
      else if body ! 0 = eapTypeSRPSHA1 then
        (if length body < srpHdrSize then Inl ErrShortBuffer
         else parseSRP f code (body ! 1) (drop srpHdrSize body))
      else Inl ErrUnsupportedType)"

definition parseEAP :: "u8 \<Rightarrow> bytes \<Rightarrow> eap_err + Frame" where
  "parseEAP version eapPkt =
     (if length eapPkt < eapHdrSize then Inl ErrShortBuffer
      else let code = eapPkt ! 0; identifier = eapPkt ! 1; len = unat (be16_get eapPkt 2) in
      if len \<noteq> length eapPkt then Inl ErrBadLength
      else let body = drop eapHdrSize eapPkt; f = frame version code identifier KindUnknown in
      if code = CodeRequest \<or> code = CodeResponse then parseMethod f code body
      else if code = CodeSuccess then Inr (f\<lparr>fr_Kind := KindSuccess\<rparr>)
      else if code = CodeFailure then Inr (f\<lparr>fr_Kind := KindFailure\<rparr>)
      else Inl ErrUnsupportedType)"

definition eap_Parse :: "bytes \<Rightarrow> eap_err + Frame" where
  "eap_Parse b =
     (if length b < eapolHdrSize then Inl ErrShortBuffer
      else let version = b ! 0; eapolType = b ! 1; bodyLen = unat (be16_get b 2) in
      if bodyLen + eapolHdrSize > length b then Inl ErrBadLength
      else if eapolType = eapolTypeStart then Inr (frame version 0 0 KindStart)
      else if eapolType = eapolTypeLogoff then Inr (frame version 0 0 KindLogoff)
      else if eapolType = eapolTypeEAP then parseEAP version (take bodyLen (drop eapolHdrSize b))
      else Inl ErrUnsupportedType)"

section \<open>Verifiers and groups\<close>

type_synonym VerifierLookup = "bytes \<Rightarrow> (bytes \<times> bytes) option"

definition staticVerifier :: "bytes \<Rightarrow> bytes \<Rightarrow> bytes \<Rightarrow> VerifierLookup" where
  "staticVerifier user verifier salt u = (if u \<noteq> user then None else Some (verifier, salt))"

definition challengeGroup :: "Frame \<Rightarrow> eap_err + srp_Group" where
  "challengeGroup f = (if length (fr_GenG f) = 0 then Inr DefaultGroup else Inl ErrUnsupportedGroup)"

section \<open>Round trip\<close>

text \<open>The frames the roles exchange: the fields of the message kind, everything else zero, and sizes that fit the length
  fields.\<close>

definition eap_wf :: "Frame \<Rightarrow> bool" where
  "eap_wf f \<longleftrightarrow> (let z = frame (fr_Version f) (fr_Code f) (fr_Identifier f) (fr_Kind f) in
     fr_Version f \<noteq> 0 \<and> length (encodeBody f) + 4 < 65536 \<and> length (fr_Flags f) = 4 \<and>
     (case fr_Kind f of
        KindUnknown \<Rightarrow> False
      | KindStart \<Rightarrow> f = z \<and> fr_Code f = 0 \<and> fr_Identifier f = 0
      | KindLogoff \<Rightarrow> f = z \<and> fr_Code f = 0 \<and> fr_Identifier f = 0
      | KindIdentityRequest \<Rightarrow> f = z \<and> fr_Code f = 1
      | KindIdentityResponse \<Rightarrow> f = z\<lparr>fr_Username := fr_Username f\<rparr> \<and> fr_Code f = 2
      | KindChallenge \<Rightarrow> f = z\<lparr>fr_Salt := fr_Salt f, fr_GenG := fr_GenG f, fr_GenN := fr_GenN f\<rparr> \<and> fr_Code f = 1 \<and>
          (fr_GenG f = [] \<longrightarrow> fr_GenN f = [])
      | KindClientKey \<Rightarrow> f = z\<lparr>fr_Public := fr_Public f\<rparr> \<and> fr_Code f = 2
      | KindServerKey \<Rightarrow> f = z\<lparr>fr_Public := fr_Public f\<rparr> \<and> fr_Code f = 1
      | KindClientValidator \<Rightarrow> f = z\<lparr>fr_Flags := fr_Flags f, fr_Proof := fr_Proof f\<rparr> \<and> fr_Code f = 2 \<and> length (fr_Proof f) = 32
      | KindServerValidator \<Rightarrow>
          f = z\<lparr>fr_Flags := fr_Flags f, fr_Proof := fr_Proof f\<rparr> \<and> (fr_Code f = 1 \<or> fr_Code f = 2) \<and> length (fr_Proof f) = 32 \<or>
          f = z \<and> fr_Code f = 2
      | KindSuccess \<Rightarrow> f = z \<and> fr_Code f = 3
      | KindFailure \<Rightarrow> f = z \<and> fr_Code f = 4
      | KindPasswordRequest \<Rightarrow> f = z \<and> fr_Code f = 1
      | KindPasswordResponse \<Rightarrow> f = z\<lparr>fr_PwFlags := fr_PwFlags f, fr_PwPayload := fr_PwPayload f\<rparr> \<and> fr_Code f = 2))"

lemma length_AppendTo: "length (fr_Flags f) = 4 \<Longrightarrow> length (Frame_AppendTo f []) = Frame_MarshalSize f"
  by (simp add: Frame_AppendTo_def Frame_MarshalSize_def Let_def eap_sizes)

text \<open>The outer headers: what is left is to parse the body under its code.\<close>

definition eap_body :: "Frame \<Rightarrow> eap_err + Frame" where
  "eap_body f = (let z = frame (fr_Version f) (fr_Code f) (fr_Identifier f) KindUnknown in
     if fr_Code f = 1 \<or> fr_Code f = 2 then parseMethod z (fr_Code f) (encodeBody f)
     else if fr_Code f = 3 then Inr (z\<lparr>fr_Kind := KindSuccess\<rparr>)
     else if fr_Code f = 4 then Inr (z\<lparr>fr_Kind := KindFailure\<rparr>) else Inl ErrUnsupportedType)"

lemma parse_outer:
  assumes "fr_Version f \<noteq> 0" "length (encodeBody f) + 4 < 65536" "fr_Kind f \<noteq> KindStart" "fr_Kind f \<noteq> KindLogoff"
  shows "eap_Parse (Frame_AppendTo f [] @ rest) = eap_body f"
proof -
  define m where "m = 4 + length (encodeBody f)"
  let ?n = "of_nat m :: u16"
  let ?p = "[fr_Code f, fr_Identifier f] @ be16_put ?n @ encodeBody f"
  have n: "unat ?n = m" "length ?p = m" using assms(2) by (simp_all add: m_def unsigned_of_nat take_bit_nat_eq_self del: of_nat_add)
  have A: "Frame_AppendTo f [] @ rest = [fr_Version f, 0] @ be16_put ?n @ ?p @ rest"
    using assms by (simp add: Frame_AppendTo_def Let_def eap_sizes eap_codes m_def)
  have g: "be16_get ([fr_Version f, 0] @ be16_put ?n @ ?p @ rest) 2 = ?n"
    using be16_get_put [of "[fr_Version f, 0]" ?n "?p @ rest"] by (simp add: numeral_2_eq_2)
  have h: "be16_get ?p 2 = ?n" using be16_get_put [of "[fr_Code f, fr_Identifier f]" ?n "encodeBody f"] by (simp add: numeral_2_eq_2)
  have "eap_Parse (Frame_AppendTo f [] @ rest) = parseEAP (fr_Version f) ?p"
    unfolding A using n(1) n(2) [symmetric] g by (simp add: eap_Parse_def Let_def eap_sizes eap_codes)
  also have "\<dots> = eap_body f" using n h by (simp add: parseEAP_def eap_body_def Let_def eap_sizes eap_codes)
  finally show ?thesis .
qed

text \<open>The challenge body.\<close>

lemma parse_challenge:
  assumes "length (fr_Salt f) < 65536" "length (fr_GenG f) < 65536" "fr_GenG f = [] \<longrightarrow> fr_GenN f = []"
  shows "parseChallenge z (be16_put 0 @ be16_put (of_nat (length (fr_Salt f))) @ fr_Salt f @
      (if length (fr_GenG f) = 0 then be16_put 0 else be16_put (of_nat (length (fr_GenG f))) @ fr_GenG f @ fr_GenN f)) =
    Inr (if fr_GenG f = [] then z\<lparr>fr_Kind := KindChallenge, fr_Salt := fr_Salt f\<rparr>
         else z\<lparr>fr_Kind := KindChallenge, fr_Salt := fr_Salt f, fr_GenG := fr_GenG f, fr_GenN := fr_GenN f\<rparr>)"
proof -
  define tail where "tail = (if length (fr_GenG f) = 0 then be16_put 0 else be16_put (of_nat (length (fr_GenG f))) @ fr_GenG f @ fr_GenN f)"
  let ?s = "of_nat (length (fr_Salt f)) :: u16" and ?g = "of_nat (length (fr_GenG f)) :: u16"
  let ?p = "be16_put 0 @ be16_put ?s @ fr_Salt f @ tail"
  have u: "unat ?s = length (fr_Salt f)" "unat ?g = length (fr_GenG f)"
    using assms(1,2) by (simp_all add: unsigned_of_nat take_bit_nat_eq_self)
  have 1: "readU16 ?p 0 = Inr (0, 2)" by (simp add: readU16_def)
  have 2: "readU16 ?p 2 = Inr (length (fr_Salt f), 4)"
    using be16_get_put [of "be16_put 0" ?s "fr_Salt f @ tail"] u by (simp add: readU16_def)
  have 3: "readU16 ?p (4 + length (fr_Salt f)) = Inr (length (fr_GenG f), 6 + length (fr_Salt f))"
    using be16_get_put [of "be16_put 0 @ be16_put ?s @ fr_Salt f" "if fr_GenG f = [] then 0 else ?g" "if fr_GenG f = [] then [] else fr_GenG f @ fr_GenN f"] u
    by (auto simp: readU16_def tail_def eval_nat_numeral split: if_splits)
  show ?thesis unfolding tail_def [symmetric] parseChallenge_def 1 using 2 3 assms(3)
    by (simp add: Let_def tail_def)
qed

lemma eap_body_roundtrip:
  assumes "eap_wf f" "fr_Kind f \<noteq> KindStart" "fr_Kind f \<noteq> KindLogoff"
  shows "eap_body f = Inr f"
proof (cases "fr_Kind f")
  case KindChallenge
  have "length (fr_Salt f) < 65536" "length (fr_GenG f) < 65536" "fr_GenG f = [] \<longrightarrow> fr_GenN f = []"
    using assms(1) KindChallenge by (auto simp: eap_wf_def encodeBody_def Let_def split: if_splits)
  note c = parse_challenge [OF this]
  have "eap_body f = parseChallenge (frame (fr_Version f) 1 (fr_Identifier f) KindUnknown) (drop 2 (encodeBody f))"
    using assms(1) KindChallenge
    by (simp add: eap_wf_def eap_body_def parseMethod_def parseSRP_def encodeBody_def Let_def eap_codes eap_sizes)
  also have "\<dots> = Inr f"
    using assms(1) KindChallenge c [of "frame (fr_Version f) 1 (fr_Identifier f) KindUnknown"]
    by (cases f) (simp add: encodeBody_def eap_wf_def frame_def Let_def split: if_splits)
  finally show ?thesis .
next
  case KindServerValidator
  then show ?thesis using assms(1)
    by (cases f) (auto simp: eap_wf_def eap_body_def parseMethod_def parseSRP_def parseValidator_def encodeBody_def frame_def Let_def eap_codes eap_sizes)
qed (use assms in \<open>cases f; simp add: eap_wf_def eap_body_def parseMethod_def parseSRP_def parseValidator_def encodeBody_def frame_def Let_def eap_codes eap_sizes\<close>)+

lemma eap_parse_back:
  assumes "eap_wf f"
  shows "eap_Parse (Frame_AppendTo f [] @ rest) = Inr f"
proof (cases "fr_Kind f = KindStart \<or> fr_Kind f = KindLogoff")
  case True
  then show ?thesis using assms
    by (cases f) (auto simp: eap_wf_def Frame_AppendTo_def eap_Parse_def frame_def Let_def eap_codes eap_sizes be16_get_def)
next
  case False
  then show ?thesis using assms parse_outer [of f rest] eap_body_roundtrip [of f] by (simp add: eap_wf_def Let_def)
qed

text \<open>C32: Every frame the EAP roles exchange survives its wire form: a frame with the fields of its kind encodes to exactly
  its declared size and parses back to itself, whatever follows it in the buffer.\<close>

theorem eap_frame_roundtrip:
  assumes "eap_wf f"
  shows "length (Frame_AppendTo f []) = Frame_MarshalSize f \<and> eap_Parse (Frame_AppendTo f [] @ rest) = Inr f"
  using assms length_AppendTo [of f] eap_parse_back [of f rest] by (simp add: eap_wf_def Let_def)

theorem eap_frame_roundtrip_witness:
  "length (Frame_AppendTo ((frame 3 1 7 KindChallenge)\<lparr>fr_Salt := [1, 2]\<rparr>) []) = 18 \<and>
   eap_Parse (Frame_AppendTo ((frame 3 1 7 KindChallenge)\<lparr>fr_Salt := [1, 2]\<rparr>) [] @ [9]) = Inr ((frame 3 1 7 KindChallenge)\<lparr>fr_Salt := [1, 2]\<rparr>)"
proof -
  have "eap_wf ((frame 3 1 7 KindChallenge)\<lparr>fr_Salt := [1, 2]\<rparr>)"
    by (simp add: eap_wf_def frame_def encodeBody_def Let_def)
  from eap_frame_roundtrip [OF this, of "[9]"] show ?thesis
    by (simp add: Frame_MarshalSize_def encodeBody_def frame_def eap_sizes)
qed

text \<open>The parser is total and fails with a framing error only.\<close>

definition framing_err :: "eap_err \<Rightarrow> bool" where
  "framing_err e \<longleftrightarrow> e = ErrShortBuffer \<or> e = ErrBadLength \<or> e = ErrUnsupportedType"

lemma parseChallenge_err: "parseChallenge f p = Inl e \<Longrightarrow> framing_err e"
  by (auto simp: parseChallenge_def readU16_def framing_err_def Let_def split: if_splits sum.splits prod.splits)

lemma parseSRP_err: "parseSRP f c t p = Inl e \<Longrightarrow> framing_err e"
  by (auto simp: parseSRP_def parseValidator_def framing_err_def split: if_splits dest: parseChallenge_err [unfolded framing_err_def])

lemma parse_err: "eap_Parse b = Inl e \<Longrightarrow> framing_err e"
  using parseSRP_err
  by (auto simp: eap_Parse_def parseEAP_def parseMethod_def framing_err_def Let_def split: if_splits)

text \<open>A frame of unknown kind is not left out of the buffer: it is written as an eight-byte frame with an empty body.\<close>

lemma unknown_kind_is_encoded: "fr_Kind f = KindUnknown \<Longrightarrow> length (Frame_AppendTo f buf) = length buf + 8"
  by (simp add: Frame_AppendTo_def encodeBody_def Let_def eap_sizes)

end
