(* ===== verification/Eap_State.thy ===== *)
theory Eap_State
  imports Eap
begin

text \<open>The EAP-SRP roles, internal/eap/state.go: the authenticatee and the authenticator as state machines over received
  EAPOL payloads.  The SHA-256 digest \<open>sha\<close> and the cipher primitives \<open>P\<close> are parameters; the secret that
  \<open>srp.NewClient\<close> or \<open>srp.NewServer\<close> would draw while a frame is handled is the argument \<open>src\<close>.  A handler returns the
  reply, the error and the new state.\<close>

unbundle bit_operations_syntax

section \<open>Keying state\<close>

datatype eap_State = StateUnauth | StateInProgress | StateSuccess | StateFailed

record Passphrase =
  pp_Key :: "bytes option"
  pp_Gen :: u64

record keying =
  ky_enabled :: bool
  ky_tx :: Passphrase
  ky_rx :: Passphrase

text \<open>Copying an empty slice into a nil one leaves it nil.\<close>

definition copy_slice :: "bytes \<Rightarrow> bytes option" where
  "copy_slice key = (if key = [] then None else Some key)"

definition setTx :: "bytes \<Rightarrow> keying \<Rightarrow> keying" where
  "setTx key k = k\<lparr>ky_tx := \<lparr>pp_Key = copy_slice key, pp_Gen = pp_Gen (ky_tx k) + 1\<rparr>\<rparr>"

definition setRx :: "bytes \<Rightarrow> keying \<Rightarrow> keying" where
  "setRx key k = k\<lparr>ky_rx := \<lparr>pp_Key = copy_slice key, pp_Gen = pp_Gen (ky_rx k) + 1\<rparr>\<rparr>"

definition keying_zero :: keying where
  "keying_zero = \<lparr>ky_enabled = False, ky_tx = \<lparr>pp_Key = None, pp_Gen = 0\<rparr>, ky_rx = \<lparr>pp_Key = None, pp_Gen = 0\<rparr>\<rparr>"

definition passwordResponseFrame :: "u8 \<Rightarrow> u8 \<Rightarrow> Frame" where
  "passwordResponseFrame version identifier =
     (frame version CodeResponse identifier KindPasswordResponse)\<lparr>fr_PwFlags := push_bit pwUseSessionKeyBit 1\<rparr>"

definition installPushedRx :: "prims \<Rightarrow> keying \<Rightarrow> bytes \<Rightarrow> Frame \<Rightarrow> eap_err option \<times> keying" where
  "installPushedRx P k session f =
     (if PwUseSessionKey f then (None, setRx session k)
      else if PwHasExplicit f then
        (let iv = replicate 15 0 @ [fr_Identifier f];
             keyBits = (if PwHasExplicit f then KeySize256 else KeySize128);
             n = nat (keyBits div 8) in
         if length session \<noteq> n \<and> length session < n then (Some ErrShortBuffer, k)
         else let aesKey = (if length session \<noteq> n then take n session else session) in
         case AESCTRRaw P aesKey iv [] (fr_PwPayload f) of
           (Some e, _) \<Rightarrow> (Some (ErrCrypto e), k)
         | (None, pt) \<Rightarrow> (None, setRx pt k))
      else (None, k))"

definition negotiatedVersion :: "Frame \<Rightarrow> u8" where
  "negotiatedVersion req = (if fr_Version req = 2 then 2 else eapVersion3)"

section \<open>The authenticatee\<close>

record Authenticatee =
  ae_username :: bytes
  ae_password :: bytes
  ae_state :: eap_State
  ae_id :: u8
  ae_idValid :: bool
  ae_client :: "srp_Client option"
  ae_salt :: bytes
  ae_session :: bytes
  ae_keying :: keying
  ae_pwReqID :: u8
  ae_pwReqActive :: bool
  ae_lastRx :: "bytes option"
  ae_lastReply :: "Frame option"

type_synonym ae_result = "Frame option \<times> eap_err option \<times> Authenticatee"

definition NewAuthenticatee :: "bytes \<Rightarrow> bytes \<Rightarrow> eap_err + Authenticatee" where
  "NewAuthenticatee username password =
     (if username = [] \<or> password = [] then Inl ErrEmptyCredentials
      else if length username > 255 \<or> length password > 255 then Inl ErrCredentialsTooLong
      else Inr \<lparr>ae_username = username, ae_password = password, ae_state = StateUnauth, ae_id = 0, ae_idValid = False,
             ae_client = None, ae_salt = [], ae_session = [], ae_keying = keying_zero, ae_pwReqID = 0,
             ae_pwReqActive = False, ae_lastRx = None, ae_lastReply = None\<rparr>)"

definition ae_UseKeyAsPassphrase :: "bool \<Rightarrow> Authenticatee \<Rightarrow> Authenticatee" where
  "ae_UseKeyAsPassphrase enabled a =
     (if ae_state a = StateUnauth then a\<lparr>ae_keying := (ae_keying a)\<lparr>ky_enabled := enabled\<rparr>\<rparr> else a)"

definition ae_TxKeying :: "Authenticatee \<Rightarrow> Passphrase \<times> bool" where
  "ae_TxKeying a = (ky_tx (ae_keying a), pp_Key (ky_tx (ae_keying a)) \<noteq> None)"

definition ae_RxKeying :: "Authenticatee \<Rightarrow> Passphrase \<times> bool" where
  "ae_RxKeying a = (ky_rx (ae_keying a), pp_Key (ky_rx (ae_keying a)) \<noteq> None)"

definition PasswordRequest :: "Authenticatee \<Rightarrow> Frame option \<times> Authenticatee" where
  "PasswordRequest a =
     (if ae_state a \<noteq> StateSuccess \<or> \<not> ky_enabled (ae_keying a) then (None, a)
      else let pid = (ae_pwReqID a + 1) OR push_bit pwUseSessionKeyBit 1 OR push_bit pwExplicitBit 1
           in (Some (frame eapVersion3 CodeRequest pid KindPasswordRequest),
               a\<lparr>ae_pwReqID := pid, ae_pwReqActive := True\<rparr>))"

definition ae_Done :: "Authenticatee \<Rightarrow> bool" where
  "ae_Done a \<longleftrightarrow> ae_state a = StateSuccess \<or> ae_state a = StateFailed"

definition ae_Authenticated :: "Authenticatee \<Rightarrow> bool" where
  "ae_Authenticated a \<longleftrightarrow> ae_state a = StateSuccess"

definition ae_SessionKey :: "Authenticatee \<Rightarrow> bytes" where
  "ae_SessionKey a = ae_session a"

definition ae_Start :: "Authenticatee \<Rightarrow> Frame \<times> Authenticatee" where
  "ae_Start a = (startFrame, if ae_state a = StateUnauth then a\<lparr>ae_state := StateInProgress\<rparr> else a)"

definition ae_Restart :: "Authenticatee \<Rightarrow> Authenticatee" where
  "ae_Restart a = a\<lparr>ae_state := StateUnauth, ae_id := 0, ae_idValid := False, ae_client := None, ae_salt := [],
     ae_session := [], ae_pwReqActive := False, ae_lastRx := None, ae_lastReply := None\<rparr>"

text \<open>The cases of \<open>handle\<close>.\<close>

definition ae_identity :: "Frame \<Rightarrow> Authenticatee \<Rightarrow> ae_result" where
  "ae_identity f a =
     (let a = a\<lparr>ae_id := fr_Identifier f, ae_idValid := True,
                ae_state := if ae_state a = StateUnauth then StateInProgress else ae_state a\<rparr>
      in (Some ((frame (negotiatedVersion f) CodeResponse (fr_Identifier f) KindIdentityResponse)
                  \<lparr>fr_Username := ae_username a\<rparr>), None, a))"

definition ae_challenge :: "nat option \<Rightarrow> Frame \<Rightarrow> Authenticatee \<Rightarrow> ae_result" where
  "ae_challenge src f a =
     (case challengeGroup f of Inl e \<Rightarrow> (None, Some e, a\<lparr>ae_state := StateFailed\<rparr>)
      | Inr grp \<Rightarrow>
        if length (fr_Salt f) = 0 then (None, Some ErrBadLength, a\<lparr>ae_state := StateFailed\<rparr>)
        else (case newClient grp (fr_Salt f) (negotiatedVersion f = 2) src of
          Inl e \<Rightarrow> (None, Some (ErrSRP e), a\<lparr>ae_state := StateFailed\<rparr>)
        | Inr client \<Rightarrow>
          let a = a\<lparr>ae_id := fr_Identifier f, ae_idValid := True, ae_client := Some client, ae_salt := fr_Salt f,
                    ae_state := StateInProgress\<rparr> in
          (case Client_A client of None \<Rightarrow> (None, Some EapPanic, a)
           | Some A \<Rightarrow>
             (Some ((frame (negotiatedVersion f) CodeResponse (fr_Identifier f) KindClientKey)\<lparr>fr_Public := A\<rparr>), None, a))))"

text \<open>Before \<open>ComputeKey\<close> there is no M1; Go's nil is the empty proof.\<close>

definition or_nil :: "bytes option \<Rightarrow> bytes" where
  "or_nil b = (case b of None \<Rightarrow> [] | Some x \<Rightarrow> x)"

definition ae_serverKey :: "(bytes \<Rightarrow> bytes) \<Rightarrow> Frame \<Rightarrow> Authenticatee \<Rightarrow> ae_result" where
  "ae_serverKey sha f a =
     (case ae_client a of None \<Rightarrow> (None, Some ErrUnexpected, a\<lparr>ae_state := StateFailed\<rparr>)
      | Some client \<Rightarrow>
        let a = a\<lparr>ae_id := fr_Identifier f, ae_idValid := True\<rparr> in
        (case ComputeKey sha (fr_Public f) (ae_username a) (ae_password a) client of
           Inl SrpPanic \<Rightarrow> (None, Some EapPanic, a)
         | Inl e \<Rightarrow> (None, Some (ErrSRP e), a\<lparr>ae_state := StateFailed\<rparr>)
         | Inr client \<Rightarrow>
           (Some ((frame (negotiatedVersion f) CodeResponse (fr_Identifier f) KindClientValidator)
                    \<lparr>fr_Proof := or_nil (Client_M1 client)\<rparr>), None, a\<lparr>ae_client := Some client\<rparr>)))"

definition ae_serverValidator :: "(bytes \<Rightarrow> bytes) \<Rightarrow> Frame \<Rightarrow> Authenticatee \<Rightarrow> ae_result" where
  "ae_serverValidator sha f a =
     (case ae_client a of None \<Rightarrow> (None, Some ErrAuthFailed, a\<lparr>ae_state := StateFailed\<rparr>)
      | Some client \<Rightarrow>
        if length (fr_Proof f) = 0 then (None, Some ErrAuthFailed, a\<lparr>ae_state := StateFailed\<rparr>)
        else let a = a\<lparr>ae_id := fr_Identifier f, ae_idValid := True\<rparr> in
        if \<not> VerifyM2 sha (fr_Proof f) client then (None, Some ErrAuthFailed, a\<lparr>ae_state := StateFailed\<rparr>)
        else let key = or_nil (Client_SessionKey client);
                 a = a\<lparr>ae_session := key, ae_state := StateSuccess,
                       ae_keying := if SetPassphrase f \<and> negotiatedVersion f = eapVersion3 then setRx key (ae_keying a)
                                    else ae_keying a\<rparr>
             in (Some (frame (negotiatedVersion f) CodeSuccess (fr_Identifier f) KindSuccess), None, a))"

definition ae_passwordResponse :: "prims \<Rightarrow> Frame \<Rightarrow> Authenticatee \<Rightarrow> ae_result" where
  "ae_passwordResponse P f a =
     (if ae_state a \<noteq> StateSuccess then (None, None, a)
      else if ae_pwReqActive a \<and> fr_Identifier f \<noteq> ae_pwReqID a then (None, None, a)
      else case installPushedRx P (ae_keying a) (ae_session a) f of
        (Some e, k) \<Rightarrow> (None, Some e, a\<lparr>ae_keying := k\<rparr>)
      | (None, k) \<Rightarrow> (Some (frame (negotiatedVersion f) CodeSuccess (fr_Identifier f) KindSuccess), None,
                     a\<lparr>ae_keying := k, ae_pwReqActive := False\<rparr>))"

definition ae_dispatch :: "(bytes \<Rightarrow> bytes) \<Rightarrow> prims \<Rightarrow> nat option \<Rightarrow> Frame \<Rightarrow> Authenticatee \<Rightarrow> ae_result" where
  "ae_dispatch sha P src f a =
     (case fr_Kind f of
        KindIdentityRequest \<Rightarrow> ae_identity f a
      | KindChallenge \<Rightarrow> ae_challenge src f a
      | KindServerKey \<Rightarrow> ae_serverKey sha f a
      | KindServerValidator \<Rightarrow> ae_serverValidator sha f a
      | KindSuccess \<Rightarrow> (None, None, a)
      | KindPasswordRequest \<Rightarrow>
          if ae_state a \<noteq> StateSuccess then (None, None, a)
          else (Some (passwordResponseFrame eapVersion3 (fr_Identifier f)), None, a)
      | KindPasswordResponse \<Rightarrow> ae_passwordResponse P f a
      | _ \<Rightarrow> (None, Some ErrUnexpected, a))"

definition srp_request :: "Kind \<Rightarrow> bool" where
  "srp_request k \<longleftrightarrow> k = KindChallenge \<or> k = KindServerKey \<or> k = KindServerValidator"

definition ae_handle :: "(bytes \<Rightarrow> bytes) \<Rightarrow> prims \<Rightarrow> nat option \<Rightarrow> Frame \<Rightarrow> Authenticatee \<Rightarrow> ae_result" where
  "ae_handle sha P src f a =
     (if fr_Kind f = KindFailure then
        (if ae_state a \<noteq> StateInProgress \<or> fr_Identifier f \<noteq> ae_id a then (None, None, a)
         else (None, Some ErrAuthFailed, a\<lparr>ae_state := StateFailed\<rparr>))
      else if ae_state a = StateSuccess \<and> srp_request (fr_Kind f) then (None, None, a)
      else let a = (if ae_state a = StateSuccess \<and> fr_Kind f = KindIdentityRequest then ae_Restart a else a) in
      if ae_idValid a \<and> srp_request (fr_Kind f) \<and> fr_Identifier f \<noteq> ae_id a \<and> fr_Identifier f \<noteq> ae_id a + 1
      then (None, None, a)
      else ae_dispatch sha P src f a)"

definition ae_Recv :: "(bytes \<Rightarrow> bytes) \<Rightarrow> prims \<Rightarrow> nat option \<Rightarrow> bytes \<Rightarrow> Authenticatee \<Rightarrow> ae_result" where
  "ae_Recv sha P src payload a =
     (if length payload > 0 \<and> ae_lastRx a = Some payload then (ae_lastReply a, None, a)
      else case eap_Parse payload of Inl e \<Rightarrow> (None, Some e, a)
      | Inr f \<Rightarrow>
        (case ae_handle sha P src f a of
           (out, None, a) \<Rightarrow> (out, None, a\<lparr>ae_lastRx := copy_slice payload, ae_lastReply := out\<rparr>)
         | (out, Some e, a) \<Rightarrow> (out, Some e, a)))"

section \<open>The authenticator\<close>

record Authenticator =
  ar_lookup :: VerifierLookup
  ar_version :: u8
  ar_legacyPad :: bool
  ar_state :: eap_State
  ar_id :: u8
  ar_server :: "srp_Server option"
  ar_username :: bytes
  ar_session :: bytes
  ar_verified :: bool
  ar_everAuthed :: bool
  ar_keying :: keying
  ar_lastRx :: "bytes option"
  ar_lastReply :: "Frame option"

type_synonym ar_result = "Frame option \<times> eap_err option \<times> Authenticator"

definition newAuthenticator :: "VerifierLookup option \<Rightarrow> u8 \<Rightarrow> bool \<Rightarrow> eap_err + Authenticator" where
  "newAuthenticator lookup version legacyPad =
     (case lookup of None \<Rightarrow> Inl ErrNilLookup
      | Some lk \<Rightarrow> Inr \<lparr>ar_lookup = lk, ar_version = version, ar_legacyPad = legacyPad, ar_state = StateUnauth, ar_id = 0,
          ar_server = None, ar_username = [], ar_session = [], ar_verified = False, ar_everAuthed = False,
          ar_keying = keying_zero, ar_lastRx = None, ar_lastReply = None\<rparr>)"

definition NewAuthenticator :: "VerifierLookup option \<Rightarrow> eap_err + Authenticator" where
  "NewAuthenticator lookup = newAuthenticator lookup eapVersion3 False"

definition NewAuthenticatorLegacy :: "VerifierLookup option \<Rightarrow> eap_err + Authenticator" where
  "NewAuthenticatorLegacy lookup = newAuthenticator lookup eapVersion2 True"

definition SeedIdentifier :: "u8 \<Rightarrow> Authenticator \<Rightarrow> Authenticator" where
  "SeedIdentifier i a = (if ar_state a = StateUnauth then a\<lparr>ar_id := i\<rparr> else a)"

definition ar_Done :: "Authenticator \<Rightarrow> bool" where
  "ar_Done a \<longleftrightarrow> ar_state a = StateSuccess \<or> ar_state a = StateFailed"

definition ar_Authenticated :: "Authenticator \<Rightarrow> bool" where
  "ar_Authenticated a \<longleftrightarrow> ar_state a = StateSuccess"

definition PeerUsername :: "Authenticator \<Rightarrow> bytes" where
  "PeerUsername a = ar_username a"

definition ar_SessionKey :: "Authenticator \<Rightarrow> bytes" where
  "ar_SessionKey a = ar_session a"

definition ar_UseKeyAsPassphrase :: "bool \<Rightarrow> Authenticator \<Rightarrow> Authenticator" where
  "ar_UseKeyAsPassphrase enabled a =
     (if ar_state a = StateUnauth then a\<lparr>ar_keying := (ar_keying a)\<lparr>ky_enabled := enabled\<rparr>\<rparr> else a)"

definition ar_TxKeying :: "Authenticator \<Rightarrow> Passphrase \<times> bool" where
  "ar_TxKeying a = (ky_tx (ar_keying a), pp_Key (ky_tx (ar_keying a)) \<noteq> None)"

definition ar_RxKeying :: "Authenticator \<Rightarrow> Passphrase \<times> bool" where
  "ar_RxKeying a = (ky_rx (ar_keying a), pp_Key (ky_rx (ar_keying a)) \<noteq> None)"

definition ar_Start :: "Authenticator \<Rightarrow> Frame \<times> Authenticator" where
  "ar_Start a = (frame (ar_version a) CodeRequest (ar_id a) KindIdentityRequest,
     if ar_state a = StateUnauth then a\<lparr>ar_state := StateInProgress\<rparr> else a)"

definition ar_Restart :: "Authenticator \<Rightarrow> Authenticator" where
  "ar_Restart a = a\<lparr>ar_state := StateUnauth, ar_server := None, ar_session := [], ar_verified := False,
     ar_id := ar_id a + 1, ar_lastRx := None, ar_lastReply := None\<rparr>"

definition ar_start :: "Authenticator \<Rightarrow> ar_result" where
  "ar_start a =
     (if ar_state a = StateInProgress then (None, None, a)
      else let a = (if ar_state a \<noteq> StateUnauth then ar_Restart a else a)
           in case ar_Start a of (out, a) \<Rightarrow> (Some out, None, a))"

definition ar_logoff :: "Authenticator \<Rightarrow> ar_result" where
  "ar_logoff a =
     (if ar_state a = StateSuccess \<or> ar_state a = StateFailed \<or> ar_everAuthed a then (None, Some ErrUnexpected, a)
      else (None, None, a\<lparr>ar_state := StateUnauth, ar_server := None, ar_session := [], ar_verified := False\<rparr>))"

definition ar_identity :: "(bytes \<Rightarrow> bytes) \<Rightarrow> nat option \<Rightarrow> Frame \<Rightarrow> Authenticator \<Rightarrow> ar_result" where
  "ar_identity sha src f a =
     (case ar_lookup a (fr_Username f) of
        None \<Rightarrow> (None, Some ErrNoVerifier, a\<lparr>ar_state := StateFailed\<rparr>)
      | Some (verifier, salt) \<Rightarrow>
        (case newServer sha DefaultGroup verifier salt (ar_legacyPad a) src of
           Inl SrpPanic \<Rightarrow> (None, Some EapPanic, a)
         | Inl e \<Rightarrow> (None, Some (ErrSRP e), a\<lparr>ar_state := StateFailed\<rparr>)
         | Inr server \<Rightarrow>
           let a = a\<lparr>ar_server := Some server, ar_username := fr_Username f, ar_state := StateInProgress,
                     ar_id := ar_id a + 1\<rparr>
           in (Some ((frame (ar_version a) CodeRequest (ar_id a) KindChallenge)\<lparr>fr_Salt := salt\<rparr>), None, a)))"

definition ar_clientKey :: "Frame \<Rightarrow> Authenticator \<Rightarrow> ar_result" where
  "ar_clientKey f a =
     (case ar_server a of None \<Rightarrow> (None, Some ErrUnexpected, a\<lparr>ar_state := StateFailed\<rparr>)
      | Some server \<Rightarrow>
        (case HandleA (fr_Public f) server of
           Inl e \<Rightarrow> (None, Some (ErrSRP e), a\<lparr>ar_state := StateFailed\<rparr>)
         | Inr server \<Rightarrow>
           let a = a\<lparr>ar_server := Some server, ar_id := ar_id a + 1\<rparr> in
           (case Server_B server of None \<Rightarrow> (None, Some EapPanic, a)
            | Some B \<Rightarrow> (Some ((frame (ar_version a) CodeRequest (ar_id a) KindServerKey)\<lparr>fr_Public := B\<rparr>), None, a))))"

definition ar_clientValidator :: "(bytes \<Rightarrow> bytes) \<Rightarrow> Frame \<Rightarrow> Authenticator \<Rightarrow> ar_result" where
  "ar_clientValidator sha f a =
     (case ar_server a of None \<Rightarrow> (None, Some ErrUnexpected, a\<lparr>ar_state := StateFailed\<rparr>)
      | Some server \<Rightarrow>
        (case VerifyM1 sha (ar_username a) (fr_Proof f) server of
           Inl e \<Rightarrow> (None, Some EapPanic, a)
         | Inr (server, ok) \<Rightarrow>
           let a = a\<lparr>ar_server := Some server\<rparr> in
           if \<not> ok then
             (Some (frame (ar_version a) CodeFailure (ar_id a) KindFailure), Some ErrAuthFailed,
              a\<lparr>ar_state := StateFailed\<rparr>)
           else let key = or_nil (Server_SessionKey server);
                    rx = (if SetPassphrase f \<and> ar_version a = eapVersion3 then setRx key (ar_keying a) else ar_keying a);
                    a = a\<lparr>ar_session := key, ar_keying := rx, ar_verified := True, ar_id := ar_id a + 1\<rparr>;
                    out = (frame (ar_version a) CodeRequest (ar_id a) KindServerValidator)\<lparr>fr_Proof := or_nil (Server_M2 server)\<rparr>
                in if ky_enabled (ar_keying a) \<and> ar_version a = eapVersion3
                   then (Some (setSetPassphrase True out), None, a\<lparr>ar_keying := setTx key (ar_keying a)\<rparr>)
                   else (Some out, None, a)))"

definition ar_ack :: "Authenticator \<Rightarrow> ar_result" where
  "ar_ack a =
     (if ar_verified a then (None, None, a\<lparr>ar_state := StateSuccess, ar_everAuthed := True, ar_id := ar_id a + 1\<rparr>)
      else (None, None, a))"

definition ar_passwordResponse :: "prims \<Rightarrow> Frame \<Rightarrow> Authenticator \<Rightarrow> ar_result" where
  "ar_passwordResponse P f a =
     (if ar_state a \<noteq> StateSuccess then (None, None, a)
      else case installPushedRx P (ar_keying a) (ar_session a) f of
        (Some e, k) \<Rightarrow> (None, Some e, a\<lparr>ar_keying := k\<rparr>)
      | (None, k) \<Rightarrow> (Some (frame (ar_version a) CodeSuccess (fr_Identifier f) KindSuccess), None, a\<lparr>ar_keying := k\<rparr>))"

definition ar_handle :: "(bytes \<Rightarrow> bytes) \<Rightarrow> prims \<Rightarrow> nat option \<Rightarrow> Frame \<Rightarrow> Authenticator \<Rightarrow> ar_result" where
  "ar_handle sha P src f a =
     (if ar_state a \<noteq> StateUnauth \<and> fr_Kind f \<noteq> KindStart \<and> fr_Kind f \<noteq> KindLogoff \<and>
         fr_Kind f \<noteq> KindPasswordRequest \<and> fr_Identifier f \<noteq> ar_id a
      then (None, None, a)
      else case fr_Kind f of
        KindStart \<Rightarrow> ar_start a
      | KindLogoff \<Rightarrow> ar_logoff a
      | KindIdentityResponse \<Rightarrow> ar_identity sha src f a
      | KindClientKey \<Rightarrow> ar_clientKey f a
      | KindClientValidator \<Rightarrow> ar_clientValidator sha f a
      | KindServerValidator \<Rightarrow> ar_ack a
      | KindSuccess \<Rightarrow> ar_ack a
      | KindPasswordRequest \<Rightarrow>
          if ar_state a \<noteq> StateSuccess then (None, None, a)
          else (Some (passwordResponseFrame (ar_version a) (fr_Identifier f)), None, a)
      | KindPasswordResponse \<Rightarrow> ar_passwordResponse P f a
      | KindFailure \<Rightarrow>
          if ar_state a \<noteq> StateInProgress then (None, None, a)
          else (None, Some ErrAuthFailed, a\<lparr>ar_state := StateFailed\<rparr>)
      | _ \<Rightarrow> (None, Some ErrUnexpected, a))"

definition ar_Recv :: "(bytes \<Rightarrow> bytes) \<Rightarrow> prims \<Rightarrow> nat option \<Rightarrow> bytes \<Rightarrow> Authenticator \<Rightarrow> ar_result" where
  "ar_Recv sha P src payload a =
     (if length payload > 0 \<and> ar_lastRx a = Some payload then (ar_lastReply a, None, a)
      else case eap_Parse payload of Inl e \<Rightarrow> (None, Some e, a)
      | Inr f \<Rightarrow>
        (case ar_handle sha P src f a of
           (out, None, a) \<Rightarrow> (out, None, a\<lparr>ar_lastRx := copy_slice payload, ar_lastReply := out\<rparr>)
         | (out, Some e, a) \<Rightarrow> (out, Some e, a)))"

section \<open>The default group never panics\<close>

lemma default_fields: "sg_N DefaultGroup = defaultN" "sg_G DefaultGroup = 2"
  "sg_length DefaultGroup = length (big_Bytes defaultN)"
  by (simp_all add: DefaultGroup_def srp_newGroup_def)

lemma defaultN_big: "2 < defaultN" by (simp add: defaultN_def)

lemma default_pad: "x \<le> defaultN \<Longrightarrow> srp_pad DefaultGroup x \<noteq> None"
  by (rule pad_fits) (simp_all add: default_fields)

lemma default_wire_pad: "\<not> length b > sg_length DefaultGroup \<Longrightarrow> srp_pad DefaultGroup (SetBytes b) \<noteq> None"
  by (rule pad_fits_wire) simp

lemma default_k: "kValue sha DefaultGroup lg \<noteq> None"
  using default_pad [of defaultN] default_pad [of 2] defaultN_big by (auto simp: kValue_def hashPadded_def default_fields)

lemma default_u: "srp_pad DefaultGroup a \<noteq> None \<Longrightarrow> srp_pad DefaultGroup b \<noteq> None \<Longrightarrow> uValue sha DefaultGroup a b lg \<noteq> None"
  by (auto simp: uValue_def hashPadded_def)

definition client_ok :: "srp_Client \<Rightarrow> bool" where
  "client_ok c \<longleftrightarrow> cl_group c = DefaultGroup \<and> cl_pubA c \<le> defaultN"

definition server_ok :: "srp_Server \<Rightarrow> bool" where
  "server_ok s \<longleftrightarrow> sv_group s = DefaultGroup \<and> sv_pubB s \<le> defaultN \<and>
     (\<forall>A. sv_pubA s = Some A \<longrightarrow> srp_pad DefaultGroup A \<noteq> None)"

lemma newClient_default: "newClient DefaultGroup salt lg src = Inr c \<Longrightarrow> client_ok c \<and> Client_A c \<noteq> None"
proof -
  assume n: "newClient DefaultGroup salt lg src = Inr c"
  then obtain a where "src = Some a" by (auto simp: newClient_def readSecret_def split: if_splits option.splits)
  then have c: "cl_group c = DefaultGroup" "cl_pubA c \<le> defaultN"
    using newClient_fields [of DefaultGroup salt lg a c] n defaultN_big by (simp_all add: default_fields less_imp_le)
  then show ?thesis using default_pad by (simp add: client_ok_def Client_A_def)
qed

lemma ComputeKey_default:
  assumes "client_ok c"
  shows "ComputeKey sha B u pw c \<noteq> Inl SrpPanic" "ComputeKey sha B u pw c = Inr c' \<Longrightarrow> client_ok c'"
proof -
  have u: "uValue sha DefaultGroup (cl_pubA c) (SetBytes B) (cl_legacyPad c) \<noteq> None" if "\<not> length B > sg_length DefaultGroup"
    using that assms default_pad default_wire_pad default_u by (simp add: client_ok_def)
  show "ComputeKey sha B u pw c \<noteq> Inl SrpPanic"
    using assms default_k [of sha "cl_legacyPad c"] u
    by (cases "length B > sg_length DefaultGroup") (auto simp: ComputeKey_def Let_def client_ok_def split: option.splits)
  show "ComputeKey sha B u pw c = Inr c' \<Longrightarrow> client_ok c'"
    using assms by (auto simp: ComputeKey_def Let_def client_ok_def split: option.splits if_splits)
qed

lemma newServer_default:
  "newServer sha DefaultGroup v salt lg src \<noteq> Inl SrpPanic"
  "newServer sha DefaultGroup v salt lg src = Inr s \<Longrightarrow> server_ok s"
proof -
  obtain k where k: "kValue sha DefaultGroup lg = Some k" using default_k by blast
  show "newServer sha DefaultGroup v salt lg src \<noteq> Inl SrpPanic"
    using k by (auto simp: newServer_def validateSalt_def readSecret_def computeB_def Let_def split: if_splits option.splits sum.splits)
  show "newServer sha DefaultGroup v salt lg src = Inr s \<Longrightarrow> server_ok s"
    using k defaultN_big
    by (auto simp: newServer_def computeB_def Let_def server_ok_def default_fields less_imp_le split: if_splits option.splits sum.splits)
qed

lemma HandleA_default:
  assumes "server_ok s"
  shows "HandleA A s \<noteq> Inl SrpPanic" "HandleA A s = Inr s' \<Longrightarrow> server_ok s' \<and> Server_B s' \<noteq> None"
  using assms default_pad default_wire_pad by (auto simp: HandleA_def Let_def server_ok_def Server_B_def split: if_splits)

lemma VerifyM1_default:
  assumes "server_ok s"
  shows "\<exists>s' ok. VerifyM1 sha u m s = Inr (s', ok) \<and> server_ok s'"
proof (cases "sv_pubA s")
  case (Some A)
  then obtain x where "uValue sha DefaultGroup A (sv_pubB s) (sv_legacyPad s) = Some x"
    using assms default_u [of A "sv_pubB s"] default_pad by (fastforce simp: server_ok_def)
  then show ?thesis using assms Some by (auto simp: VerifyM1_def Let_def server_ok_def)
qed (use assms in \<open>auto simp: VerifyM1_def Let_def\<close>)

lemma VerifyM1_true: "VerifyM1 sha u m s = Inr (s', True) \<Longrightarrow> sv_verified s'"
  by (auto simp: VerifyM1_def Let_def split: option.splits if_splits)

section \<open>Runs of the roles\<close>

text \<open>What a host can do with a role; every received payload comes with the secret that would be drawn while handling it.\<close>

datatype ae_op = AeRecv "nat option" bytes | AeStart | AeRestart | AePasswordRequest | AeUseKey bool

fun ae_step :: "(bytes \<Rightarrow> bytes) \<Rightarrow> prims \<Rightarrow> ae_op \<Rightarrow> Authenticatee \<Rightarrow> ae_result" where
  "ae_step sha P (AeRecv src payload) a = ae_Recv sha P src payload a"
| "ae_step sha P AeStart a = (case ae_Start a of (f, a) \<Rightarrow> (Some f, None, a))"
| "ae_step sha P AeRestart a = (None, None, ae_Restart a)"
| "ae_step sha P AePasswordRequest a = (case PasswordRequest a of (f, a) \<Rightarrow> (f, None, a))"
| "ae_step sha P (AeUseKey b) a = (None, None, ae_UseKeyAsPassphrase b a)"

datatype ar_op = ArRecv "nat option" bytes | ArStart | ArRestart | ArSeed u8 | ArUseKey bool

fun ar_step :: "(bytes \<Rightarrow> bytes) \<Rightarrow> prims \<Rightarrow> ar_op \<Rightarrow> Authenticator \<Rightarrow> ar_result" where
  "ar_step sha P (ArRecv src payload) a = ar_Recv sha P src payload a"
| "ar_step sha P ArStart a = (case ar_Start a of (f, a) \<Rightarrow> (Some f, None, a))"
| "ar_step sha P ArRestart a = (None, None, ar_Restart a)"
| "ar_step sha P (ArSeed i) a = (None, None, SeedIdentifier i a)"
| "ar_step sha P (ArUseKey b) a = (None, None, ar_UseKeyAsPassphrase b a)"

definition ae_run :: "(bytes \<Rightarrow> bytes) \<Rightarrow> prims \<Rightarrow> ae_op list \<Rightarrow> Authenticatee \<Rightarrow> Authenticatee" where
  "ae_run sha P ops a = foldl (\<lambda>a op. snd (snd (ae_step sha P op a))) a ops"

definition ar_run :: "(bytes \<Rightarrow> bytes) \<Rightarrow> prims \<Rightarrow> ar_op list \<Rightarrow> Authenticator \<Rightarrow> Authenticator" where
  "ar_run sha P ops a = foldl (\<lambda>a op. snd (snd (ar_step sha P op a))) a ops"

lemma ae_run_snoc: "ae_run sha P (ops @ [op]) a = snd (snd (ae_step sha P op (ae_run sha P ops a)))"
  by (simp add: ae_run_def)

lemma ar_run_snoc: "ar_run sha P (ops @ [op]) a = snd (snd (ar_step sha P op (ar_run sha P ops a)))"
  by (simp add: ar_run_def)

definition ae_ok :: "Authenticatee \<Rightarrow> bool" where
  "ae_ok a \<longleftrightarrow> (\<forall>c. ae_client a = Some c \<longrightarrow> client_ok c)"

definition ar_ok :: "Authenticator \<Rightarrow> bool" where
  "ar_ok a \<longleftrightarrow> (\<forall>s. ar_server a = Some s \<longrightarrow> server_ok s)"

lemma pushed_no_panic: "fst (installPushedRx P k session f) \<noteq> Some EapPanic"
  by (auto simp: installPushedRx_def Let_def split: prod.splits option.splits)

lemma ae_challenge_safe: "ae_ok a \<Longrightarrow> ae_challenge src f a = (out, e, a') \<Longrightarrow> ae_ok a' \<and> e \<noteq> Some EapPanic"
  using newClient_default [of "fr_Salt f" "negotiatedVersion f = 2" src]
  by (auto simp: ae_challenge_def challengeGroup_def ae_ok_def Let_def split: if_splits sum.splits option.splits)

lemma ae_serverKey_safe: "ae_ok a \<Longrightarrow> ae_serverKey sha f a = (out, e, a') \<Longrightarrow> ae_ok a' \<and> e \<noteq> Some EapPanic"
proof (cases "ae_client a")
  case (Some c)
  assume "ae_ok a" and r: "ae_serverKey sha f a = (out, e, a')"
  then have "client_ok c" using Some by (simp add: ae_ok_def)
  note k = ComputeKey_default [OF this, of sha "fr_Public f" "ae_username a" "ae_password a"]
  show ?thesis
  proof (cases "ComputeKey sha (fr_Public f) (ae_username a) (ae_password a) c")
    case (Inl x)
    then show ?thesis using k(1) r Some \<open>ae_ok a\<close> by (cases x) (auto simp: ae_serverKey_def ae_ok_def Let_def)
  next
    case (Inr c')
    then show ?thesis using k(2) r Some by (auto simp: ae_serverKey_def ae_ok_def Let_def)
  qed
qed (auto simp: ae_serverKey_def ae_ok_def)

lemma ae_handle_safe:
  assumes "ae_ok a" "ae_handle sha P src f a = (out, e, a')"
  shows "ae_ok a' \<and> e \<noteq> Some EapPanic"
proof -
  have ok: "ae_ok b \<Longrightarrow> ae_dispatch sha P src f b = (out, e, a') \<Longrightarrow> ae_ok a' \<and> e \<noteq> Some EapPanic" for b
    using ae_challenge_safe [of b src f out e a'] ae_serverKey_safe [of b sha f out e a']
      pushed_no_panic [of P "ae_keying b" "ae_session b" f]
    by (auto simp: ae_dispatch_def ae_identity_def ae_serverValidator_def ae_passwordResponse_def ae_ok_def Let_def
        split: Kind.splits if_splits option.splits prod.splits)
  have "ae_ok (ae_Restart a)" by (simp add: ae_ok_def ae_Restart_def)
  then show ?thesis using assms ok [of a] ok [of "ae_Restart a"]
    by (auto simp: ae_handle_def Let_def ae_ok_def split: if_splits)
qed

lemma ae_step_safe:
  assumes "ae_ok a"
  shows "ae_ok (snd (snd (ae_step sha P op a))) \<and> fst (snd (ae_step sha P op a)) \<noteq> Some EapPanic"
proof (cases op)
  case (AeRecv src p)
  show ?thesis
  proof (cases "eap_Parse p")
    case (Inr f)
    obtain out e a' where h: "ae_handle sha P src f a = (out, e, a')" by (cases "ae_handle sha P src f a")
    then show ?thesis using AeRecv Inr assms ae_handle_safe [OF assms h] by (auto simp: ae_Recv_def ae_ok_def split: option.splits)
  qed (use AeRecv assms parse_err [of p] in \<open>auto simp: ae_Recv_def framing_err_def\<close>)
qed (use assms in \<open>auto simp: ae_Start_def ae_Restart_def PasswordRequest_def ae_UseKeyAsPassphrase_def ae_ok_def Let_def\<close>)

lemma ar_identity_safe: "ar_ok a \<Longrightarrow> ar_identity sha src f a = (out, e, a') \<Longrightarrow> ar_ok a' \<and> e \<noteq> Some EapPanic"
proof (cases "ar_lookup a (fr_Username f)")
  case (Some vs)
  assume ok: "ar_ok a" and r: "ar_identity sha src f a = (out, e, a')"
  obtain v salt where vs: "vs = (v, salt)" by (cases vs)
  note n = newServer_default [of sha v salt "ar_legacyPad a" src]
  show ?thesis
  proof (cases "newServer sha DefaultGroup v salt (ar_legacyPad a) src")
    case (Inl x)
    then show ?thesis using n(1) r Some vs ok by (cases x) (auto simp: ar_identity_def ar_ok_def)
  next
    case (Inr s)
    then show ?thesis using n(2) r Some vs by (auto simp: ar_identity_def ar_ok_def Let_def)
  qed
qed (auto simp: ar_identity_def ar_ok_def)

lemma ar_clientKey_safe: "ar_ok a \<Longrightarrow> ar_clientKey f a = (out, e, a') \<Longrightarrow> ar_ok a' \<and> e \<noteq> Some EapPanic"
  using HandleA_default(2) by (fastforce simp: ar_clientKey_def ar_ok_def Let_def split: option.splits sum.splits)

lemma ar_clientValidator_safe: "ar_ok a \<Longrightarrow> ar_clientValidator sha f a = (out, e, a') \<Longrightarrow> ar_ok a' \<and> e \<noteq> Some EapPanic"
proof (cases "ar_server a")
  case (Some s)
  assume ok: "ar_ok a" and r: "ar_clientValidator sha f a = (out, e, a')"
  obtain s' b where v: "VerifyM1 sha (ar_username a) (fr_Proof f) s = Inr (s', b)" "server_ok s'"
    using VerifyM1_default [of s sha "ar_username a" "fr_Proof f"] ok Some by (auto simp: ar_ok_def)
  then show ?thesis using r Some by (auto simp: ar_clientValidator_def ar_ok_def Let_def split: if_splits)
qed (auto simp: ar_clientValidator_def ar_ok_def)

lemma ar_handle_safe:
  assumes "ar_ok a" "ar_handle sha P src f a = (out, e, a')"
  shows "ar_ok a' \<and> e \<noteq> Some EapPanic"
  using assms ar_identity_safe [OF assms(1), of sha src f out e a'] ar_clientKey_safe [OF assms(1), of f out e a']
    ar_clientValidator_safe [OF assms(1), of sha f out e a'] pushed_no_panic [of P "ar_keying a" "ar_session a" f]
  by (auto simp: ar_handle_def ar_start_def ar_Start_def ar_Restart_def ar_logoff_def ar_ack_def ar_passwordResponse_def
      ar_ok_def Let_def split: Kind.splits if_splits option.splits prod.splits)

lemma ar_step_safe:
  assumes "ar_ok a"
  shows "ar_ok (snd (snd (ar_step sha P op a))) \<and> fst (snd (ar_step sha P op a)) \<noteq> Some EapPanic"
proof (cases op)
  case (ArRecv src p)
  show ?thesis
  proof (cases "eap_Parse p")
    case (Inr f)
    obtain out e a' where h: "ar_handle sha P src f a = (out, e, a')" by (cases "ar_handle sha P src f a")
    then show ?thesis using ArRecv Inr assms ar_handle_safe [OF assms h] by (auto simp: ar_Recv_def ar_ok_def split: option.splits)
  qed (use ArRecv assms parse_err [of p] in \<open>auto simp: ar_Recv_def framing_err_def\<close>)
qed (use assms in \<open>auto simp: ar_Start_def ar_Restart_def SeedIdentifier_def ar_UseKeyAsPassphrase_def ar_ok_def Let_def\<close>)

lemma ae_run_safe: "ae_ok a \<Longrightarrow> ae_ok (ae_run sha P ops a)"
  by (induction ops rule: rev_induct) (use ae_step_safe in \<open>auto simp: ae_run_snoc\<close>, simp add: ae_run_def)

lemma ar_run_safe: "ar_ok a \<Longrightarrow> ar_ok (ar_run sha P ops a)"
  by (induction ops rule: rev_induct) (use ar_step_safe in \<open>auto simp: ar_run_snoc\<close>, simp add: ar_run_def)



section \<open>Success needs a proof\<close>

text \<open>\<open>proved\<close>: some received client validator carried an M1 that verified against the server state in place when it arrived,
  and \<open>key\<close> is the key derived there.\<close>

definition proved :: "(bytes \<Rightarrow> bytes) \<Rightarrow> prims \<Rightarrow> ar_op list \<Rightarrow> Authenticator \<Rightarrow> bytes \<Rightarrow> bool" where
  "proved sha P ops a key \<longleftrightarrow> (\<exists>pre src p post f s s'.
     ops = pre @ ArRecv src p # post \<and> eap_Parse p = Inr f \<and> fr_Kind f = KindClientValidator \<and>
     ar_server (ar_run sha P pre a) = Some s \<and>
     VerifyM1 sha (ar_username (ar_run sha P pre a)) (fr_Proof f) s = Inr (s', True) \<and> key = sv_key s')"

lemma provedI:
  assumes "eap_Parse p = Inr f" "fr_Kind f = KindClientValidator" "ar_server (ar_run sha P pre a) = Some s"
    "VerifyM1 sha (ar_username (ar_run sha P pre a)) (fr_Proof f) s = Inr (s', True)"
  shows "proved sha P (pre @ [ArRecv src p]) a (sv_key s')"
  unfolding proved_def using assms by blast

lemma proved_snoc: "proved sha P ops a key \<Longrightarrow> proved sha P (ops @ [op]) a key"
  unfolding proved_def by (metis append.assoc append_Cons)

lemma ar_clientValidator_key:
  assumes "ar_clientValidator sha f a = (out, e, a')"
  shows "ar_verified a' \<longrightarrow> ar_verified a \<and> ar_session a' = ar_session a \<or>
     (\<exists>s s'. ar_server a = Some s \<and> VerifyM1 sha (ar_username a) (fr_Proof f) s = Inr (s', True) \<and> ar_session a' = sv_key s')"
    and "ar_state a' = StateSuccess \<longrightarrow> ar_state a = StateSuccess" "ar_verified a \<longrightarrow> ar_verified a'"
proof -
  have all: "(ar_verified a' \<longrightarrow> ar_verified a \<and> ar_session a' = ar_session a \<or>
     (\<exists>s s'. ar_server a = Some s \<and> VerifyM1 sha (ar_username a) (fr_Proof f) s = Inr (s', True) \<and> ar_session a' = sv_key s')) \<and>
    (ar_state a' = StateSuccess \<longrightarrow> ar_state a = StateSuccess) \<and> (ar_verified a \<longrightarrow> ar_verified a')"
  proof (cases "ar_server a")
    case (Some s)
    show ?thesis
    proof (cases "VerifyM1 sha (ar_username a) (fr_Proof f) s")
      case (Inr q)
      obtain s' ok where q: "q = (s', ok)" by (cases q)
      show ?thesis
      proof (cases ok)
        case True
        then show ?thesis using assms Some Inr q VerifyM1_true [of sha "ar_username a" "fr_Proof f" s s']
          by (auto simp: ar_clientValidator_def Let_def or_nil_def Server_SessionKey_def split: if_splits)
      next
        case False
        then show ?thesis using assms Some Inr q by (auto simp: ar_clientValidator_def Let_def)
      qed
    qed (use assms Some in \<open>auto simp: ar_clientValidator_def\<close>)
  qed (use assms in \<open>auto simp: ar_clientValidator_def\<close>)
  then show "ar_verified a' \<longrightarrow> ar_verified a \<and> ar_session a' = ar_session a \<or>
     (\<exists>s s'. ar_server a = Some s \<and> VerifyM1 sha (ar_username a) (fr_Proof f) s = Inr (s', True) \<and> ar_session a' = sv_key s')"
    by blast
  from all show "ar_state a' = StateSuccess \<longrightarrow> ar_state a = StateSuccess" "ar_verified a \<longrightarrow> ar_verified a'" by blast+
qed

text \<open>What one frame can do to the proof and to the success state.\<close>

definition keeps_proof :: "(bytes \<Rightarrow> bytes) \<Rightarrow> Frame \<Rightarrow> Authenticator \<Rightarrow> Authenticator \<Rightarrow> bool" where
  "keeps_proof sha f a a' \<longleftrightarrow>
     (ar_verified a' \<longrightarrow> ar_verified a \<and> ar_session a' = ar_session a \<or>
       fr_Kind f = KindClientValidator \<and> (\<exists>s s'. ar_server a = Some s \<and>
         VerifyM1 sha (ar_username a) (fr_Proof f) s = Inr (s', True) \<and> ar_session a' = sv_key s')) \<and>
     (ar_state a' = StateSuccess \<longrightarrow> ar_verified a' \<or> ar_state a = StateSuccess \<and> (ar_verified a \<longrightarrow> ar_verified a'))"

lemma ar_handle_keeps: "ar_handle sha P src f a = (out, e, a') \<Longrightarrow> keeps_proof sha f a a'"
proof (cases "fr_Kind f = KindClientValidator")
  case True
  assume "ar_handle sha P src f a = (out, e, a')"
  then show ?thesis using True ar_clientValidator_key [of sha f a out e a'] by (auto simp: ar_handle_def keeps_proof_def split: if_splits)
next
  case False
  assume "ar_handle sha P src f a = (out, e, a')"
  then show ?thesis using False
    by (auto simp: ar_handle_def ar_start_def ar_Start_def ar_Restart_def ar_logoff_def ar_identity_def ar_clientKey_def
        ar_ack_def ar_passwordResponse_def keeps_proof_def Let_def
        split: Kind.splits if_splits option.splits sum.splits srp_err.splits prod.splits)
qed

definition recv_effect :: "(bytes \<Rightarrow> bytes) \<Rightarrow> prims \<Rightarrow> ar_op \<Rightarrow> Authenticator \<Rightarrow> Authenticator \<Rightarrow> bool" where
  "recv_effect sha P op b c \<longleftrightarrow> (\<exists>f src p out e a'. op = ArRecv src p \<and> eap_Parse p = Inr f \<and> ar_handle sha P src f b = (out, e, a') \<and>
     ar_verified c = ar_verified a' \<and> ar_session c = ar_session a' \<and> ar_state c = ar_state a')"

definition idle_effect :: "Authenticator \<Rightarrow> Authenticator \<Rightarrow> bool" where
  "idle_effect b c \<longleftrightarrow> (ar_verified c \<longrightarrow> ar_verified b \<and> ar_session c = ar_session b) \<and>
     (ar_state c = StateSuccess \<longrightarrow> ar_state b = StateSuccess \<and> ar_verified c = ar_verified b)"

lemma ar_step_effect:
  "recv_effect sha P op b (snd (snd (ar_step sha P op b))) \<or> idle_effect b (snd (snd (ar_step sha P op b)))"
proof (cases op)
  case (ArRecv src p)
  show ?thesis
  proof (cases "length p > 0 \<and> ar_lastRx b = Some p")
    case True
    then show ?thesis using ArRecv by (simp add: ar_Recv_def idle_effect_def)
  next
    case new: False
    show ?thesis
    proof (cases "eap_Parse p")
      case (Inl e)
      then show ?thesis using new ArRecv by (simp add: ar_Recv_def idle_effect_def)
    next
      case (Inr f)
      obtain out e a' where h: "ar_handle sha P src f b = (out, e, a')" by (cases "ar_handle sha P src f b")
      then have "recv_effect sha P op b (snd (snd (ar_step sha P op b)))"
        unfolding recv_effect_def using new ArRecv Inr
        by (intro exI [of _ f] exI [of _ src] exI [of _ p] exI [of _ out] exI [of _ e] exI [of _ a'])
          (cases e; force simp: ar_Recv_def)
      then show ?thesis ..
    qed
  qed
qed (simp_all add: ar_Start_def ar_Restart_def SeedIdentifier_def ar_UseKeyAsPassphrase_def idle_effect_def)

lemma ar_run_proved:
  assumes "\<not> ar_verified a" "ar_state a \<noteq> StateSuccess"
  shows "(ar_verified (ar_run sha P ops a) \<longrightarrow> proved sha P ops a (ar_session (ar_run sha P ops a))) \<and>
    (ar_state (ar_run sha P ops a) = StateSuccess \<longrightarrow> ar_verified (ar_run sha P ops a))"
proof (induction ops rule: rev_induct)
  case Nil
  then show ?case using assms by (simp add: ar_run_def)
next
  case (snoc op ops)
  let ?b = "ar_run sha P ops a" and ?c = "ar_run sha P (ops @ [op]) a"
  have c: "?c = snd (snd (ar_step sha P op ?b))" by (rule ar_run_snoc)
  consider (frame) f src p out e a' where "op = ArRecv src p" "eap_Parse p = Inr f" "ar_handle sha P src f ?b = (out, e, a')"
      "ar_verified ?c = ar_verified a'" "ar_session ?c = ar_session a'" "ar_state ?c = ar_state a'" |
    (other) "ar_verified ?c \<longrightarrow> ar_verified ?b \<and> ar_session ?c = ar_session ?b"
      "ar_state ?c = StateSuccess \<longrightarrow> ar_state ?b = StateSuccess \<and> ar_verified ?c = ar_verified ?b"
    using ar_step_effect [of sha P op ?b] unfolding c recv_effect_def idle_effect_def by blast
  then show ?case
  proof cases
    case frame
    note 1 = frame
    have k: "keeps_proof sha f ?b a'" by (rule ar_handle_keeps [OF 1(3)])
    have "proved sha P (ops @ [op]) a (ar_session ?c)" if "ar_verified ?c"
    proof (cases "ar_verified ?b \<and> ar_session a' = ar_session ?b")
      case True
      then show ?thesis using snoc.IH 1(5) proved_snoc by metis
    next
      case False
      then have "\<exists>s s'. fr_Kind f = KindClientValidator \<and> ar_server ?b = Some s \<and>
          VerifyM1 sha (ar_username ?b) (fr_Proof f) s = Inr (s', True) \<and> ar_session a' = sv_key s'"
        using k that 1(4) unfolding keeps_proof_def by blast
      then show ?thesis using 1(1,2,5) provedI by metis
    qed
    moreover have "ar_verified ?c" if "ar_state ?c = StateSuccess"
    proof -
      have "ar_state a' = StateSuccess" using that 1(6) by simp
      then have "ar_verified a'" using k snoc.IH unfolding keeps_proof_def by blast
      then show ?thesis using 1(4) by simp
    qed
    ultimately show ?thesis by blast
  next
    case other
    then show ?thesis using snoc.IH proved_snoc by metis
  qed
qed

text \<open>C14: The authenticator accepts nobody without a proof.  After any sequence of host calls with arbitrary received bytes, an
  authenticator that reports success has received, at some point, a client validator whose M1 verified against the
  verifier of the user name presented then, and its session key is the one derived in that verification.\<close>

theorem eap_success_needs_proof:
  assumes "newAuthenticator lookup version lg = Inr a" "ar_Authenticated (ar_run sha P ops a)"
  shows "proved sha P ops a (ar_SessionKey (ar_run sha P ops a))"
proof -
  have "\<not> ar_verified a" "ar_state a \<noteq> StateSuccess"
    using assms(1) by (auto simp: newAuthenticator_def split: option.splits)
  then show ?thesis using ar_run_proved [of a sha P ops] assms(2) by (simp add: ar_Authenticated_def ar_SessionKey_def)
qed

end
