(* ===== verification/Eap_Handshake.thy ===== *)
theory Eap_Handshake
  imports Eap_State
begin

text \<open>The EAP-SRP handshake end to end: the two roles of internal/eap/state.go connected through the wire form of
  internal/eap/eap.go.\<close>

section \<open>Receiving an encoded frame\<close>

abbreviation wire :: "Frame \<Rightarrow> bytes" where "wire f \<equiv> Frame_AppendTo f []"

lemma wire_parse: "eap_wf f \<Longrightarrow> eap_Parse (wire f) = Inr f"
  using eap_parse_back [of f "[]"] by (simp only: append_Nil2)

lemma wire_inj: "eap_wf f \<Longrightarrow> eap_wf g \<Longrightarrow> wire f = wire g \<Longrightarrow> f = g"
  by (metis wire_parse sum.inject(2))

lemma wire_nonempty [simp]: "wire f \<noteq> []"
  by (simp add: Frame_AppendTo_def Let_def)

lemma ae_Recv_wire:
  assumes "eap_wf f" "ae_lastRx a \<noteq> Some (wire f)" "ae_handle sha P src f a = (out, None, a')"
  shows "ae_Recv sha P src (wire f) a = (out, None, a'\<lparr>ae_lastRx := Some (wire f), ae_lastReply := out\<rparr>)"
  using assms by (simp add: ae_Recv_def wire_parse copy_slice_def)

lemma ar_Recv_wire:
  assumes "eap_wf f" "ar_lastRx a \<noteq> Some (wire f)" "ar_handle sha P src f a = (out, None, a')"
  shows "ar_Recv sha P src (wire f) a = (out, None, a'\<lparr>ar_lastRx := Some (wire f), ar_lastReply := out\<rparr>)"
  using assms by (simp add: ar_Recv_def wire_parse copy_slice_def)

text \<open>A repeated datagram is answered with the cached reply and changes nothing.\<close>

lemma retransmit_idempotent:
  "ae_Recv sha P src p a = (out, None, a') \<Longrightarrow> p \<noteq> [] \<Longrightarrow> ae_Recv sha P src' p a' = (out, None, a')"
  "ar_Recv sha P src p r = (out', None, r') \<Longrightarrow> p \<noteq> [] \<Longrightarrow> ar_Recv sha P src' p r' = (out', None, r')"
  by (auto simp: ae_Recv_def ar_Recv_def copy_slice_def split: if_splits sum.splits prod.splits option.splits)

section \<open>Well-formed messages\<close>

lemma default_length: "sg_length DefaultGroup \<le> 256" "0 < sg_length DefaultGroup"
proof -
  have "defaultN < 256 ^ 256" unfolding defaultN_def by simp
  then show "sg_length DefaultGroup \<le> 256" using length_Bytes by (simp add: default_fields)
  have "big_Bytes defaultN \<noteq> []" using SetBytes_Bytes [of defaultN] defaultN_big by (auto simp: SetBytes_def)
  then show "0 < sg_length DefaultGroup" by (simp add: default_fields)
qed

lemma wf_identityRequest: "v \<noteq> 0 \<Longrightarrow> eap_wf (frame v CodeRequest i KindIdentityRequest)"
  by (simp add: eap_wf_def frame_def encodeBody_def eap_codes Let_def)

lemma wf_identityResponse:
  "v \<noteq> 0 \<Longrightarrow> length u \<le> 255 \<Longrightarrow> eap_wf ((frame v CodeResponse i KindIdentityResponse)\<lparr>fr_Username := u\<rparr>)"
  by (simp add: eap_wf_def frame_def encodeBody_def eap_codes Let_def)

lemma wf_challenge: "v \<noteq> 0 \<Longrightarrow> length s \<le> 1024 \<Longrightarrow> eap_wf ((frame v CodeRequest i KindChallenge)\<lparr>fr_Salt := s\<rparr>)"
  by (simp add: eap_wf_def frame_def encodeBody_def eap_codes Let_def)

lemma wf_clientKey: "v \<noteq> 0 \<Longrightarrow> length A \<le> 256 \<Longrightarrow> eap_wf ((frame v CodeResponse i KindClientKey)\<lparr>fr_Public := A\<rparr>)"
  by (simp add: eap_wf_def frame_def encodeBody_def eap_codes Let_def)

lemma wf_serverKey: "v \<noteq> 0 \<Longrightarrow> length B \<le> 256 \<Longrightarrow> eap_wf ((frame v CodeRequest i KindServerKey)\<lparr>fr_Public := B\<rparr>)"
  by (simp add: eap_wf_def frame_def encodeBody_def eap_codes Let_def)

lemma wf_clientValidator: "v \<noteq> 0 \<Longrightarrow> length m = 32 \<Longrightarrow> eap_wf ((frame v CodeResponse i KindClientValidator)\<lparr>fr_Proof := m\<rparr>)"
  by (simp add: eap_wf_def frame_def encodeBody_def eap_codes Let_def)

lemma wf_serverValidator:
  "v \<noteq> 0 \<Longrightarrow> length m = 32 \<Longrightarrow> length fl = 4 \<Longrightarrow>
   eap_wf ((frame v CodeRequest i KindServerValidator)\<lparr>fr_Proof := m, fr_Flags := fl\<rparr>)"
  by (simp add: eap_wf_def frame_def encodeBody_def eap_codes Let_def)

lemma wf_success: "v \<noteq> 0 \<Longrightarrow> eap_wf (frame v CodeSuccess i KindSuccess)"
  by (simp add: eap_wf_def frame_def encodeBody_def eap_codes Let_def)

lemmas wf_frames = wf_identityRequest wf_identityResponse wf_challenge wf_clientKey wf_serverKey wf_clientValidator
  wf_serverValidator wf_success

section \<open>The exchange\<close>

text \<open>The authenticator's frame goes to the authenticatee and its answer back, until one side has nothing to send.  The secrets
  each side would draw are fixed.\<close>

fun exchange ::
  "(bytes \<Rightarrow> bytes) \<Rightarrow> prims \<Rightarrow> nat \<Rightarrow> nat \<Rightarrow> nat \<Rightarrow> Frame option \<Rightarrow> Authenticatee \<times> Authenticator \<Rightarrow> Authenticatee \<times> Authenticator"
where
  "exchange sha P a b 0 out st = st"
| "exchange sha P a b (Suc n) None st = st"
| "exchange sha P a b (Suc n) (Some f) (c, s) =
     (case ae_Recv sha P (Some a) (wire f) c of
        (None, _, c) \<Rightarrow> (c, s)
      | (Some r, _, c) \<Rightarrow> (case ar_Recv sha P (Some b) (wire r) s of (out, _, s) \<Rightarrow> exchange sha P a b n out (c, s)))"

lemma power_mod_defaultN: "2 ^ x mod defaultN \<noteq> 0"
proof
  assume "2 ^ x mod defaultN = 0"
  then have d: "defaultN dvd 2 ^ x" by (rule dvd_eq_mod_eq_0 [THEN iffD2])
  have "odd defaultN" by (simp add: defaultN_def)
  then have "coprime defaultN (2 ^ x)" by (simp add: coprime_power_right_iff)
  then have "is_unit defaultN" using d by (metis coprime_common_divisor dvd_refl)
  then show False using defaultN_big by simp
qed

section \<open>The SRP values of a run\<close>

lemma handshake_values:
  assumes hash: "\<forall>m. length (sha m) = 32" and salt: "salt \<noteq> []" "length salt \<le> 1024"
    and server: "newServer sha DefaultGroup (MakeVerifier sha DefaultGroup user pw salt) salt lg (Some b) = Inr s"
    and u: "uValue sha DefaultGroup (2 ^ a mod defaultN) (sv_pubB s) lg = Some u" "u mod defaultN \<noteq> 0"
  shows "\<exists>c A s1 B c1 m1 s2 m2 key. newClient DefaultGroup salt lg (Some a) = Inr c \<and> Client_A c = Some A \<and> length A \<le> 256 \<and>
    HandleA A s = Inr s1 \<and> Server_B s1 = Some B \<and> length B \<le> 256 \<and> ComputeKey sha B user pw c = Inr c1 \<and>
    Client_M1 c1 = Some m1 \<and> length m1 = 32 \<and> VerifyM1 sha user m1 s1 = Inr (s2, True) \<and> Server_M2 s2 = Some m2 \<and> length m2 = 32 \<and>
    VerifyM2 sha m2 c1 \<and> Client_SessionKey c1 = Some key \<and> Server_SessionKey s2 = Some key \<and> length key = 32"
proof -
  obtain c where c: "newClient DefaultGroup salt lg (Some a) = Inr c"
    using salt defaultN_big by (auto simp: newClient_def srp_valid_def validateSalt_def MaxSaltLen_def readSecret_def default_fields)
  note cf = newClient_fields [OF c, unfolded default_fields]
  obtain k where k: "kValue sha DefaultGroup lg = Some k" and sf: "sv_group s = DefaultGroup" "sv_legacyPad s = lg"
    using newServer_fields [OF server] by auto
  have B: "sv_pubB s \<le> defaultN" "sv_pubB s mod defaultN \<noteq> 0"
  proof -
    have "sv_pubB s \<noteq> 0" using server by (auto simp: newServer_def computeB_def Let_def split: if_splits option.splits sum.splits)
    moreover have "sv_pubB s < defaultN"
      using newServer_fields [OF server] defaultN_big by (auto simp: default_fields)
    ultimately show "sv_pubB s \<le> defaultN" "sv_pubB s mod defaultN \<noteq> 0" by simp_all
  qed
  obtain A where A: "Client_A c = Some A" "SetBytes A = 2 ^ a mod defaultN" "length A = sg_length DefaultGroup"
    using newClient_default [OF c] SetBytes_Fill cf by (auto simp: Client_A_def srp_pad_def)
  define s1 where "s1 = s\<lparr>sv_pubA := Some (2 ^ a mod defaultN)\<rparr>"
  have h: "HandleA A s = Inr s1"
    using A sf default_length power_mod_defaultN [of a] by (simp add: HandleA_def Let_def default_fields s1_def)
  obtain wB where wB: "Server_B s1 = Some wB" "SetBytes wB = sv_pubB s" "length wB = sg_length DefaultGroup"
    using default_pad [OF B(1)] SetBytes_Fill sf by (auto simp: Server_B_def s1_def srp_pad_def)
  obtain c1 where c1: "ComputeKey sha wB user pw c = Inr c1"
    using wB cf k u B(2) default_length by (auto simp: ComputeKey_def Let_def default_fields)
  obtain m1 s2 m2 key where r: "Client_M1 c1 = Some m1" "VerifyM1 sha user m1 s1 = Inr (s2, True)" "Server_M2 s2 = Some m2"
      "VerifyM2 sha m2 c1" "Client_SessionKey c1 = Some key" "Server_SessionKey s2 = Some key"
    using srp_agree [OF hash c server A(1) h wB(1) c1] by blast
  have "length m1 = 32" using r(2) by (auto simp: VerifyM1_def s1_def hashLen_def Let_def split: if_splits option.splits)
  moreover have "length m2 = 32" using r(4) by (auto simp: VerifyM2_def hashLen_def split: if_splits)
  moreover have "length key = 32"
  proof -
    obtain S where "cl_key c1 = sessionKey sha S" using ComputeKey_fields [OF c1] by blast
    moreover have "key = cl_key c1" using r(5) by (simp add: Client_SessionKey_def split: if_splits)
    ultimately show ?thesis using hash by (simp add: sessionKey_def srp_Hash_def)
  qed
  ultimately show ?thesis using c A(1,3) h wB(1,3) c1 r default_length(1) by auto
qed

section \<open>The eight messages\<close>

lemma nv: "v = 2 \<or> v = 3 \<Longrightarrow> fr_Version f = v \<Longrightarrow> negotiatedVersion f = v"
  by (auto simp: negotiatedVersion_def eapVersion3_def)

lemma frame_fields [simp]:
  "fr_Version (frame v c i k) = v" "fr_Code (frame v c i k) = c" "fr_Identifier (frame v c i k) = i" "fr_Kind (frame v c i k) = k"
  "fr_GenG (frame v c i k) = []" "fr_Flags (frame v c i k) = [0, 0, 0, 0]"
  by (simp_all add: frame_def)

lemma recv_identityRequest:
  assumes "v = 2 \<or> v = 3" "ae_state c = StateUnauth \<or> ae_state c = StateInProgress" "ae_username c = user"
  shows "ae_handle sha P src (frame v CodeRequest i KindIdentityRequest) c =
    (Some ((frame v CodeResponse i KindIdentityResponse)\<lparr>fr_Username := user\<rparr>), None,
     c\<lparr>ae_id := i, ae_idValid := True, ae_state := StateInProgress\<rparr>)"
  using assms by (auto simp: ae_handle_def ae_dispatch_def ae_identity_def srp_request_def nv Let_def)

lemma recv_identityResponse:
  assumes "ar_id s = i" "ar_lookup s user = Some (ver, salt)" "newServer sha DefaultGroup ver salt (ar_legacyPad s) src = Inr srv"
  shows "ar_handle sha P src ((frame v CodeResponse i KindIdentityResponse)\<lparr>fr_Username := user\<rparr>) s =
    (Some ((frame (ar_version s) CodeRequest (i + 1) KindChallenge)\<lparr>fr_Salt := salt\<rparr>), None,
     s\<lparr>ar_server := Some srv, ar_username := user, ar_state := StateInProgress, ar_id := i + 1\<rparr>)"
  using assms by (simp add: ar_handle_def ar_identity_def Let_def)

lemma recv_challenge:
  assumes "v = 2 \<or> v = 3" "ae_state c = StateInProgress" "ae_id c = i" "salt \<noteq> []"
    "newClient DefaultGroup salt (v = 2) src = Inr cl" "Client_A cl = Some A"
  shows "ae_handle sha P src ((frame v CodeRequest (i + 1) KindChallenge)\<lparr>fr_Salt := salt\<rparr>) c =
    (Some ((frame v CodeResponse (i + 1) KindClientKey)\<lparr>fr_Public := A\<rparr>), None,
     c\<lparr>ae_id := i + 1, ae_idValid := True, ae_client := Some cl, ae_salt := salt\<rparr>)"
  using assms by (auto simp: ae_handle_def ae_dispatch_def ae_challenge_def challengeGroup_def srp_request_def nv Let_def)

lemma recv_clientKey:
  assumes "ar_id s = i" "ar_server s = Some srv" "HandleA A srv = Inr srv1" "Server_B srv1 = Some B"
  shows "ar_handle sha P src ((frame v CodeResponse i KindClientKey)\<lparr>fr_Public := A\<rparr>) s =
    (Some ((frame (ar_version s) CodeRequest (i + 1) KindServerKey)\<lparr>fr_Public := B\<rparr>), None,
     s\<lparr>ar_server := Some srv1, ar_id := i + 1\<rparr>)"
  using assms by (simp add: ar_handle_def ar_clientKey_def Let_def)

lemma recv_serverKey:
  assumes "v = 2 \<or> v = 3" "ae_state c = StateInProgress" "ae_id c = i" "ae_client c = Some cl"
    "ComputeKey sha B (ae_username c) (ae_password c) cl = Inr cl1" "Client_M1 cl1 = Some m"
  shows "ae_handle sha P src ((frame v CodeRequest (i + 1) KindServerKey)\<lparr>fr_Public := B\<rparr>) c =
    (Some ((frame v CodeResponse (i + 1) KindClientValidator)\<lparr>fr_Proof := m\<rparr>), None,
     c\<lparr>ae_id := i + 1, ae_idValid := True, ae_client := Some cl1\<rparr>)"
  using assms by (auto simp: ae_handle_def ae_dispatch_def ae_serverKey_def srp_request_def or_nil_def nv Let_def)

text \<open>The flags word of the server validator signals the data-channel keying.\<close>

definition keyed :: "bool \<Rightarrow> bytes" where "keyed on = (if on then [0, 0, 0, 1] else [0, 0, 0, 0])"

lemma recv_clientValidator:
  assumes "ar_id s = i" "ar_server s = Some srv" "VerifyM1 sha (ar_username s) m srv = Inr (srv1, True)" "Server_M2 srv1 = Some m2"
    "Server_SessionKey srv1 = Some key" "on \<longleftrightarrow> ky_enabled (ar_keying s) \<and> ar_version s = 3"
  shows "ar_handle sha P src ((frame v CodeResponse i KindClientValidator)\<lparr>fr_Proof := m\<rparr>) s =
    (Some ((frame (ar_version s) CodeRequest (i + 1) KindServerValidator)\<lparr>fr_Proof := m2, fr_Flags := keyed on\<rparr>), None,
     s\<lparr>ar_server := Some srv1, ar_session := key, ar_verified := True, ar_id := i + 1,
        ar_keying := if on then setTx key (ar_keying s) else ar_keying s\<rparr>)"
  using assms
  by (simp add: ar_handle_def ar_clientValidator_def SetPassphrase_def setSetPassphrase_def or_nil_def keyed_def eap_sizes eap_codes Let_def)

lemma recv_serverValidator:
  assumes "v = 2 \<or> v = 3" "ae_state c = StateInProgress" "ae_id c = i" "ae_client c = Some cl" "m2 \<noteq> []"
    "VerifyM2 sha m2 cl" "Client_SessionKey cl = Some key" "on \<longrightarrow> v = 3"
  shows "ae_handle sha P src ((frame v CodeRequest (i + 1) KindServerValidator)\<lparr>fr_Proof := m2, fr_Flags := keyed on\<rparr>) c =
    (Some (frame v CodeSuccess (i + 1) KindSuccess), None,
     c\<lparr>ae_id := i + 1, ae_idValid := True, ae_session := key, ae_state := StateSuccess,
        ae_keying := if on then setRx key (ae_keying c) else ae_keying c\<rparr>)"
  using assms
  by (auto simp: ae_handle_def ae_dispatch_def ae_serverValidator_def srp_request_def or_nil_def SetPassphrase_def keyed_def nv
      eap_sizes eap_codes Let_def)

lemma recv_success:
  assumes "ar_id s = i" "ar_verified s"
  shows "ar_handle sha P src (frame v CodeSuccess i KindSuccess) s =
    (None, None, s\<lparr>ar_state := StateSuccess, ar_everAuthed := True, ar_id := i + 1\<rparr>)"
  using assms by (simp add: ar_handle_def ar_ack_def)

section \<open>Both roles succeed with one key\<close>

lemma wire_neq: "eap_wf f \<Longrightarrow> eap_wf g \<Longrightarrow> fr_Kind f \<noteq> fr_Kind g \<Longrightarrow> wire f \<noteq> wire g"
  using wire_inj by blast

text \<open>The first two rounds: identity and public values.\<close>

lemma rounds_keys:
  assumes v: "v = 2 \<or> v = 3" and lens: "length user \<le> 255" "salt \<noteq> []" "length salt \<le> 1024" "length A \<le> 256"
    and c: "ae_username c = user" "ae_state c = StateUnauth" "ae_lastRx c = None"
    and s: "ar_id s = i" "ar_version s = v" "ar_lastRx s = None" "ar_lookup s user = Some (ver, salt)"
    and x: "newServer sha DefaultGroup ver salt (ar_legacyPad s) (Some b) = Inr srv" "newClient DefaultGroup salt (v = 2) (Some a) = Inr cl"
      "Client_A cl = Some A" "HandleA A srv = Inr srv1" "Server_B srv1 = Some B"
  shows "\<exists>c2 s2. exchange sha P a b (Suc (Suc n)) (Some (frame v CodeRequest i KindIdentityRequest)) (c, s) =
      exchange sha P a b n (Some ((frame v CodeRequest (i + 1 + 1) KindServerKey)\<lparr>fr_Public := B\<rparr>)) (c2, s2) \<and>
    ae_state c2 = StateInProgress \<and> ae_id c2 = i + 1 \<and> ae_client c2 = Some cl \<and> ae_username c2 = user \<and> ae_password c2 = ae_password c \<and>
    ae_keying c2 = ae_keying c \<and> ae_lastRx c2 = Some (wire ((frame v CodeRequest (i + 1) KindChallenge)\<lparr>fr_Salt := salt\<rparr>)) \<and>
    ar_id s2 = i + 1 + 1 \<and> ar_version s2 = v \<and> ar_server s2 = Some srv1 \<and> ar_username s2 = user \<and> ar_keying s2 = ar_keying s \<and>
    ar_lastRx s2 = Some (wire ((frame v CodeResponse (i + 1) KindClientKey)\<lparr>fr_Public := A\<rparr>))"
proof -
  let ?f1 = "frame v CodeRequest i KindIdentityRequest" and ?f2 = "(frame v CodeResponse i KindIdentityResponse)\<lparr>fr_Username := user\<rparr>"
  let ?f3 = "(frame v CodeRequest (i + 1) KindChallenge)\<lparr>fr_Salt := salt\<rparr>" and ?f4 = "(frame v CodeResponse (i + 1) KindClientKey)\<lparr>fr_Public := A\<rparr>"
  let ?f5 = "(frame v CodeRequest (i + 1 + 1) KindServerKey)\<lparr>fr_Public := B\<rparr>"
  have wf: "eap_wf ?f1" "eap_wf ?f2" "eap_wf ?f3" "eap_wf ?f4" using v lens by (auto simp: wf_frames)
  define c1 where "c1 = c\<lparr>ae_id := i, ae_idValid := True, ae_state := StateInProgress, ae_lastRx := Some (wire ?f1), ae_lastReply := Some ?f2\<rparr>"
  have 1: "ae_Recv sha P (Some a) (wire ?f1) c = (Some ?f2, None, c1)"
    using ae_Recv_wire [OF wf(1) _ recv_identityRequest] v c by (simp add: c1_def)
  define s1 where "s1 = s\<lparr>ar_server := Some srv, ar_username := user, ar_state := StateInProgress, ar_id := i + 1,
    ar_lastRx := Some (wire ?f2), ar_lastReply := Some ?f3\<rparr>"
  have 2: "ar_Recv sha P (Some b) (wire ?f2) s = (Some ?f3, None, s1)"
    using ar_Recv_wire [OF wf(2) _ recv_identityResponse [OF s(1,4) x(1)]] s by (simp add: s1_def)
  define c2 where "c2 = c1\<lparr>ae_id := i + 1, ae_idValid := True, ae_client := Some cl, ae_salt := salt, ae_lastRx := Some (wire ?f3),
    ae_lastReply := Some ?f4\<rparr>"
  have 3: "ae_Recv sha P (Some a) (wire ?f3) c1 = (Some ?f4, None, c2)"
  proof -
    have "ae_handle sha P (Some a) ?f3 c1 = (Some ?f4, None, c1\<lparr>ae_id := i + 1, ae_idValid := True, ae_client := Some cl, ae_salt := salt\<rparr>)"
      by (rule recv_challenge [OF v _ _ lens(2) x(2,3)]) (simp_all add: c1_def)
    from ae_Recv_wire [OF wf(3) _ this] show ?thesis using wire_neq [OF wf(1,3)] by (simp add: c1_def c2_def)
  qed
  define s2 where "s2 = s1\<lparr>ar_server := Some srv1, ar_id := i + 1 + 1, ar_lastRx := Some (wire ?f4), ar_lastReply := Some ?f5\<rparr>"
  have 4: "ar_Recv sha P (Some b) (wire ?f4) s1 = (Some ?f5, None, s2)"
  proof -
    have "ar_handle sha P (Some b) ?f4 s1 = (Some ((frame (ar_version s1) CodeRequest (i + 1 + 1) KindServerKey)\<lparr>fr_Public := B\<rparr>), None,
        s1\<lparr>ar_server := Some srv1, ar_id := i + 1 + 1\<rparr>)"
      by (rule recv_clientKey [OF _ _ x(4,5)]) (simp_all add: s1_def)
    from ar_Recv_wire [OF wf(4) _ this] show ?thesis using wire_neq [OF wf(2,4)] s by (simp add: s1_def s2_def)
  qed
  show ?thesis using 1 2 3 4 c s by (intro exI [of _ c2] exI [of _ s2]) (simp add: c1_def c2_def s1_def s2_def)
qed

text \<open>The last two rounds: the proofs and the acknowledgement.\<close>

lemma rounds_proofs:
  assumes v: "v = 2 \<or> v = 3" and lens: "length B \<le> 256" "length m1 = 32" "length m2 = 32"
    and c: "ae_state c = StateInProgress" "ae_id c = j" "ae_client c = Some cl" "ae_lastRx c = Some (wire fc)" "eap_wf fc" "fr_Kind fc = KindChallenge"
    and s: "ar_id s = j + 1" "ar_version s = v" "ar_server s = Some srv" "ar_lastRx s = Some (wire fs)" "eap_wf fs" "fr_Kind fs = KindClientKey"
    and x: "ComputeKey sha B (ae_username c) (ae_password c) cl = Inr cl1" "Client_M1 cl1 = Some m1"
      "VerifyM1 sha (ar_username s) m1 srv = Inr (srv1, True)" "Server_M2 srv1 = Some m2" "VerifyM2 sha m2 cl1"
      "Client_SessionKey cl1 = Some key" "Server_SessionKey srv1 = Some key"
    and on: "on \<longleftrightarrow> ky_enabled (ar_keying s) \<and> v = 3"
    and run: "exchange sha P a b (Suc (Suc n)) (Some ((frame v CodeRequest (j + 1) KindServerKey)\<lparr>fr_Public := B\<rparr>)) (c, s) = (c', s')"
  shows "ae_state c' = StateSuccess \<and> ae_session c' = key \<and> ae_keying c' = (if on then setRx key (ae_keying c) else ae_keying c) \<and>
    ar_state s' = StateSuccess \<and> ar_session s' = key \<and> ar_username s' = ar_username s \<and>
    ar_keying s' = (if on then setTx key (ar_keying s) else ar_keying s)"
proof -
  let ?f5 = "(frame v CodeRequest (j + 1) KindServerKey)\<lparr>fr_Public := B\<rparr>" and ?f6 = "(frame v CodeResponse (j + 1) KindClientValidator)\<lparr>fr_Proof := m1\<rparr>"
  let ?f7 = "(frame v CodeRequest (j + 1 + 1) KindServerValidator)\<lparr>fr_Proof := m2, fr_Flags := keyed on\<rparr>"
  let ?f8 = "frame v CodeSuccess (j + 1 + 1) KindSuccess"
  have wf: "eap_wf ?f5" "eap_wf ?f6" "eap_wf ?f7" "eap_wf ?f8" using v lens by (auto simp: wf_frames keyed_def)
  define c1 where "c1 = c\<lparr>ae_id := j + 1, ae_idValid := True, ae_client := Some cl1, ae_lastRx := Some (wire ?f5), ae_lastReply := Some ?f6\<rparr>"
  have 1: "ae_Recv sha P (Some a) (wire ?f5) c = (Some ?f6, None, c1)"
    using ae_Recv_wire [OF wf(1) _ recv_serverKey [OF v c(1-3) x(1,2)]] wire_neq [OF c(5) wf(1)] c by (simp add: c1_def)
  define s1 where "s1 = s\<lparr>ar_server := Some srv1, ar_session := key, ar_verified := True, ar_id := j + 1 + 1,
    ar_keying := if on then setTx key (ar_keying s) else ar_keying s, ar_lastRx := Some (wire ?f6), ar_lastReply := Some ?f7\<rparr>"
  have 2: "ar_Recv sha P (Some b) (wire ?f6) s = (Some ?f7, None, s1)"
    using ar_Recv_wire [OF wf(2) _ recv_clientValidator [OF s(1,3) x(3,4,7), of on]] wire_neq [OF s(5) wf(2)] s on by (simp add: s1_def)
  define c2 where "c2 = c1\<lparr>ae_id := j + 1 + 1, ae_idValid := True, ae_session := key, ae_state := StateSuccess,
    ae_keying := if on then setRx key (ae_keying c) else ae_keying c, ae_lastRx := Some (wire ?f7), ae_lastReply := Some ?f8\<rparr>"
  have 3: "ae_Recv sha P (Some a) (wire ?f7) c1 = (Some ?f8, None, c2)"
  proof -
    have "ae_handle sha P (Some a) ?f7 c1 = (Some ?f8, None, c1\<lparr>ae_id := j + 1 + 1, ae_idValid := True, ae_session := key, ae_state := StateSuccess,
        ae_keying := if on then setRx key (ae_keying c1) else ae_keying c1\<rparr>)"
      by (rule recv_serverValidator [OF v _ _ _ _ x(5,6)]) (use c lens on in \<open>auto simp: c1_def\<close>)
    from ae_Recv_wire [OF wf(3) _ this] show ?thesis using wire_neq [OF wf(1,3)] by (simp add: c1_def c2_def)
  qed
  define s2 where "s2 = s1\<lparr>ar_state := StateSuccess, ar_everAuthed := True, ar_id := j + 1 + 1 + 1, ar_lastRx := Some (wire ?f8), ar_lastReply := None\<rparr>"
  have 4: "ar_Recv sha P (Some b) (wire ?f8) s1 = (None, None, s2)"
  proof -
    have "ar_handle sha P (Some b) ?f8 s1 = (None, None, s1\<lparr>ar_state := StateSuccess, ar_everAuthed := True, ar_id := j + 1 + 1 + 1\<rparr>)"
      by (rule recv_success) (simp_all add: s1_def)
    from ar_Recv_wire [OF wf(4) _ this] show ?thesis using wire_neq [OF wf(2,4)] by (simp add: s1_def s2_def)
  qed
  have "(c', s') = (c2, s2)" using run 1 2 3 4 by (cases n) simp_all
  then show ?thesis by (simp add: c1_def c2_def s1_def s2_def)
qed

lemma eap_handshake:
  assumes hash: "\<forall>m. length (sha m) = 32" and salt: "salt \<noteq> []" "length salt \<le> 1024"
    and mode: "v = 3 \<and> \<not> lg \<or> v = 2 \<and> lg"
    and client: "NewAuthenticatee user pw = Inr c" and server: "newAuthenticator (Some lookup) v lg = Inr r"
    and db: "lookup user = Some (MakeVerifier sha DefaultGroup user pw salt, salt)"
    and srv: "newServer sha DefaultGroup (MakeVerifier sha DefaultGroup user pw salt) salt lg (Some b) = Inr srv0"
    and u: "uValue sha DefaultGroup (2 ^ a mod defaultN) (sv_pubB srv0) lg = Some u" "u mod defaultN \<noteq> 0"
    and start: "ar_Start (ar_UseKeyAsPassphrase keyit (SeedIdentifier i r)) = (f, s)"
    and run: "exchange sha P a b (Suc (Suc (Suc (Suc n)))) (Some f) (c, s) = (c', s')"
  shows "\<exists>key. length key = 32 \<and> ae_Authenticated c' \<and> ar_Authenticated s' \<and> ae_SessionKey c' = key \<and> ar_SessionKey s' = key \<and>
    PeerUsername s' = user \<and>
    (keyit \<and> v = 3 \<longrightarrow> pp_Key (fst (ar_TxKeying s')) = Some key \<and> pp_Key (fst (ae_RxKeying c')) = Some key)"
proof -
  define on where "on \<longleftrightarrow> keyit \<and> v = 3"
  have v: "v = 2 \<or> v = 3" "v \<noteq> 0" "lg = (v = 2)" using mode by auto
  obtain cl A s1 B cl1 m1 s2 m2 key where x: "newClient DefaultGroup salt (v = 2) (Some a) = Inr cl" "Client_A cl = Some A" "length A \<le> 256"
      "HandleA A srv0 = Inr s1" "Server_B s1 = Some B" "length B \<le> 256" "ComputeKey sha B user pw cl = Inr cl1"
      "Client_M1 cl1 = Some m1" "length m1 = 32" "VerifyM1 sha user m1 s1 = Inr (s2, True)" "Server_M2 s2 = Some m2" "length m2 = 32"
      "VerifyM2 sha m2 cl1" "Client_SessionKey cl1 = Some key" "Server_SessionKey s2 = Some key" "length key = 32"
    using handshake_values [OF hash salt srv u] v(3) by blast
  have c: "ae_username c = user" "ae_password c = pw" "ae_state c = StateUnauth" "ae_lastRx c = None" "length user \<le> 255"
    using client by (auto simp: NewAuthenticatee_def split: if_splits)
  have r: "ar_state r = StateUnauth" "ar_lookup r = lookup" "ar_legacyPad r = lg" "ar_version r = v" "ar_lastRx r = None"
    using server by (auto simp: newAuthenticator_def)
  then have "(f, s) = (frame v CodeRequest i KindIdentityRequest,
      r\<lparr>ar_id := i, ar_keying := (ar_keying r)\<lparr>ky_enabled := keyit\<rparr>, ar_state := StateInProgress\<rparr>)"
    using start by (simp add: ar_Start_def ar_UseKeyAsPassphrase_def SeedIdentifier_def)
  then have s: "f = frame v CodeRequest i KindIdentityRequest" "ar_id s = i" "ar_lookup s = lookup" "ar_legacyPad s = lg" "ar_version s = v"
      "ar_lastRx s = None" "ky_enabled (ar_keying s) = keyit"
    using r by simp_all
  have look: "ar_lookup s user = Some (MakeVerifier sha DefaultGroup user pw salt, salt)"
      "newServer sha DefaultGroup (MakeVerifier sha DefaultGroup user pw salt) salt (ar_legacyPad s) (Some b) = Inr srv0"
    using s(3,4) db srv by simp_all
  obtain c2 t2 where r2: "exchange sha P a b (Suc (Suc (Suc (Suc n)))) (Some f) (c, s) =
        exchange sha P a b (Suc (Suc n)) (Some ((frame v CodeRequest (i + 1 + 1) KindServerKey)\<lparr>fr_Public := B\<rparr>)) (c2, t2)"
      "ae_state c2 = StateInProgress" "ae_id c2 = i + 1" "ae_client c2 = Some cl" "ae_username c2 = user" "ae_password c2 = pw"
      "ae_lastRx c2 = Some (wire ((frame v CodeRequest (i + 1) KindChallenge)\<lparr>fr_Salt := salt\<rparr>))"
      "ar_id t2 = i + 1 + 1" "ar_version t2 = v" "ar_server t2 = Some s1" "ar_username t2 = user" "ar_keying t2 = ar_keying s"
      "ar_lastRx t2 = Some (wire ((frame v CodeResponse (i + 1) KindClientKey)\<lparr>fr_Public := A\<rparr>))"
    using rounds_keys [OF v(1) c(5) salt x(3) c(1,3,4) s(2,5,6) look x(1,2,4,5), of P "Suc (Suc n)"] unfolding s(1) c(2) by metis
  have "ae_state c' = StateSuccess \<and> ae_session c' = key \<and> ae_keying c' = (if on then setRx key (ae_keying c2) else ae_keying c2) \<and>
      ar_state s' = StateSuccess \<and> ar_session s' = key \<and> ar_username s' = ar_username t2 \<and>
      ar_keying s' = (if on then setTx key (ar_keying t2) else ar_keying t2)"
  proof (rule rounds_proofs [OF v(1) x(6,9,12) r2(2,3,4,7) _ _ r2(8,9,10,13) _ _ _ x(8) _ x(11,13,14,15)])
    show "exchange sha P a b (Suc (Suc n)) (Some ((frame v CodeRequest (i + 1 + 1) KindServerKey)\<lparr>fr_Public := B\<rparr>)) (c2, t2) = (c', s')"
      using run r2(1) by (simp only:)
    show "ComputeKey sha B (ae_username c2) (ae_password c2) cl = Inr cl1" using x(7) r2(5,6) by simp
    show "VerifyM1 sha (ar_username t2) m1 s1 = Inr (s2, True)" using x(10) r2(11) by simp
    show "on \<longleftrightarrow> ky_enabled (ar_keying t2) \<and> v = 3" using r2(12) s(7) on_def by simp
  qed (use v(2) salt x(3) in \<open>simp_all add: wf_frames\<close>)
  moreover have "copy_slice key = Some key" using x(16) by (auto simp: copy_slice_def)
  ultimately show ?thesis using x(16) r2(11) on_def
    by (auto simp: ae_Authenticated_def ar_Authenticated_def ae_SessionKey_def ar_SessionKey_def PeerUsername_def ar_TxKeying_def
        ae_RxKeying_def setTx_def setRx_def)
qed

text \<open>C13: The EAP-SRP handshake completes.  A fresh authenticatee with the right password and a fresh authenticator whose lookup
  has the verifier of that user, connected through the wire format, both end in success after four rounds with the same
  32-byte session key, in the padded mode of version 3 and in the legacy mode of version 2, for any identifier seed and
  any 32-byte hash, unless SRP aborts because a public value or the scrambler is zero.  With data-channel keying enabled
  on a version-3 authenticator, its transmit key and the authenticatee's receive key are that session key.\<close>

theorem eap_handshake_completes:
  assumes hash: "\<forall>m. length (sha m) = 32" and salt: "salt \<noteq> []" "length salt \<le> 1024"
    and mode: "v = 3 \<and> \<not> lg \<or> v = 2 \<and> lg"
    and client: "NewAuthenticatee user pw = Inr c" and server: "newAuthenticator (Some lookup) v lg = Inr r"
    and db: "lookup user = Some (MakeVerifier sha DefaultGroup user pw salt, salt)"
    and srv: "newServer sha DefaultGroup (MakeVerifier sha DefaultGroup user pw salt) salt lg (Some b) = Inr srv0"
    and u: "uValue sha DefaultGroup (2 ^ a mod defaultN) (sv_pubB srv0) lg = Some u" "u mod defaultN \<noteq> 0"
    and start: "ar_Start (ar_UseKeyAsPassphrase keyit (SeedIdentifier i r)) = (f, s)"
    and run: "exchange sha P a b (Suc (Suc (Suc (Suc n)))) (Some f) (c, s) = (c', s')"
  shows "\<exists>key. length key = 32 \<and> ae_Authenticated c' \<and> ar_Authenticated s' \<and> ae_SessionKey c' = key \<and> ar_SessionKey s' = key \<and>
    PeerUsername s' = user \<and>
    (keyit \<and> v = 3 \<longrightarrow> pp_Key (fst (ar_TxKeying s')) = Some key \<and> pp_Key (fst (ae_RxKeying c')) = Some key)"
  using assms by (rule eap_handshake)

section \<open>A concrete run\<close>

lemma demo_hash: "\<forall>m. length (demo_sha m) = 32" "SetBytes (demo_sha m) = 1" "srp_Hash demo_sha ms = demo_sha m"
  by (simp_all add: demo_sha_def SetBytes_zeros srp_Hash_def) (simp add: SetBytes_def)

lemma demo_k: "kValue demo_sha DefaultGroup False = Some 1"
proof -
  obtain k where k: "kValue demo_sha DefaultGroup False = Some k" using default_k by blast
  then have "k = SetBytes (demo_sha [])"
    by (auto simp: kValue_def hashPadded_def demo_hash(3) [of _ "[]"] split: option.splits)
  then show ?thesis using k demo_hash(2) by simp
qed

lemma demo_u: "x \<le> defaultN \<Longrightarrow> y \<le> defaultN \<Longrightarrow> uValue demo_sha DefaultGroup x y False = Some 1"
proof -
  assume "x \<le> defaultN" "y \<le> defaultN"
  then obtain u where u: "uValue demo_sha DefaultGroup x y False = Some u" using default_u default_pad by blast
  then have "u = SetBytes (demo_sha [])"
    by (auto simp: uValue_def hashPadded_def demo_hash(3) [of _ "[]"] split: option.splits)
  then show ?thesis using u demo_hash(2) by simp
qed

lemma defaultN_4: "4 < defaultN" by (simp add: defaultN_def)

abbreviation demo_verifier :: bytes where "demo_verifier \<equiv> MakeVerifier demo_sha DefaultGroup [1] [2] [7]"

lemma demo_verifier_value: "SetBytes demo_verifier = 2" "demo_verifier \<noteq> []"
proof -
  have "calcX demo_sha [7] [1] [2] = 1" using demo_hash(2) demo_hash(3) [of _ "[]"] by (simp add: calcX_def Let_def)
  then have v: "demo_verifier = big_Bytes 2"
    using defaultN_4 by (simp add: MakeVerifier_def srp_valid_def validateSalt_def MaxSaltLen_def big_Exp_def default_fields)
  then show "SetBytes demo_verifier = 2" by simp
  then show "demo_verifier \<noteq> []" by (auto simp: SetBytes_def)
qed

lemma demo_server: "\<exists>srv. newServer demo_sha DefaultGroup demo_verifier [7] False (Some 1) = Inr srv \<and> sv_pubB srv = 4"
  using demo_verifier_value demo_k defaultN_4
  by (simp add: newServer_def srp_valid_def validateSalt_def MaxSaltLen_def readSecret_def computeB_def big_Exp_def default_fields Let_def)

text \<open>The hypotheses of the handshake at this run.\<close>

definition demo_run :: "Authenticatee \<Rightarrow> Authenticator \<Rightarrow> Frame \<Rightarrow> Authenticator \<Rightarrow> Authenticatee \<Rightarrow> Authenticator \<Rightarrow> bool" where
  "demo_run c r f s c' s' \<longleftrightarrow> NewAuthenticatee [1] [2] = Inr c \<and>
     newAuthenticator (Some (staticVerifier [1] demo_verifier [7])) 3 False = Inr r \<and>
     ar_Start (ar_UseKeyAsPassphrase True (SeedIdentifier 9 r)) = (f, s) \<and>
     exchange demo_sha demo_prims 1 1 (Suc (Suc (Suc (Suc 0)))) (Some f) (c, s) = (c', s')"

lemma demo_run_exists: "\<exists>c r f s c' s'. demo_run c r f s c' s'"
proof -
  obtain c where c: "NewAuthenticatee [1] [2] = Inr c" by (simp add: NewAuthenticatee_def)
  obtain r where r: "newAuthenticator (Some (staticVerifier [1] demo_verifier [7])) 3 False = Inr r" by (simp add: newAuthenticator_def)
  obtain f s where f: "ar_Start (ar_UseKeyAsPassphrase True (SeedIdentifier 9 r)) = (f, s)"
    by (cases "ar_Start (ar_UseKeyAsPassphrase True (SeedIdentifier 9 r))")
  obtain c' s' where e: "exchange demo_sha demo_prims 1 1 (Suc (Suc (Suc (Suc 0)))) (Some f) (c, s) = (c', s')"
    by (cases "exchange demo_sha demo_prims 1 1 (Suc (Suc (Suc (Suc 0)))) (Some f) (c, s)")
  show ?thesis unfolding demo_run_def using c r f e by blast
qed

lemma demo_srp:
  "\<exists>srv. newServer demo_sha DefaultGroup demo_verifier [7] False (Some 1) = Inr srv \<and>
     uValue demo_sha DefaultGroup (2 ^ 1 mod defaultN) (sv_pubB srv) False = Some 1 \<and> 1 mod defaultN \<noteq> 0"
  using demo_server demo_u [of 2 4] defaultN_4 by fastforce

lemma demo_side: "staticVerifier [1] demo_verifier [7] [1] = Some (demo_verifier, [7])" "[7 :: u8] \<noteq> []" "length [7 :: u8] \<le> 1024"
    "(3 :: u8) = 3 \<and> \<not> False \<or> (3 :: u8) = 2 \<and> False"
  by (simp_all add: staticVerifier_def)

theorem eap_handshake_completes_witness:
  "\<exists>c r f s c' s'. demo_run c r f s c' s' \<and> ae_Authenticated c' \<and> ar_Authenticated s' \<and> ae_SessionKey c' = ar_SessionKey s' \<and>
     pp_Key (fst (ae_RxKeying c')) = Some (ar_SessionKey s')"
proof -
  obtain c r f s c' s' where d: "demo_run c r f s c' s'" using demo_run_exists by blast
  then have d': "NewAuthenticatee [1] [2] = Inr c" "newAuthenticator (Some (staticVerifier [1] demo_verifier [7])) 3 False = Inr r"
      "ar_Start (ar_UseKeyAsPassphrase True (SeedIdentifier 9 r)) = (f, s)"
      "exchange demo_sha demo_prims 1 1 (Suc (Suc (Suc (Suc 0)))) (Some f) (c, s) = (c', s')"
    by (simp_all only: demo_run_def)
  obtain srv where srv: "newServer demo_sha DefaultGroup demo_verifier [7] False (Some 1) = Inr srv"
      "uValue demo_sha DefaultGroup (2 ^ 1 mod defaultN) (sv_pubB srv) False = Some 1" "1 mod defaultN \<noteq> 0"
    using demo_srp by blast
  from eap_handshake_completes [where lookup = "staticVerifier [1] demo_verifier [7]", OF demo_hash(1) demo_side(2-4) d'(1,2) demo_side(1) srv d'(3,4)]
  have "ae_Authenticated c' \<and> ar_Authenticated s' \<and> ae_SessionKey c' = ar_SessionKey s' \<and> pp_Key (fst (ae_RxKeying c')) = Some (ar_SessionKey s')"
    by auto
  then show ?thesis using d by blast
qed

text \<open>Every step of the authenticator in an exchange is a received payload.\<close>

lemma exchange_is_run: "\<exists>ops. snd (exchange sha P a b n out (c, s)) = ar_run sha P ops s"
proof (induction sha P a b n out "(c, s)" arbitrary: c s rule: exchange.induct)
  case (3 sha P a b n f c s)
  obtain o1 e1 c1 where 1: "ae_Recv sha P (Some a) (wire f) c = (o1, e1, c1)" by (cases "ae_Recv sha P (Some a) (wire f) c")
  show ?case
  proof (cases o1)
    case None
    then show ?thesis using 1 by (intro exI [of _ "[]"]) (simp add: ar_run_def)
  next
    case (Some g)
    obtain o2 e2 s1 where 2: "ar_Recv sha P (Some b) (wire g) s = (o2, e2, s1)" by (cases "ar_Recv sha P (Some b) (wire g) s")
    obtain ops where "snd (exchange sha P a b n o2 (c1, s1)) = ar_run sha P ops s1"
      using 3 [OF 1 [symmetric] Some refl 2 [symmetric] refl] by blast
    then show ?thesis using 1 2 Some by (intro exI [of _ "ArRecv (Some b) (wire g) # ops"]) (simp add: ar_run_def)
  qed
qed (auto intro: exI [of _ "[]"] simp: ar_run_def)

theorem eap_success_needs_proof_witness:
  "\<exists>r ops. newAuthenticator (Some (staticVerifier [1] demo_verifier [7])) 3 False = Inr r \<and> ar_Authenticated (ar_run demo_sha demo_prims ops r) \<and>
     proved demo_sha demo_prims ops r (ar_SessionKey (ar_run demo_sha demo_prims ops r))"
proof -
  obtain c r f s c' s' where d: "demo_run c r f s c' s'" using demo_run_exists by blast
  then have d': "NewAuthenticatee [1] [2] = Inr c" "newAuthenticator (Some (staticVerifier [1] demo_verifier [7])) 3 False = Inr r"
      "ar_Start (ar_UseKeyAsPassphrase True (SeedIdentifier 9 r)) = (f, s)"
      "exchange demo_sha demo_prims 1 1 (Suc (Suc (Suc (Suc 0)))) (Some f) (c, s) = (c', s')"
    by (simp_all only: demo_run_def)
  obtain srv where srv: "newServer demo_sha DefaultGroup demo_verifier [7] False (Some 1) = Inr srv"
      "uValue demo_sha DefaultGroup (2 ^ 1 mod defaultN) (sv_pubB srv) False = Some 1" "1 mod defaultN \<noteq> 0"
    using demo_srp by blast
  have "ar_Authenticated s'"
    using eap_handshake [where lookup = "staticVerifier [1] demo_verifier [7]", OF demo_hash(1) demo_side(2-4) d'(1,2) demo_side(1) srv d'(3,4)] by blast
  moreover obtain ops where "s' = ar_run demo_sha demo_prims ops s"
    using exchange_is_run [of demo_sha demo_prims 1 1 "Suc (Suc (Suc (Suc 0)))" "Some f" c s] d'(4) by auto
  moreover have "s = ar_run demo_sha demo_prims [ArSeed 9, ArUseKey True, ArStart] r" using d'(3) by (simp add: ar_run_def)
  ultimately have "ar_Authenticated (ar_run demo_sha demo_prims ([ArSeed 9, ArUseKey True, ArStart] @ ops) r)" by (simp add: ar_run_def)
  then show ?thesis using eap_success_needs_proof [OF d'(2)] d'(2) by blast
qed

section \<open>Identity and proof can come apart\<close>

text \<open>Once a proof has been verified, an identity response for another known user replaces the user name without clearing the
  proof: the next acknowledgement reports success under the new name, with the session key of the old proof.\<close>

lemma identity_swap_after_proof:
  assumes "ar_verified a" "ar_lookup a bob = Some (ver, salt)" "newServer sha DefaultGroup ver salt (ar_legacyPad a) src = Inr srv"
    and swap: "ar_handle sha P src ((frame v CodeResponse (ar_id a) KindIdentityResponse)\<lparr>fr_Username := bob\<rparr>) a = (o1, e1, a1)"
    and ack: "ar_handle sha P src2 (frame v CodeSuccess (ar_id a + 1) KindSuccess) a1 = (o2, e2, a2)"
  shows "ar_Authenticated a2 \<and> PeerUsername a2 = bob \<and> ar_SessionKey a2 = ar_SessionKey a"
proof -
  have a1: "a1 = a\<lparr>ar_server := Some srv, ar_username := bob, ar_state := StateInProgress, ar_id := ar_id a + 1\<rparr>"
    using swap recv_identityResponse [OF refl assms(2,3), of P v] by simp
  then show ?thesis using ack assms(1)
    by (auto simp: ar_handle_def ar_ack_def ar_Authenticated_def PeerUsername_def ar_SessionKey_def)
qed

end
