(* ===== verification/Spec2Isabelle.thy ===== *)
theory Spec2Isabelle
  imports Flow_Core Rtp Rtcp_Compound Reassembler Split Replay Fec_Link Session_Media Gre Npd Adv_Ctrl Bonding Adapt Lpc Peer
    Aead Eap_Handshake
begin

text \<open>A verification development for ristgo, a Go implementation of the RIST protocol for media transport over lossy
  networks (VSF TR-06-1 Simple, TR-06-2 Main and TR-06-3 Advanced profile).  All paths below are under src/.

  \<^bold>\<open>The program.\<close>  A sender numbers application packets, keeps them in a retransmission ring and emits them; a receiver
  anchors on the first packet, places arrivals in a ring, asks for missing ones (NACK), and plays packets out in order
  when their deadline comes.  This core (internal/flow) does no input or output: the host calls it with packets, feedback
  and the time, and takes effects and events from queues.  Codecs turn packets and feedback into bytes: RTP and RTCP
  (internal/rtp, internal/rtcp, glued by internal/session/codec.go), GRE for the Main profile (internal/gre) and the
  Advanced packet format (internal/adv).  Around them are forward error correction (internal/fec), fragment reassembly,
  payload splitting (internal/split), null-packet deletion (internal/npd), LZ4 compression (internal/lpc), path bonding
  (internal/bonding), peer address learning (internal/peer), source adaptation (internal/adapt), and the security layers:
  pre-shared-key ciphers (internal/crypto), SRP-6a (internal/srp) and EAP-SRP authentication (internal/eap).

  \<^bold>\<open>Conventions.\<close>  Go's uint8, uint16, uint32 and uint64 are words of that width; int is int or nat; a byte slice is a
  list of 8-bit words, an option of it where nil is told apart from empty; a struct is a record and an enumeration a
  datatype; an operation is a function that returns the changed record; an error is a value of a sum or option type, and a
  run-time panic is an error value of its own.  Signed int64 wrap-around is written out, and float64 is a rational
  rounded to 53 bits of mantissa after every operation, without NaN and infinities (Float64).  Slices are values: aliasing
  of buffers is not modelled.  Digests, block ciphers and AEAD primitives are parameters with named laws (Psk.prim_laws);
  random draws are arguments.

  \<^bold>\<open>Theories.\<close>
  \<^item> Prelude, Codec, Machine: word and list lemmas, big-endian fields, the locale of prefix codecs, folds over call sequences.
  \<^item> Seq_Num (internal/seq), Clock (internal/clock), Float64 and Rtt (internal/rtt), Wire (internal/wire), Fifo
    (internal/flow/effects.go): sequence arithmetic as a locale of circular numbers, timestamps and NTP conversion, the
    smoothed RTT and the retry interval, the effect queues as a locale of FIFO queues.
  \<^item> Flow_Types, Flow_Setup, Seq_Ring, Flow_Sender, Flow_Receiver (internal/flow): the state machines, every operation.
    Playout_Spec is an abstract playout machine; Receiver_Inv, Receiver_Delivery, Receiver_Feed and Receiver_Nack prove
    the ring invariant, refinement of playout, and what a NACK pass asks for; Flow_Core composes them over arbitrary
    sequences of host calls.
  \<^item> Rtp, Rtcp, Rtcp_Nack, Rtcp_Compound, Session_Codec, Session_Media: both codecs with round trips in both
    directions, the compound grammar, and the widening of sequence numbers and timestamps under loss and reordering.
  \<^item> Fec_Header, Fec, Fec_Xor, Fec_Encoder, Fec_Decoder, Fec_Link (internal/fec, fec.go, internal/session/fec.go): the
    matrix encoder, the recovery loop, and that what it rebuilds was sent.
  \<^item> Reassembler, Split, Replay, Npd, Lpc, Bonding, Adapt, Peer: one theory each for internal/session/reassembler.go,
    internal/split, internal/dtls/replay.go, internal/npd, internal/lpc, internal/bonding, internal/adapt and
    internal/peer.
  \<^item> Gre, Adv, Adv_Ctrl (internal/gre, internal/adv): tunnel framing, Advanced packets and their control messages.
  \<^item> Srp (internal/srp/srp.go), Psk and Aead (internal/crypto/psk.go, aead.go): agreement of SRP-6a, AES counter mode,
    the rotating key and the caching receiver, the authenticated modes and their IV counter.
  \<^item> Eap, Eap_State, Eap_Handshake (internal/eap/eap.go, state.go): frames, both roles, and the handshake end to end.

  \<^bold>\<open>What is proved.\<close>  The properties carry ids C1 to C40 in the text before their theorem.  They are, by group: the
  receiver core refines the playout specification and keeps its invariant over every run of host calls, delivers what is
  due and stops; NACK service and NACK requests stay within their gates; FEC recovery is sound, complete per pass and ends;
  EAP-SRP completes for the right password, reports success only after a verified proof and never panics; the ciphers
  invert under loss, reordering and rotation and reuse no counter; every codec round-trips; the auxiliary components meet
  their functional contracts.  The lemmas before each property are the library it rests on.

  \<^bold>\<open>Termination and bounds.\<close>  Loops are structural recursion, or functions with a termination proof by a measure: the
  filled slots and then the cursor distance for delivery, the remaining input for parsers, compression and counter mode, the number of
  unresolved packets for FEC recovery.  No function has fuel except \<open>Eap_Handshake.exchange\<close>, which counts rounds; four
  are enough, and its theorem is stated for four or more.  The reuse limit of the PSK receiver, \<open>2^32\<close> packets under
  one nonce, is a hypothesis of the stream theorem.

  \<^bold>\<open>What the code does not do.\<close>  Some lemmas show behaviour that differs from the comments or is unintended:
  \<open>Receiver_Delivery.skipTo_discards_ahead\<close>, \<open>Split.merge_auto_toggle_reorders\<close>, \<open>Psk.even_nonce_can_be_zero\<close>,
  \<open>Eap_Handshake.identity_swap_after_proof\<close>, \<open>Eap.unknown_kind_is_encoded\<close>, \<open>Bonding.nack_path_unseen\<close>.

  \<^bold>\<open>Not modelled.\<close>  The session runtime (internal/session/session.go, bonded.go, multi.go, api.go, adapt.go,
  session_rtcp.go), which is goroutines, channels, timers and socket writes around the machines above; the glue of
  internal/session/codec_main.go and codec_adv.go, whose layers are modelled one by one; sockets (internal/socket); DTLS
  apart from its replay window, which rests on X.509, elliptic curves and a network connection; the public API and
  configuration (config.go, url.go, host.go and the other files of the root package, apart from fec.go); the network
  simulator and the conformance harness; commands, examples, the metrics exporter and the TUN bridge.  Of internal/clock the wall clock is
  left out, and of internal/session/fec.go the reader goroutine and the socket writes.\<close>

end
